(* ===== verification/Prelude.thy ===== *)
theory Prelude
  imports Main "HOL-Library.Word" "HOL-Library.Monad_Syntax" "HOL-Library.Multiset"
begin

text \<open>
  Shared vocabulary of the development: the Rust integer types as words, saturating arithmetic,
  big-endian byte encodings (\<open>to_be_bytes\<close> and \<open>from_be_bytes\<close>), checked reads of byte slices,
  the stable sort of \<open>slice::sort_by\<close>, and association lists that stand for hash maps.

  Conventions used by every theory:
  \<^item> \<open>u8\<close> .. \<open>u64\<close> are words of that width, so \<open>+\<close> and \<open>-\<close> wrap as the \<open>wrapping_\<close> operations
    (and the plain operators of a release build) do; \<open>usize\<close> is \<open>nat\<close>;
  \<^item> a byte slice or a \<open>Vec<u8>\<close> is a list of \<open>u8\<close>; a \<open>String\<close> is a \<open>string\<close>, one \<open>char\<close> per byte
    of its UTF-8 text;
  \<^item> an \<open>Instant\<close> is a \<open>nat\<close> number of nanoseconds; \<open>t.elapsed()\<close> and \<open>a.duration_since(b)\<close> stop
    at zero as \<open>-\<close> on \<open>nat\<close> does; the current time is an argument of the definition that reads a clock;
  \<^item> where a function reads a slice at a computed offset, the read returns \<open>None\<close> out of range and
    the whole definition then returns \<open>None\<close>: \<open>None\<close> is the panic of the source, and absence of
    panics is a theorem. Reads at constant offsets below a length the code has just checked use \<open>!\<close>.
\<close>

unbundle bit_operations_syntax

type_synonym u8 = "8 word"
type_synonym u16 = "16 word"
type_synonym u32 = "32 word"
type_synonym u64 = "64 word"
type_synonym bytes = "u8 list"
type_synonym instant = nat
type_synonym user_id = string

named_theorems wire_simps \<open>reading back what was written to a packet\<close>
named_theorems upd_simps \<open>fields left alone by an operation\<close>

subsection \<open>Saturating arithmetic and time\<close>

definition sat_sub :: "'a::len word \<Rightarrow> 'a word \<Rightarrow> 'a word" where
  "sat_sub a b = (if a < b then 0 else a - b)"

definition sat_mul :: "'a::len word \<Rightarrow> 'a word \<Rightarrow> 'a word" where
  "sat_mul a b = (if unat a * unat b < 2 ^ LENGTH('a) then a * b else -1)"

definition elapsed :: "instant \<Rightarrow> instant \<Rightarrow> nat" where
  "elapsed now t = now - t"

definition as_millis_u32 :: "nat \<Rightarrow> u32" where
  "as_millis_u32 ns = word_of_nat (ns div 1000000)"

subsection \<open>Big-endian encodings\<close>

definition be16 :: "u16 \<Rightarrow> bytes" where
  "be16 w = [ucast (drop_bit 8 w), ucast w]"

definition be32 :: "u32 \<Rightarrow> bytes" where
  "be32 w = [ucast (drop_bit 24 w), ucast (drop_bit 16 w), ucast (drop_bit 8 w), ucast w]"

definition of_be16 :: "u8 \<Rightarrow> u8 \<Rightarrow> u16" where
  "of_be16 a b = push_bit 8 (ucast a) OR ucast b"

definition of_be32 :: "u8 \<Rightarrow> u8 \<Rightarrow> u8 \<Rightarrow> u8 \<Rightarrow> u32" where
  "of_be32 a b c d =
     push_bit 24 (ucast a) OR push_bit 16 (ucast b) OR push_bit 8 (ucast c) OR ucast d"

definition be16_at :: "bytes \<Rightarrow> nat \<Rightarrow> u16" where
  "be16_at buf i = of_be16 (buf ! i) (buf ! (i + 1))"

definition be32_at :: "bytes \<Rightarrow> nat \<Rightarrow> u32" where
  "be32_at buf i = of_be32 (buf ! i) (buf ! (i + 1)) (buf ! (i + 2)) (buf ! (i + 3))"

text \<open>\<open>buf[i..i + xs.len()].copy_from_slice(xs)\<close> on a buffer long enough to take it.\<close>

definition copy_at :: "nat \<Rightarrow> bytes \<Rightarrow> bytes \<Rightarrow> bytes" where
  "copy_at i xs buf = take i buf @ xs @ drop (i + length xs) buf"

definition bytes_of :: "string \<Rightarrow> bytes" where
  "bytes_of s = map (\<lambda>c. word_of_nat (of_char c)) s"

definition string_of :: "bytes \<Rightarrow> string" where
  "string_of bs = map (\<lambda>b. char_of (unat b)) bs"

text \<open>
  \<open>String::from_utf8\<close> accepts the well-formed UTF-8 byte sequences: no overlong forms, no
  surrogates, nothing above U+10FFFF.
\<close>

definition utf8_cont :: "u8 \<Rightarrow> bool" where
  "utf8_cont b \<longleftrightarrow> 0x80 \<le> b \<and> b \<le> 0xBF"

fun valid_utf8 :: "bytes \<Rightarrow> bool" where
  "valid_utf8 [] = True"
| "valid_utf8 (b0 # bs) =
     (if b0 < 0x80 then valid_utf8 bs
      else case bs of
        [] \<Rightarrow> False
      | b1 # bs1 \<Rightarrow>
          if 0xC2 \<le> b0 \<and> b0 \<le> 0xDF then utf8_cont b1 \<and> valid_utf8 bs1
          else (case bs1 of
            [] \<Rightarrow> False
          | b2 # bs2 \<Rightarrow>
              if 0xE0 \<le> b0 \<and> b0 \<le> 0xEF then
                utf8_cont b1 \<and> (b0 = 0xE0 \<longrightarrow> 0xA0 \<le> b1) \<and> (b0 = 0xED \<longrightarrow> b1 \<le> 0x9F) \<and>
                utf8_cont b2 \<and> valid_utf8 bs2
              else (case bs2 of
                [] \<Rightarrow> False
              | b3 # bs3 \<Rightarrow>
                  0xF0 \<le> b0 \<and> b0 \<le> 0xF4 \<and> utf8_cont b1 \<and>
                  (b0 = 0xF0 \<longrightarrow> 0x90 \<le> b1) \<and> (b0 = 0xF4 \<longrightarrow> b1 \<le> 0x8F) \<and>
                  utf8_cont b2 \<and> utf8_cont b3 \<and> valid_utf8 bs3)))"

definition from_utf8 :: "bytes \<Rightarrow> string option" where
  "from_utf8 bs = (if valid_utf8 bs then Some (string_of bs) else None)"

subsection \<open>Checked reads\<close>

definition rd8 :: "bytes \<Rightarrow> nat \<Rightarrow> u8 option" where
  "rd8 buf i = (if i < length buf then Some (buf ! i) else None)"

definition rd16 :: "bytes \<Rightarrow> nat \<Rightarrow> u16 option" where
  "rd16 buf i = (if i + 1 < length buf then Some (be16_at buf i) else None)"

definition rd32 :: "bytes \<Rightarrow> nat \<Rightarrow> u32 option" where
  "rd32 buf i = (if i + 3 < length buf then Some (be32_at buf i) else None)"

definition slice :: "bytes \<Rightarrow> nat \<Rightarrow> nat \<Rightarrow> bytes option" where
  "slice buf a b = (if a \<le> b \<and> b \<le> length buf then Some (take (b - a) (drop a buf)) else None)"

text \<open>\<open>(n + 3) & !3\<close> on \<open>usize\<close>: the next multiple of four.\<close>

definition align4 :: "nat \<Rightarrow> nat" where
  "align4 n = (n + 3) div 4 * 4"

subsection \<open>Stable sort\<close>

text \<open>
  \<open>slice::sort_by\<close> is a stable sort; \<open>le a b\<close> stands for \<open>cmp(a, b) != Greater\<close>. An element goes
  in front of the first one it does not exceed, and elements are inserted from the right, so equal
  elements keep their order.
\<close>

fun insert_by :: "('a \<Rightarrow> 'a \<Rightarrow> bool) \<Rightarrow> 'a \<Rightarrow> 'a list \<Rightarrow> 'a list" where
  "insert_by le x [] = [x]"
| "insert_by le x (y # ys) = (if le x y then x # y # ys else y # insert_by le x ys)"

definition sort_by :: "('a \<Rightarrow> 'a \<Rightarrow> bool) \<Rightarrow> 'a list \<Rightarrow> 'a list" where
  "sort_by le xs = foldr (insert_by le) xs []"

text \<open>\<open>iter().position(p)\<close>\<close>

fun position :: "('a \<Rightarrow> bool) \<Rightarrow> 'a list \<Rightarrow> nat option" where
  "position p [] = None"
| "position p (x # xs) = (if p x then Some 0 else map_option Suc (position p xs))"

subsection \<open>Hash maps as lists of entries\<close>

text \<open>
  A \<open>HashMap\<close> or \<open>DashMap\<close> is the list of its entries in iteration order, with distinct keys.
  No theorem depends on the order, which the containers leave open.
\<close>

type_synonym ('k, 'v) dmap = "('k \<times> 'v) list"

abbreviation dm_get :: "('k, 'v) dmap \<Rightarrow> 'k \<Rightarrow> 'v option" where
  "dm_get m k \<equiv> map_of m k"

fun dm_insert :: "'k \<Rightarrow> 'v \<Rightarrow> ('k, 'v) dmap \<Rightarrow> ('k, 'v) dmap" where
  "dm_insert k v [] = [(k, v)]"
| "dm_insert k v ((k', v') # m) = (if k = k' then (k, v) # m else (k', v') # dm_insert k v m)"

definition dm_remove :: "'k \<Rightarrow> ('k, 'v) dmap \<Rightarrow> ('k, 'v) dmap" where
  "dm_remove k m = filter (\<lambda>e. fst e \<noteq> k) m"

abbreviation dm_keys :: "('k, 'v) dmap \<Rightarrow> 'k list" where
  "dm_keys m \<equiv> map fst m"

definition dm_ok :: "('k, 'v) dmap \<Rightarrow> bool" where
  "dm_ok m \<longleftrightarrow> distinct (dm_keys m)"

section \<open>Lemmas\<close>

subsection \<open>Words and encodings\<close>

lemma unat_sat_sub [simp]: "unat (sat_sub a b) = unat a - unat b"
  by (auto simp: sat_sub_def unat_sub word_le_nat_alt word_less_nat_alt)

lemma sat_sub_zero [simp]: "sat_sub a 0 = a"
  by (simp add: sat_sub_def)

lemma sat_sub_gt_iff: "d < sat_sub a b \<longleftrightarrow> unat b + unat d < unat a"
  by (auto simp: word_less_nat_alt)

lemma sat_mul_eq_max: "sat_mul a b = word_of_nat (min (unat a * unat b) (2 ^ LENGTH('a) - 1))"
  for a b :: "'a::len word"
proof (cases "unat a * unat b < 2 ^ LENGTH('a)")
  case True
  then show ?thesis by (simp add: sat_mul_def)
next
  case False
  then have "min (unat a * unat b) (2 ^ LENGTH('a) - 1) = 2 ^ LENGTH('a) - 1" by simp
  moreover have "(word_of_nat (2 ^ LENGTH('a) - 1) :: 'a word) = - 1"
    by (simp add: of_nat_diff)
  ultimately show ?thesis using False by (simp add: sat_mul_def)
qed

lemma unat_word_of_nat: "n < 2 ^ LENGTH('a) \<Longrightarrow> unat (word_of_nat n :: 'a::len word) = n"
  by (simp only: unat_of_nat) simp

lemma bit_u8_ge [simp]: "8 \<le> n \<Longrightarrow> \<not> bit (b :: u8) n"
  by (auto dest: bit_imp_le_length)

lemma unat_and_0F: "unat ((v :: u8) AND 0x0F) = unat v mod 16"
proof -
  have "v AND 0x0F = take_bit 4 v" by (simp add: take_bit_eq_mask mask_eq_exp_minus_1)
  then have "unat (v AND 0x0F) = take_bit 4 (unat v)" by (simp only: unsigned_take_bit_eq)
  then show ?thesis by (simp add: take_bit_eq_mod)
qed

lemma length_be16 [simp]: "length (be16 w) = 2"
  by (simp add: be16_def)

lemma length_be32 [simp]: "length (be32 w) = 4"
  by (simp add: be32_def)

lemma of_be16_be16 [wire_simps]: "of_be16 (be16 w ! 0) (be16 w ! Suc 0) = w"
  unfolding be16_def of_be16_def by (rule bit_word_eqI) (auto simp: bit_simps)

lemma of_be16_ucast [simp]: "of_be16 (ucast (drop_bit 8 w)) (ucast w) = w"
  using of_be16_be16 by (simp add: be16_def)

lemma of_be32_ucast [simp]:
  "of_be32 (ucast (drop_bit 24 w)) (ucast (drop_bit 16 w)) (ucast (drop_bit 8 w)) (ucast w) = w"
    (is "?lhs = w")
proof (rule bit_word_eqI)
  fix n assume "n < LENGTH(32)"
  then consider "n < 8" | "8 \<le> n" "n < 16" | "16 \<le> n" "n < 24" | "24 \<le> n" "n < 32"
    by fastforce
  then show "bit ?lhs n = bit w n"
    by cases (auto simp: of_be32_def bit_simps)
qed

lemma be16_of_be16 [simp]: "be16 (of_be16 a b) = [a, b]"
  unfolding be16_def of_be16_def
  by (auto intro!: bit_word_eqI simp: bit_simps)

lemma be32_of_be32 [simp]: "be32 (of_be32 a b c d) = [a, b, c, d]"
  unfolding be32_def of_be32_def
  by (auto intro!: bit_word_eqI simp: bit_simps)

lemma be16_inj [simp]: "be16 a = be16 b \<longleftrightarrow> a = b"
proof
  assume "be16 a = be16 b"
  then have "of_be16 (be16 a ! 0) (be16 a ! Suc 0) = of_be16 (be16 b ! 0) (be16 b ! Suc 0)" by simp
  then show "a = b" by (simp only: of_be16_be16)
qed simp

lemma of_be32_be32 [wire_simps]:
  "of_be32 (be32 w ! 0) (be32 w ! Suc 0) (be32 w ! 2) (be32 w ! 3) = w"
  by (simp add: be32_def)

lemma be32_inj [simp]: "be32 a = be32 b \<longleftrightarrow> a = b"
proof
  assume eq: "be32 a = be32 b"
  have "of_be32 (be32 a ! 0) (be32 a ! Suc 0) (be32 a ! 2) (be32 a ! 3) = b"
    unfolding eq by (rule of_be32_be32)
  then show "a = b" by (simp only: of_be32_be32)
qed simp

lemma be16_at_append [wire_simps]:
  "be16_at (xs @ be16 w @ ys) (length xs) = w"
  by (simp add: be16_at_def be16_def nth_append)

lemma be32_at_append [wire_simps]:
  "be32_at (xs @ be32 w @ ys) (length xs) = w"
  by (simp add: be32_at_def be32_def nth_append)

lemma length_bytes_of [simp]: "length (bytes_of s) = length s"
  by (simp add: bytes_of_def)

lemma bytes_of_Nil [simp]: "bytes_of s = [] \<longleftrightarrow> s = []" "bytes_of [] = []"
  by (simp_all add: bytes_of_def)

lemma string_of_bytes_of [simp]: "string_of (bytes_of s) = s"
proof -
  have "unat (word_of_nat (of_char c) :: u8) = of_char c" for c
    by (simp add: unat_of_nat take_bit_eq_mod of_char_mod_256)
  then show ?thesis by (simp add: string_of_def bytes_of_def map_idI)
qed

lemma bytes_of_inj [simp]: "bytes_of s = bytes_of t \<longleftrightarrow> s = t"
  by (metis string_of_bytes_of)

text \<open>Every string of the source is valid UTF-8, which the model's byte strings need not be.\<close>

abbreviation utf8_string :: "string \<Rightarrow> bool" where
  "utf8_string s \<equiv> valid_utf8 (bytes_of s)"

lemma from_utf8_bytes_of: "utf8_string s \<Longrightarrow> from_utf8 (bytes_of s) = Some s"
  by (simp add: from_utf8_def)

subsection \<open>Slices and buffers\<close>

lemma rd8_Some [simp]: "i < length buf \<Longrightarrow> rd8 buf i = Some (buf ! i)"
  by (simp add: rd8_def)

lemma rd16_Some [simp]: "i + 1 < length buf \<Longrightarrow> rd16 buf i = Some (be16_at buf i)"
  by (simp add: rd16_def)

lemma rd32_Some [simp]: "i + 3 < length buf \<Longrightarrow> rd32 buf i = Some (be32_at buf i)"
  by (simp add: rd32_def)

lemma slice_Some [simp]:
  "a \<le> b \<Longrightarrow> b \<le> length buf \<Longrightarrow> slice buf a b = Some (take (b - a) (drop a buf))"
  by (simp add: slice_def)

lemma slice_length: "slice buf a b = Some xs \<Longrightarrow> length xs = b - a"
  by (auto simp: slice_def split: if_splits)

lemma length_copy_at [simp]:
  "i + length xs \<le> length buf \<Longrightarrow> length (copy_at i xs buf) = length buf"
  by (simp add: copy_at_def)

lemma copy_at_nth:
  assumes "i + length xs \<le> length buf" and "j < length buf"
  shows "copy_at i xs buf ! j = (if i \<le> j \<and> j < i + length xs then xs ! (j - i) else buf ! j)"
  using assms by (auto simp: copy_at_def nth_append min_def not_less le_diff_conv2)

lemma copy_at_nth_before [wire_simps]:
  "j < i \<Longrightarrow> i + length xs \<le> length buf \<Longrightarrow> copy_at i xs buf ! j = buf ! j"
  by (simp add: copy_at_nth)

lemma be16_at_copy_at [wire_simps]:
  "i + 2 \<le> length buf \<Longrightarrow> be16_at (copy_at i (be16 w) buf) i = w"
  by (simp add: be16_at_def copy_at_nth of_be16_be16)

lemma be32_at_copy_at [wire_simps]:
  "i + 4 \<le> length buf \<Longrightarrow> be32_at (copy_at i (be32 w) buf) i = w"
  by (simp add: be32_at_def copy_at_nth of_be32_be32)

lemma be16_at_copy_at_other [wire_simps]:
  assumes "i + length xs \<le> length buf" and "j + 2 \<le> length buf"
    and "j + 2 \<le> i \<or> i + length xs \<le> j"
  shows "be16_at (copy_at i xs buf) j = be16_at buf j"
  using assms by (auto simp: be16_at_def copy_at_nth)

lemma be32_at_copy_at_other [wire_simps]:
  assumes "i + length xs \<le> length buf" and "j + 4 \<le> length buf"
    and "j + 4 \<le> i \<or> i + length xs \<le> j"
  shows "be32_at (copy_at i xs buf) j = be32_at buf j"
  using assms by (auto simp: be32_at_def copy_at_nth)

lemma drop_copy_at [wire_simps]:
  "i + length xs \<le> length buf \<Longrightarrow> i + length xs \<le> n \<Longrightarrow> drop n (copy_at i xs buf) = drop n buf"
  by (simp add: copy_at_def)

lemma take_copy_at [wire_simps]:
  "i + length xs \<le> length buf \<Longrightarrow> n \<le> i \<Longrightarrow> take n (copy_at i xs buf) = take n buf"
  by (simp add: copy_at_def min_def)

lemma be16_at_split:
  "i + 2 \<le> length buf \<Longrightarrow> be16 (be16_at buf i) = take 2 (drop i buf)"
  by (rule nth_equalityI) (auto simp: be16_at_def less_Suc_eq numeral_2_eq_2)

lemma be32_at_split:
  "i + 4 \<le> length buf \<Longrightarrow> be32 (be32_at buf i) = take 4 (drop i buf)"
  by (rule nth_equalityI) (auto simp: be32_at_def less_Suc_eq eval_nat_numeral)

lemma align4_ge: "n \<le> align4 n"
  unfolding align4_def by presburger

lemma align4_less: "align4 n < n + 4"
  unfolding align4_def by presburger

lemma align4_dvd [simp]: "4 dvd align4 n"
  by (simp add: align4_def)

lemma align4_id [simp]: "4 dvd n \<Longrightarrow> align4 n = n"
  unfolding align4_def by presburger

subsection \<open>Stable sorting\<close>

lemma mset_insert_by [simp]: "mset (insert_by le x xs) = add_mset x (mset xs)"
  by (induction xs) auto

lemma set_insert_by [simp]: "set (insert_by le x xs) = insert x (set xs)"
  by (induction xs) auto

lemma length_insert_by [simp]: "length (insert_by le x xs) = Suc (length xs)"
  by (induction xs) auto

lemma sort_by_Nil [simp]: "sort_by le [] = []"
  by (simp add: sort_by_def)

lemma sort_by_Cons [simp]: "sort_by le (x # xs) = insert_by le x (sort_by le xs)"
  by (simp add: sort_by_def)

lemma mset_sort_by [simp]: "mset (sort_by le xs) = mset xs"
  by (induction xs) auto

lemma set_sort_by [simp]: "set (sort_by le xs) = set xs"
  by (metis mset_sort_by set_mset_mset)

lemma length_sort_by [simp]: "length (sort_by le xs) = length xs"
  by (metis mset_sort_by size_mset)

text \<open>What a total preorder needs for the sort to be a sort.\<close>

locale total_preorder =
  fixes le :: "'a \<Rightarrow> 'a \<Rightarrow> bool"
  assumes le_trans: "le a b \<Longrightarrow> le b c \<Longrightarrow> le a c"
    and le_total: "le a b \<or> le b a"
begin

lemma sorted_insert_by: "sorted_wrt le xs \<Longrightarrow> sorted_wrt le (insert_by le x xs)"
  by (induction xs) (auto intro: le_trans, metis le_total)

lemma sorted_sort_by: "sorted_wrt le (sort_by le xs)"
  by (induction xs) (auto intro: sorted_insert_by)

lemma insert_by_front: "\<forall>y\<in>set xs. le x y \<Longrightarrow> insert_by le x xs = x # xs"
  by (cases xs) auto

lemma sort_by_sorted: "sorted_wrt le xs \<Longrightarrow> sort_by le xs = xs"
  by (induction xs) (auto simp: insert_by_front)

text \<open>
  Appending one element to a sorted list and sorting puts it behind everything it does not
  precede strictly, and leaves the order of the rest alone.
\<close>

lemma sort_by_snoc:
  assumes "sorted_wrt le xs"
  shows "sort_by le (xs @ [x]) =
    takeWhile (\<lambda>y. le y x) xs @ x # dropWhile (\<lambda>y. le y x) xs"
  using assms
proof (induction xs)
  case Nil
  then show ?case by simp
next
  case (Cons y ys)
  let ?rest = "takeWhile (\<lambda>z. le z x) ys @ x # dropWhile (\<lambda>z. le z x) ys"
  have IH: "sort_by le (ys @ [x]) = ?rest" using Cons by simp
  show ?case
  proof (cases "le y x")
    case True
    have "z = x \<or> z \<in> set ys" if "z \<in> set ?rest" for z
      using that by (auto dest: set_takeWhileD set_dropWhileD)
    then have "\<forall>z\<in>set ?rest. le y z" using Cons.prems True by auto
    then show ?thesis using IH True by (simp add: insert_by_front)
  next
    case False
    then have xy: "le x y" using le_total by blast
    have none: "\<not> le z x" if "z \<in> set ys" for z
      using Cons.prems False le_trans that by auto
    then have "takeWhile (\<lambda>z. le z x) ys = []" and "dropWhile (\<lambda>z. le z x) ys = ys"
      by (cases ys; auto)+
    then have "sort_by le (ys @ [x]) = x # ys" using IH by simp
    moreover have "insert_by le y ys = y # ys"
      using Cons.prems by (simp add: insert_by_front)
    ultimately show ?thesis using False by simp
  qed
qed

end

subsection \<open>Positions\<close>

lemma position_Some:
  "position p xs = Some i \<Longrightarrow> i < length xs \<and> p (xs ! i) \<and> (\<forall>j<i. \<not> p (xs ! j))"
proof (induction xs arbitrary: i)
  case (Cons x xs)
  show ?case
  proof (cases "p x")
    case True
    with Cons.prems show ?thesis by simp
  next
    case False
    with Cons.prems obtain k where k: "position p xs = Some k" "i = Suc k" by auto
    then have "k < length xs \<and> p (xs ! k) \<and> (\<forall>j<k. \<not> p (xs ! j))" using Cons.IH by blast
    with False k show ?thesis by (auto simp: less_Suc_eq_0_disj)
  qed
qed simp

lemma position_None: "position p xs = None \<longleftrightarrow> (\<forall>x\<in>set xs. \<not> p x)"
  by (induction xs) auto

lemma position_append:
  "\<forall>x\<in>set xs. \<not> p x \<Longrightarrow>
     position p (xs @ ys) = map_option (\<lambda>i. length xs + i) (position p ys)"
  by (induction xs; cases "position p ys") auto

lemma position_ex: "x \<in> set xs \<Longrightarrow> p x \<Longrightarrow> \<exists>i. position p xs = Some i"
  by (metis option.exhaust position_None)

subsection \<open>The map contract\<close>

text \<open>
  What the code relies on in its hash maps: a lookup sees the last insert, a removal hides its key
  only, and the keys stay distinct. The association lists of the model satisfy it.
\<close>

locale map_contract =
  fixes get :: "'m \<Rightarrow> 'k \<Rightarrow> 'v option"
    and put :: "'k \<Rightarrow> 'v \<Rightarrow> 'm \<Rightarrow> 'm"
    and del :: "'k \<Rightarrow> 'm \<Rightarrow> 'm"
    and ok :: "'m \<Rightarrow> bool"
  assumes get_put: "get (put k v m) = (get m)(k \<mapsto> v)"
    and get_del: "get (del k m) = (get m)(k := None)"
    and ok_put: "ok m \<Longrightarrow> ok (put k v m)"
    and ok_del: "ok m \<Longrightarrow> ok (del k m)"
begin

lemma get_put_same: "get (put k v m) k = Some v"
  by (simp add: get_put)

lemma get_put_other: "k' \<noteq> k \<Longrightarrow> get (put k v m) k' = get m k'"
  by (simp add: get_put)

lemma get_del_same: "get (del k m) k = None"
  by (simp add: get_del)

lemma del_put: "get (del k (put k v m)) = (get m)(k := None)"
  by (simp add: get_del get_put)

end

lemma dm_keys_insert: "dm_keys (dm_insert k v m) =
    (if k \<in> set (dm_keys m) then dm_keys m else dm_keys m @ [k])"
  by (induction m) (auto split: if_splits simp: image_iff)

lemma set_dm_insert:
  "dm_ok m \<Longrightarrow> set (dm_insert k v m) = insert (k, v) {e \<in> set m. fst e \<noteq> k}"
  by (induction m) (force simp: dm_ok_def split: if_splits)+

lemma map_of_dm_insert [simp]: "map_of (dm_insert k v m) = (map_of m)(k \<mapsto> v)"
  by (induction m) auto

lemma map_of_dm_remove [simp]: "map_of (dm_remove k m) = (map_of m)(k := None)"
  unfolding dm_remove_def by (induction m) auto

interpretation dm: map_contract map_of dm_insert dm_remove dm_ok
proof unfold_locales
  fix k :: 'k and v :: 'v and m
  show "dm_ok m \<Longrightarrow> dm_ok (dm_insert k v m)"
    by (auto simp: dm_ok_def dm_keys_insert)
  show "dm_ok m \<Longrightarrow> dm_ok (dm_remove k m)"
    by (auto simp: dm_ok_def dm_remove_def distinct_map inj_on_def)
qed auto

lemma set_dm_remove: "set (dm_remove k m) = {e \<in> set m. fst e \<noteq> k}"
  by (auto simp: dm_remove_def)

lemma dm_ok_Nil [simp]: "dm_ok []"
  by (simp add: dm_ok_def)

lemma dm_get_iff: "dm_ok m \<Longrightarrow> map_of m k = Some v \<longleftrightarrow> (k, v) \<in> set m"
  by (simp add: dm_ok_def)

lemma length_dm_insert:
  "length (dm_insert k v m) = (if k \<in> set (dm_keys m) then length m else Suc (length m))"
  by (metis dm_keys_insert length_append_singleton length_map)

section \<open>Step relations\<close>

text \<open>
  The contract of a state machine and an invariant: every step keeps it. Then every run does, and every state
  that is reached from a state where it holds.
\<close>

locale step_invariant =
  fixes step :: "'s \<Rightarrow> 's \<Rightarrow> bool" and holds :: "'s \<Rightarrow> bool"
  assumes keeps: "step s s' \<Longrightarrow> holds s \<Longrightarrow> holds s'"
begin

lemma run: "step\<^sup>*\<^sup>* s s' \<Longrightarrow> holds s \<Longrightarrow> holds s'"
  by (induction rule: rtranclp_induct) (auto intro: keeps)

lemma bounded_run: "(step ^^ n) s s' \<Longrightarrow> holds s \<Longrightarrow> holds s'"
  by (rule run [OF relpowp_imp_rtranclp])

end

end
