(* ===== verification/Config.thy ===== *)
theory Config
  imports Prelude
begin

text \<open>
  The constants and payload-type tests of \<open>config.rs\<close> that the other components use, the room mode,
  and the error codes of \<open>error.rs\<close>.
\<close>

subsection \<open>Constants\<close>

definition WS_PORT :: u16 where [simp]: "WS_PORT = 1974"
definition UDP_PORT :: u16 where [simp]: "UDP_PORT = 19740"
definition HEARTBEAT_INTERVAL_MS :: u64 where [simp]: "HEARTBEAT_INTERVAL_MS = 30000"
definition HEARTBEAT_TIMEOUT_MS :: u64 where [simp]: "HEARTBEAT_TIMEOUT_MS = 90000"
definition REAPER_INTERVAL_MS :: u64 where [simp]: "REAPER_INTERVAL_MS = 30000"
definition ZOMBIE_TIMEOUT_MS :: u64 where [simp]: "ZOMBIE_TIMEOUT_MS = 120000"
definition REMB_BITRATE_BPS :: u64 where [simp]: "REMB_BITRATE_BPS = 500000"
definition ROOM_MAX_CAPACITY :: nat where [simp]: "ROOM_MAX_CAPACITY = 1000"
definition ROOM_DEFAULT_CAPACITY :: nat where [simp]: "ROOM_DEFAULT_CAPACITY = 1000"
definition DEMUX_STUN_MIN :: u8 where [simp]: "DEMUX_STUN_MIN = 0"
definition DEMUX_STUN_MAX :: u8 where [simp]: "DEMUX_STUN_MAX = 3"
definition DEMUX_DTLS_MIN :: u8 where [simp]: "DEMUX_DTLS_MIN = 20"
definition DEMUX_DTLS_MAX :: u8 where [simp]: "DEMUX_DTLS_MAX = 63"
definition DEMUX_RTP_MIN :: u8 where [simp]: "DEMUX_RTP_MIN = 128"
definition DEMUX_RTP_MAX :: u8 where [simp]: "DEMUX_RTP_MAX = 191"
definition UDP_WORKER_COUNT :: nat where [simp]: "UDP_WORKER_COUNT = 0"
definition EGRESS_QUEUE_SIZE :: nat where [simp]: "EGRESS_QUEUE_SIZE = 256"
definition RTP_HEADER_MIN_SIZE :: nat where [simp]: "RTP_HEADER_MIN_SIZE = 12"
definition OPUS_PAYLOAD_TYPE :: u8 where [simp]: "OPUS_PAYLOAD_TYPE = 111"
definition VP8_PAYLOAD_TYPE :: u8 where [simp]: "VP8_PAYLOAD_TYPE = 96"
definition VP8_RTX_PAYLOAD_TYPE :: u8 where [simp]: "VP8_RTX_PAYLOAD_TYPE = 97"
definition H264_PAYLOAD_TYPE :: u8 where [simp]: "H264_PAYLOAD_TYPE = 102"
definition H264_RTX_PAYLOAD_TYPE :: u8 where [simp]: "H264_RTX_PAYLOAD_TYPE = 103"
definition RTP_CACHE_SIZE :: nat where [simp]: "RTP_CACHE_SIZE = 512"
definition RTCP_PT_NACK :: u8 where [simp]: "RTCP_PT_NACK = 205"
definition RTCP_FMT_NACK :: u8 where [simp]: "RTCP_FMT_NACK = 1"
definition RTCP_PT_SR :: u8 where [simp]: "RTCP_PT_SR = 200"
definition RTCP_PT_RR :: u8 where [simp]: "RTCP_PT_RR = 201"
definition RTCP_PT_PSFB :: u8 where [simp]: "RTCP_PT_PSFB = 206"
definition RTCP_FMT_PLI :: u8 where [simp]: "RTCP_FMT_PLI = 1"
definition RTCP_FMT_REMB :: u8 where [simp]: "RTCP_FMT_REMB = 15"
definition RTCP_PT_APP :: u8 where [simp]: "RTCP_PT_APP = 204"
definition MBCP_SUBTYPE_FREQ :: u8 where [simp]: "MBCP_SUBTYPE_FREQ = 0"
definition MBCP_SUBTYPE_FREL :: u8 where [simp]: "MBCP_SUBTYPE_FREL = 1"
definition MBCP_SUBTYPE_FTKN :: u8 where [simp]: "MBCP_SUBTYPE_FTKN = 2"
definition MBCP_SUBTYPE_FIDL :: u8 where [simp]: "MBCP_SUBTYPE_FIDL = 3"
definition MBCP_SUBTYPE_FRVK :: u8 where [simp]: "MBCP_SUBTYPE_FRVK = 4"
definition MBCP_SUBTYPE_FPNG :: u8 where [simp]: "MBCP_SUBTYPE_FPNG = 5"
definition TWCC_EXTMAP_ID :: u8 where [simp]: "TWCC_EXTMAP_ID = 6"
definition TWCC_RECORDER_CAPACITY :: nat where [simp]: "TWCC_RECORDER_CAPACITY = 8192"
definition RTCP_PT_RTPFB :: u8 where [simp]: "RTCP_PT_RTPFB = 205"
definition FLOOR_MAX_BURST_MS :: u64 where [simp]: "FLOOR_MAX_BURST_MS = 30000"
definition TWCC_FEEDBACK_INTERVAL_MS :: u64 where [simp]: "TWCC_FEEDBACK_INTERVAL_MS = 100"
definition REMB_INTERVAL_MS :: u64 where [simp]: "REMB_INTERVAL_MS = 1000"
definition FLOOR_PING_TIMEOUT_MS :: u64 where [simp]: "FLOOR_PING_TIMEOUT_MS = 5000"
definition FLOOR_DEFAULT_PRIORITY :: u8 where [simp]: "FLOOR_DEFAULT_PRIORITY = 0"
definition FLOOR_QUEUE_MAX_SIZE :: nat where [simp]: "FLOOR_QUEUE_MAX_SIZE = 10"
definition FLOOR_DEFAULT_DURATION_S :: u16 where [simp]: "FLOOR_DEFAULT_DURATION_S = 30"
definition RTX_BUDGET_PER_3S :: u64 where [simp]: "RTX_BUDGET_PER_3S = 200"
definition CLOCK_RATE_AUDIO :: u32 where [simp]: "CLOCK_RATE_AUDIO = 48000"
definition CLOCK_RATE_VIDEO :: u32 where [simp]: "CLOCK_RATE_VIDEO = 90000"
definition RTP_SEQ_MAX_DROPOUT :: u16 where [simp]: "RTP_SEQ_MAX_DROPOUT = 3000"
definition RTP_SEQ_MAX_MISORDER :: u16 where [simp]: "RTP_SEQ_MAX_MISORDER = 100"
definition RTP_SEQ_MIN_SEQUENTIAL :: u32 where [simp]: "RTP_SEQ_MIN_SEQUENTIAL = 2"

definition MBCP_APP_NAME :: bytes where [simp]: "MBCP_APP_NAME = [77, 66, 67, 80]"

subsection \<open>Payload types\<close>

definition is_video_pt :: "u8 \<Rightarrow> bool" where
  "is_video_pt pt \<longleftrightarrow> pt = VP8_PAYLOAD_TYPE \<or> pt = H264_PAYLOAD_TYPE"

definition is_audio_pt :: "u8 \<Rightarrow> bool" where
  "is_audio_pt pt \<longleftrightarrow> pt = OPUS_PAYLOAD_TYPE"

definition is_rtx_pt :: "u8 \<Rightarrow> bool" where
  "is_rtx_pt pt \<longleftrightarrow> pt = VP8_RTX_PAYLOAD_TYPE \<or> pt = H264_RTX_PAYLOAD_TYPE"

definition rtx_pt_for :: "u8 \<Rightarrow> u8" where
  "rtx_pt_for media_pt =
     (if media_pt = H264_PAYLOAD_TYPE then H264_RTX_PAYLOAD_TYPE else VP8_RTX_PAYLOAD_TYPE)"

subsection \<open>Settings read from the environment\<close>

text \<open>
  \<open>str::parse\<close> of an unsigned integer below a bound: an optional plus sign, then at least one decimal digit
  and nothing else, and no overflow. \<open>env_or\<close> reads a variable and falls back on a default.
\<close>

definition digit_value :: "char \<Rightarrow> nat option" where
  "digit_value c = (let n = of_char c :: nat in if 48 \<le> n \<and> n \<le> 57 then Some (n - 48) else None)"

fun parse_digits :: "nat \<Rightarrow> nat \<Rightarrow> string \<Rightarrow> nat option" where
  "parse_digits bound acc [] = Some acc"
| "parse_digits bound acc (c # cs) =
     (case digit_value c of
        None \<Rightarrow> None
      | Some d \<Rightarrow> if acc * 10 + d < bound then parse_digits bound (acc * 10 + d) cs else None)"

definition parse_uint :: "nat \<Rightarrow> string \<Rightarrow> nat option" where
  "parse_uint bound s =
     (let ds = (case s of c # cs \<Rightarrow> if c = CHR ''+'' then cs else s | [] \<Rightarrow> [])
      in if ds = [] then None else parse_digits bound 0 ds)"

definition env_or :: "nat \<Rightarrow> string option \<Rightarrow> nat \<Rightarrow> nat" where
  "env_or bound var fallback = (case Option.bind var (parse_uint bound) of Some n \<Rightarrow> n | None \<Rightarrow> fallback)"

definition resolve_remb_bitrate :: "string option \<Rightarrow> u64" where
  "resolve_remb_bitrate var =
     (case Option.bind var (parse_uint (2 ^ 64)) of Some bps \<Rightarrow> of_nat bps | None \<Rightarrow> REMB_BITRATE_BPS)"

datatype bwe_mode = TwccMode | RembMode

definition bwe_mode_string :: "bwe_mode \<Rightarrow> string" where
  "bwe_mode_string m = (case m of TwccMode \<Rightarrow> ''twcc'' | RembMode \<Rightarrow> ''remb'')"

text \<open>Lower case of ASCII letters, which decides equality with an ASCII word as \<open>to_lowercase\<close> does.\<close>

definition to_lower_ascii :: "char \<Rightarrow> char" where
  "to_lower_ascii c = (let n = of_char c :: nat in if 65 \<le> n \<and> n \<le> 90 then char_of (n + 32) else c)"

definition resolve_bwe_mode :: "string option \<Rightarrow> bwe_mode" where
  "resolve_bwe_mode var =
     (case var of None \<Rightarrow> TwccMode
      | Some s \<Rightarrow> if map to_lower_ascii s = ''remb'' then RembMode else TwccMode)"

subsection \<open>Room modes and errors\<close>

datatype room_mode = Conference | Ptt

datatype light_error =
    NotAuthenticated | InvalidToken | AlreadyIdentified
  | RoomNotFound | RoomFull | AlreadyInRoom | NotInRoom | RoomNameRequired
  | InvalidOpcode | InvalidPayload | MissingPid
  | SdpParseError | DtlsHandshakeFailed | SrtpErr
  | Internal string

fun error_code :: "light_error \<Rightarrow> u16" where
  "error_code NotAuthenticated = 1001"
| "error_code InvalidToken = 1002"
| "error_code AlreadyIdentified = 1003"
| "error_code RoomNotFound = 2001"
| "error_code RoomFull = 2002"
| "error_code AlreadyInRoom = 2003"
| "error_code NotInRoom = 2004"
| "error_code RoomNameRequired = 2005"
| "error_code InvalidOpcode = 3001"
| "error_code InvalidPayload = 3002"
| "error_code MissingPid = 3003"
| "error_code SdpParseError = 4001"
| "error_code DtlsHandshakeFailed = 4002"
| "error_code SrtpErr = 4003"
| "error_code (Internal _) = 9001"

subsection \<open>Lemmas\<close>

lemma rtx_pt_for_is_rtx [simp]: "is_rtx_pt (rtx_pt_for pt)"
  by (simp add: rtx_pt_for_def is_rtx_pt_def)

lemma pt_kinds_disjoint:
  "is_audio_pt pt \<Longrightarrow> \<not> is_video_pt pt"
  "is_rtx_pt pt \<Longrightarrow> \<not> is_audio_pt pt \<and> \<not> is_video_pt pt"
  by (auto simp: is_audio_pt_def is_video_pt_def is_rtx_pt_def)

end
