(* ===== verification/Floor.thy ===== *)
theory Floor
  imports Config
begin

text \<open>
  The floor controller of \<open>room/floor.rs\<close>: who may talk in a push-to-talk room, who waits, and
  what the caller must tell the participants. \<open>FloorInner\<close> is the record \<open>floor_inner\<close>; each method
  of \<open>FloorController\<close> is a function from the inner state to the new inner state and the returned
  actions. The mutex makes every method atomic, so a run is a sequence of these functions.
  \<open>now\<close> is the caller's time stamp, \<open>clock\<close> the wall clock \<open>_try_grant_next\<close> reads itself.
\<close>

subsection \<open>Data\<close>

datatype floor_state =
    Idle
  | Taken (fs_speaker: user_id) (fs_priority: u8) (fs_burst_start: u64) (fs_last_ping: u64)

datatype floor_action =
    Granted user_id u8 u16
  | Denied string user_id
  | Queued user_id u8 u8 u16
  | Released user_id
  | Revoked user_id string
  | PingOk
  | PingDenied
  | NotPttRoom

record floor_config =
  queuing_enabled :: bool
  max_queue_size :: nat
  preemption_enabled :: bool
  max_burst_ms :: u64
  ping_timeout_ms :: u64

definition default_floor_config :: floor_config where
  "default_floor_config =
     \<lparr>queuing_enabled = True, max_queue_size = FLOOR_QUEUE_MAX_SIZE, preemption_enabled = True,
      max_burst_ms = FLOOR_MAX_BURST_MS, ping_timeout_ms = FLOOR_PING_TIMEOUT_MS\<rparr>"

record queue_entry =
  q_user :: user_id
  q_priority :: u8
  q_enqueued_at :: u64

record floor_inner =
  f_state :: floor_state
  f_queue :: "queue_entry list"
  f_prev_speaker :: "user_id option"

definition floor_new :: floor_inner where
  "floor_new = \<lparr>f_state = Idle, f_queue = [], f_prev_speaker = None\<rparr>"

subsection \<open>Queries\<close>

definition current_speaker :: "floor_inner \<Rightarrow> user_id option" where
  "current_speaker s = (case f_state s of Taken u _ _ _ \<Rightarrow> Some u | Idle \<Rightarrow> None)"

definition current_speaker_priority :: "floor_inner \<Rightarrow> u8 option" where
  "current_speaker_priority s = (case f_state s of Taken _ p _ _ \<Rightarrow> Some p | Idle \<Rightarrow> None)"

definition last_speaker :: "floor_inner \<Rightarrow> user_id option" where
  "last_speaker s = f_prev_speaker s"

definition queue_snapshot :: "floor_inner \<Rightarrow> (user_id \<times> u8 \<times> u8) list" where
  "queue_snapshot s =
     map (\<lambda>(i, e). (q_user e, q_priority e, word_of_nat (i + 1))) (enumerate 0 (f_queue s))"

definition queue_size :: "floor_inner \<Rightarrow> nat" where
  "queue_size s = length (f_queue s)"

definition query_queue_position :: "floor_inner \<Rightarrow> user_id \<Rightarrow> (u8 \<times> u8) option" where
  "query_queue_position s user =
     map_option (\<lambda>(i, e). (word_of_nat (i + 1), q_priority e))
       (find (\<lambda>(_, e). q_user e = user) (enumerate 0 (f_queue s)))"

subsection \<open>Operations\<close>

text \<open>The comparison of the queue: priority descending, then arrival ascending.\<close>

definition queue_le :: "queue_entry \<Rightarrow> queue_entry \<Rightarrow> bool" where
  "queue_le a b \<longleftrightarrow>
     q_priority b < q_priority a \<or>
     (q_priority a = q_priority b \<and> q_enqueued_at a \<le> q_enqueued_at b)"

text \<open>
  \<open>position(..).unwrap()\<close> is \<open>the (position ..)\<close>; the entry is in the queue at both places
  (\<open>request_unwrap_safe\<close> below).
\<close>

definition request :: "floor_config \<Rightarrow> user_id \<Rightarrow> u8 \<Rightarrow> u64 \<Rightarrow> floor_inner \<Rightarrow>
    floor_inner \<times> floor_action list" where
  "request cfg user priority now s =
     (case f_state s of
        Idle \<Rightarrow>
          (s\<lparr>f_state := Taken user priority now now, f_prev_speaker := None\<rparr>,
           [Granted user priority FLOOR_DEFAULT_DURATION_S])
      | Taken speaker speaker_priority _ _ \<Rightarrow>
          if speaker = user then (s, [Granted user speaker_priority FLOOR_DEFAULT_DURATION_S])
          else if preemption_enabled cfg \<and> speaker_priority < priority then
            (s\<lparr>f_prev_speaker := Some speaker, f_state := Taken user priority now now\<rparr>,
             [Revoked speaker ''preempted'', Granted user priority FLOOR_DEFAULT_DURATION_S])
          else if queuing_enabled cfg then
            if list_ex (\<lambda>e. q_user e = user) (f_queue s) then
              let pos = the (position (\<lambda>e. q_user e = user) (f_queue s))
              in (s, [Queued user (word_of_nat (pos + 1)) priority (word_of_nat (length (f_queue s)))])
            else if max_queue_size cfg \<le> length (f_queue s) then
              (s, [Denied ''queue full'' speaker])
            else
              let q = sort_by queue_le (f_queue s @
                        [\<lparr>q_user = user, q_priority = priority, q_enqueued_at = now\<rparr>]);
                  pos = the (position (\<lambda>e. q_user e = user) q)
              in (s\<lparr>f_queue := q\<rparr>,
                  [Queued user (word_of_nat (pos + 1)) priority (word_of_nat (length q))])
          else (s, [Denied ''channel busy'' speaker]))"

definition try_grant_next :: "u64 \<Rightarrow> floor_inner \<Rightarrow> floor_inner \<times> floor_action option" where
  "try_grant_next clock s =
     (case f_queue s of
        [] \<Rightarrow> (s, None)
      | next # rest \<Rightarrow>
          (s\<lparr>f_queue := rest, f_state := Taken (q_user next) (q_priority next) clock clock,
             f_prev_speaker := None\<rparr>,
           Some (Granted (q_user next) (q_priority next) FLOOR_DEFAULT_DURATION_S)))"

text \<open>The common tail of release, timer and leave: go idle, report \<open>act\<close>, grant the next in line.\<close>

definition vacate :: "u64 \<Rightarrow> user_id \<Rightarrow> floor_action \<Rightarrow> floor_inner \<Rightarrow>
    floor_inner \<times> floor_action list" where
  "vacate clock prev act s =
     (let (s', grant) = try_grant_next clock (s\<lparr>f_prev_speaker := Some prev, f_state := Idle\<rparr>)
      in (s', act # (case grant of None \<Rightarrow> [] | Some g \<Rightarrow> [g])))"

definition release :: "user_id \<Rightarrow> u64 \<Rightarrow> floor_inner \<Rightarrow> floor_inner \<times> floor_action list" where
  "release user clock s =
     (case f_state s of
        Taken speaker _ _ _ \<Rightarrow>
          if speaker = user then vacate clock user (Released user) s
          else (s\<lparr>f_queue := filter (\<lambda>e. q_user e \<noteq> user) (f_queue s)\<rparr>, [])
      | Idle \<Rightarrow> (s, [Released user]))"

definition ping :: "user_id \<Rightarrow> u64 \<Rightarrow> floor_inner \<Rightarrow> floor_inner \<times> floor_action" where
  "ping user now s =
     (case f_state s of
        Taken speaker p b _ \<Rightarrow>
          if speaker = user then (s\<lparr>f_state := Taken speaker p b now\<rparr>, PingOk) else (s, PingDenied)
      | Idle \<Rightarrow> (s, PingDenied))"

definition cancel_queue :: "user_id \<Rightarrow> floor_inner \<Rightarrow> floor_inner \<times> bool" where
  "cancel_queue user s =
     (let q = filter (\<lambda>e. q_user e \<noteq> user) (f_queue s)
      in (s\<lparr>f_queue := q\<rparr>, length q < length (f_queue s)))"

definition check_timers :: "floor_config \<Rightarrow> u64 \<Rightarrow> u64 \<Rightarrow> floor_inner \<Rightarrow>
    floor_inner \<times> floor_action list" where
  "check_timers cfg now clock s =
     (case f_state s of
        Taken speaker _ burst_start last_ping \<Rightarrow>
          if max_burst_ms cfg < sat_sub now burst_start then
            vacate clock speaker (Revoked speaker ''max burst exceeded'') s
          else if ping_timeout_ms cfg < sat_sub now last_ping then
            vacate clock speaker (Revoked speaker ''participant lost'') s
          else (s, [])
      | Idle \<Rightarrow> (s, []))"

definition on_participant_leave :: "user_id \<Rightarrow> u64 \<Rightarrow> floor_inner \<Rightarrow>
    floor_inner \<times> floor_action list" where
  "on_participant_leave user clock s =
     (let s = s\<lparr>f_queue := filter (\<lambda>e. q_user e \<noteq> user) (f_queue s)\<rparr>
      in case f_state s of
           Taken speaker _ _ _ \<Rightarrow>
             if speaker = user then vacate clock user (Released user) s else (s, [])
         | Idle \<Rightarrow> (s, []))"

subsection \<open>Runs\<close>

datatype floor_op =
    OpRequest user_id u8 u64
  | OpRelease user_id u64
  | OpPing user_id u64
  | OpCancel user_id
  | OpTimers u64 u64
  | OpLeave user_id u64

fun floor_apply :: "floor_config \<Rightarrow> floor_op \<Rightarrow> floor_inner \<Rightarrow> floor_inner \<times> floor_action list" where
  "floor_apply cfg (OpRequest u p now) s = request cfg u p now s"
| "floor_apply cfg (OpRelease u clock) s = release u clock s"
| "floor_apply cfg (OpPing u now) s = (let (s', a) = ping u now s in (s', [a]))"
| "floor_apply cfg (OpCancel u) s = (fst (cancel_queue u s), [])"
| "floor_apply cfg (OpTimers now clock) s = check_timers cfg now clock s"
| "floor_apply cfg (OpLeave u clock) s = on_participant_leave u clock s"

text \<open>A sequence of operations with all the actions it returns.\<close>

fun run_ops :: "('op \<Rightarrow> 's \<Rightarrow> 's \<times> 'a list) \<Rightarrow> 'op list \<Rightarrow> 's \<Rightarrow> 's \<times> 'a list" where
  "run_ops f [] s = (s, [])"
| "run_ops f (op # ops) s =
     (let (s1, as1) = f op s; (s2, as2) = run_ops f ops s1 in (s2, as1 @ as2))"

inductive floor_reachable :: "floor_config \<Rightarrow> floor_inner \<Rightarrow> bool" for cfg where
  floor_start: "floor_reachable cfg floor_new"
| floor_step: "floor_reachable cfg s \<Longrightarrow> floor_reachable cfg (fst (floor_apply cfg op s))"

text \<open>What must hold of the queue between two calls.\<close>

definition floor_inv :: "floor_config \<Rightarrow> floor_inner \<Rightarrow> bool" where
  "floor_inv cfg s \<longleftrightarrow>
     sorted_wrt queue_le (f_queue s) \<and>
     distinct (map q_user (f_queue s)) \<and>
     length (f_queue s) \<le> max_queue_size cfg \<and>
     (f_state s = Idle \<longrightarrow> f_queue s = [])"

text \<open>What the actions say about the speaker, replayed in order.\<close>

fun act_speaker :: "floor_action \<Rightarrow> user_id option \<Rightarrow> user_id option" where
  "act_speaker (Granted u _ _) sp = Some u"
| "act_speaker (Released _) sp = None"
| "act_speaker (Revoked _ _) sp = None"
| "act_speaker _ sp = sp"

definition replay :: "floor_action list \<Rightarrow> user_id option \<Rightarrow> user_id option" where
  "replay acts sp = fold act_speaker acts sp"

text \<open>Whoever speaks releases, \<open>n\<close> times over.\<close>

fun drain :: "u64 \<Rightarrow> nat \<Rightarrow> floor_inner \<Rightarrow> floor_inner" where
  "drain clock 0 s = s"
| "drain clock (Suc n) s =
     (case current_speaker s of
        None \<Rightarrow> s
      | Some u \<Rightarrow> drain clock n (fst (release u clock s)))"

lemmas floor_op_defs = request_def release_def ping_def cancel_queue_def check_timers_def
  on_participant_leave_def vacate_def try_grant_next_def

section \<open>Library lemmas\<close>

interpretation qord: total_preorder queue_le
  by unfold_locales (auto simp: queue_le_def)

lemma distinct_users_sort_by [simp]:
  "distinct (map q_user (sort_by queue_le xs)) \<longleftrightarrow> distinct (map q_user xs)"
  by (rule mset_eq_imp_distinct_iff) simp

lemma sorted_wrt_filter: "sorted_wrt P xs \<Longrightarrow> sorted_wrt P (filter Q xs)"
  by (induction xs) auto

lemma distinct_map_filter: "distinct (map f xs) \<Longrightarrow> distinct (map f (filter Q xs))"
  by (induction xs) auto

lemma current_speaker_simps [simp]:
  "f_state s = Idle \<Longrightarrow> current_speaker s = None"
  "f_state s = Taken u p b l \<Longrightarrow> current_speaker s = Some u"
  by (simp_all add: current_speaker_def)

lemma replay_simps [simp]:
  "replay [] sp = sp"
  "replay (a # as) sp = replay as (act_speaker a sp)"
  by (simp_all add: replay_def)

lemma replay_append: "replay (as @ bs) sp = replay bs (replay as sp)"
  by (simp add: replay_def)

text \<open>The three ways to lose the floor share one description.\<close>

lemma vacate_Nil: "f_queue s = [] \<Longrightarrow>
    vacate clock u act s = (s\<lparr>f_prev_speaker := Some u, f_state := Idle\<rparr>, [act])"
  by (simp add: vacate_def try_grant_next_def)

lemma vacate_Cons: "f_queue s = e # es \<Longrightarrow>
    vacate clock u act s =
      (s\<lparr>f_prev_speaker := None, f_state := Taken (q_user e) (q_priority e) clock clock,
         f_queue := es\<rparr>,
       [act, Granted (q_user e) (q_priority e) FLOOR_DEFAULT_DURATION_S])"
  by (simp add: vacate_def try_grant_next_def)

lemmas vacate_simps = vacate_Nil vacate_Cons

lemma vacate_inv: "floor_inv cfg s \<Longrightarrow> floor_inv cfg (fst (vacate clock u act s))"
  by (cases "f_queue s") (auto simp: vacate_simps floor_inv_def)

lemma filter_queue_inv:
  assumes "floor_inv cfg s"
  shows "floor_inv cfg (s\<lparr>f_queue := filter P (f_queue s)\<rparr>)"
proof -
  have "length (filter P (f_queue s)) \<le> length (f_queue s)" by simp
  then show ?thesis using assms
    by (auto simp: floor_inv_def sorted_wrt_filter distinct_map_filter simp del: length_filter_le)
qed

subsection \<open>Every operation keeps the invariant\<close>

lemma request_inv: "floor_inv cfg s \<Longrightarrow> floor_inv cfg (fst (request cfg u p now s))"
  by (cases "f_state s")
    (auto simp: request_def floor_inv_def Let_def list_ex_iff qord.sorted_sort_by)

lemma release_inv: "floor_inv cfg s \<Longrightarrow> floor_inv cfg (fst (release u clock s))"
  by (cases "f_state s")
    (auto simp: release_def filter_queue_inv vacate_inv)

lemma ping_inv: "floor_inv cfg s \<Longrightarrow> floor_inv cfg (fst (ping u now s))"
  by (cases "f_state s") (auto simp: ping_def floor_inv_def)

lemma cancel_queue_inv: "floor_inv cfg s \<Longrightarrow> floor_inv cfg (fst (cancel_queue u s))"
  by (simp add: cancel_queue_def Let_def filter_queue_inv)

lemma check_timers_inv: "floor_inv cfg s \<Longrightarrow> floor_inv cfg (fst (check_timers cfg now clock s))"
  by (cases "f_state s") (auto simp: check_timers_def vacate_inv)

lemma leave_inv:
  assumes "floor_inv cfg s"
  shows "floor_inv cfg (fst (on_participant_leave u clock s))"
proof -
  let ?s = "s\<lparr>f_queue := filter (\<lambda>e. q_user e \<noteq> u) (f_queue s)\<rparr>"
  have inv: "floor_inv cfg ?s" using assms by (rule filter_queue_inv)
  then have "floor_inv cfg (fst (vacate clock u (Released u) ?s))" by (rule vacate_inv)
  with inv show ?thesis
    by (cases "f_state s") (auto simp: on_participant_leave_def Let_def)
qed

lemma floor_apply_inv: "floor_inv cfg s \<Longrightarrow> floor_inv cfg (fst (floor_apply cfg op s))"
  by (cases op)
    (auto simp: request_inv release_inv cancel_queue_inv check_timers_inv leave_inv
      ping_inv split_beta)

lemma floor_new_inv: "floor_inv cfg floor_new"
  by (simp add: floor_inv_def floor_new_def)

lemma floor_reachable_floor_inv: "floor_reachable cfg s \<Longrightarrow> floor_inv cfg s"
  by (induction rule: floor_reachable.induct) (auto simp: floor_new_inv floor_apply_inv)

lemma floor_reachable_cases:
  assumes "floor_reachable cfg s"
  shows "sorted_wrt queue_le (f_queue s)" and "distinct (map q_user (f_queue s))"
    and "length (f_queue s) \<le> max_queue_size cfg" and "f_state s = Idle \<Longrightarrow> f_queue s = []"
  using floor_reachable_floor_inv [OF assms] by (auto simp: floor_inv_def)

subsection \<open>The contract the callers rely on\<close>

text \<open>
  A caller learns about the floor only from the returned actions. The contract: replaying them on
  the old speaker gives the new one. A caller that updates a cell of its own with the same replay
  keeps it equal to the speaker.
\<close>

locale floor_contract =
  fixes apply_op :: "'op \<Rightarrow> 's \<Rightarrow> 's \<times> floor_action list"
    and speaker :: "'s \<Rightarrow> user_id option"
  assumes replay_speaker: "speaker (fst (apply_op op s)) = replay (snd (apply_op op s)) (speaker s)"
begin

lemma replay_run:
  "speaker (fst (run_ops apply_op ops s)) = replay (snd (run_ops apply_op ops s)) (speaker s)"
proof (induction ops arbitrary: s)
  case (Cons op ops)
  then show ?case
    using replay_speaker [of op s] by (simp add: split_beta Let_def replay_append)
qed simp

lemma silent_op: "snd (apply_op op s) = [] \<Longrightarrow> speaker (fst (apply_op op s)) = speaker s"
  using replay_speaker by simp

lemma last_grant:
  "snd (apply_op op s) = as @ [Granted u p d] \<Longrightarrow> speaker (fst (apply_op op s)) = Some u"
  using replay_speaker [of op s] by (simp add: replay_append)

end

lemma current_speaker_queue [simp]: "current_speaker (s\<lparr>f_queue := q\<rparr>) = current_speaker s"
  by (simp add: current_speaker_def)

lemma vacate_replay:
  "act = Released x \<or> (\<exists>c. act = Revoked x c) \<Longrightarrow>
   current_speaker (fst (vacate clock u act s)) = replay (snd (vacate clock u act s)) sp"
  by (cases "f_queue s") (auto simp: vacate_simps)

lemma request_replay: "current_speaker (fst (request cfg u p now s)) =
    replay (snd (request cfg u p now s)) (current_speaker s)"
  by (cases "f_state s") (auto simp: request_def Let_def)

lemma release_replay: "current_speaker (fst (release u clock s)) =
    replay (snd (release u clock s)) (current_speaker s)"
  by (cases "f_state s") (auto simp: release_def vacate_replay)

lemma check_timers_replay: "current_speaker (fst (check_timers cfg now clock s)) =
    replay (snd (check_timers cfg now clock s)) (current_speaker s)"
  by (cases "f_state s") (auto simp: check_timers_def vacate_replay)

lemma leave_replay: "current_speaker (fst (on_participant_leave u clock s)) =
    replay (snd (on_participant_leave u clock s)) (current_speaker s)"
  by (cases "f_state s") (auto simp: on_participant_leave_def Let_def vacate_replay)

lemma ping_speaker: "current_speaker (fst (ping u now s)) = current_speaker s"
  by (cases "f_state s") (auto simp: ping_def)

lemma ping_action: "snd (ping u now s) = PingOk \<or> snd (ping u now s) = PingDenied"
  by (cases "f_state s") (auto simp: ping_def)

lemma floor_apply_replay:
  "current_speaker (fst (floor_apply cfg op s)) =
   replay (snd (floor_apply cfg op s)) (current_speaker s)"
proof (cases op)
  case (OpPing u now)
  then show ?thesis using ping_speaker [of u now s] ping_action [of u now s]
    by (auto simp: split_beta Let_def)
qed (simp_all add: request_replay release_replay check_timers_replay leave_replay
      cancel_queue_def Let_def)

interpretation floor_ctl: floor_contract "floor_apply cfg" current_speaker for cfg
  by unfold_locales (rule floor_apply_replay)

subsection \<open>Queue positions\<close>

lemma find_enumerate:
  "find (\<lambda>(_, e). P e) (enumerate n xs) =
   map_option (\<lambda>i. (n + i, xs ! i)) (position P xs)"
  by (induction xs arbitrary: n) (auto simp: option.map_comp comp_def)

lemma query_position: "query_queue_position s u =
    map_option (\<lambda>i. (word_of_nat (i + 1), q_priority (f_queue s ! i)))
      (position (\<lambda>e. q_user e = u) (f_queue s))"
  by (simp add: query_queue_position_def find_enumerate option.map_comp comp_def)

lemma request_unwrap_safe:
  "list_ex (\<lambda>e. q_user e = u) q \<Longrightarrow> \<exists>i. position (\<lambda>e. q_user e = u) q = Some i"
  "\<exists>i. position (\<lambda>e. q_user e = u) (sort_by queue_le (q @ [\<lparr>q_user = u, q_priority = p, q_enqueued_at = t\<rparr>]))
     = Some i"
  by (auto simp: list_ex_iff intro: position_ex)

text \<open>A \<open>Queued\<close> answer always describes the queue the call leaves behind.\<close>

lemma request_queued:
  assumes "request cfg u p now s = (s', [Queued u' pos pr n])"
  obtains i where "position (\<lambda>e. q_user e = u) (f_queue s') = Some i"
    and "u' = u" and "pr = p" and "pos = word_of_nat (i + 1)" and "n = word_of_nat (length (f_queue s'))"
  using assms request_unwrap_safe
  by (cases "f_state s") (fastforce simp: request_def Let_def split: if_splits)+

lemma request_enqueues:
  assumes "f_state s = Taken v q b l" and "v \<noteq> u" and "\<not> (preemption_enabled cfg \<and> q < p)"
    and "queuing_enabled cfg" and "u \<notin> q_user ` set (f_queue s)"
    and "length (f_queue s) < max_queue_size cfg"
  shows "f_queue (fst (request cfg u p now s)) =
    sort_by queue_le (f_queue s @ [\<lparr>q_user = u, q_priority = p, q_enqueued_at = now\<rparr>])"
  using assms by (auto simp: request_def Let_def list_ex_iff)

lemma drain_speaker:
  assumes "f_state s = Taken u p b l" and "i < length (f_queue s)"
  shows "current_speaker (drain clock (Suc i) s) = Some (q_user (f_queue s ! i))"
  using assms
proof (induction i arbitrary: s u p b l)
  case 0
  then obtain e es where "f_queue s = e # es" by (cases "f_queue s") auto
  with 0 show ?case by (simp add: release_def vacate_simps)
next
  case (Suc i)
  then obtain e es where q: "f_queue s = e # es" by (cases "f_queue s") auto
  let ?s = "fst (release u clock s)"
  have st: "f_state ?s = Taken (q_user e) (q_priority e) clock clock" and "f_queue ?s = es"
    using Suc.prems(1) q by (simp_all add: release_def vacate_simps)
  then have "current_speaker (drain clock (Suc i) ?s) = Some (q_user (es ! i))"
    using Suc.IH [OF st] Suc.prems(2) q by simp
  then show ?case using Suc.prems(1) q by (simp del: drain.simps(2) add: drain.simps(2) [of _ "Suc i"])
qed

section \<open>Properties\<close>

text \<open>
  C1: in every state the floor controller can reach, by any sequence of requests, releases, pings,
  queue cancellations, timer ticks and departures, the waiting queue is sorted by priority and
  arrival, holds each user once, respects the configured bound, and is empty when the floor is idle:
  nobody waits for a free floor.
\<close>

theorem floor_queue_invariant:
  assumes "floor_reachable cfg s"
  shows "sorted_wrt queue_le (f_queue s) \<and> distinct (map q_user (f_queue s)) \<and>
    length (f_queue s) \<le> max_queue_size cfg \<and> (f_state s = Idle \<longrightarrow> f_queue s = [])"
  using floor_reachable_floor_inv [OF assms] by (simp add: floor_inv_def)

text \<open>The run of the examples below: A speaks, B and C wait, C with the higher priority.\<close>

definition demo_floor :: floor_inner where
  "demo_floor = fst (run_ops (floor_apply default_floor_config)
     [OpRequest ''A'' 5 1000, OpRequest ''B'' 2 1001, OpRequest ''C'' 4 1002] floor_new)"

lemma run_ops_reachable:
  "floor_reachable cfg s \<Longrightarrow> floor_reachable cfg (fst (run_ops (floor_apply cfg) ops s))"
  by (induction ops arbitrary: s) (auto simp: split_beta Let_def intro: floor_step)

lemma demo_floor_reachable: "floor_reachable default_floor_config demo_floor"
  unfolding demo_floor_def by (rule run_ops_reachable [OF floor_start])

lemma demo_floor_eq: "demo_floor =
   \<lparr>f_state = Taken ''A'' 5 1000 1000,
    f_queue = [\<lparr>q_user = ''C'', q_priority = 4, q_enqueued_at = 1002\<rparr>,
               \<lparr>q_user = ''B'', q_priority = 2, q_enqueued_at = 1001\<rparr>],
    f_prev_speaker = None\<rparr>"
  by (simp add: demo_floor_def floor_new_def request_def default_floor_config_def queue_le_def)

theorem floor_queue_invariant_witness:
  "f_state demo_floor \<noteq> Idle \<and> length (f_queue demo_floor) = 2 \<and>
   sorted_wrt queue_le (f_queue demo_floor) \<and> distinct (map q_user (f_queue demo_floor))"
  using floor_queue_invariant [OF demo_floor_reachable] by (simp add: demo_floor_eq)

text \<open>
  when the speaker releases the floor in a reachable state and somebody waits, the floor passes
  in the same call to a waiting user that no other waiting user precedes in priority and arrival,
  that user leaves the queue, and the caller is told first of the release and then of the grant.
\<close>

theorem release_grants_best:
  assumes "floor_reachable cfg s" and "f_state s = Taken u p b l" and "f_queue s \<noteq> []"
  shows "\<exists>e es. f_queue s = e # es \<and> (\<forall>e'\<in>set es. queue_le e e') \<and>
    release u clock s =
      (s\<lparr>f_state := Taken (q_user e) (q_priority e) clock clock, f_queue := es,
         f_prev_speaker := None\<rparr>,
       [Released u, Granted (q_user e) (q_priority e) FLOOR_DEFAULT_DURATION_S])"
proof -
  obtain e es where q: "f_queue s = e # es" using assms(3) by (cases "f_queue s") auto
  then have "\<forall>e'\<in>set es. queue_le e e'"
    using floor_reachable_cases(1) [OF assms(1)] by simp
  with q assms(2) show ?thesis by (simp add: release_def vacate_simps)
qed

theorem release_grants_best_witness:
  "snd (release ''A'' 2000 demo_floor) = [Released ''A'', Granted ''C'' 4 30]"
  using release_grants_best [OF demo_floor_reachable, of "''A''" 5 1000 1000 2000]
  by (simp add: demo_floor_eq)

text \<open>
  C2: a speaker loses the floor only through a release or departure of its own, through a request of
  another user with strictly higher priority while preemption is enabled, or through a timer tick
  after the talk burst or the ping timeout has run out.
\<close>

theorem floor_lost_only_by:
  assumes "f_state s = Taken v q b l"
    and "current_speaker (fst (floor_apply cfg op s)) \<noteq> Some v"
  shows "case op of
      OpRequest u p now \<Rightarrow> u \<noteq> v \<and> preemption_enabled cfg \<and> q < p
    | OpRelease u clock \<Rightarrow> u = v
    | OpLeave u clock \<Rightarrow> u = v
    | OpTimers now clock \<Rightarrow>
        unat b + unat (max_burst_ms cfg) < unat now \<or> unat l + unat (ping_timeout_ms cfg) < unat now
    | OpPing u now \<Rightarrow> False
    | OpCancel u \<Rightarrow> False"
  using assms
  by (cases op)
    (auto simp: request_def release_def on_participant_leave_def check_timers_def ping_def
      cancel_queue_def Let_def sat_sub_gt_iff split: if_splits)

theorem floor_lost_only_by_witness:
  "''D'' \<noteq> ''A'' \<and> preemption_enabled default_floor_config \<and> (5::u8) < 9 \<and>
   current_speaker (fst (floor_apply default_floor_config (OpRequest ''D'' 9 3000) demo_floor)) = Some ''D''"
proof -
  have t: "f_state demo_floor = Taken ''A'' 5 1000 1000" by (simp add: demo_floor_eq)
  have n: "current_speaker (fst (floor_apply default_floor_config (OpRequest ''D'' 9 3000) demo_floor))
      = Some ''D''"
    by (simp add: demo_floor_eq request_def default_floor_config_def current_speaker_def)
  show ?thesis using floor_lost_only_by [OF t, of default_floor_config "OpRequest ''D'' 9 3000"] n by simp
qed

text \<open>
  a timer tick revokes a speaker exactly when its talk burst is longer than the configured
  maximum (cause "max burst exceeded") or, failing that, when its last ping is older than the ping
  timeout (cause "participant lost"); otherwise it changes nothing. The comparison is on the
  unwrapped times, so a clock that went backwards revokes nobody.
\<close>

theorem check_timers_revokes_iff:
  assumes "f_state s = Taken u p b l"
  shows "if unat b + unat (max_burst_ms cfg) < unat now
    then hd (snd (check_timers cfg now clock s)) = Revoked u ''max burst exceeded'' \<and>
         snd (check_timers cfg now clock s) \<noteq> []
    else if unat l + unat (ping_timeout_ms cfg) < unat now
    then hd (snd (check_timers cfg now clock s)) = Revoked u ''participant lost'' \<and>
         snd (check_timers cfg now clock s) \<noteq> []
    else check_timers cfg now clock s = (s, [])"
  using assms by (cases "f_queue s") (simp_all add: check_timers_def sat_sub_gt_iff vacate_simps)

theorem check_timers_revokes_iff_witness:
  "hd (snd (check_timers default_floor_config 31001 31001 demo_floor))
     = Revoked ''A'' ''max burst exceeded''"
  using check_timers_revokes_iff [of demo_floor "''A''" 5 1000 1000 default_floor_config 31001 31001]
  by (simp add: demo_floor_eq default_floor_config_def)

text \<open>
  After a participant has left, it neither holds the floor nor waits for it, whatever the state
  was before.
\<close>

theorem leave_forgets_user:
  "current_speaker (fst (on_participant_leave u clock s)) \<noteq> Some u \<and>
   u \<notin> q_user ` set (f_queue (fst (on_participant_leave u clock s)))"
proof (cases "f_queue (s\<lparr>f_queue := filter (\<lambda>e. q_user e \<noteq> u) (f_queue s)\<rparr>)")
  case Nil
  then show ?thesis
    by (cases "f_state s")
      (auto simp: on_participant_leave_def Let_def vacate_simps filter_empty_conv)
next
  case (Cons e es)
  then have "set (e # es) = {x \<in> set (f_queue s). q_user x \<noteq> u}" by (metis select_convs(2) set_filter
        floor_inner.update_convs(2) floor_inner.surjective)
  then have "q_user e \<noteq> u" and "\<forall>x\<in>set es. q_user x \<noteq> u" by auto
  with Cons show ?thesis
    by (cases "f_state s") (auto simp: on_participant_leave_def Let_def vacate_simps)
qed

text \<open>
  A "Queued" answer is true of the queue the call leaves behind: the reported 1-based position
  is the user's place in it, the reported size is its length, and a position query made next returns
  the same position. The counters are 8 and 16 bits wide; a bound of 255 on the queue, which the
  default of 10 satisfies, keeps them exact.
\<close>

theorem queued_position_correct:
  assumes "floor_reachable cfg s" and "max_queue_size cfg \<le> 255"
    and "request cfg u p now s = (s', [Queued u' pos pr n])"
  shows "u' = u \<and> 1 \<le> unat pos \<and> unat pos \<le> length (f_queue s') \<and>
    q_user (f_queue s' ! (unat pos - 1)) = u \<and> unat n = length (f_queue s') \<and>
    query_queue_position s' u = Some (pos, q_priority (f_queue s' ! (unat pos - 1)))"
proof -
  have "floor_inv cfg s'"
    using request_inv [OF floor_reachable_floor_inv [OF assms(1)], of u p now] assms(3) by simp
  then have len: "length (f_queue s') \<le> 255" using assms(2) by (simp add: floor_inv_def)
  obtain i where i: "position (\<lambda>e. q_user e = u) (f_queue s') = Some i"
    and eqs: "u' = u" "pos = word_of_nat (i + 1)" "n = word_of_nat (length (f_queue s'))"
    using assms(3) by (rule request_queued)
  have il: "i < length (f_queue s')" "q_user (f_queue s' ! i) = u" using position_Some [OF i] by auto
  have "unat (word_of_nat (i + 1) :: u8) = i + 1"
    using len il by (intro unat_word_of_nat) simp
  moreover have "unat (word_of_nat (length (f_queue s')) :: u16) = length (f_queue s')"
    using len by (intro unat_word_of_nat) simp
  ultimately have "unat pos = i + 1" and "unat n = length (f_queue s')" unfolding eqs by blast+
  then show ?thesis using il eqs i by (simp add: query_position)
qed

theorem queued_position_correct_witness:
  "query_queue_position (fst (request default_floor_config ''D'' 3 1003 demo_floor)) ''D'' = Some (2, 3)"
  using queued_position_correct [OF demo_floor_reachable, of "''D''" 3 1003 _ "''D''" 2 3 3]
  by (simp add: demo_floor_eq request_def default_floor_config_def queue_le_def)

text \<open>
  C3: nobody waits for ever behind a finite queue: if the speakers release one after the other, the
  user at place \<open>i\<close> of the queue speaks after \<open>i + 1\<close> releases.
\<close>

theorem queued_user_gets_floor:
  assumes "f_state s = Taken u p b l" and "i < length (f_queue s)"
  shows "current_speaker (drain clock (Suc i) s) = Some (q_user (f_queue s ! i))"
  using assms by (rule drain_speaker)

theorem queued_user_gets_floor_witness:
  "current_speaker (drain 5000 (Suc 1) demo_floor) = Some ''B''"
  using queued_user_gets_floor [of demo_floor "''A''" 5 1000 1000 1 5000]
  by (simp add: demo_floor_eq)

text \<open>
  a new waiter goes behind everybody of higher priority and everybody of equal priority that
  arrived no later, in front of the rest, and nobody else changes order.
\<close>

theorem enqueue_is_fair:
  assumes "floor_reachable cfg s" and "f_state s = Taken v q b l" and "v \<noteq> u"
    and "\<not> (preemption_enabled cfg \<and> q < p)" and "queuing_enabled cfg"
    and "u \<notin> q_user ` set (f_queue s)" and "length (f_queue s) < max_queue_size cfg"
    and e_def: "e = \<lparr>q_user = u, q_priority = p, q_enqueued_at = now\<rparr>"
  shows "\<exists>ahead behind. f_queue s = ahead @ behind \<and>
    f_queue (fst (request cfg u p now s)) = ahead @ e # behind \<and>
    (\<forall>x\<in>set ahead. queue_le x e) \<and> (\<forall>x\<in>set behind. \<not> queue_le x e)"
proof (intro exI conjI)
  let ?ahead = "takeWhile (\<lambda>x. queue_le x e) (f_queue s)"
  let ?behind = "dropWhile (\<lambda>x. queue_le x e) (f_queue s)"
  have sorted: "sorted_wrt queue_le (f_queue s)" using floor_reachable_cases(1) [OF assms(1)] .
  show "f_queue s = ?ahead @ ?behind" by simp
  show "f_queue (fst (request cfg u p now s)) = ?ahead @ e # ?behind"
    using request_enqueues [OF assms(2-7)] qord.sort_by_snoc [OF sorted] by (simp add: e_def)
  show "\<forall>x\<in>set ?ahead. queue_le x e" by (auto dest: set_takeWhileD)
  have "\<not> queue_le x e" if "x \<in> set ?behind" for x
  proof -
    from that obtain y ys where yys: "?behind = y # ys" by (cases ?behind) auto
    then have "\<not> queue_le y e" by (metis dropWhile_eq_Cons_conv)
    moreover have "sorted_wrt queue_le (y # ys)"
      using sorted yys by (metis sorted_wrt_append takeWhile_dropWhile_id)
    ultimately show ?thesis using that yys qord.le_trans by auto
  qed
  then show "\<forall>x\<in>set ?behind. \<not> queue_le x e" by blast
qed

theorem enqueue_is_fair_witness:
  "map q_user (f_queue (fst (request default_floor_config ''D'' 4 1003 demo_floor))) = [''C'', ''D'', ''B'']"
proof -
  have "\<exists>ahead behind. f_queue demo_floor = ahead @ behind \<and>
      f_queue (fst (request default_floor_config ''D'' 4 1003 demo_floor)) =
        ahead @ \<lparr>q_user = ''D'', q_priority = 4, q_enqueued_at = 1003\<rparr> # behind \<and>
      (\<forall>x\<in>set ahead. queue_le x \<lparr>q_user = ''D'', q_priority = 4, q_enqueued_at = 1003\<rparr>) \<and>
      (\<forall>x\<in>set behind. \<not> queue_le x \<lparr>q_user = ''D'', q_priority = 4, q_enqueued_at = 1003\<rparr>)"
    by (rule enqueue_is_fair [OF demo_floor_reachable, of "''A''" 5 1000 1000])
      (simp_all add: demo_floor_eq default_floor_config_def)
  then show ?thesis
    by (auto simp: demo_floor_eq append_eq_Cons_conv Cons_eq_append_conv queue_le_def)
qed

text \<open>
  the actions an operation returns describe the speaker completely: replaying all the actions of
  any run on the speaker at its start gives the speaker at its end.
\<close>

theorem floor_actions_determine_speaker:
  "current_speaker (fst (run_ops (floor_apply cfg) ops s)) =
   replay (snd (run_ops (floor_apply cfg) ops s)) (current_speaker s)"
  by (rule floor_ctl.replay_run)

text \<open>
  a defect of the preemption branch. A user who waits in the queue and then preempts the speaker
  with a higher priority stays in the queue while speaking; when it releases the floor, the floor is
  granted back to it from the stale entry.
\<close>

theorem preemption_leaves_stale_entry:
  "\<exists>s. floor_reachable default_floor_config s \<and> current_speaker s = Some ''B'' \<and>
     ''B'' \<in> q_user ` set (f_queue s) \<and>
     (\<forall>clock. snd (release ''B'' clock s) = [Released ''B'', Granted ''B'' 2 30])"
proof (intro exI conjI)
  let ?s = "fst (run_ops (floor_apply default_floor_config)
     [OpRequest ''A'' 5 1000, OpRequest ''B'' 2 1001, OpRequest ''B'' 9 1002] floor_new)"
  have eq: "?s = \<lparr>f_state = Taken ''B'' 9 1002 1002,
      f_queue = [\<lparr>q_user = ''B'', q_priority = 2, q_enqueued_at = 1001\<rparr>],
      f_prev_speaker = Some ''A''\<rparr>"
    by (simp add: floor_new_def request_def default_floor_config_def)
  show "floor_reachable default_floor_config ?s" by (rule run_ops_reachable [OF floor_start])
  show "current_speaker ?s = Some ''B''" "''B'' \<in> q_user ` set (f_queue ?s)"
    "\<forall>clock. snd (release ''B'' clock ?s) = [Released ''B'', Granted ''B'' 2 30]"
    unfolding eq by (simp_all add: release_def vacate_simps)
qed

text \<open>
  A defect of the re-request branch. A waiting user who asks again with another priority is
  told that priority in the answer, but the queue keeps the old one, and a position query reports it.
\<close>

theorem requeue_reports_wrong_priority:
  "\<exists>s. floor_reachable default_floor_config s \<and>
     snd (request default_floor_config ''B'' 4 1002 s) = [Queued ''B'' 1 4 1] \<and>
     query_queue_position (fst (request default_floor_config ''B'' 4 1002 s)) ''B'' = Some (1, 2)"
proof (intro exI conjI)
  let ?s = "fst (run_ops (floor_apply default_floor_config)
     [OpRequest ''A'' 5 1000, OpRequest ''B'' 2 1001] floor_new)"
  show "floor_reachable default_floor_config ?s" by (rule run_ops_reachable [OF floor_start])
  show "snd (request default_floor_config ''B'' 4 1002 ?s) = [Queued ''B'' 1 4 1]"
    and "query_queue_position (fst (request default_floor_config ''B'' 4 1002 ?s)) ''B'' = Some (1, 2)"
    by (simp_all add: floor_new_def request_def default_floor_config_def query_position)
qed

end
