(* ===== verification/RtpStream.thy ===== *)
theory RtpStream
  imports Prelude
begin

text \<open>
  The contract that the stream rewriters share. A rewriter takes one event at a time and emits RTP
  packets; a receiver must see one SSRC and consecutive sequence numbers. The locale
  \<open>gapless_stream\<close> states what one step promises and proves what follows for every sequence of steps;
  the push-to-talk and the simulcast rewriter satisfy it.
\<close>

abbreviation pkt_seq :: "bytes \<Rightarrow> u16" where "pkt_seq p \<equiv> be16_at p 2"
abbreviation pkt_ts :: "bytes \<Rightarrow> u32" where "pkt_ts p \<equiv> be32_at p 4"
abbreviation pkt_ssrc :: "bytes \<Rightarrow> u32" where "pkt_ssrc p \<equiv> be32_at p 8"

fun run_steps :: "('s \<Rightarrow> 'e \<Rightarrow> bytes list \<times> 's) \<Rightarrow> 's \<Rightarrow> 'e list \<Rightarrow> bytes list \<times> 's" where
  "run_steps step s [] = ([], s)"
| "run_steps step s (e # es) =
     (case step s e of (out, s1) \<Rightarrow> (case run_steps step s1 es of (out', s2) \<Rightarrow> (out @ out', s2)))"

text \<open>Every event of a sequence is acceptable in the state it meets.\<close>

fun all_steps :: "('s \<Rightarrow> 'e \<Rightarrow> bytes list \<times> 's) \<Rightarrow> ('s \<Rightarrow> 'e \<Rightarrow> bool) \<Rightarrow> 's \<Rightarrow> 'e list \<Rightarrow> bool" where
  "all_steps step ok s [] \<longleftrightarrow> True"
| "all_steps step ok s (e # es) \<longleftrightarrow> ok s e \<and> all_steps step ok (snd (step s e)) es"

fun count_up :: "u16 \<Rightarrow> nat \<Rightarrow> u16 list" where
  "count_up a 0 = []"
| "count_up a (Suc n) = (a + 1) # count_up (a + 1) n"

lemma count_up_append: "count_up a (m + n) = count_up a m @ count_up (a + word_of_nat m) n"
  by (induction m arbitrary: a) (simp_all add: add.assoc)

lemma count_up_map: "count_up a n = map (\<lambda>i. a + 1 + word_of_nat i) [0..<n]"
  by (induction n arbitrary: a) (simp_all add: map_upt_Suc add.assoc del: upt_Suc)

locale gapless_stream =
  fixes step :: "'s \<Rightarrow> 'e \<Rightarrow> bytes list \<times> 's"
    and ok :: "'s \<Rightarrow> 'e \<Rightarrow> bool"
    and inv :: "'s \<Rightarrow> bool"
    and last_seq :: "'s \<Rightarrow> u16"
    and ssrc :: "'s \<Rightarrow> u32"
  assumes step_inv: "inv s \<Longrightarrow> step s e = (out, s') \<Longrightarrow> inv s' \<and> ssrc s' = ssrc s"
    and step_out: "inv s \<Longrightarrow> ok s e \<Longrightarrow> step s e = (out, s') \<Longrightarrow>
       map pkt_seq out = count_up (last_seq s) (length out) \<and>
       last_seq s' = last_seq s + word_of_nat (length out) \<and>
       (\<forall>p\<in>set out. pkt_ssrc p = ssrc s \<and> 12 \<le> length p)"
begin

lemma run_inv: "inv s \<Longrightarrow> inv (snd (run_steps step s es)) \<and> ssrc (snd (run_steps step s es)) = ssrc s"
proof (induction es arbitrary: s)
  case (Cons e es)
  obtain o1 s1 where s1: "step s e = (o1, s1)" by fastforce
  obtain o2 s2 where s2: "run_steps step s1 es = (o2, s2)" by fastforce
  show ?case using step_inv [OF Cons.prems s1] Cons.IH [of s1] s1 s2 by simp
qed simp

lemma run_contiguous:
  "inv s \<Longrightarrow> all_steps step ok s es \<Longrightarrow> run_steps step s es = (out, s') \<Longrightarrow>
     map pkt_seq out = map (\<lambda>i. last_seq s + 1 + word_of_nat i) [0..<length out] \<and>
     (\<forall>p\<in>set out. pkt_ssrc p = ssrc s \<and> 12 \<le> length p)"
  unfolding count_up_map [symmetric]
proof (induction es arbitrary: s out s')
  case (Cons e es)
  obtain o1 s1 where s1: "step s e = (o1, s1)" by fastforce
  obtain o2 s2 where s2: "run_steps step s1 es = (o2, s2)" by fastforce
  have out: "out = o1 @ o2" using Cons.prems s1 s2 by simp
  have "ok s e" "all_steps step ok s1 es" using Cons.prems s1 by auto
  moreover have "inv s1" "ssrc s1 = ssrc s" using step_inv [OF Cons.prems(1) s1] by auto
  ultimately show ?case
    using step_out [OF Cons.prems(1) _ s1] Cons.IH [OF _ _ s2] unfolding out
    by (auto simp: count_up_append)
qed simp

end

end
