(* ===== verification/PttRewriter.thy ===== *)
theory PttRewriter
  imports Config RtpStream
begin

text \<open>
  The PTT rewriter of \<open>room/ptt_rewriter.rs\<close>: the packets of successive speakers of a
  push-to-talk room leave under one virtual SSRC, with sequence numbers and timestamps shifted so
  that a receiver sees one stream. \<open>rewrite_state\<close> is \<open>RewriteState\<close>, \<open>ptt_rewriter\<close> the struct
  around it; each operation takes the rewriter and returns it updated, and takes the current time
  where the code calls \<open>Instant::now\<close> or \<open>elapsed\<close>. The random SSRC is an argument of \<open>ptt_new\<close>.

  The lemmas show what a rewritten packet is, that the virtual stream has no gaps over any
  interleaving of speakers, that the sequence-number mapping can be undone for NACKs, and that a
  video stream restarts with a keyframe.
\<close>

datatype rewrite_result = RwOk | PendingKeyframe | Skip

record rewrite_state =
  speaker :: "user_id option"
  origin_base_seq :: u16
  origin_base_ts :: u32
  virtual_base_seq :: u16
  virtual_base_ts :: u32
  last_virtual_seq :: u16
  last_virtual_ts :: u32
  awaiting_first_packet :: bool
  pending_keyframe :: bool
  cleared_at :: "instant option"
  switched_at :: "instant option"

record ptt_rewriter =
  virtual_ssrc :: u32
  ts_guard_gap :: u32
  require_keyframe :: bool
  rw_state :: rewrite_state

definition TS_GUARD_GAP_AUDIO :: u32 where [simp]: "TS_GUARD_GAP_AUDIO = 960"
definition TS_GUARD_GAP_VIDEO :: u32 where [simp]: "TS_GUARD_GAP_VIDEO = 3000"
definition OPUS_SILENCE :: bytes where [simp]: "OPUS_SILENCE = [0xF8, 0xFF, 0xFE]"
definition OPUS_PT :: u8 where [simp]: "OPUS_PT = 111"
definition SILENCE_FLUSH_COUNT :: nat where [simp]: "SILENCE_FLUSH_COUNT = 3"

definition ptt_new :: "u32 \<Rightarrow> u32 \<Rightarrow> bool \<Rightarrow> ptt_rewriter" where
  "ptt_new ssrc gap keyf =
     \<lparr> virtual_ssrc = ssrc, ts_guard_gap = gap, require_keyframe = keyf,
       rw_state = \<lparr> speaker = None, origin_base_seq = 0, origin_base_ts = 0,
         virtual_base_seq = 0, virtual_base_ts = 0, last_virtual_seq = 0, last_virtual_ts = 0,
         awaiting_first_packet = False, pending_keyframe = False,
         cleared_at = None, switched_at = None \<rparr> \<rparr>"

definition new_audio :: "u32 \<Rightarrow> ptt_rewriter" where
  "new_audio ssrc = ptt_new ssrc TS_GUARD_GAP_AUDIO False"

definition new_video :: "u32 \<Rightarrow> ptt_rewriter" where
  "new_video ssrc = ptt_new ssrc TS_GUARD_GAP_VIDEO True"

text \<open>The idle time since the last \<open>clear_speaker\<close> in clock ticks, never below the guard gap.\<close>

definition dynamic_ts_gap :: "ptt_rewriter \<Rightarrow> instant \<Rightarrow> u32 \<Rightarrow> u32" where
  "dynamic_ts_gap r now ticks_per_ms =
     (case cleared_at (rw_state r) of
        Some cleared \<Rightarrow>
          max (sat_mul (as_millis_u32 (elapsed now cleared)) ticks_per_ms) (ts_guard_gap r)
      | None \<Rightarrow> ts_guard_gap r)"

definition switch_speaker :: "ptt_rewriter \<Rightarrow> instant \<Rightarrow> user_id \<Rightarrow> ptt_rewriter" where
  "switch_speaker r now user =
     (let s = rw_state r;
          base_ts =
            (if \<not> require_keyframe r
             then last_virtual_ts s +
                  sat_sub (dynamic_ts_gap r now 48)
                          (TS_GUARD_GAP_AUDIO * word_of_nat SILENCE_FLUSH_COUNT)
             else last_virtual_ts s + dynamic_ts_gap r now 90)
      in r\<lparr> rw_state := s\<lparr> virtual_base_ts := base_ts,
             virtual_base_seq := last_virtual_seq s + 1,
             cleared_at := None, speaker := Some user, awaiting_first_packet := True,
             pending_keyframe := require_keyframe r, switched_at := Some now \<rparr> \<rparr>)"

definition silence_frame :: "u32 \<Rightarrow> u16 \<Rightarrow> u32 \<Rightarrow> bytes" where
  "silence_frame ssrc seq ts = [0x80, OPUS_PT] @ be16 seq @ be32 ts @ be32 ssrc @ OPUS_SILENCE"

definition clear_speaker :: "ptt_rewriter \<Rightarrow> instant \<Rightarrow> bytes list option \<times> ptt_rewriter" where
  "clear_speaker r now =
     (let s = (rw_state r)\<lparr> speaker := None, awaiting_first_packet := False,
                pending_keyframe := False, cleared_at := Some now, switched_at := None \<rparr>
      in if require_keyframe r then (None, r\<lparr> rw_state := s \<rparr>)
         else if last_virtual_seq s = 0 \<and> last_virtual_ts s = 0 then (None, r\<lparr> rw_state := s \<rparr>)
         else (Some (map (\<lambda>i. silence_frame (virtual_ssrc r)
                         (last_virtual_seq s + (1 + word_of_nat i))
                         (last_virtual_ts s + TS_GUARD_GAP_AUDIO * (1 + word_of_nat i)))
                     [0..<SILENCE_FLUSH_COUNT]),
               r\<lparr> rw_state := s\<lparr>
                 last_virtual_seq := last_virtual_seq s + word_of_nat SILENCE_FLUSH_COUNT,
                 last_virtual_ts :=
                   last_virtual_ts s + TS_GUARD_GAP_AUDIO * word_of_nat SILENCE_FLUSH_COUNT \<rparr> \<rparr>))"

text \<open>The state after the first packet of a speaker has fixed the origin of the mapping.\<close>

definition set_origin :: "bool \<Rightarrow> instant \<Rightarrow> u16 \<Rightarrow> u32 \<Rightarrow> rewrite_state \<Rightarrow> rewrite_state" where
  "set_origin keyf now orig_seq orig_ts s =
     (let s1 = s\<lparr> origin_base_seq := orig_seq, origin_base_ts := orig_ts \<rparr>;
          s2 = (if keyf
                then (case switched_at s1 of
                        Some switched \<Rightarrow>
                          (let pending_ms = as_millis_u32 (elapsed now switched)
                           in if 50 < pending_ms
                              then s1\<lparr> virtual_base_ts := virtual_base_ts s1 + sat_mul pending_ms 90 \<rparr>
                              else s1)
                      | None \<Rightarrow> s1)\<lparr> switched_at := None \<rparr>
                else s1)
      in s2\<lparr> awaiting_first_packet := False \<rparr>)"

definition rewrite ::
  "ptt_rewriter \<Rightarrow> instant \<Rightarrow> bytes \<Rightarrow> user_id \<Rightarrow> bool \<Rightarrow> rewrite_result \<times> bytes \<times> ptt_rewriter" where
  "rewrite r now plaintext sender is_keyframe =
     (let s = rw_state r
      in if length plaintext < 12 then (Skip, plaintext, r)
         else if speaker s \<noteq> Some sender then (Skip, plaintext, r)
         else if pending_keyframe s \<and> \<not> is_keyframe then (PendingKeyframe, plaintext, r)
         else
           (let s1 = s\<lparr> pending_keyframe := False \<rparr>;
                orig_seq = be16_at plaintext 2;
                orig_ts = be32_at plaintext 4;
                is_first = awaiting_first_packet s1;
                s2 = (if is_first then set_origin (require_keyframe r) now orig_seq orig_ts s1 else s1);
                virtual_seq = orig_seq - origin_base_seq s2 + virtual_base_seq s2;
                virtual_ts = orig_ts - origin_base_ts s2 + virtual_base_ts s2;
                s3 = s2\<lparr> last_virtual_seq := virtual_seq, last_virtual_ts := virtual_ts \<rparr>;
                p1 = copy_at 8 (be32 (virtual_ssrc r)) plaintext;
                p2 = copy_at 2 (be16 virtual_seq) p1;
                p3 = copy_at 4 (be32 virtual_ts) p2;
                p4 = (if is_first \<and> \<not> require_keyframe r then p3[1 := p3 ! 1 OR 0x80] else p3)
            in (RwOk, p4, r\<lparr> rw_state := s3 \<rparr>)))"

definition translate_rtp_ts :: "ptt_rewriter \<Rightarrow> u32 \<Rightarrow> u32 option" where
  "translate_rtp_ts r original_rtp_ts =
     (let s = rw_state r
      in if speaker s = None \<or> awaiting_first_packet s then None
         else Some (original_rtp_ts - origin_base_ts s + virtual_base_ts s))"

definition reverse_seq :: "ptt_rewriter \<Rightarrow> u16 \<Rightarrow> u16" where
  "reverse_seq r virtual_seq =
     virtual_seq - virtual_base_seq (rw_state r) + origin_base_seq (rw_state r)"

definition is_current_speaker :: "ptt_rewriter \<Rightarrow> user_id \<Rightarrow> bool" where
  "is_current_speaker r user =
     (case speaker (rw_state r) of Some sp \<Rightarrow> sp = user | None \<Rightarrow> False)"

section \<open>Runs of the rewriter\<close>

text \<open>
  What happens to a rewriter over time: the floor moves to a user, the floor is cleared, or a
  packet of some user is offered. A step emits the packets that leave under the virtual SSRC.
\<close>

datatype ptt_event = Switch user_id | Clear | Packet bytes user_id bool

fun ptt_step :: "ptt_rewriter \<Rightarrow> instant \<times> ptt_event \<Rightarrow> bytes list \<times> ptt_rewriter" where
  "ptt_step r (now, Switch u) = ([], switch_speaker r now u)"
| "ptt_step r (now, Clear) =
     (case clear_speaker r now of (frames, r') \<Rightarrow> (case frames of None \<Rightarrow> [] | Some fs \<Rightarrow> fs, r'))"
| "ptt_step r (now, Packet p u k) =
     (case rewrite r now p u k of
        (RwOk, p', r') \<Rightarrow> ([p'], r')
      | (_, _, r') \<Rightarrow> ([], r'))"

abbreviation ptt_run :: "ptt_rewriter \<Rightarrow> (instant \<times> ptt_event) list \<Rightarrow> bytes list \<times> ptt_rewriter" where
  "ptt_run \<equiv> run_steps ptt_step"

text \<open>
  A packet is in order when it is the first of its talk spurt or carries the sequence number after
  that of the packet of the same speaker that was rewritten last.
\<close>

fun in_order :: "ptt_rewriter \<Rightarrow> instant \<times> ptt_event \<Rightarrow> bool" where
  "in_order r (now, Packet p u k) \<longleftrightarrow>
     fst (rewrite r now p u k) \<noteq> RwOk \<or> awaiting_first_packet (rw_state r) \<or>
     be16_at p 2 = reverse_seq r (last_virtual_seq (rw_state r)) + 1"
| "in_order r (now, Switch u) \<longleftrightarrow> True"
| "in_order r (now, Clear) \<longleftrightarrow> True"

abbreviation all_in_order :: "ptt_rewriter \<Rightarrow> (instant \<times> ptt_event) list \<Rightarrow> bool" where
  "all_in_order \<equiv> all_steps ptt_step in_order"

definition rewriter_inv :: "ptt_rewriter \<Rightarrow> bool" where
  "rewriter_inv r \<longleftrightarrow>
     (awaiting_first_packet (rw_state r) \<longrightarrow>
        virtual_base_seq (rw_state r) = last_virtual_seq (rw_state r) + 1) \<and>
     (pending_keyframe (rw_state r) \<longrightarrow>
        awaiting_first_packet (rw_state r) \<and> require_keyframe r)"

lemmas rewriter_defs = switch_speaker_def clear_speaker_def rewrite_def set_origin_def Let_def

section \<open>One packet\<close>

lemma fst_rewrite_Ok:
  "fst (rewrite r now p u k) = RwOk \<longleftrightarrow>
     12 \<le> length p \<and> speaker (rw_state r) = Some u \<and> (pending_keyframe (rw_state r) \<longrightarrow> k)"
  by (auto simp: rewriter_defs not_less)

lemma rewrite_not_Ok:
  assumes "rewrite r now p u k = (res, p', r')" and "res \<noteq> RwOk"
  shows "p' = p \<and> r' = r"
  using assms by (auto simp: rewriter_defs split: if_splits)

lemma rewrite_cases:
  obtains (not_ok) res where "rewrite r now p u k = (res, p, r)" "res \<noteq> RwOk"
  | (ok) p' r' where "rewrite r now p u k = (RwOk, p', r')"
  by (cases "rewrite r now p u k") (metis rewrite_not_Ok)

lemma rewrite_packet:
  assumes "rewrite r now p u k = (RwOk, p', r')"
  shows "length p' = length p" "12 \<le> length p" "drop 12 p' = drop 12 p" "p' ! 0 = p ! 0"
    "pkt_ssrc p' = virtual_ssrc r"
    "pkt_seq p' = last_virtual_seq (rw_state r')" "pkt_ts p' = last_virtual_ts (rw_state r')"
    "p' ! 1 = (if awaiting_first_packet (rw_state r) \<and> \<not> require_keyframe r
               then p ! 1 OR 0x80 else p ! 1)"
proof -
  have len: "12 \<le> length p"
    using assms by (auto simp: rewriter_defs split: if_splits)
  define seq ts where "seq = last_virtual_seq (rw_state r')" and "ts = last_virtual_ts (rw_state r')"
  define q where "q = copy_at 4 (be32 ts) (copy_at 2 (be16 seq) (copy_at 8 (be32 (virtual_ssrc r)) p))"
  have p': "p' = (if awaiting_first_packet (rw_state r) \<and> \<not> require_keyframe r
                  then q[1 := q ! 1 OR 0x80] else q)"
    using assms unfolding rewrite_def Let_def seq_def ts_def q_def by (auto split: if_splits)
  have q: "length q = length p" "drop 12 q = drop 12 p" "q ! 0 = p ! 0" "q ! 1 = p ! 1"
    "pkt_ssrc q = virtual_ssrc r" "pkt_seq q = seq" "pkt_ts q = ts"
    unfolding q_def using len by (auto simp: wire_simps copy_at_nth)
  show "length p' = length p" "12 \<le> length p" "drop 12 p' = drop 12 p" "p' ! 0 = p ! 0"
    "pkt_ssrc p' = virtual_ssrc r" "pkt_seq p' = last_virtual_seq (rw_state r')"
    "pkt_ts p' = last_virtual_ts (rw_state r')"
    "p' ! 1 = (if awaiting_first_packet (rw_state r) \<and> \<not> require_keyframe r
               then p ! 1 OR 0x80 else p ! 1)"
    using q len unfolding p' seq_def ts_def
    by (auto simp: be16_at_def be32_at_def)
qed

lemma rewrite_state:
  assumes "rewrite r now p u k = (RwOk, p', r')"
  shows "speaker (rw_state r') = Some u" "speaker (rw_state r) = Some u"
    "\<not> awaiting_first_packet (rw_state r')" "\<not> pending_keyframe (rw_state r')"
    "virtual_ssrc r' = virtual_ssrc r" "require_keyframe r' = require_keyframe r"
    "ts_guard_gap r' = ts_guard_gap r"
    "virtual_base_seq (rw_state r') = virtual_base_seq (rw_state r)"
    "last_virtual_seq (rw_state r') =
       pkt_seq p - origin_base_seq (rw_state r') + virtual_base_seq (rw_state r')"
    "last_virtual_ts (rw_state r') =
       pkt_ts p - origin_base_ts (rw_state r') + virtual_base_ts (rw_state r')"
    "origin_base_seq (rw_state r') =
       (if awaiting_first_packet (rw_state r) then pkt_seq p else origin_base_seq (rw_state r))"
    "origin_base_ts (rw_state r') =
       (if awaiting_first_packet (rw_state r) then pkt_ts p else origin_base_ts (rw_state r))"
    "\<not> awaiting_first_packet (rw_state r) \<Longrightarrow>
       virtual_base_ts (rw_state r') = virtual_base_ts (rw_state r)"
  using assms unfolding rewriter_defs
  by (auto split: if_splits option.splits)

lemma rewrite_inv:
  assumes "rewriter_inv r" and "rewrite r now p u k = (RwOk, p', r')"
  shows "rewriter_inv r'"
  using rewrite_state(3,4) [OF assms(2)] by (simp add: rewriter_inv_def)

lemma rewrite_first_seq:
  assumes "rewriter_inv r" and "rewrite r now p u k = (RwOk, p', r')"
    and "awaiting_first_packet (rw_state r)"
  shows "last_virtual_seq (rw_state r') = last_virtual_seq (rw_state r) + 1"
  using assms rewrite_state(8,9,11) [OF assms(2)] by (simp add: rewriter_inv_def)

lemma rewrite_next_seq:
  assumes "rewrite r now p u k = (RwOk, p', r')" and "\<not> awaiting_first_packet (rw_state r)"
  shows "last_virtual_seq (rw_state r') - last_virtual_seq (rw_state r) =
         pkt_seq p - reverse_seq r (last_virtual_seq (rw_state r))"
  using assms rewrite_state(8,9,11) [OF assms(1)] by (simp add: reverse_seq_def)

section \<open>Silence frames and speaker changes\<close>

lemma silence_frame_fields:
  "length (silence_frame ssrc seq ts) = 15" "pkt_seq (silence_frame ssrc seq ts) = seq"
  "pkt_ts (silence_frame ssrc seq ts) = ts" "pkt_ssrc (silence_frame ssrc seq ts) = ssrc"
  by (simp_all add: silence_frame_def be16_at_def be32_at_def be16_def be32_def)

lemma clear_speaker_cases:
  assumes "clear_speaker r now = (frames, r')"
  obtains "frames = None" "last_virtual_seq (rw_state r') = last_virtual_seq (rw_state r)"
    "last_virtual_ts (rw_state r') = last_virtual_ts (rw_state r)"
  | "frames = Some [silence_frame (virtual_ssrc r) (last_virtual_seq (rw_state r) + 1)
                      (last_virtual_ts (rw_state r) + 960),
                    silence_frame (virtual_ssrc r) (last_virtual_seq (rw_state r) + 2)
                      (last_virtual_ts (rw_state r) + 1920),
                    silence_frame (virtual_ssrc r) (last_virtual_seq (rw_state r) + 3)
                      (last_virtual_ts (rw_state r) + 2880)]"
    "\<not> require_keyframe r" "last_virtual_seq (rw_state r') = last_virtual_seq (rw_state r) + 3"
    "last_virtual_ts (rw_state r') = last_virtual_ts (rw_state r) + 2880"
  using assms by (auto simp: clear_speaker_def Let_def eval_nat_numeral upt_rec split: if_splits)

lemma clear_speaker_state:
  assumes "clear_speaker r now = (frames, r')"
  shows "speaker (rw_state r') = None" "\<not> awaiting_first_packet (rw_state r')"
    "\<not> pending_keyframe (rw_state r')" "virtual_ssrc r' = virtual_ssrc r"
    "require_keyframe r' = require_keyframe r" "cleared_at (rw_state r') = Some now"
    "ts_guard_gap r' = ts_guard_gap r"
  using assms by (auto simp: clear_speaker_def Let_def split: if_splits)

lemma switch_speaker_state [simp]:
  "speaker (rw_state (switch_speaker r now u)) = Some u"
  "awaiting_first_packet (rw_state (switch_speaker r now u))"
  "pending_keyframe (rw_state (switch_speaker r now u)) = require_keyframe r"
  "virtual_ssrc (switch_speaker r now u) = virtual_ssrc r"
  "require_keyframe (switch_speaker r now u) = require_keyframe r"
  "ts_guard_gap (switch_speaker r now u) = ts_guard_gap r"
  "last_virtual_seq (rw_state (switch_speaker r now u)) = last_virtual_seq (rw_state r)"
  "last_virtual_ts (rw_state (switch_speaker r now u)) = last_virtual_ts (rw_state r)"
  "virtual_base_seq (rw_state (switch_speaker r now u)) = last_virtual_seq (rw_state r) + 1"
  by (simp_all add: switch_speaker_def Let_def)

lemma rewriter_inv_new: "rewriter_inv (ptt_new ssrc gap keyf)"
  by (simp add: rewriter_inv_def ptt_new_def)

lemma ptt_step_inv:
  assumes "rewriter_inv r"
  shows "rewriter_inv (snd (ptt_step r e)) \<and> virtual_ssrc (snd (ptt_step r e)) = virtual_ssrc r \<and>
         require_keyframe (snd (ptt_step r e)) = require_keyframe r"
proof (cases "(r, e)" rule: ptt_step.cases)
  case (1 r' now u)
  then show ?thesis by (simp add: rewriter_inv_def)
next
  case (2 r' now)
  obtain fs s where c: "clear_speaker r now = (fs, s)" by fastforce
  show ?thesis using 2 c clear_speaker_state [OF c] by (simp add: rewriter_inv_def)
next
  case (3 r' now p u k)
  show ?thesis
  proof (cases rule: rewrite_cases [of r now p u k])
    case (not_ok res)
    then show ?thesis using 3 assms by (cases res) auto
  next
    case (ok p' r'')
    then show ?thesis using 3 assms rewrite_inv [OF assms ok] rewrite_state(5,6) [OF ok] by simp
  qed
qed

section \<open>The virtual stream\<close>

lemma ptt_step_stream:
  assumes inv: "rewriter_inv r" and io: "in_order r e" and st: "ptt_step r e = (out, r')"
  shows "map pkt_seq out = count_up (last_virtual_seq (rw_state r)) (length out) \<and>
         last_virtual_seq (rw_state r') = last_virtual_seq (rw_state r) + word_of_nat (length out) \<and>
         (\<forall>p\<in>set out. pkt_ssrc p = virtual_ssrc r \<and> 12 \<le> length p)"
proof (cases "(r, e)" rule: ptt_step.cases)
  case (1 r0 now u)
  then show ?thesis using st by auto
next
  case (2 r0 now)
  obtain fs s where c: "clear_speaker r now = (fs, s)" by fastforce
  from c show ?thesis
    by (cases rule: clear_speaker_cases)
      (use 2 st c in \<open>auto simp: silence_frame_fields add.assoc\<close>)
next
  case (3 r0 now p u k)
  show ?thesis
  proof (cases rule: rewrite_cases [of r now p u k])
    case (not_ok res)
    then have "out = [] \<and> r' = r" using 3 st by (cases res) auto
    then show ?thesis by simp
  next
    case (ok p' r'')
    have step: "last_virtual_seq (rw_state r'') = last_virtual_seq (rw_state r) + 1"
    proof (cases "awaiting_first_packet (rw_state r)")
      case True
      then show ?thesis using rewrite_first_seq [OF inv ok] by simp
    next
      case False
      then have "pkt_seq p = reverse_seq r (last_virtual_seq (rw_state r)) + 1"
        using io 3 ok by simp
      then show ?thesis using rewrite_next_seq [OF ok False] by (simp add: algebra_simps)
    qed
    have "out = [p'] \<and> r' = r''" using 3 st ok by simp
    then show ?thesis using rewrite_packet [OF ok] step by simp
  qed
qed

interpretation ptt: gapless_stream ptt_step in_order rewriter_inv
  "\<lambda>r. last_virtual_seq (rw_state r)" virtual_ssrc
proof unfold_locales
  fix r e out r'
  assume "rewriter_inv r" "ptt_step r e = (out, r')"
  then show "rewriter_inv r' \<and> virtual_ssrc r' = virtual_ssrc r" using ptt_step_inv [of r e] by simp
qed (rule ptt_step_stream)

lemma ptt_run_keyframe:
  "rewriter_inv r \<Longrightarrow> require_keyframe (snd (ptt_run r evs)) = require_keyframe r"
proof (induction evs arbitrary: r)
  case (Cons e es)
  obtain o1 r1 where s1: "ptt_step r e = (o1, r1)" by fastforce
  obtain o2 r2 where s2: "ptt_run r1 es = (o2, r2)" by fastforce
  show ?case using ptt_step_inv [OF Cons.prems, of e] Cons.IH [of r1] s1 s2 by simp
qed simp

lemma ptt_new_ssrc [simp]:
  "virtual_ssrc (ptt_new ssrc gap keyf) = ssrc" "require_keyframe (ptt_new ssrc gap keyf) = keyf"
  by (simp_all add: ptt_new_def)

definition demo_pkt :: "u16 \<Rightarrow> u32 \<Rightarrow> bytes" where
  "demo_pkt seq ts = [0x80, 111] @ be16 seq @ be32 ts @ be32 7 @ [1, 2, 3]"

text \<open>
  C4: A push-to-talk receiver sees one gapless stream. Whatever happened to a rewriter before, over
  every further sequence of speaker changes, floor clearances and offered packets in which each
  speaker's own packets arrive in order, the packets that leave (rewritten media and injected
  silence frames together) carry the room's virtual SSRC and consecutive sequence numbers, modulo
  2 to the 16, starting after the last one used.
\<close>

theorem ptt_stream_contiguous:
  assumes "r = snd (ptt_run (ptt_new ssrc gap keyf) before)"
    and "all_in_order r evs" and "ptt_run r evs = (out, r')"
  shows "map pkt_seq out =
           map (\<lambda>i. last_virtual_seq (rw_state r) + 1 + word_of_nat i) [0..<length out] \<and>
         (\<forall>p\<in>set out. pkt_ssrc p = ssrc \<and> 12 \<le> length p)"
proof -
  have "rewriter_inv r" "virtual_ssrc r = ssrc"
    using assms(1) ptt.run_inv [OF rewriter_inv_new, of ssrc gap keyf before] by simp_all
  then show ?thesis using ptt.run_contiguous assms(2,3) by blast
qed

lemmas ptt_eval = demo_pkt_def new_audio_def new_video_def ptt_new_def rewriter_defs be16_at_def
  be32_at_def be16_def be32_def of_be16_def of_be32_def copy_at_def reverse_seq_def
  dynamic_ts_gap_def translate_rtp_ts_def

definition demo_events :: "(instant \<times> ptt_event) list" where
  "demo_events = [(0, Switch ''a''), (1, Packet (demo_pkt 65535 100) ''a'' False),
     (2, Packet (demo_pkt 0 1060) ''a'' False), (3, Clear), (4, Switch ''b''),
     (5, Packet (demo_pkt 9 5) ''a'' False), (6, Packet (demo_pkt 40 7) ''b'' False)]"

theorem ptt_stream_contiguous_witness:
  "map pkt_seq (fst (ptt_run (new_audio 5) demo_events)) = [1, 2, 3, 4, 5, 6]"
proof -
  have "all_in_order (new_audio 5) demo_events" by (simp add: demo_events_def ptt_eval)
  moreover have "length (fst (ptt_run (new_audio 5) demo_events)) = 6"
    by (simp add: demo_events_def ptt_eval upt_rec)
  moreover have "last_virtual_seq (rw_state (new_audio 5)) = 0" by (simp add: ptt_eval)
  ultimately show ?thesis
    using ptt_stream_contiguous [of "new_audio 5" 5 960 False "[]" demo_events
        "fst (ptt_run (new_audio 5) demo_events)" "snd (ptt_run (new_audio 5) demo_events)"]
    by (simp add: new_audio_def upt_rec numeral_eq_Suc)
qed

section \<open>Within one talk spurt\<close>

text \<open>Offering packets changes neither the mapping nor the speaker once the first packet is in.\<close>

abbreviation packet_event :: "instant \<times> bytes \<times> user_id \<times> bool \<Rightarrow> instant \<times> ptt_event" where
  "packet_event e \<equiv> (fst e, Packet (fst (snd e)) (fst (snd (snd e))) (snd (snd (snd e))))"

definition same_mapping :: "ptt_rewriter \<Rightarrow> ptt_rewriter \<Rightarrow> bool" where
  "same_mapping r r' \<longleftrightarrow>
     speaker (rw_state r') = speaker (rw_state r) \<and>
     origin_base_seq (rw_state r') = origin_base_seq (rw_state r) \<and>
     origin_base_ts (rw_state r') = origin_base_ts (rw_state r) \<and>
     virtual_base_seq (rw_state r') = virtual_base_seq (rw_state r) \<and>
     virtual_base_ts (rw_state r') = virtual_base_ts (rw_state r) \<and>
     awaiting_first_packet (rw_state r') = awaiting_first_packet (rw_state r)"

lemma rewrite_same_mapping:
  assumes "rewrite r now p u k = (RwOk, p', r')" and "\<not> awaiting_first_packet (rw_state r)"
  shows "same_mapping r r'"
  using assms(2) rewrite_state [OF assms(1)] by (simp add: same_mapping_def)

lemma packets_same_mapping:
  "\<not> awaiting_first_packet (rw_state r) \<Longrightarrow> same_mapping r (snd (ptt_run r (map packet_event es)))"
proof (induction es arbitrary: r)
  case Nil
  then show ?case by (simp add: same_mapping_def)
next
  case (Cons e es)
  obtain now p u k where e: "e = (now, p, u, k)" by (cases e) auto
  obtain o1 r1 where s1: "ptt_step r (packet_event e) = (o1, r1)" by fastforce
  obtain o2 r2 where s2: "ptt_run r1 (map packet_event es) = (o2, r2)" by fastforce
  have "same_mapping r r1"
  proof (cases rule: rewrite_cases [of r now p u k])
    case (not_ok res)
    then have "r1 = r" using s1 e by (cases res) auto
    then show ?thesis by (simp add: same_mapping_def)
  next
    case (ok p' r')
    then show ?thesis using rewrite_same_mapping [OF ok Cons.prems] s1 e by simp
  qed
  moreover from this have "same_mapping r1 r2"
    using Cons.IH [of r1] Cons.prems s2 by (simp add: same_mapping_def)
  ultimately show ?case using s1 s2 by (simp add: same_mapping_def)
qed

text \<open>
  C5: Within one talk spurt the rewriter is a shift. If a speaker's packet \<open>p1\<close> was rewritten to
  \<open>q1\<close> and, after any packets of any senders, a packet \<open>p2\<close> of that speaker is rewritten to \<open>q2\<close>,
  then sequence numbers and timestamps of \<open>q1\<close> and \<open>q2\<close> differ by exactly what those of \<open>p1\<close> and
  \<open>p2\<close> differ by (so reordering by the network is kept), \<open>q2\<close> has the payload, the flags and the
  payload type of \<open>p2\<close>, \<open>reverse_seq\<close> maps the virtual sequence numbers of both back to the
  original ones, and \<open>translate_rtp_ts\<close> agrees with the timestamps that were sent.
\<close>

theorem rewrite_is_shift:
  assumes "rewrite r t1 p1 u k1 = (RwOk, q1, r1)"
    and "r2 = snd (ptt_run r1 (map packet_event es))"
    and "rewrite r2 t2 p2 u k2 = (RwOk, q2, r3)"
  shows "pkt_seq q2 - pkt_seq q1 = pkt_seq p2 - pkt_seq p1 \<and>
         pkt_ts q2 - pkt_ts q1 = pkt_ts p2 - pkt_ts p1 \<and>
         drop 12 q2 = drop 12 p2 \<and> take 2 q2 = take 2 p2 \<and>
         reverse_seq r3 (pkt_seq q1) = pkt_seq p1 \<and> reverse_seq r3 (pkt_seq q2) = pkt_seq p2 \<and>
         translate_rtp_ts r3 (pkt_ts p1) = Some (pkt_ts q1) \<and>
         translate_rtp_ts r3 (pkt_ts p2) = Some (pkt_ts q2)"
proof -
  have na: "\<not> awaiting_first_packet (rw_state r1)" by (rule rewrite_state(3) [OF assms(1)])
  then have m12: "same_mapping r1 r2" using packets_same_mapping assms(2) by blast
  then have na2: "\<not> awaiting_first_packet (rw_state r2)" using na by (simp add: same_mapping_def)
  have m: "same_mapping r2 r3" by (rule rewrite_same_mapping [OF assms(3) na2])
  have "take 2 q2 = take 2 p2"
    using rewrite_packet(1,2,4,8) [OF assms(3)] na2
    by (intro nth_equalityI) (auto simp: less_2_cases_iff)
  then show ?thesis
    using rewrite_packet [OF assms(1)] rewrite_packet [OF assms(3)] m m12 na na2
      rewrite_state [OF assms(1)] rewrite_state [OF assms(3)]
    by (simp add: same_mapping_def reverse_seq_def translate_rtp_ts_def)
qed

theorem rewrite_is_shift_witness:
  "pkt_seq (fst (snd (rewrite (snd (snd (rewrite (switch_speaker (new_audio 5) 0 ''a'') 1
       (demo_pkt 65534 100) ''a'' False))) 2 (demo_pkt 1 3000) ''a'' False))) -
   pkt_seq (fst (snd (rewrite (switch_speaker (new_audio 5) 0 ''a'') 1
       (demo_pkt 65534 100) ''a'' False))) = 3"
proof -
  let ?r = "switch_speaker (new_audio 5) 0 ''a''"
  let ?x = "rewrite ?r 1 (demo_pkt 65534 100) ''a'' False"
  let ?y = "rewrite (snd (snd ?x)) 2 (demo_pkt 1 3000) ''a'' False"
  have x: "?x = (RwOk, fst (snd ?x), snd (snd ?x))"
    by (rule prod_eqI) (simp_all add: ptt_eval)
  have y: "?y = (RwOk, fst (snd ?y), snd (snd ?y))"
    by (rule prod_eqI) (simp_all add: ptt_eval)
  have "pkt_seq (demo_pkt 1 3000) - pkt_seq (demo_pkt 65534 100) = 3" by (simp add: ptt_eval)
  then show ?thesis using rewrite_is_shift [OF x _ y, of "[]"] by simp
qed

section \<open>Video waits for a keyframe\<close>

lemma pending_packet_dropped:
  assumes "pending_keyframe (rw_state r)"
    and "\<not> (12 \<le> length p \<and> speaker (rw_state r) = Some u \<and> k)"
  shows "ptt_step r (now, Packet p u k) = ([], r)"
  using assms by (auto simp: rewrite_def Let_def)

lemma video_drops_until_keyframe:
  assumes "pending_keyframe (rw_state r)"
  shows "ptt_run r (map packet_event es) =
         ptt_run r (map packet_event
           (dropWhile (\<lambda>(now, p, u, k). \<not> (12 \<le> length p \<and> speaker (rw_state r) = Some u \<and> k)) es))"
proof (induction es)
  case (Cons e es)
  obtain now p u k where e: "e = (now, p, u, k)" by (cases e) auto
  show ?case
  proof (cases "12 \<le> length p \<and> speaker (rw_state r) = Some u \<and> k")
    case False
    then show ?thesis using pending_packet_dropped [OF assms False] Cons.IH e by simp
  qed (simp add: e)
qed simp

text \<open>
  C6: A video stream resumes with a keyframe. After the floor moves to a user, all packets offered
  to the video rewriter up to the first keyframe packet of that user are dropped and leave no trace
  in its state: the run emits what it would emit had they never arrived, and it emits nothing at all
  when no keyframe of the new speaker is among them.
\<close>

theorem video_resumes_with_keyframe:
  assumes "require_keyframe r"
  shows "ptt_run (switch_speaker r now u) (map packet_event es) =
         ptt_run (switch_speaker r now u) (map packet_event
           (dropWhile (\<lambda>(t, p, v, k). \<not> (12 \<le> length p \<and> v = u \<and> k)) es)) \<and>
         ((\<forall>(t, p, v, k)\<in>set es. \<not> (12 \<le> length p \<and> v = u \<and> k)) \<longrightarrow>
            fst (ptt_run (switch_speaker r now u) (map packet_event es)) = [])"
proof -
  let ?r = "switch_speaker r now u"
  let ?D = "dropWhile (\<lambda>(t, p, v, k). \<not> (12 \<le> length p \<and> v = u \<and> k))"
  have pred: "(\<lambda>(t, p, v, k). \<not> (12 \<le> length p \<and> speaker (rw_state ?r) = Some v \<and> k)) =
      (\<lambda>(t :: instant, p :: bytes, v, k). \<not> (12 \<le> length p \<and> v = u \<and> k))"
    by auto
  have eq: "ptt_run ?r (map packet_event es) = ptt_run ?r (map packet_event (?D es))"
    using video_drops_until_keyframe [of ?r es] assms unfolding pred by simp
  have "fst (ptt_run ?r (map packet_event (?D es))) = []"
    if "\<forall>(t, p, v, k)\<in>set es. \<not> (12 \<le> length p \<and> v = u \<and> k)"
    using that by (simp only: dropWhile_eq_Nil_conv [THEN iffD2]) simp
  with eq show ?thesis by presburger
qed

theorem video_resumes_with_keyframe_witness:
  "fst (ptt_run (switch_speaker (new_video 5) 0 ''a'')
     (map packet_event [(1, demo_pkt 7 100, ''a'', False), (2, demo_pkt 3 100, ''b'', True)])) = []"
proof -
  have "require_keyframe (new_video 5)" by (simp add: new_video_def)
  from video_resumes_with_keyframe [OF this, of 0 "''a''"
      "[(1, demo_pkt 7 100, ''a'', False), (2, demo_pkt 3 100, ''b'', True)]"]
  show ?thesis by simp
qed

section \<open>Timestamps at a speaker change\<close>

lemma short_gap:
  assumes "ts_guard_gap r = 960"
    and "case cleared_at (rw_state r) of None \<Rightarrow> True | Some c \<Rightarrow> as_millis_u32 (elapsed now c) \<le> 60"
  shows "sat_sub (dynamic_ts_gap r now 48) 2880 = 0"
proof -
  have "sat_sub (sat_mul m 48) 2880 = 0" if "m \<le> 60" for m :: u32
  proof -
    have "unat m \<le> 60" using that by (simp add: word_le_nat_alt)
    then have "unat (sat_mul m 48) \<le> 2880"
      unfolding sat_mul_eq_max by (subst unat_word_of_nat) (auto simp: min_def)
    then have "unat (sat_sub (sat_mul m 48) 2880) = 0" unfolding unat_sat_sub by simp
    then show ?thesis by (simp only: unat_eq_zero)
  qed
  moreover have "sat_sub 960 (2880 :: u32) = 0" by (simp add: sat_sub_def)
  ultimately show ?thesis
    using assms by (auto simp: dynamic_ts_gap_def max_def split: option.splits)
qed

text \<open>
  The timestamp of an audio speaker's first packet. After a speaker change, the first rewritten
  packet continues the virtual timestamps at the last one used plus the idle time in 48 kHz ticks
  (at least the guard gap) less the three silence frames, which the floor clearance has already
  added. So when the idle time is 60 ms or less, or the floor moved without a clearance, the new
  speaker's first packet carries the very timestamp of the last packet sent, although the code means
  to keep a guard gap of at least 960 ticks.
\<close>

theorem audio_handover_timestamp:
  assumes "r = snd (ptt_run (new_audio ssrc) before)"
    and "rewrite (switch_speaker r now u) t p u k = (RwOk, q, r')"
  shows "pkt_ts q = last_virtual_ts (rw_state r) + sat_sub (dynamic_ts_gap r now 48) 2880 \<and>
         ((case cleared_at (rw_state r) of None \<Rightarrow> True
           | Some c \<Rightarrow> as_millis_u32 (elapsed now c) \<le> 60) \<longrightarrow>
          pkt_ts q = last_virtual_ts (rw_state r))"
proof -
  have gap_step: "ts_guard_gap (snd (ptt_step r0 e)) = ts_guard_gap r0" for r0 e
  proof (cases "(r0, e)" rule: ptt_step.cases)
    case (2 r1 t1)
    obtain fs s where c: "clear_speaker r0 t1 = (fs, s)" by fastforce
    show ?thesis using 2 c clear_speaker_state [OF c] by simp
  next
    case (3 r1 t1 p1 u1 k1)
    show ?thesis
      by (cases rule: rewrite_cases [of r0 t1 p1 u1 k1])
        (use 3 rewrite_state(7) in \<open>auto split: rewrite_result.splits\<close>)
  qed simp
  have gap: "ts_guard_gap (snd (ptt_run r0 es)) = ts_guard_gap r0" for r0 es
    by (induction es arbitrary: r0) (auto split: prod.splits, metis gap_step snd_conv)
  have ts_gap: "ts_guard_gap r = 960" using gap assms(1) by (simp add: new_audio_def ptt_new_def)
  have kf: "\<not> require_keyframe r"
    using assms(1) ptt_run_keyframe [OF rewriter_inv_new] by (simp add: new_audio_def)
  have "pkt_ts q = last_virtual_ts (rw_state r')" by (rule rewrite_packet(7) [OF assms(2)])
  also have "\<dots> = virtual_base_ts (rw_state r')"
    using rewrite_state(10,12) [OF assms(2)] by simp
  also have "\<dots> = virtual_base_ts (rw_state (switch_speaker r now u))"
    using assms(2) kf by (auto simp: rewrite_def set_origin_def Let_def split: if_splits)
  also have "\<dots> = last_virtual_ts (rw_state r) + sat_sub (dynamic_ts_gap r now 48) 2880"
    using kf by (simp add: switch_speaker_def Let_def)
  finally have ts: "pkt_ts q = last_virtual_ts (rw_state r) + sat_sub (dynamic_ts_gap r now 48) 2880" .
  have "sat_sub (dynamic_ts_gap r now 48) 2880 = 0"
    if "case cleared_at (rw_state r) of None \<Rightarrow> True | Some c \<Rightarrow> as_millis_u32 (elapsed now c) \<le> 60"
    using short_gap [OF ts_gap that] .
  then show ?thesis using ts by simp
qed

theorem audio_handover_timestamp_witness:
  "pkt_ts (fst (snd (rewrite (switch_speaker (new_audio 5) 0 ''a'') 1 (demo_pkt 9 77) ''a'' False))) = 0"
proof -
  let ?x = "rewrite (switch_speaker (new_audio 5) 0 ''a'') 1 (demo_pkt 9 77) ''a'' False"
  have x: "?x = (RwOk, fst (snd ?x), snd (snd ?x))"
    by (rule prod_eqI) (simp_all add: ptt_eval)
  have "cleared_at (rw_state (new_audio 5)) = None" "last_virtual_ts (rw_state (new_audio 5)) = 0"
    by (simp_all add: ptt_eval)
  then show ?thesis
    using audio_handover_timestamp [OF _ x, of 5 "[]"] by fastforce
qed

end
