(* ===== verification/Rtcp.thy ===== *)
theory Rtcp
  imports Config
begin

text \<open>
  RTP header parsing and the RTCP packets of \<open>transport/udp/rtcp.rs\<close>: generic NACK, the split of a
  compound packet by kind, RTX packets, PLI and REMB builders, and the MBCP floor-control APP
  packets. Parsers that read at computed offsets return \<open>None\<close> where the code would index out of
  range.
\<close>

section \<open>RTP header\<close>

record rtp_header =
  rh_pt :: u8
  rh_marker :: bool
  rh_seq :: u16
  rh_timestamp :: u32
  rh_ssrc :: u32
  rh_header_len :: nat

definition parse_rtp_header :: "bytes \<Rightarrow> rtp_header" where
  "parse_rtp_header buf =
     (if length buf < RTP_HEADER_MIN_SIZE
      then \<lparr> rh_pt = 0, rh_marker = False, rh_seq = 0, rh_timestamp = 0, rh_ssrc = 0, rh_header_len = 0 \<rparr>
      else \<lparr> rh_pt = buf ! 1 AND 0x7F, rh_marker = (buf ! 1 AND 0x80 \<noteq> 0), rh_seq = be16_at buf 2,
             rh_timestamp = be32_at buf 4, rh_ssrc = be32_at buf 8,
             rh_header_len = 12 + unat (buf ! 0 AND 0x0F) * 4 \<rparr>)"

section \<open>Generic NACK\<close>

record nack_item =
  ni_media_ssrc :: u32
  ni_pid :: u16
  ni_blp :: u16

text \<open>The inner loop over the (pid, blp) entries of one NACK block.\<close>

function fci_loop :: "bytes \<Rightarrow> u32 \<Rightarrow> nat \<Rightarrow> nat \<Rightarrow> nack_item list option" where
  "fci_loop buf media_ssrc fci_off fci_end =
     (if fci_off + 4 \<le> fci_end then
        do {
          pid \<leftarrow> rd16 buf fci_off;
          blp \<leftarrow> rd16 buf (fci_off + 2);
          rest \<leftarrow> fci_loop buf media_ssrc (fci_off + 4) fci_end;
          Some (\<lparr> ni_media_ssrc = media_ssrc, ni_pid = pid, ni_blp = blp \<rparr> # rest)
        }
      else Some [])"
  by auto
termination
  by (relation "measure (\<lambda>(buf, m, off, e). e - off)") auto

declare fci_loop.simps [simp del]

text \<open>
  The outer loop from \<open>offset\<close>: the items of the remaining blocks. (\<open>pkt_len\<close> is at least four, so
  the code's last test never stops it.)
\<close>

function nack_loop :: "bytes \<Rightarrow> nat \<Rightarrow> nack_item list option" where
  "nack_loop buf offset =
     (if offset + 4 \<le> length buf then
        do {
          b0 \<leftarrow> rd8 buf offset;
          pt \<leftarrow> rd8 buf (offset + 1);
          length_words \<leftarrow> rd16 buf (offset + 2);
          let fmt = b0 AND 0x1F;
          let pkt_len = (unat length_words + 1) * 4;
          items \<leftarrow>
            (if pt = RTCP_PT_NACK \<and> fmt = RTCP_FMT_NACK \<and> offset + 12 \<le> length buf
             then do {
               media_ssrc \<leftarrow> rd32 buf (offset + 8);
               fci_loop buf media_ssrc (offset + 12) (min (offset + pkt_len) (length buf))
             }
             else Some []);
          rest \<leftarrow> nack_loop buf (offset + pkt_len);
          Some (items @ rest)
        }
      else Some [])"
  by auto
termination
  by (relation "measure (\<lambda>(buf, off). length buf - off)") auto

declare nack_loop.simps [simp del]

definition parse_rtcp_nack :: "bytes \<Rightarrow> nack_item list option" where
  "parse_rtcp_nack buf = nack_loop buf 0"

definition expand_nack :: "u16 \<Rightarrow> u16 \<Rightarrow> u16 list" where
  "expand_nack pid blp =
     pid # map (\<lambda>i. pid + (word_of_nat i + 1))
             (filter (\<lambda>i. blp AND push_bit i 1 \<noteq> 0) [0..<16])"

section \<open>MBCP application packets\<close>

record mbcp_message =
  mb_subtype :: u8
  mb_ssrc :: u32
  mb_data :: "string option"

definition parse_mbcp_app :: "bytes \<Rightarrow> mbcp_message option" where
  "parse_mbcp_app buf =
     (if length buf < 12 then None
      else if buf ! 1 \<noteq> RTCP_PT_APP then None
      else if take 4 (drop 8 buf) \<noteq> MBCP_APP_NAME then None
      else
        (let subtype = buf ! 0 AND 0x1F;
             ssrc = be32_at buf 4;
             data =
               (if 12 < length buf then
                  (let raw = drop 12 buf;
                       trimmed = (case position (\<lambda>b. b = 0) raw of
                                    Some pos \<Rightarrow> take pos raw | None \<Rightarrow> raw)
                   in if trimmed = [] then None else from_utf8 trimmed)
                else None)
         in Some \<lparr> mb_subtype = subtype, mb_ssrc = ssrc, mb_data = data \<rparr>))"

definition build_mbcp_app :: "u8 \<Rightarrow> u32 \<Rightarrow> string option \<Rightarrow> bytes" where
  "build_mbcp_app subtype ssrc data =
     (let data_bytes = (case data of Some s \<Rightarrow> bytes_of s | None \<Rightarrow> []);
          padded_len = align4 (length data_bytes);
          total_len = 12 + padded_len;
          length_field = total_len div 4 - 1
      in [0x80 OR (subtype AND 0x1F), RTCP_PT_APP] @ be16 (word_of_nat length_field) @
         be32 ssrc @ MBCP_APP_NAME @ data_bytes @ replicate (padded_len - length data_bytes) 0)"

section \<open>Splitting a compound packet\<close>

record rtcp_block_ref =
  br_offset :: nat
  br_length :: nat
  br_media_ssrc :: u32

record compound_rtcp_parsed =
  nack_blocks :: "bytes list"
  relay_blocks :: "rtcp_block_ref list"
  mbcp_blocks :: "mbcp_message list"
  sr_blocks :: "rtcp_block_ref list"
  rr_blocks :: "rtcp_block_ref list"

text \<open>Where one block of the compound goes.\<close>

definition classify_block ::
  "u8 \<Rightarrow> u8 \<Rightarrow> bytes \<Rightarrow> rtcp_block_ref \<Rightarrow> compound_rtcp_parsed \<Rightarrow> compound_rtcp_parsed" where
  "classify_block fmt pt block ref result =
     (if pt = RTCP_PT_NACK \<and> fmt = RTCP_FMT_NACK
      then result\<lparr> nack_blocks := nack_blocks result @ [block] \<rparr>
      else if pt = RTCP_PT_APP
      then (case parse_mbcp_app block of
              Some msg \<Rightarrow> result\<lparr> mbcp_blocks := mbcp_blocks result @ [msg] \<rparr>
            | None \<Rightarrow> result)
      else if pt = RTCP_PT_SR then result\<lparr> sr_blocks := sr_blocks result @ [ref] \<rparr>
      else if pt = RTCP_PT_RR then result\<lparr> rr_blocks := rr_blocks result @ [ref] \<rparr>
      else if pt = RTCP_PT_PSFB \<and> fmt = RTCP_FMT_PLI \<or> pt = RTCP_PT_PSFB \<and> fmt = RTCP_FMT_REMB
      then result\<lparr> relay_blocks := relay_blocks result @ [ref] \<rparr>
      else result)"

function split_loop :: "bytes \<Rightarrow> nat \<Rightarrow> compound_rtcp_parsed \<Rightarrow> compound_rtcp_parsed option" where
  "split_loop buf offset result =
     (if offset + 4 \<le> length buf then
        do {
          b0 \<leftarrow> rd8 buf offset;
          pt \<leftarrow> rd8 buf (offset + 1);
          length_words \<leftarrow> rd16 buf (offset + 2);
          let pkt_len = (unat length_words + 1) * 4;
          if length buf < offset + pkt_len then Some result
          else do {
            media_ssrc \<leftarrow> (if offset + 12 \<le> length buf then rd32 buf (offset + 8) else Some 0);
            block \<leftarrow> slice buf offset (offset + pkt_len);
            split_loop buf (offset + pkt_len)
              (classify_block (b0 AND 0x1F) pt block
                 \<lparr> br_offset = offset, br_length = pkt_len, br_media_ssrc = media_ssrc \<rparr> result)
          }
        }
      else Some result)"
  by auto
termination
  by (relation "measure (\<lambda>(buf, off, res). length buf - off)") auto

declare split_loop.simps [simp del]

definition empty_compound :: compound_rtcp_parsed where
  "empty_compound = \<lparr> nack_blocks = [], relay_blocks = [], mbcp_blocks = [], sr_blocks = [], rr_blocks = [] \<rparr>"

definition split_compound_rtcp :: "bytes \<Rightarrow> compound_rtcp_parsed option" where
  "split_compound_rtcp buf = split_loop buf 0 empty_compound"

definition assemble_compound :: "bytes list \<Rightarrow> bytes" where
  "assemble_compound blocks = concat blocks"

section \<open>RTX, PLI and REMB\<close>

definition build_rtx_packet :: "bytes \<Rightarrow> u32 \<Rightarrow> u16 \<Rightarrow> bytes" where
  "build_rtx_packet original rtx_ssrc rtx_seq =
     (if length original < RTP_HEADER_MIN_SIZE then []
      else
        (let cc = unat (original ! 0 AND 0x0F);
             header_len = 12 + cc * 4
         in if length original < header_len then []
            else
              (let orig_seq = be16_at original 2;
                   payload = drop header_len original;
                   rtx = take header_len original;
                   orig_pt = original ! 1 AND 0x7F;
                   rtx1 = rtx[1 := rtx_pt_for orig_pt];
                   rtx2 = copy_at 2 (be16 rtx_seq) rtx1;
                   rtx3 = copy_at 8 (be32 rtx_ssrc) rtx2
               in rtx3 @ be16 orig_seq @ payload)))"

definition build_pli :: "u32 \<Rightarrow> bytes" where
  "build_pli media_ssrc = [0x81, 206, 0, 2, 0, 0, 0, 0] @ be32 media_ssrc"

text \<open>The loop of \<open>encode_remb_bitrate\<close>, with the exponent counted in a \<open>u8\<close>.\<close>

function remb_loop :: "u64 \<Rightarrow> u8 \<Rightarrow> u8 \<times> u64" where
  "remb_loop mantissa exp =
     (if 0x3FFFF < mantissa then remb_loop (drop_bit 1 mantissa) (exp + 1) else (exp, mantissa))"
  by auto
termination
proof (relation "measure (\<lambda>(m, e). unat m)", simp)
  fix m :: u64 and e :: u8
  assume "0x3FFFF < m"
  then have "0 < unat m" by (simp add: word_less_nat_alt)
  then show "((drop_bit 1 m, e + 1), m, e) \<in> measure (\<lambda>(m, e). unat m)"
    by (simp add: drop_bit_Suc unat_div)
qed

declare remb_loop.simps [simp del]

definition encode_remb_bitrate :: "u64 \<Rightarrow> u8 \<times> u32" where
  "encode_remb_bitrate bps = (case remb_loop bps 0 of (exp, mantissa) \<Rightarrow> (exp, ucast mantissa))"

definition build_remb :: "u64 \<Rightarrow> u32 \<Rightarrow> bytes" where
  "build_remb bitrate_bps media_ssrc =
     (case encode_remb_bitrate bitrate_bps of
        (exp, mantissa) \<Rightarrow>
          [0x8F, 206, 0, 5, 0, 0, 0, 0, 0, 0, 0, 0, 82, 69, 77, 66, 1,
           push_bit 2 exp OR (ucast (drop_bit 16 mantissa) AND 0x03),
           ucast (drop_bit 8 mantissa), ucast mantissa] @ be32 media_ssrc)"

section \<open>Every parser is total\<close>

lemma fci_loop_total:
  "fci_end \<le> length buf \<Longrightarrow> \<exists>items. fci_loop buf m off fci_end = Some items"
proof (induction "fci_end - off" arbitrary: off rule: less_induct)
  case less
  show ?case
  proof (cases "off + 4 \<le> fci_end")
    case True
    then obtain rest where "fci_loop buf m (off + 4) fci_end = Some rest" using less by fastforce
    then show ?thesis using True less.prems by (subst fci_loop.simps) simp
  next
    case False
    then show ?thesis by (subst fci_loop.simps) simp
  qed
qed

lemma nack_loop_total: "\<exists>items. nack_loop buf offset = Some items"
proof (induction "length buf - offset" arbitrary: offset rule: less_induct)
  case less
  let ?len = "(unat (be16_at buf (offset + 2)) + 1) * 4"
  show ?case
  proof (cases "offset + 4 \<le> length buf")
    case True
    then obtain rest where rest: "nack_loop buf (offset + ?len) = Some rest"
      using less [of "offset + ?len"] by fastforce
    obtain items where
      "fci_loop buf (be32_at buf (offset + 8)) (offset + 12) (min (offset + ?len) (length buf)) = Some items"
      using fci_loop_total [of "min (offset + ?len) (length buf)" buf] by auto
    then show ?thesis using True rest by (subst nack_loop.simps) (simp add: Let_def)
  next
    case False
    then show ?thesis by (subst nack_loop.simps) simp
  qed
qed

lemma split_loop_total: "\<exists>res. split_loop buf offset result = Some res"
proof (induction buf offset result rule: split_loop.induct)
  case (1 buf offset result)
  show ?case
  proof (cases "offset + 4 \<le> length buf \<and>
      offset + (unat (be16_at buf (offset + 2)) + 1) * 4 \<le> length buf")
    case True
    then have "slice buf offset (offset + (unat (be16_at buf (offset + 2)) + 1) * 4) \<noteq> None" by simp
    then show ?thesis
      using 1 True by (subst split_loop.simps) (auto simp: Let_def)
  next
    case False
    then show ?thesis by (subst split_loop.simps) (auto simp: Let_def)
  qed
qed

section \<open>Splitting inverts concatenation\<close>

text \<open>A well-formed block announces its own length.\<close>

definition rtcp_block :: "bytes \<Rightarrow> bool" where
  "rtcp_block b \<longleftrightarrow> 4 \<le> length b \<and> length b = (unat (be16_at b 2) + 1) * 4"

definition blk_is :: "u8 \<Rightarrow> u8 list \<Rightarrow> bytes \<Rightarrow> bool" where
  "blk_is pt fmts b \<longleftrightarrow> b ! 1 = pt \<and> (fmts = [] \<or> b ! 0 AND 0x1F \<in> set fmts)"

definition block_of :: "bytes \<Rightarrow> rtcp_block_ref \<Rightarrow> bytes" where
  "block_of buf ref = take (br_length ref) (drop (br_offset ref) buf)"

text \<open>What the split of a compound should contain, block by block.\<close>

definition split_spec :: "bytes \<Rightarrow> bytes list \<Rightarrow> compound_rtcp_parsed \<Rightarrow> compound_rtcp_parsed \<Rightarrow> bool" where
  "split_spec buf bs res res' \<longleftrightarrow>
     nack_blocks res' = nack_blocks res @ filter (blk_is 205 [1]) bs \<and>
     mbcp_blocks res' = mbcp_blocks res @ List.map_filter parse_mbcp_app bs \<and>
     map (block_of buf) (sr_blocks res') = map (block_of buf) (sr_blocks res) @ filter (blk_is 200 []) bs \<and>
     map (block_of buf) (rr_blocks res') = map (block_of buf) (rr_blocks res) @ filter (blk_is 201 []) bs \<and>
     map (block_of buf) (relay_blocks res') =
       map (block_of buf) (relay_blocks res) @ filter (blk_is 206 [1, 15]) bs"

lemma parse_mbcp_app_pt: "b ! 1 \<noteq> RTCP_PT_APP \<Longrightarrow> parse_mbcp_app b = None"
  by (simp add: parse_mbcp_app_def)

lemma classify_block_spec:
  assumes "block_of buf ref = b"
  shows "split_spec buf [b] res (classify_block (b ! 0 AND 0x1F) (b ! 1) b ref res)"
  using assms
  by (cases "b ! 1 = RTCP_PT_APP")
    (auto simp: split_spec_def classify_block_def blk_is_def parse_mbcp_app_pt map_filter_simps
      split: option.splits)

lemma split_spec_trans:
  "split_spec buf bs r1 r2 \<Longrightarrow> split_spec buf cs r2 r3 \<Longrightarrow> split_spec buf (bs @ cs) r1 r3"
  by (simp add: split_spec_def map_filter_def)

lemma split_loop_spec:
  assumes "\<forall>b\<in>set bs. rtcp_block b" and "length junk < 4"
  shows "\<exists>res'. split_loop (pre @ concat bs @ junk) (length pre) res = Some res' \<and>
                split_spec (pre @ concat bs @ junk) bs res res'"
  using assms(1)
proof (induction bs arbitrary: pre res)
  case Nil
  have "split_loop (pre @ junk) (length pre) res = Some res"
    using assms(2) by (subst split_loop.simps) simp
  then show ?case by (simp add: split_spec_def map_filter_simps)
next
  case (Cons b bs)
  let ?buf = "pre @ concat (b # bs) @ junk"
  have b: "4 \<le> length b" "(unat (be16_at b 2) + 1) * 4 = length b"
    using Cons.prems by (auto simp: rtcp_block_def)
  have r0: "rd8 ?buf (length pre) = Some (b ! 0)" "rd8 ?buf (length pre + 1) = Some (b ! 1)"
    "rd16 ?buf (length pre + 2) = Some (be16_at b 2)"
    using b(1) by (auto simp: rd8_def rd16_def be16_at_def nth_append)
  have sl: "slice ?buf (length pre) (length pre + length b) = Some b" by simp
  define m where "m = (if length pre + 12 \<le> length ?buf then be32_at ?buf (length pre + 8) else 0)"
  have m: "(if length pre + 12 \<le> length ?buf then rd32 ?buf (length pre + 8) else Some 0) = Some m"
    by (simp add: m_def)
  define ref where "ref = \<lparr> br_offset = length pre, br_length = length b, br_media_ssrc = m \<rparr>"
  define r1 where "r1 = classify_block (b ! 0 AND 0x1F) (b ! 1) b ref res"
  have step: "split_loop ?buf (length pre) res = split_loop ?buf (length pre + length b) r1"
    unfolding r1_def ref_def using r0 sl m b
    by (subst split_loop.simps) (simp add: Let_def)
  obtain res' where IH: "split_loop ((pre @ b) @ concat bs @ junk) (length (pre @ b)) r1 = Some res'"
    "split_spec ((pre @ b) @ concat bs @ junk) bs r1 res'"
    using Cons.IH [of "pre @ b" r1] Cons.prems by auto
  have "split_spec ?buf [b] res r1"
    unfolding r1_def by (rule classify_block_spec) (simp add: block_of_def ref_def)
  then have "split_spec ?buf (b # bs) res res'"
    using split_spec_trans [of ?buf "[b]"] IH(2) by fastforce
  then show ?case using step IH(1) by auto
qed

text \<open>
  C8: Splitting a compound RTCP packet never indexes out of range, whatever the bytes, and it inverts
  assembly: on the concatenation of well-formed blocks, possibly followed by up to three stray bytes,
  the NACK blocks, the sender reports, the receiver reports and the relayed PLI and REMB blocks found
  are exactly the blocks of those kinds, each complete and in their order, and every MBCP message
  comes from the parse of one block.
\<close>

theorem split_compound_correct:
  "(\<exists>res. split_compound_rtcp buf = Some res) \<and>
   ((\<forall>b\<in>set bs. rtcp_block b) \<and> length junk < 4 \<and> buf = assemble_compound bs @ junk \<longrightarrow>
    (\<exists>res. split_compound_rtcp buf = Some res \<and>
       nack_blocks res = filter (blk_is 205 [1]) bs \<and>
       mbcp_blocks res = List.map_filter parse_mbcp_app bs \<and>
       map (block_of buf) (sr_blocks res) = filter (blk_is 200 []) bs \<and>
       map (block_of buf) (rr_blocks res) = filter (blk_is 201 []) bs \<and>
       map (block_of buf) (relay_blocks res) = filter (blk_is 206 [1, 15]) bs))"
  using split_loop_spec [of bs junk "[]" empty_compound] split_loop_total [of buf 0 empty_compound]
  by (auto simp: split_compound_rtcp_def assemble_compound_def split_spec_def empty_compound_def)

theorem split_compound_correct_witness:
  "\<exists>res. split_compound_rtcp (assemble_compound [build_pli 7, build_pli 9]) = Some res \<and>
         map (block_of (assemble_compound [build_pli 7, build_pli 9])) (relay_blocks res) =
           [build_pli 7, build_pli 9]"
proof -
  have "rtcp_block (build_pli w)" "blk_is 206 [1, 15] (build_pli w)" for w
    by (simp_all add: rtcp_block_def blk_is_def build_pli_def be16_at_def of_be16_def)
  then show ?thesis
    using split_compound_correct [of "assemble_compound [build_pli 7, build_pli 9]"
        "[build_pli 7, build_pli 9]" "[]"]
    by auto
qed

section \<open>NACK\<close>

text \<open>The wire form of a generic NACK.\<close>

definition fci_bytes :: "(u16 \<times> u16) list \<Rightarrow> bytes" where
  "fci_bytes es = concat (map (\<lambda>(pid, blp). be16 pid @ be16 blp) es)"

definition nack_packet :: "u32 \<Rightarrow> u32 \<Rightarrow> (u16 \<times> u16) list \<Rightarrow> bytes" where
  "nack_packet sender media es =
     [0x81, RTCP_PT_NACK] @ be16 (word_of_nat (2 + length es)) @ be32 sender @ be32 media @ fci_bytes es"

lemma fci_bytes_simps [simp]:
  "fci_bytes [] = []" "fci_bytes ((pid, blp) # es) = be16 pid @ be16 blp @ fci_bytes es"
  by (simp_all add: fci_bytes_def)

lemma length_fci_bytes [simp]: "length (fci_bytes es) = 4 * length es"
  by (induction es) auto

lemma fci_loop_bytes:
  "fci_loop (pre @ fci_bytes es @ post) m (length pre) (length pre + 4 * length es) =
     Some (map (\<lambda>(pid, blp). \<lparr> ni_media_ssrc = m, ni_pid = pid, ni_blp = blp \<rparr>) es)"
proof (induction es arbitrary: pre)
  case Nil
  show ?case by (subst fci_loop.simps) simp
next
  case (Cons e es)
  obtain pid blp where e: "e = (pid, blp)" by fastforce
  let ?buf = "pre @ fci_bytes (e # es) @ post"
  have r: "rd16 ?buf (length pre) = Some pid" "rd16 ?buf (length pre + 2) = Some blp"
    using be16_at_append [of pre pid] be16_at_append [of "pre @ be16 pid" blp] by (simp_all add: e)
  have "fci_loop ?buf m (length pre + 4) (length pre + 4 * length (e # es)) =
      Some (map (\<lambda>(pid, blp). \<lparr> ni_media_ssrc = m, ni_pid = pid, ni_blp = blp \<rparr>) es)"
    using Cons.IH [of "pre @ be16 pid @ be16 blp"] by (simp add: e algebra_simps)
  then show ?case using r by (subst fci_loop.simps) (simp add: e)
qed

lemma parse_nack_packet:
  assumes "length es < 65534"
  shows "parse_rtcp_nack (nack_packet sender media es) =
    Some (map (\<lambda>(pid, blp). \<lparr> ni_media_ssrc = media, ni_pid = pid, ni_blp = blp \<rparr>) es)"
proof -
  let ?p = "nack_packet sender media es"
  let ?hdr = "[0x81, RTCP_PT_NACK] @ be16 (word_of_nat (2 + length es)) @ be32 sender @ be32 media"
  have p: "?p = ?hdr @ fci_bytes es @ []" by (simp add: nack_packet_def)
  have len: "length ?p = 12 + 4 * length es" by (simp add: p)
  have r: "rd8 ?p 0 = Some 0x81" "rd8 ?p 1 = Some RTCP_PT_NACK"
    by (simp_all add: rd8_def nack_packet_def)
  have w: "rd16 ?p 2 = Some (word_of_nat (2 + length es))"
    using be16_at_append [of "[0x81, RTCP_PT_NACK]"] len by (simp add: nack_packet_def numeral_2_eq_2)
  have "be32_at ?p (length ([0x81, RTCP_PT_NACK] @ be16 (word_of_nat (2 + length es)) @ be32 sender)) = media"
    using be32_at_append [of "[0x81, RTCP_PT_NACK] @ be16 (word_of_nat (2 + length es)) @ be32 sender" media]
    by (simp add: nack_packet_def)
  then have m: "rd32 ?p 8 = Some media" using len by (simp add: rd32_def)
  have u: "unat (word_of_nat (2 + length es) :: u16) = 2 + length es"
    using assms by (intro unat_word_of_nat) simp
  have f: "fci_loop ?p media 12 (12 + 4 * length es) =
      Some (map (\<lambda>(pid, blp). \<lparr> ni_media_ssrc = media, ni_pid = pid, ni_blp = blp \<rparr>) es)"
    using fci_loop_bytes [of ?hdr es "[]" media] unfolding p by simp
  have tail: "nack_loop ?p (12 + 4 * length es) = Some []"
    using len by (subst nack_loop.simps) simp
  show ?thesis
    unfolding parse_rtcp_nack_def
    by (subst nack_loop.simps) (use len r w m u f tail in \<open>simp add: Let_def algebra_simps del: add_2_eq_Suc add_2_eq_Suc'\<close>)
qed

lemma blp_bit: "(blp :: u16) AND push_bit i 1 \<noteq> 0 \<longleftrightarrow> bit blp i"
  by (simp add: and_exp_eq_0_iff_not_bit push_bit_eq_mult)

lemma expand_nack_set:
  "set (expand_nack pid blp) = insert pid {pid + (word_of_nat i + 1) | i. i < 16 \<and> bit blp i}"
  unfolding expand_nack_def blp_bit by auto

lemma nack_offset_inj:
  assumes "i < 16" "j < 16" "(word_of_nat i + 1 :: u16) = word_of_nat j + 1"
  shows "i = j"
proof -
  have "(word_of_nat i :: u16) = word_of_nat j" using assms(3) by simp
  then have "unat (word_of_nat i :: u16) = unat (word_of_nat j :: u16)" by simp
  then show ?thesis using assms(1,2) by (simp add: unat_word_of_nat)
qed

lemma nack_offset_nonzero: "i < 16 \<Longrightarrow> (word_of_nat i + 1 :: u16) \<noteq> 0"
proof
  assume "i < 16" and "(word_of_nat i + 1 :: u16) = 0"
  then have "(word_of_nat (Suc i) :: u16) = 0" by (simp add: add.commute)
  then have "unat (word_of_nat (Suc i) :: u16) = 0" by (simp only: unat_0)
  then show False using \<open>i < 16\<close> by (subst (asm) unat_word_of_nat) auto
qed

lemma expand_nack_distinct: "distinct (expand_nack pid blp)"
  unfolding expand_nack_def blp_bit
  by (auto simp: distinct_map inj_on_def nack_offset_nonzero dest: nack_offset_inj)

text \<open>
  C9: NACK handling reports exactly the lost packets. Parsing never indexes out of range, on any
  bytes. A well-formed generic NACK parses to its (pid, blp) entries, each tagged with the media
  SSRC, in order; and an entry expands to the packet \<open>pid\<close> and the packets \<open>pid + i + 1\<close> for the bits
  \<open>i\<close> set in \<open>blp\<close>, modulo 2 to the 16, without duplicates.
\<close>

theorem nack_reports_lost:
  "(\<exists>items. parse_rtcp_nack buf = Some items) \<and>
   (length es < 65534 \<longrightarrow>
      parse_rtcp_nack (nack_packet sender media es) =
        Some (map (\<lambda>(pid, blp). \<lparr> ni_media_ssrc = media, ni_pid = pid, ni_blp = blp \<rparr>) es)) \<and>
   set (expand_nack pid blp) = insert pid {pid + (word_of_nat i + 1) | i. i < 16 \<and> bit blp i} \<and>
   distinct (expand_nack pid blp)"
  using parse_nack_packet nack_loop_total expand_nack_set expand_nack_distinct
  by (auto simp: parse_rtcp_nack_def)

theorem nack_reports_lost_witness:
  "parse_rtcp_nack (nack_packet 1 2 [(65535, 3), (7, 0)]) =
     Some [\<lparr> ni_media_ssrc = 2, ni_pid = 65535, ni_blp = 3 \<rparr>, \<lparr> ni_media_ssrc = 2, ni_pid = 7, ni_blp = 0 \<rparr>] \<and>
   distinct (expand_nack 65535 3)"
  using nack_reports_lost [of _ "[(65535, 3), (7, 0)]" 1 2 65535 3] by simp

section \<open>RTX\<close>

text \<open>
  What a receiver of RFC 4588 does with an RTX packet: behind the header, its extension included, it finds the original
  sequence number and then the original payload; it puts back the sequence number, the SSRC and the type byte. There
  is no result when the packet ends before that.
\<close>

definition rtx_payload_start :: "bytes \<Rightarrow> nat option" where
  "rtx_payload_start rtx =
     (let hl = 12 + unat (rtx ! 0 AND 0x0F) * 4
      in if rtx ! 0 AND 0x10 = 0 then Some hl
         else if length rtx < hl + 4 then None
         else Some (hl + 4 + unat (be16_at rtx (hl + 2)) * 4))"

definition receive_rtx :: "u8 \<Rightarrow> u32 \<Rightarrow> bytes \<Rightarrow> bytes option" where
  "receive_rtx b1 ssrc rtx =
     (case rtx_payload_start rtx of
        None \<Rightarrow> None
      | Some start \<Rightarrow>
          if length rtx < start + 2 then None
          else Some (copy_at 8 (be32 ssrc) (copy_at 2 (take 2 (drop start rtx)) ((take start rtx)[1 := b1])) @ drop (start + 2) rtx))"

lemma undo_header:
  assumes "12 \<le> length h" and "length xs = 4" and "length ys = 2"
  shows "copy_at 8 (take 4 (drop 8 h)) (copy_at 2 (take 2 (drop 2 h))
           ((copy_at 8 xs (copy_at 2 ys (h[1 := x])))[1 := h ! 1])) = h"
  using assms by (intro nth_equalityI) (auto simp: copy_at_nth nth_list_update simp del: add_2_eq_Suc)

lemma build_rtx_unfold:
  assumes "12 + unat (p ! 0 AND 0x0F) * 4 = hl" and "hl \<le> length p"
  shows "build_rtx_packet p s q =
    copy_at 8 (be32 s) (copy_at 2 (be16 q) ((take hl p)[1 := rtx_pt_for (p ! 1 AND 0x7F)])) @
    be16 (be16_at p 2) @ drop hl p"
  using assms by (auto simp: build_rtx_packet_def Let_def)

text \<open>With the original sequence number in front of an extension of profile 0xBEDE, the profile stands where the length is read.\<close>

lemma receive_rtx_misplaced:
  assumes "12 + unat (r ! 0 AND 0x0F) * 4 = length r" "r ! 0 AND 0x10 \<noteq> 0" "4 \<le> length xs" "be16_at xs 0 = 0xBEDE"
    "length r + length xs < 65536"
  shows "receive_rtx b c (r @ be16 osn @ xs) = None"
proof -
  have pre: "(r @ ys) ! 0 = r ! 0" for ys using assms(1) by (cases r) simp_all
  have "be16_at (r @ be16 osn @ xs) (length r + 2) = 0xBEDE"
    using assms(3,4) by (simp add: be16_at_def nth_append be16_def)
  then have "rtx_payload_start (r @ be16 osn @ xs) = Some (length r + 4 + 48862 * 4)"
    using assms(1-3) by (simp add: rtx_payload_start_def pre)
  then show ?thesis using assms(5) by (simp add: receive_rtx_def)
qed



section \<open>REMB\<close>

lemma remb_loop_spec:
  "\<exists>k. remb_loop m e = (e + word_of_nat k, drop_bit k m) \<and> unat (drop_bit k m) \<le> 0x3FFFF \<and>
       (k = 0 \<or> 2 ^ (k + 17) \<le> unat m)"
proof (induction m e rule: remb_loop.induct)
  case (1 m e)
  show ?case
  proof (cases "0x3FFFF < m")
    case True
    then obtain k where k: "remb_loop (drop_bit 1 m) (e + 1) = (e + 1 + word_of_nat k, drop_bit k (drop_bit 1 m))"
      "unat (drop_bit k (drop_bit 1 m)) \<le> 0x3FFFF" "k = 0 \<or> 2 ^ (k + 17) \<le> unat (drop_bit 1 m)"
      using 1 by blast
    have big: "2 ^ 18 \<le> unat m" using True by (simp add: word_less_nat_alt)
    have half: "unat (drop_bit 1 m) = unat m div 2" by (simp add: drop_bit_Suc unat_div)
    have "2 * 2 ^ (k + 17) \<le> unat m" using k(3) big half by (cases "k = 0") auto
    then have "2 ^ (Suc k + 17) \<le> unat m" by (simp only: add_Suc power_Suc)
    moreover have "remb_loop m e = (e + word_of_nat (Suc k), drop_bit (Suc k) m)"
      using k(1) True by (subst remb_loop.simps) (simp add: add.assoc)
    ultimately show ?thesis using k(2) by (intro exI [of _ "Suc k"]) simp
  next
    case False
    then have "remb_loop m e = (e, m)" by (subst remb_loop.simps) simp
    moreover have "unat m \<le> 0x3FFFF" using False by (simp add: word_less_nat_alt)
    ultimately show ?thesis by (intro exI [of _ 0]) simp
  qed
qed

definition remb_exp :: "bytes \<Rightarrow> nat" where
  "remb_exp p = unat (p ! 17) div 4"

definition remb_mantissa :: "bytes \<Rightarrow> nat" where
  "remb_mantissa p = unat (p ! 17) mod 4 * 65536 + unat (p ! 18) * 256 + unat (p ! 19)"

lemma unat_ucast_u8: "unat (ucast (w :: u32) :: u8) = unat w mod 256"
  by (simp add: unsigned_ucast_eq take_bit_eq_mod)

lemma byte_split: "m div 65536 * 65536 + m div 256 mod 256 * 256 + m mod 256 = (m :: nat)"
proof -
  have "m div 65536 = m div 256 div 256" by (simp add: div_mult2_eq [symmetric])
  then show ?thesis
    using div_mult_mod_eq [of "m div 256" 256] div_mult_mod_eq [of m 256] by linarith
qed

lemma remb_or:
  assumes "k < 64" and "hi < 4"
  shows "unat (push_bit 2 (word_of_nat k :: u8) OR (word_of_nat hi AND 0x03)) = 4 * k + hi"
proof -
  have "(word_of_nat hi AND 0x03 :: u8) = word_of_nat hi"
    using assms(2) by (auto simp: less_Suc_eq eval_nat_numeral)
  moreover have "push_bit 2 (word_of_nat k :: u8) OR word_of_nat hi = push_bit 2 (word_of_nat k) + word_of_nat hi"
  proof (intro disjunctive_add [symmetric])
    fix n
    have "\<not> bit hi n" if "2 \<le> n"
    proof -
      have "(2 :: nat) ^ 2 \<le> 2 ^ n" using that by (intro power_increasing) auto
      then show ?thesis using assms(2) by (simp add: bit_iff_odd)
    qed
    then show "\<not> bit (push_bit 2 (word_of_nat k :: u8)) n \<or> \<not> bit (word_of_nat hi :: u8) n"
      by (cases "2 \<le> n") (auto simp: bit_push_bit_iff bit_of_nat_iff)
  qed
  moreover have "push_bit 2 (word_of_nat k :: u8) + word_of_nat hi = word_of_nat (4 * k + hi)"
    by (simp add: push_bit_eq_mult)
  ultimately show ?thesis using assms by (simp only:) (rule unat_word_of_nat, simp)
qed

lemma remb_byte17:
  assumes "k < 64" and "unat m < 0x40000"
  shows "unat (push_bit 2 (word_of_nat k :: u8) OR (ucast (drop_bit 16 (m :: u32)) AND 0x03)) =
         4 * k + unat m div 65536"
proof -
  define hi where "hi = unat m div 65536"
  have "hi < 4" using assms(2) by (simp add: hi_def)
  have "(ucast (drop_bit 16 m) :: u8) = word_of_nat hi"
    by (rule word_unat_eq_iff [THEN iffD2])
      (use \<open>hi < 4\<close> in \<open>simp add: unat_ucast_u8 drop_bit_eq_div unat_div hi_def unat_of_nat take_bit_eq_mod\<close>)
  then show ?thesis unfolding hi_def [symmetric] by (simp add: remb_or assms(1) \<open>hi < 4\<close>)
qed

lemma encode_remb_spec:
  obtains k where "encode_remb_bitrate bps = (word_of_nat k, ucast (drop_bit k bps))"
    "unat (drop_bit k bps) \<le> 0x3FFFF" "k \<le> 46" "k = 0 \<or> 2 ^ (k + 17) \<le> unat bps"
proof -
  obtain k where k: "remb_loop bps 0 = (0 + word_of_nat k, drop_bit k bps)"
    "unat (drop_bit k bps) \<le> 0x3FFFF" "k = 0 \<or> 2 ^ (k + 17) \<le> unat bps"
    using remb_loop_spec [of bps 0] by blast
  have "k \<le> 46"
  proof (rule ccontr)
    assume "\<not> k \<le> 46"
    then have "(2 :: nat) ^ 64 \<le> 2 ^ (k + 17)" by (intro power_increasing) auto
    moreover have "unat bps < 2 ^ 64" using unsigned_less [of bps] by simp
    ultimately show False using k(3) \<open>\<not> k \<le> 46\<close> by (cases "k = 0") auto
  qed
  then show thesis using that k by (simp add: encode_remb_bitrate_def)
qed

text \<open>
  The REMB builder announces the requested bandwidth. The packet is a well-formed 24-byte block
  for the media SSRC; its 6-bit exponent and 18-bit mantissa decode to the bitrate rounded down to a
  multiple of 2 to the exponent, exactly for bitrates below 2 to the 18, and otherwise with at least
  18 significant bits, for every 64-bit bitrate.
\<close>

theorem remb_announces_bitrate:
  "(let p = build_remb bps ssrc; e = remb_exp p; m = remb_mantissa p in
      length p = 24 \<and> rtcp_block p \<and> be32_at p 20 = ssrc \<and> e \<le> 46 \<and> m < 2 ^ 18 \<and>
      m * 2 ^ e \<le> unat bps \<and> unat bps < (m + 1) * 2 ^ e \<and> (e = 0 \<or> 2 ^ 17 \<le> m))"
proof -
  obtain k where k: "encode_remb_bitrate bps = (word_of_nat k, ucast (drop_bit k bps))"
    "unat (drop_bit k bps) \<le> 0x3FFFF" "k \<le> 46" "k = 0 \<or> 2 ^ (k + 17) \<le> unat bps"
    by (rule encode_remb_spec)
  define mw where "mw = (ucast (drop_bit k bps) :: u32)"
  define m where "m = unat bps div 2 ^ k"
  have m: "unat mw = m" "m < 2 ^ 18"
  proof -
    have d: "unat (drop_bit k bps) = m" unfolding unat_drop_bit_eq m_def by (rule drop_bit_eq_div)
    then show "m < 2 ^ 18" using k(2) by simp
    with d show "unat mw = m" by (simp only: mw_def unsigned_ucast_eq take_bit_eq_mod) simp
  qed
  have b17: "unat (push_bit 2 (word_of_nat k :: u8) OR (ucast (drop_bit 16 mw) AND 0x03)) =
      4 * k + m div 65536"
    using remb_byte17 [of k mw] k(3) m by simp
  have b18: "unat (ucast (drop_bit 8 mw) :: u8) = m div 256 mod 256"
    using m by (simp add: unat_ucast_u8 drop_bit_eq_div unat_div)
  have b19: "unat (ucast mw :: u8) = m mod 256"
    using m by (simp add: unat_ucast_u8)
  have p: "build_remb bps ssrc = [0x8F, 206, 0, 5, 0, 0, 0, 0, 0, 0, 0, 0, 82, 69, 77, 66, 1,
      push_bit 2 (word_of_nat k) OR (ucast (drop_bit 16 mw) AND 0x03),
      ucast (drop_bit 8 mw), ucast mw] @ be32 ssrc"
    by (simp add: build_remb_def k(1) mw_def)
  have e: "remb_exp (build_remb bps ssrc) = k"
    unfolding remb_exp_def p using b17 m(2) by simp
  have mm: "remb_mantissa (build_remb bps ssrc) = m"
    unfolding remb_mantissa_def p using b17 b18 b19 m(2) byte_split [of m] by simp
  have blk: "length (build_remb bps ssrc) = 24" "rtcp_block (build_remb bps ssrc)"
    "be32_at (build_remb bps ssrc) 20 = ssrc"
    by (simp_all add: p rtcp_block_def be16_at_def of_be16_def be32_at_def be32_def)
  have "unat bps < (m + 1) * 2 ^ k"
    using dividend_less_div_times [of "2 ^ k" "unat bps"] by (simp add: m_def algebra_simps)
  moreover have "2 ^ 17 \<le> m" if "k \<noteq> 0"
    using k(4) that div_le_mono [of "2 ^ (k + 17)" "unat bps" "2 ^ k"] by (simp add: m_def power_add)
  moreover have "m * 2 ^ k \<le> unat bps" by (simp add: m_def)
  ultimately show ?thesis using blk k(3) m(2) unfolding Let_def e mm by blast
qed

section \<open>MBCP\<close>

lemma mask_eq_self: "(st :: u8) < 32 \<Longrightarrow> st AND 0x1F = st"
proof -
  assume "st < 32"
  then have "unat st < 2 ^ 5" by (simp add: word_less_nat_alt)
  then have "unat (take_bit 5 st) = unat st" by (simp add: unsigned_take_bit_eq take_bit_nat_eq_self_iff)
  then have "take_bit 5 st = st" by (simp only: word_unat_eq_iff)
  then show ?thesis by (simp add: take_bit_eq_mask mask_eq_exp_minus_1)
qed

lemma position_zero_pad:
  "0 \<notin> set xs \<Longrightarrow> (case position (\<lambda>b. b = (0 :: u8)) (xs @ replicate n 0) of
       Some pos \<Rightarrow> take pos (xs @ replicate n 0) | None \<Rightarrow> xs @ replicate n 0) = xs"
proof -
  assume "0 \<notin> set xs"
  then have "\<forall>x\<in>set xs. x \<noteq> 0" by auto
  from position_append [OF this, of "replicate n 0"] position_None [of "\<lambda>b. b = 0" xs] this
  show ?thesis by (cases n) auto
qed

lemma length_build_mbcp:
  "length (build_mbcp_app st ssrc data) = 12 + align4 (case data of None \<Rightarrow> 0 | Some s \<Rightarrow> length s)"
  by (cases data) (simp_all add: build_mbcp_app_def Let_def align4_ge)

text \<open>An empty text is sent as no text.\<close>

definition mbcp_text :: "string option \<Rightarrow> string option" where
  "mbcp_text data = (if data = Some [] then None else data)"

lemma parse_build_mbcp:
  assumes "\<forall>s. data = Some s \<longrightarrow> utf8_string s \<and> 0 \<notin> set (bytes_of s)"
  shows "parse_mbcp_app (build_mbcp_app st ssrc data) =
    Some \<lparr> mb_subtype = st AND 0x1F, mb_ssrc = ssrc, mb_data = mbcp_text data \<rparr>"
proof -
  define db where "db = (case data of Some s \<Rightarrow> bytes_of s | None \<Rightarrow> [])"
  define n where "n = align4 (length db) - length db"
  let ?p = "build_mbcp_app st ssrc data"
  let ?lf = "word_of_nat ((12 + align4 (length db)) div 4 - 1) :: u16"
  have p: "?p = [0x80 OR (st AND 0x1F), RTCP_PT_APP] @ be16 ?lf @ be32 ssrc @ MBCP_APP_NAME @ db @ replicate n 0"
    by (simp add: build_mbcp_app_def Let_def db_def n_def)
  have z: "0 \<notin> set db" using assms by (auto simp: db_def split: option.splits)
  have "(0x80 OR (st AND 0x1F)) AND 0x1F = st AND 0x1F"
    by (simp add: bit.conj_disj_distrib2 and.assoc)
  moreover have "be32_at ?p 4 = ssrc"
    using be32_at_append [of "[0x80 OR (st AND 0x1F), RTCP_PT_APP] @ be16 ?lf" ssrc] unfolding p by simp
  moreover have "drop 12 ?p = db @ replicate n 0" "take 4 (drop 8 ?p) = MBCP_APP_NAME" "?p ! 1 = RTCP_PT_APP"
    "?p ! 0 = 0x80 OR (st AND 0x1F)" "length ?p = 12 + length db + n"
    unfolding p by (simp_all add: be16_def be32_def)
  moreover have "mbcp_text data = (if db = [] then None else from_utf8 db)"
    using assms by (auto simp: db_def mbcp_text_def from_utf8_bytes_of split: option.splits)
  moreover have "db = [] \<Longrightarrow> n = 0" by (simp add: n_def)
  ultimately show ?thesis
    using position_zero_pad [OF z, of n]
    by (auto simp: parse_mbcp_app_def Let_def simp del: length_0_conv)
qed

text \<open>
  Floor-control messages survive the wire. For every subtype and SSRC and every absent or valid
  UTF-8 text without NUL that fits the length field, the MBCP packet the server builds is one
  well-formed RTCP block, and the compound splitter that receives it finds exactly one MBCP message,
  with the same subtype, SSRC and text (an empty text arrives as none), and nothing else.
\<close>

theorem mbcp_round_trip:
  assumes "st < 32" and "\<forall>s. data = Some s \<longrightarrow> utf8_string s \<and> 0 \<notin> set (bytes_of s) \<and> length s < 262120"
  shows "rtcp_block (build_mbcp_app st ssrc data) \<and>
    split_compound_rtcp (build_mbcp_app st ssrc data) =
      Some \<lparr> nack_blocks = [], relay_blocks = [],
             mbcp_blocks = [\<lparr> mb_subtype = st, mb_ssrc = ssrc, mb_data = mbcp_text data \<rparr>],
             sr_blocks = [], rr_blocks = [] \<rparr>"
proof -
  let ?p = "build_mbcp_app st ssrc data"
  define l where "l = (case data of None \<Rightarrow> 0 | Some s \<Rightarrow> length s)"
  have l: "l < 262120" using assms(2) by (auto simp: l_def split: option.splits)
  have len: "length ?p = 12 + align4 l" by (simp add: length_build_mbcp l_def)
  have al: "align4 l < 262124" "4 dvd align4 l" using align4_less [of l] l by auto
  obtain q where q: "align4 l = 4 * q" using align4_dvd [of l] unfolding dvd_def by blast
  have f: "be16_at ?p 2 = word_of_nat (q + 2)"
  proof -
    have "(12 + 4 * q) div 4 - 1 = q + 2" by presburger
    moreover have "length (case data of None \<Rightarrow> [] | Some s \<Rightarrow> bytes_of s) = l"
      by (auto simp: l_def split: option.splits)
    ultimately show ?thesis
      using be16_at_append [of "[0x80 OR (st AND 0x1F), RTCP_PT_APP]"] q
      by (simp add: build_mbcp_app_def Let_def numeral_2_eq_2)
  qed
  have "unat (word_of_nat (q + 2) :: u16) = q + 2" using al q by (intro unat_word_of_nat) simp
  then have blk: "rtcp_block ?p" using len q by (simp add: rtcp_block_def f)
  have st: "st AND 0x1F = st" using assms(1) by (simp add: mask_eq_self)
  have b1: "?p ! 1 = RTCP_PT_APP" by (simp add: build_mbcp_app_def Let_def)
  have parse: "parse_mbcp_app ?p = Some \<lparr> mb_subtype = st, mb_ssrc = ssrc, mb_data = mbcp_text data \<rparr>"
    using parse_build_mbcp [of data st ssrc] assms(2) st by auto
  obtain res where res: "split_compound_rtcp ?p = Some res" "split_spec ?p [?p] empty_compound res"
    using split_loop_spec [of "[?p]" "[]" "[]" empty_compound] blk by (auto simp: split_compound_rtcp_def)
  have "nack_blocks res = [] \<and> relay_blocks res = [] \<and> sr_blocks res = [] \<and> rr_blocks res = [] \<and>
      mbcp_blocks res = [\<lparr> mb_subtype = st, mb_ssrc = ssrc, mb_data = mbcp_text data \<rparr>]"
    using res(2) b1 parse by (simp add: split_spec_def empty_compound_def blk_is_def map_filter_simps)
  then show ?thesis using blk res(1) by simp
qed

theorem mbcp_round_trip_witness:
  "split_compound_rtcp (build_mbcp_app 2 7 (Some ''alice'')) =
     Some \<lparr> nack_blocks = [], relay_blocks = [],
            mbcp_blocks = [\<lparr> mb_subtype = 2, mb_ssrc = 7, mb_data = Some ''alice'' \<rparr>],
            sr_blocks = [], rr_blocks = [] \<rparr>"
proof -
  have "utf8_string ''alice'' \<and> 0 \<notin> set (bytes_of ''alice'')" by (simp add: bytes_of_def)
  then show ?thesis using mbcp_round_trip [of 2 "Some ''alice''" 7] by (simp add: mbcp_text_def)
qed

end
