(* ===== verification/Twcc.thy ===== *)
theory Twcc
  imports Config
begin

text \<open>
  Transport-wide congestion control, \<open>transport/udp/twcc.rs\<close>: the header-extension parser, the ring
  buffer of arrival times and the feedback builder. Time differences are \<open>int\<close>, as the \<open>i64\<close> of the
  code: a \<open>Duration\<close> in microseconds fits it for 292,000 years. The ring is a list of the fixed
  capacity that \<open>recorder_ok\<close> keeps.
\<close>

section \<open>The header extension\<close>

function ext_loop :: "bytes \<Rightarrow> u8 \<Rightarrow> nat \<Rightarrow> nat \<Rightarrow> u16 option option" where
  "ext_loop buf extmap_id pos ext_data_end =
     (if pos < ext_data_end then
        do {
          byte \<leftarrow> rd8 buf pos;
          if byte = 0 then ext_loop buf extmap_id (pos + 1) ext_data_end
          else
            (let id = drop_bit 4 byte AND 0x0F;
                 len = unat (byte AND 0x0F) + 1
             in if id = 15 then Some None
                else if ext_data_end < pos + 1 + len then Some None
                else if id = extmap_id \<and> 2 \<le> len
                then do { twcc_seq \<leftarrow> rd16 buf (pos + 1); Some (Some twcc_seq) }
                else ext_loop buf extmap_id (pos + 1 + len) ext_data_end)
        }
      else Some None)"
  by auto
termination
  by (relation "measure (\<lambda>(buf, i, pos, e). e - pos)") auto

declare ext_loop.simps [simp del]

definition parse_twcc_seq :: "bytes \<Rightarrow> u8 \<Rightarrow> u16 option option" where
  "parse_twcc_seq buf extmap_id =
     (if length buf < RTP_HEADER_MIN_SIZE then Some None
      else if buf ! 0 AND 0x10 = 0 then Some None
      else
        (let cc = unat (buf ! 0 AND 0x0F);
             ext_offset = 12 + cc * 4
         in if length buf < ext_offset + 4 then Some None
            else do {
              profile \<leftarrow> rd16 buf ext_offset;
              ext_len_words \<leftarrow> rd16 buf (ext_offset + 2);
              if profile \<noteq> 0xBEDE then Some None
              else
                (let ext_data_start = ext_offset + 4;
                     ext_data_end = ext_data_start + unat ext_len_words * 4
                 in if length buf < ext_data_end then Some None
                    else ext_loop buf extmap_id ext_data_start ext_data_end)
            }))"

section \<open>The recorder\<close>

record arrival_entry =
  ae_twcc_seq :: u16
  ae_arrival :: instant

record twcc_recorder =
  arrivals :: "arrival_entry option list"
  tw_capacity :: nat
  pending_base_seq :: u16
  max_seq :: u16
  started :: bool
  tw_count :: u64
  base_time :: "instant option"
  fb_pkt_count :: u8

definition twcc_new :: twcc_recorder where
  "twcc_new = \<lparr> arrivals = replicate TWCC_RECORDER_CAPACITY None, tw_capacity = TWCC_RECORDER_CAPACITY,
     pending_base_seq = 0, max_seq = 0, started = False, tw_count = 0, base_time = None, fb_pkt_count = 0 \<rparr>"

definition tw_record :: "u16 \<Rightarrow> instant \<Rightarrow> twcc_recorder \<Rightarrow> twcc_recorder" where
  "tw_record twcc_seq arrival r =
     (let idx = unat twcc_seq mod tw_capacity r;
          r1 = r\<lparr> arrivals := (arrivals r)[idx := Some \<lparr> ae_twcc_seq = twcc_seq, ae_arrival = arrival \<rparr>],
                  tw_count := tw_count r + 1 \<rparr>
      in if \<not> started r1
         then r1\<lparr> started := True, pending_base_seq := twcc_seq, max_seq := twcc_seq,
                  base_time := Some arrival \<rparr>
         else
           (let diff = twcc_seq - max_seq r1
            in if 0 < diff \<and> diff < 0x8000 then r1\<lparr> max_seq := twcc_seq \<rparr> else r1))"

definition tw_get :: "twcc_recorder \<Rightarrow> u16 \<Rightarrow> arrival_entry option" where
  "tw_get r twcc_seq =
     (case arrivals r ! (unat twcc_seq mod tw_capacity r) of
        Some e \<Rightarrow> if ae_twcc_seq e = twcc_seq then Some e else None
      | None \<Rightarrow> None)"

definition advance_base :: "twcc_recorder \<Rightarrow> u16 \<Rightarrow> twcc_recorder" where
  "advance_base r new_base = r\<lparr> pending_base_seq := new_base \<rparr>"

definition pending_count :: "twcc_recorder \<Rightarrow> u16" where
  "pending_count r = (if \<not> started r then 0 else max_seq r - pending_base_seq r + 1)"

section \<open>The feedback packet\<close>

datatype packet_status = NotReceived | SmallDelta | LargeDelta

fun status_code :: "packet_status \<Rightarrow> u16" where
  "status_code NotReceived = 0"
| "status_code SmallDelta = 1"
| "status_code LargeDelta = 2"

text \<open>One chunk: seven two-bit symbols below the type bits, missing ones not received.\<close>

definition status_chunk :: "packet_status list \<Rightarrow> u16" where
  "status_chunk statuses =
     foldl (\<lambda>chunk slot. chunk OR push_bit (12 - slot * 2)
              (status_code (if slot < length statuses then statuses ! slot else NotReceived)))
       0xC000 [0..<7]"

function encode_status_chunks :: "packet_status list \<Rightarrow> u16 list" where
  "encode_status_chunks statuses =
     (if statuses = [] then [] else status_chunk statuses # encode_status_chunks (drop 7 statuses))"
  by auto
termination
  by (relation "measure length") auto

declare encode_status_chunks.simps [simp del]

definition clamp :: "int \<Rightarrow> int \<Rightarrow> int \<Rightarrow> int" where
  "clamp lo hi d = (if d < lo then lo else if hi < d then hi else d)"

text \<open>The statuses are walked with the deltas not yet used.\<close>

fun encode_recv_deltas :: "packet_status list \<Rightarrow> int list \<Rightarrow> bytes" where
  "encode_recv_deltas [] ds = []"
| "encode_recv_deltas (NotReceived # ss) ds = encode_recv_deltas ss ds"
| "encode_recv_deltas (SmallDelta # ss) (d # ds) = word_of_int (clamp 0 255 d) # encode_recv_deltas ss ds"
| "encode_recv_deltas (LargeDelta # ss) (d # ds) =
     be16 (word_of_int (clamp (- 8192) 8191 d)) @ encode_recv_deltas ss ds"
| "encode_recv_deltas (SmallDelta # ss) [] = encode_recv_deltas ss []"
| "encode_recv_deltas (LargeDelta # ss) [] = encode_recv_deltas ss []"

definition micros :: "nat \<Rightarrow> int" where
  "micros ns = int (ns div 1000)"

definition delta_250us :: "instant \<Rightarrow> instant option \<Rightarrow> instant \<Rightarrow> int" where
  "delta_250us bt prev_arrival arrival =
     (case prev_arrival of
        Some prev \<Rightarrow>
          if prev \<le> arrival then micros (elapsed arrival prev) div 250
          else - (micros (elapsed prev arrival) div 250)
      | None \<Rightarrow>
          (let offset_250us = micros (elapsed arrival bt) div 250
           in offset_250us - offset_250us div 256 * 256))"

definition status_of :: "int \<Rightarrow> packet_status" where
  "status_of d = (if 0 \<le> d \<and> d \<le> 255 then SmallDelta else LargeDelta)"

text \<open>The collecting loop: statuses, deltas of the received packets, and the first arrival.\<close>

fun fb_collect ::
  "twcc_recorder \<Rightarrow> instant \<Rightarrow> u16 list \<Rightarrow> instant option \<Rightarrow> packet_status list \<times> int list \<times> instant option" where
  "fb_collect r bt [] prev = ([], [], None)"
| "fb_collect r bt (seq # seqs) prev =
     (case tw_get r seq of
        Some entry \<Rightarrow>
          (let arrival = ae_arrival entry;
               d = delta_250us bt prev arrival
           in case fb_collect r bt seqs (Some arrival) of
                (statuses, deltas, _) \<Rightarrow> (status_of d # statuses, d # deltas, Some arrival))
      | None \<Rightarrow>
          (case fb_collect r bt seqs prev of
             (statuses, deltas, first) \<Rightarrow> (NotReceived # statuses, deltas, first)))"

definition fb_seqs :: "u16 \<Rightarrow> u16 \<Rightarrow> u16 list" where
  "fb_seqs base_seq cnt = map (\<lambda>i. base_seq + word_of_nat i) [0..<unat cnt]"

text \<open>The packet assembled from its parts.\<close>

definition fb_assemble ::
  "u32 \<Rightarrow> u16 \<Rightarrow> u16 \<Rightarrow> u32 \<Rightarrow> u8 \<Rightarrow> u16 list \<Rightarrow> bytes \<Rightarrow> bytes" where
  "fb_assemble media_ssrc base_seq cnt reference_time_24 fbc chunks delta_bytes =
     (let payload_len = 8 + length chunks * 2 + length delta_bytes;
          body_len = 12 + payload_len;
          padded_body = align4 body_len;
          need_padding = body_len < padded_body;
          total_len = 4 + padded_body;
          buf = [if need_padding then 0xAF else 0x8F, RTCP_PT_RTPFB] @
                be16 (word_of_nat (padded_body div 4)) @ be32 1 @ be32 media_ssrc @
                be16 base_seq @ be16 cnt @
                [ucast (drop_bit 16 reference_time_24 AND 0xFF),
                 ucast (drop_bit 8 reference_time_24 AND 0xFF),
                 ucast (reference_time_24 AND 0xFF), fbc] @
                concat (map be16 chunks) @ delta_bytes;
          buf' = buf @ replicate (total_len - length buf) 0
      in if need_padding
         then (let pad_count = total_len - (4 + body_len)
               in if 0 < pad_count then buf'[length buf' - 1 := word_of_nat pad_count] else buf')
         else buf')"

definition build_twcc_feedback :: "twcc_recorder \<Rightarrow> u32 \<Rightarrow> bytes option \<times> twcc_recorder" where
  "build_twcc_feedback r media_ssrc =
     (if \<not> started r \<or> pending_count r = 0 then (None, r)
      else case base_time r of
        None \<Rightarrow> (None, r)
      | Some bt \<Rightarrow>
          (let base_seq = pending_base_seq r;
               pkt_status_count = pending_count r
           in if word_of_nat TWCC_RECORDER_CAPACITY < pkt_status_count
              then (None, advance_base r (max_seq r - 100))
              else case fb_collect r bt (fb_seqs base_seq pkt_status_count) None of
                (statuses, deltas, first) \<Rightarrow>
                  (case first of
                     None \<Rightarrow> (None, r)
                   | Some first_arrival \<Rightarrow>
                       (let first_offset_250us = micros (elapsed first_arrival bt) div 250;
                            reference_time_raw = first_offset_250us div 256;
                            reference_time_24 = word_of_int reference_time_raw AND 0x00FFFFFF;
                            chunks = encode_status_chunks statuses;
                            delta_bytes = encode_recv_deltas statuses deltas
                        in (Some (fb_assemble media_ssrc base_seq pkt_status_count reference_time_24
                                    (fb_pkt_count r) chunks delta_bytes),
                            advance_base (r\<lparr> fb_pkt_count := fb_pkt_count r + 1 \<rparr>)
                              (base_seq + pkt_status_count))))))"

section \<open>Lemmas on the recorder\<close>

definition recorder_ok :: "twcc_recorder \<Rightarrow> bool" where
  "recorder_ok r \<longleftrightarrow> tw_capacity r = TWCC_RECORDER_CAPACITY \<and>
     length (arrivals r) = TWCC_RECORDER_CAPACITY \<and> (started r \<longrightarrow> base_time r \<noteq> None)"

lemma recorder_ok_new: "recorder_ok twcc_new"
  by (simp add: recorder_ok_def twcc_new_def)

lemma recorder_ok_record: "recorder_ok r \<Longrightarrow> recorder_ok (tw_record s t r)"
  by (auto simp: recorder_ok_def tw_record_def Let_def)

lemma recorder_ok_feedback: "recorder_ok r \<Longrightarrow> recorder_ok (snd (build_twcc_feedback r ssrc))"
  by (auto simp: recorder_ok_def build_twcc_feedback_def advance_base_def Let_def
      split: option.splits prod.splits)

lemma tw_get_record:
  assumes "recorder_ok r"
  shows "tw_get (tw_record s t r) s' =
    (if s' = s then Some \<lparr> ae_twcc_seq = s, ae_arrival = t \<rparr>
     else if unat s' mod TWCC_RECORDER_CAPACITY = unat s mod TWCC_RECORDER_CAPACITY then None
     else tw_get r s')"
proof -
  have arr: "arrivals (tw_record s t r) =
      (arrivals r)[unat s mod 8192 := Some \<lparr> ae_twcc_seq = s, ae_arrival = t \<rparr>]"
    and cap: "tw_capacity (tw_record s t r) = 8192" "tw_capacity r = 8192" "length (arrivals r) = 8192"
    using assms by (auto simp: recorder_ok_def tw_record_def Let_def)
  show ?thesis unfolding tw_get_def arr cap
    by (auto simp: cap nth_list_update)
qed

lemma record_started:
  "started r \<Longrightarrow> started (tw_record s t r) \<and> pending_base_seq (tw_record s t r) = pending_base_seq r"
  by (simp add: tw_record_def Let_def)

section \<open>Decoding a feedback packet\<close>

text \<open>
  What the publisher's congestion controller reads out of the packet: the symbols of the chunks and,
  for each received packet, its delta.
\<close>

definition chunk_symbols :: "u16 \<Rightarrow> u16 list" where
  "chunk_symbols c = map (\<lambda>slot. drop_bit (12 - slot * 2) c AND 3) [0..<7]"

fun decode_deltas :: "u16 list \<Rightarrow> bytes \<Rightarrow> int option list option" where
  "decode_deltas [] bs = Some []"
| "decode_deltas (s # ss) bs =
     (if s = 0 then map_option (Cons None) (decode_deltas ss bs)
      else if s = 1 then
        (case bs of b # bs' \<Rightarrow> map_option (Cons (Some (int (unat b)))) (decode_deltas ss bs') | _ \<Rightarrow> None)
      else
        (case bs of a # b # bs' \<Rightarrow> map_option (Cons (Some (sint (of_be16 a b)))) (decode_deltas ss bs')
         | _ \<Rightarrow> None))"

definition fb_base :: "bytes \<Rightarrow> u16" where "fb_base p = be16_at p 12"
definition fb_count :: "bytes \<Rightarrow> u16" where "fb_count p = be16_at p 14"
definition fb_chunks :: "bytes \<Rightarrow> nat" where "fb_chunks p = (unat (fb_count p) + 6) div 7"

definition fb_symbols :: "bytes \<Rightarrow> u16 list" where
  "fb_symbols p = take (unat (fb_count p))
     (concat (map (\<lambda>i. chunk_symbols (be16_at p (20 + 2 * i))) [0..<fb_chunks p]))"

definition fb_deltas :: "bytes \<Rightarrow> int option list option" where
  "fb_deltas p = decode_deltas (fb_symbols p) (drop (20 + 2 * fb_chunks p) p)"

text \<open>What the feedback should say of each packet: nothing, or its delta in 250 microsecond units.\<close>

fun fb_reports :: "twcc_recorder \<Rightarrow> instant \<Rightarrow> u16 list \<Rightarrow> instant option \<Rightarrow> int option list" where
  "fb_reports r bt [] prev = []"
| "fb_reports r bt (seq # seqs) prev =
     (case tw_get r seq of
        Some e \<Rightarrow> Some (delta_250us bt prev (ae_arrival e)) # fb_reports r bt seqs (Some (ae_arrival e))
      | None \<Rightarrow> None # fb_reports r bt seqs prev)"

definition report_status :: "int option \<Rightarrow> packet_status" where
  "report_status d = (case d of None \<Rightarrow> NotReceived | Some x \<Rightarrow> status_of x)"

lemma fb_collect_reports:
  "fst (fb_collect r bt seqs prev) = map report_status (fb_reports r bt seqs prev)"
  "fst (snd (fb_collect r bt seqs prev)) = List.map_filter id (fb_reports r bt seqs prev)"
  by (induction seqs arbitrary: prev)
    (simp_all add: Let_def report_status_def map_filter_simps case_prod_beta split: option.splits)

lemma fb_collect_first:
  "snd (snd (fb_collect r bt seqs prev)) = None \<longleftrightarrow> (\<forall>s\<in>set seqs. tw_get r s = None)"
  by (induction seqs arbitrary: prev) (simp_all add: Let_def case_prod_beta split: option.splits)

lemma length_fb_reports [simp]: "length (fb_reports r bt seqs prev) = length seqs"
  by (induction seqs arbitrary: prev) (auto split: option.splits)

lemma fb_reports_None_iff:
  "i < length seqs \<Longrightarrow> fb_reports r bt seqs prev ! i = None \<longleftrightarrow> tw_get r (seqs ! i) = None"
proof (induction seqs arbitrary: i prev)
  case (Cons s seqs)
  then show ?case by (cases i) (auto split: option.splits)
qed simp

lemma bit_status_code: "bit (status_code s) n \<Longrightarrow> n < 2"
  by (cases s) (auto simp: bit_1_iff bit_2_iff)

lemma bit_status_code_ge [simp]: "2 \<le> n \<Longrightarrow> \<not> bit (status_code s) n"
  using bit_status_code by fastforce

lemma pack_symbols:
  fixes v0 v1 v2 v3 v4 v5 v6 :: u16
  assumes "\<And>n. 2 \<le> n \<Longrightarrow> \<not> bit v0 n \<and> \<not> bit v1 n \<and> \<not> bit v2 n \<and> \<not> bit v3 n \<and> \<not> bit v4 n \<and>
    \<not> bit v5 n \<and> \<not> bit v6 n"
  defines "c \<equiv> 0xC000 OR push_bit 12 v0 OR push_bit 10 v1 OR push_bit 8 v2 OR push_bit 6 v3 OR
    push_bit 4 v4 OR push_bit 2 v5 OR push_bit 0 v6"
  shows "drop_bit 12 c AND 3 = v0" "drop_bit 10 c AND 3 = v1" "drop_bit 8 c AND 3 = v2"
    "drop_bit 6 c AND 3 = v3" "drop_bit 4 c AND 3 = v4" "drop_bit 2 c AND 3 = v5" "drop_bit 0 c AND 3 = v6"
proof -
  have three: "bit (3 :: u16) n \<longleftrightarrow> n < 2" for n
    using bit_mask_iff [where 'a = "16 word", of 2 n] by (auto simp: mask_eq_exp_minus_1)
  have top: "\<not> bit (0xC000 :: u16) n" if "n < 14" for n
    using that by (auto simp: less_Suc_eq eval_nat_numeral(2,3) bit_numeral_rec)
  have eq: "x AND 3 = v" if "\<And>n. 2 \<le> n \<Longrightarrow> \<not> bit v n" "bit x 0 = bit v 0" "bit x 1 = bit v 1" for x v :: u16
  proof (rule bit_word_eqI)
    fix n
    show "bit (x AND 3) n = bit v n"
      using that three [of n] by (cases "n = 0"; cases "n = 1") (auto simp: bit_and_iff)
  qed
  show "drop_bit 12 c AND 3 = v0" "drop_bit 10 c AND 3 = v1" "drop_bit 8 c AND 3 = v2"
    "drop_bit 6 c AND 3 = v3" "drop_bit 4 c AND 3 = v4" "drop_bit 2 c AND 3 = v5" "drop_bit 0 c AND 3 = v6"
    by (rule eq; use assms(1) in \<open>simp add: c_def bit_drop_bit_eq bit_or_iff bit_push_bit_iff top\<close>)+
qed

definition pad_status :: "packet_status list \<Rightarrow> nat \<Rightarrow> packet_status" where
  "pad_status ss i = (if i < length ss then ss ! i else NotReceived)"

lemma chunk_symbols_status_chunk:
  "chunk_symbols (status_chunk ss) = map (\<lambda>i. status_code (pad_status ss i)) [0..<7]"
proof -
  have up: "[0..<7] = [0, 1, 2, 3, 4, 5, 6 :: nat]" by (simp add: upt_rec)
  define v where "v = (\<lambda>i. status_code (pad_status ss i))"
  have c: "status_chunk ss = 0xC000 OR push_bit 12 (v 0) OR push_bit 10 (v 1) OR push_bit 8 (v 2) OR
      push_bit 6 (v 3) OR push_bit 4 (v 4) OR push_bit 2 (v 5) OR push_bit 0 (v 6)"
    unfolding status_chunk_def up v_def pad_status_def by (simp add: or.assoc)
  have "\<And>n. 2 \<le> n \<Longrightarrow> \<not> bit (v 0) n \<and> \<not> bit (v 1) n \<and> \<not> bit (v 2) n \<and> \<not> bit (v 3) n \<and>
      \<not> bit (v 4) n \<and> \<not> bit (v 5) n \<and> \<not> bit (v 6) n"
    by (simp add: v_def)
  note ps = pack_symbols [of "v 0" "v 1" "v 2" "v 3" "v 4" "v 5" "v 6", OF this, folded c]
  show ?thesis unfolding chunk_symbols_def up v_def [symmetric] using ps by simp
qed

lemma map_pad_status:
  "map (\<lambda>i. f (pad_status ss i)) [0..<n] = map f (take n ss @ replicate (n - length ss) NotReceived)"
  by (intro nth_equalityI) (auto simp: pad_status_def nth_append)

lemma encode_status_chunks_decode:
  "take (length ss) (concat (map chunk_symbols (encode_status_chunks ss))) = map status_code ss \<and>
   length (encode_status_chunks ss) = (length ss + 6) div 7"
proof (induction "length ss" arbitrary: ss rule: less_induct)
  case less
  show ?case
  proof (cases "ss = []")
    case True
    then show ?thesis by (subst encode_status_chunks.simps, subst encode_status_chunks.simps) simp
  next
    case False
    have e: "encode_status_chunks ss = status_chunk ss # encode_status_chunks (drop 7 ss)"
      using False by (subst encode_status_chunks.simps) simp
    have IH: "take (length (drop 7 ss)) (concat (map chunk_symbols (encode_status_chunks (drop 7 ss)))) =
        map status_code (drop 7 ss)"
      "length (encode_status_chunks (drop 7 ss)) = (length (drop 7 ss) + 6) div 7"
      using less [of "drop 7 ss"] False by auto
    have sym: "chunk_symbols (status_chunk ss) =
        map status_code (take 7 ss @ replicate (7 - length ss) NotReceived)"
      by (simp only: chunk_symbols_status_chunk map_pad_status)
    have "(length ss + 6) div 7 = Suc ((length ss - 7 + 6) div 7)"
    proof -
      have "0 < length ss" using False by simp
      show ?thesis
      proof (cases "length ss < 7")
        case True
        with \<open>0 < length ss\<close> have "(length ss + 6) div 7 = 1" by (intro div_nat_eqI) (auto simp: Suc_le_eq)
        then show ?thesis using True by simp
      next
        case False
        then obtain k where "length ss = k + 7" by (metis add.commute le_Suc_ex not_le)
        then show ?thesis by simp
      qed
    qed
    moreover have "take (length ss) (concat (map chunk_symbols (encode_status_chunks ss))) =
        map status_code ss"
    proof (cases "length ss \<le> 7")
      case True
      then show ?thesis by (simp add: e sym)
    next
      case False
      then have "take (length ss) (concat (map chunk_symbols (encode_status_chunks ss))) =
          map status_code (take 7 ss) @ map status_code (drop 7 ss)"
        using IH(1) by (simp add: e sym)
      then show ?thesis by (simp only: map_append [symmetric] append_take_drop_id)
    qed
    ultimately show ?thesis using IH(2) by (simp add: e)
  qed
qed

definition clamp_delta :: "int \<Rightarrow> int" where
  "clamp_delta d = (if 0 \<le> d \<and> d \<le> 255 then d else clamp (- 8192) 8191 d)"

lemma sint_be16_clamp:
  "sint (of_be16 (be16 (word_of_int (clamp (- 8192) 8191 d)) ! 0)
                 (be16 (word_of_int (clamp (- 8192) 8191 d)) ! Suc 0)) = clamp (- 8192) 8191 d"
  unfolding of_be16_be16
  by (simp add: sint_sbintrunc' signed_take_bit_int_eq_self clamp_def)

lemma be16_pair: "be16 w = [be16 w ! 0, be16 w ! Suc 0]"
  by (simp add: be16_def)

lemma decode_encode_deltas:
  "decode_deltas (map (status_code \<circ> report_status) ds)
     (encode_recv_deltas (map report_status ds) (List.map_filter id ds) @ rest) =
   Some (map (map_option clamp_delta) ds)"
proof (induction ds)
  case (Cons d ds)
  show ?case
  proof (cases d)
    case None
    then show ?thesis using Cons by (simp add: report_status_def map_filter_simps)
  next
    case (Some x)
    show ?thesis
    proof (cases "0 \<le> x \<and> x \<le> 255")
      case True
      then have "unat (word_of_int (clamp 0 255 x) :: u8) = nat x"
        by (simp add: clamp_def unat_eq_nat_uint take_bit_int_eq_self uint_word_of_int_eq)
      moreover have "report_status d = SmallDelta" "clamp_delta x = x"
        using True Some by (simp_all add: report_status_def status_of_def clamp_delta_def)
      ultimately show ?thesis using Cons Some True by (simp add: map_filter_simps)
    next
      case False
      let ?w = "word_of_int (clamp (- 8192) 8191 x) :: u16"
      obtain a b where "be16 ?w = [a, b]" and "sint (of_be16 a b) = clamp (- 8192) 8191 x"
        using be16_pair [of ?w] sint_be16_clamp [of x] by blast
      moreover have "report_status d = LargeDelta" "clamp_delta x = clamp (- 8192) 8191 x"
        using False Some by (auto simp: report_status_def status_of_def clamp_delta_def)
      ultimately show ?thesis using Cons Some by (simp add: map_filter_simps)
    qed
  qed
qed (simp add: map_filter_simps)

section \<open>The assembled packet\<close>

text \<open>The bytes behind the deltas: four zero bytes and the padding to a multiple of four.\<close>

definition fb_tail :: "nat \<Rightarrow> bytes" where
  "fb_tail body_len =
     (let pad = align4 body_len - body_len
      in if 0 < pad then (replicate (4 + pad) 0)[3 + pad := word_of_nat pad] else replicate 4 0)"

definition fb_head :: "nat \<Rightarrow> u32 \<Rightarrow> u16 \<Rightarrow> u16 \<Rightarrow> u32 \<Rightarrow> u8 \<Rightarrow> bytes" where
  "fb_head body_len ssrc base cnt ref fbc =
     [if body_len < align4 body_len then 0xAF else 0x8F, RTCP_PT_RTPFB] @
     be16 (word_of_nat (align4 body_len div 4)) @ be32 1 @ be32 ssrc @ be16 base @ be16 cnt @
     [ucast (drop_bit 16 ref AND 0xFF), ucast (drop_bit 8 ref AND 0xFF), ucast (ref AND 0xFF), fbc]"

lemma length_fb_head [simp]: "length (fb_head n ssrc base cnt ref fbc) = 20"
  by (simp add: fb_head_def)

lemma length_fb_tail [simp]: "length (fb_tail n) = 4 + (align4 n - n)"
  by (simp add: fb_tail_def Let_def)

lemma length_concat_be16 [simp]: "length (concat (map be16 ws)) = 2 * length ws"
  by (induction ws) auto

lemma list_update_last: "k = Suc m \<Longrightarrow> (xs @ replicate k c)[length xs + m := v] = xs @ (replicate k c)[m := v]"
  by (simp add: list_update_append)

lemma fb_assemble_eq:
  assumes "n = 20 + 2 * length chunks + length db"
  shows "fb_assemble ssrc base cnt ref fbc chunks db =
         fb_head n ssrc base cnt ref fbc @ concat (map be16 chunks) @ db @ fb_tail n"
proof -
  let ?b = "fb_head n ssrc base cnt ref fbc @ concat (map be16 chunks) @ db"
  have n: "12 + (8 + length chunks * 2 + length db) = n" using assms by simp
  have lb: "length ?b = n" using assms by simp
  have le: "n \<le> align4 n" by (rule align4_ge)
  define b where "b = ?b"
  have raw: "fb_assemble ssrc base cnt ref fbc chunks db =
      (let b' = b @ replicate (4 + align4 n - length b) 0
       in if n < align4 n
          then (if 0 < 4 + align4 n - (4 + n)
                then b'[length b' - 1 := word_of_nat (4 + align4 n - (4 + n))] else b')
          else b')"
    unfolding b_def fb_assemble_def n Let_def fb_head_def append_assoc by (rule refl)
  have "fb_assemble ssrc base cnt ref fbc chunks db = b @ fb_tail n"
  proof (cases "n < align4 n")
    case True
    then obtain d where d: "align4 n = n + Suc d" by (metis less_imp_Suc_add add_Suc_right)
    have lbn: "length b = n" using lb by (simp add: b_def)
    have r: "4 + align4 n - length b = Suc (4 + d)" "4 + align4 n - (4 + n) = Suc d"
      "align4 n - n = Suc d" "3 + Suc d = 4 + d" "4 + Suc d = Suc (4 + d)"
      using d lbn by simp_all
    have l: "length (b @ replicate (Suc (4 + d)) 0) - 1 = length b + (4 + d)" by simp
    show ?thesis
      unfolding raw Let_def fb_tail_def r l using True
      by (simp only: list_update_last if_True zero_less_Suc)
  next
    case False
    then show ?thesis using le lb unfolding raw Let_def by (simp add: fb_tail_def b_def)
  qed
  then show ?thesis by (simp add: b_def)
qed

lemma fb_head_fields:
  "be16_at (fb_head n ssrc base cnt ref fbc @ ys) 2 = word_of_nat (align4 n div 4)"
  "be16_at (fb_head n ssrc base cnt ref fbc @ ys) 12 = base"
  "be16_at (fb_head n ssrc base cnt ref fbc @ ys) 14 = cnt"
  "be32_at (fb_head n ssrc base cnt ref fbc @ ys) 8 = ssrc"
  "(fb_head n ssrc base cnt ref fbc @ ys) ! 0 = (if n < align4 n then 0xAF else 0x8F)"
  "(fb_head n ssrc base cnt ref fbc @ ys) ! 19 = fbc"
  by (simp_all add: fb_head_def be16_at_def be32_at_def be16_def be32_def)

lemma be16_at_concat:
  "i < length ws \<Longrightarrow> be16_at (concat (map be16 ws) @ ys) (2 * i) = ws ! i"
proof (induction ws arbitrary: i)
  case (Cons w ws)
  show ?case
  proof (cases i)
    case 0
    then show ?thesis using be16_at_append [of "[]" w] by simp
  next
    case (Suc j)
    then have "be16_at (be16 w @ concat (map be16 ws) @ ys) (2 + 2 * j) = be16_at (concat (map be16 ws) @ ys) (2 * j)"
      by (simp add: be16_at_def nth_append)
    then show ?thesis using Cons Suc by simp
  qed
qed simp

lemma fb_chunk_words:
  assumes "p = hdr @ concat (map be16 ws) @ ys" and "length hdr = 20"
  shows "map (\<lambda>i. be16_at p (20 + 2 * i)) [0..<length ws] = ws"
proof (rule nth_equalityI)
  fix i assume "i < length (map (\<lambda>i. be16_at p (20 + 2 * i)) [0..<length ws])"
  then have i: "i < length ws" by simp
  have "be16_at p (20 + 2 * i) = be16_at (concat (map be16 ws) @ ys) (2 * i)"
    using assms by (simp add: be16_at_def nth_append)
  then show "map (\<lambda>i. be16_at p (20 + 2 * i)) [0..<length ws] ! i = ws ! i"
    using i be16_at_concat by simp
qed simp

lemma build_fb_Some:
  assumes "build_twcc_feedback r ssrc = (Some p, r')"
  obtains bt ref rep n where "started r" "base_time r = Some bt" "pending_count r \<noteq> 0"
    "unat (pending_count r) \<le> 8192"
    "rep = fb_reports r bt (fb_seqs (pending_base_seq r) (pending_count r)) None"
    "n = 20 + 2 * length (encode_status_chunks (map report_status rep)) +
         length (encode_recv_deltas (map report_status rep) (List.map_filter id rep))"
    "p = fb_head n ssrc (pending_base_seq r) (pending_count r) ref (fb_pkt_count r) @
         concat (map be16 (encode_status_chunks (map report_status rep))) @
         encode_recv_deltas (map report_status rep) (List.map_filter id rep) @ fb_tail n"
    "r' = r\<lparr> fb_pkt_count := fb_pkt_count r + 1, pending_base_seq := pending_base_seq r + pending_count r \<rparr>"
proof -
  have st: "started r" "pending_count r \<noteq> 0" using assms by (auto simp: build_twcc_feedback_def split: if_splits)
  obtain bt where bt: "base_time r = Some bt"
    using assms st by (auto simp: build_twcc_feedback_def split: option.splits)
  have le: "unat (pending_count r) \<le> 8192"
    using assms st bt by (auto simp: build_twcc_feedback_def Let_def word_less_nat_alt split: if_splits)
  define rep where "rep = fb_reports r bt (fb_seqs (pending_base_seq r) (pending_count r)) None"
  obtain f where fc: "fb_collect r bt (fb_seqs (pending_base_seq r) (pending_count r)) None =
      (map report_status rep, List.map_filter id rep, f)"
    using fb_collect_reports [of r bt "fb_seqs (pending_base_seq r) (pending_count r)" None]
    unfolding rep_def by (metis prod.collapse)
  obtain ref where p: "p = fb_assemble ssrc (pending_base_seq r) (pending_count r) ref (fb_pkt_count r)
      (encode_status_chunks (map report_status rep))
      (encode_recv_deltas (map report_status rep) (List.map_filter id rep))"
    and r': "r' = r\<lparr> fb_pkt_count := fb_pkt_count r + 1, pending_base_seq := pending_base_seq r + pending_count r \<rparr>"
    using assms st bt le
    by (cases f) (auto simp: build_twcc_feedback_def Let_def fc advance_base_def word_less_nat_alt)
  show thesis
    by (rule that [OF st(1) bt st(2) le rep_def refl _ r']) (unfold p, rule fb_assemble_eq [OF refl])
qed

lemma length_fb_seqs [simp]: "length (fb_seqs base cnt) = unat cnt"
  by (simp add: fb_seqs_def)

lemma fb_decode:
  assumes "p = hdr @ concat (map be16 (encode_status_chunks (map report_status rep))) @
      encode_recv_deltas (map report_status rep) (List.map_filter id rep) @ tlb"
    and "length hdr = 20" and "unat (fb_count p) = length rep"
  shows "fb_symbols p = map (status_code \<circ> report_status) rep"
    and "fb_chunks p = length (encode_status_chunks (map report_status rep))"
    and "fb_deltas p = Some (map (map_option clamp_delta) rep)"
proof -
  let ?ss = "map report_status rep"
  have enc: "take (length ?ss) (concat (map chunk_symbols (encode_status_chunks ?ss))) = map status_code ?ss"
    "length (encode_status_chunks ?ss) = (length ?ss + 6) div 7"
    using encode_status_chunks_decode [of ?ss] by auto
  show ch: "fb_chunks p = length (encode_status_chunks ?ss)"
    using enc(2) assms(3) by (simp add: fb_chunks_def)
  have "map (\<lambda>i. chunk_symbols (be16_at p (20 + 2 * i))) [0..<fb_chunks p] =
      map chunk_symbols (encode_status_chunks ?ss)"
    using arg_cong [OF fb_chunk_words [OF assms(1,2)], of "map chunk_symbols"] by (simp add: ch comp_def)
  then show sy: "fb_symbols p = map (status_code \<circ> report_status) rep"
    using enc(1) assms(3) by (simp add: fb_symbols_def)
  have "drop (20 + 2 * fb_chunks p) p =
      encode_recv_deltas ?ss (List.map_filter id rep) @ tlb"
    unfolding ch by (subst assms(1)) (simp add: assms(2))
  then show "fb_deltas p = Some (map (map_option clamp_delta) rep)"
    unfolding fb_deltas_def sy using decode_encode_deltas [of rep tlb] by simp
qed

section \<open>Properties\<close>

subsection \<open>When the packets arrived\<close>

text \<open>
  The arrivals that the recorder has for a range, in its order, and the distance of two of them in whole ticks of 250
  microseconds, written on their nanoseconds; the reference time is the 24-bit field that the decoder multiplies by 64 milliseconds.
\<close>

definition received :: "twcc_recorder \<Rightarrow> u16 \<Rightarrow> nat \<Rightarrow> instant list" where
  "received r base n = List.map_filter (\<lambda>i. map_option ae_arrival (tw_get r (base + word_of_nat i))) [0..<n]"

definition ticks_between :: "instant \<Rightarrow> instant \<Rightarrow> int" where
  "ticks_between b a = (if b \<le> a then int ((a - b) div 250000) else - int ((b - a) div 250000))"

definition fb_reference :: "bytes \<Rightarrow> nat" where
  "fb_reference p = unat (p ! 16) * 65536 + unat (p ! 17) * 256 + unat (p ! 18)"

definition first_ticks :: "instant \<Rightarrow> instant \<Rightarrow> int" where
  "first_ticks bt a = int ((a - bt) mod 64000000 div 250000)"

lemma micros_ticks: "micros n div 250 = int (n div 250000)"
proof -
  have "n div 1000 div 250 = n div 250000" by (simp flip: div_mult2_eq)
  then show ?thesis unfolding micros_def by (metis of_nat_numeral zdiv_int)
qed

lemma first_ticks_eq: "n div 250000 - n div 250000 div 256 * 256 = n mod 64000000 div (250000 :: nat)"
proof -
  have "n mod (250000 * 256) = 250000 * (n div 250000 mod 256) + n mod 250000" by (rule mod_mult2_eq)
  then show ?thesis by (simp add: minus_div_mult_eq_mod)
qed

lemma delta_250us_ticks:
  "delta_250us bt (Some b) a = ticks_between b a" "delta_250us bt None a = first_ticks bt a"
proof -
  show "delta_250us bt (Some b) a = ticks_between b a"
    by (simp add: delta_250us_def ticks_between_def micros_ticks elapsed_def)
  have "int (n div 250000) - int (n div 250000) div 256 * 256 = int (n div 250000 - n div 250000 div 256 * 256)" for n :: nat
    by (simp add: of_nat_diff zdiv_int)
  then show "delta_250us bt None a = first_ticks bt a"
    unfolding delta_250us_def first_ticks_def first_ticks_eq [symmetric] by (simp add: micros_ticks elapsed_def Let_def)
qed

lemma fb_reports_ticks:
  "List.map_filter id (fb_reports r bt seqs prev) =
     (let as = List.map_filter (\<lambda>s. map_option ae_arrival (tw_get r s)) seqs
      in case prev of
           Some b \<Rightarrow> map2 ticks_between (b # as) as
         | None \<Rightarrow> (case as of [] \<Rightarrow> [] | a # as' \<Rightarrow> first_ticks bt a # map2 ticks_between as as'))"
  by (induction seqs arbitrary: prev)
    (auto simp: map_filter_simps delta_250us_ticks Let_def split: option.split list.split)

lemma fb_collect_first_arrival:
  "snd (snd (fb_collect r bt seqs prev)) =
     (case List.map_filter (\<lambda>s. map_option ae_arrival (tw_get r s)) seqs of [] \<Rightarrow> None | a # _ \<Rightarrow> Some a)"
  by (induction seqs arbitrary: prev) (auto simp: map_filter_simps Let_def case_prod_beta split: option.split)

lemma received_seqs: "received r base (unat cnt) = List.map_filter (\<lambda>s. map_option ae_arrival (tw_get r s)) (fb_seqs base cnt)"
  by (simp add: received_def fb_seqs_def List.map_filter_def filter_map comp_def)

lemma fb_head_reference:
  assumes "unat ref < 2 ^ 24"
  shows "fb_reference (fb_head n ssrc base cnt ref fbc @ ys) = unat ref"
proof -
  have byte: "unat (ucast (x AND 0xFF :: u32) :: u8) = unat x mod 256" for x :: u32
  proof -
    have "x AND 0xFF = take_bit 8 x" by (simp add: take_bit_eq_mask mask_eq_exp_minus_1)
    then have "unat (x AND 0xFF) = take_bit 8 (unat x)" by (simp only: unsigned_take_bit_eq)
    then have "unat (x AND 0xFF) = unat x mod 256" by (simp add: take_bit_eq_mod)
    then show ?thesis by (simp add: unsigned_ucast_eq take_bit_eq_mod)
  qed
  have shift: "unat (drop_bit k ref) = unat ref div 2 ^ k" for k by (simp only: unat_drop_bit_eq drop_bit_eq_div [where 'a = nat])
  have "unat ref div 65536 < 256" using assms by simp
  moreover have "unat ref = unat ref div 65536 * 65536 + unat ref div 256 mod 256 * 256 + unat ref mod 256"
  proof -
    have "unat ref mod (256 * 256) = 256 * (unat ref div 256 mod 256) + unat ref mod 256" by (rule mod_mult2_eq)
    then show ?thesis using div_mult_mod_eq [of "unat ref" 65536] by simp
  qed
  ultimately show ?thesis by (simp add: fb_reference_def fb_head_def be16_def be32_def byte shift)
qed

lemma build_fb_reference:
  assumes "build_twcc_feedback r ssrc = (Some p, r')" "base_time r = Some bt"
  obtains a as where "received r (pending_base_seq r) (unat (pending_count r)) = a # as"
    "fb_reference p = (a - bt) div 64000000 mod 2 ^ 24"
proof -
  obtain statuses deltas first where fc: "fb_collect r bt (fb_seqs (pending_base_seq r) (pending_count r)) None = (statuses, deltas, first)"
    by (metis prod.collapse)
  obtain a as where rc: "received r (pending_base_seq r) (unat (pending_count r)) = a # as" and first: "first = Some a"
    using fb_collect_first_arrival [of r bt "fb_seqs (pending_base_seq r) (pending_count r)" None] assms
    by (auto simp: fc received_seqs build_twcc_feedback_def Let_def split: if_splits list.splits)
  define ref :: u32 where "ref = word_of_int (micros (elapsed a bt) div 250 div 256) AND 0x00FFFFFF"
  have p: "p = fb_assemble ssrc (pending_base_seq r) (pending_count r) ref (fb_pkt_count r)
      (encode_status_chunks statuses) (encode_recv_deltas statuses deltas)"
    using assms by (auto simp: build_twcc_feedback_def Let_def fc first ref_def split: if_splits)
  have "micros (elapsed a bt) div 250 div 256 = int ((a - bt) div 64000000)"
  proof -
    have "(a - bt) div 250000 div 256 = (a - bt) div 64000000" by (simp flip: div_mult2_eq)
    then show ?thesis unfolding micros_ticks elapsed_def by (metis of_nat_numeral zdiv_int)
  qed
  then have "ref = take_bit 24 (word_of_nat ((a - bt) div 64000000))"
    by (simp add: ref_def take_bit_eq_mask mask_eq_exp_minus_1)
  then have "unat ref = take_bit 24 (take_bit 32 ((a - bt) div 64000000))"
    by (simp add: unsigned_take_bit_eq unsigned_of_nat)
  then have ref: "unat ref = (a - bt) div 64000000 mod 2 ^ 24" by (simp add: take_bit_eq_mod mod_mod_cancel)
  have "fb_reference p = unat ref"
    unfolding p fb_assemble_eq [OF refl] by (rule fb_head_reference) (simp add: ref)
  then show thesis using that rc ref by simp
qed

text \<open>Every delta loses less than a tick, so the reported times stray by less than a tick for each packet.\<close>

lemma clamp_delta_id: "- 8192 \<le> d \<Longrightarrow> d \<le> 8191 \<Longrightarrow> clamp_delta d = d"
  by (simp add: clamp_delta_def clamp_def)

lemma map_filter_clamp: "List.map_filter id (map (map_option f) xs) = map f (List.map_filter id xs)"
  by (induction xs) (simp_all add: map_filter_simps split: option.split)

lemma first_ticks_error:
  assumes "bt \<le> a"
  shows "\<bar>int a - (int bt + 64000000 * int ((a - bt) div 64000000) + 250000 * clamp_delta (first_ticks bt a))\<bar> \<le> 249999"
proof -
  define n where "n = a - bt"
  define q m k where qmk: "q = n div 64000000" "m = n mod 64000000" "k = m div 250000"
  have "n = 64000000 * q + m" "k \<le> 255" "250000 * k \<le> m" "m < 250000 * k + 250000" unfolding qmk by simp_all
  moreover have "int a = int bt + int n" using assms by (simp add: n_def)
  moreover have "clamp_delta (first_ticks bt a) = int k"
    using \<open>k \<le> 255\<close> by (simp add: first_ticks_def qmk n_def clamp_delta_id)
  ultimately show ?thesis unfolding n_def [symmetric] qmk(1) [symmetric] by simp
qed

lemma ticks_between_error:
  assumes "\<bar>int a - int b\<bar> < 8192 * 250000"
  shows "\<bar>int a - int b - 250000 * clamp_delta (ticks_between b a)\<bar> \<le> 249999"
proof -
  have tick: "250000 * int (n div 250000) \<le> int n \<and> int n \<le> 250000 * int (n div 250000) + 249999" for n :: nat by linarith
  have "ticks_between b a \<le> 8191 \<and> - 8191 \<le> ticks_between b a"
    using assms tick [of "a - b"] tick [of "b - a"] by (auto simp: ticks_between_def of_nat_diff)
  then show ?thesis using tick [of "a - b"] tick [of "b - a"] by (auto simp: clamp_delta_id ticks_between_def of_nat_diff)
qed

lemma reported_times_error:
  assumes "\<forall>n<length as. \<bar>int (as ! n) - int ((a # as) ! n)\<bar> < 8192 * 250000" "n \<le> length as"
  shows "\<bar>int ((a # as) ! n) - int a - 250000 * sum_list (take n (map clamp_delta (map2 ticks_between (a # as) as)))\<bar> \<le> 249999 * int n"
  using assms(2)
proof (induction n)
  case (Suc n)
  let ?xs = "map clamp_delta (map2 ticks_between (a # as) as)"
  have x: "?xs ! n = clamp_delta (ticks_between ((a # as) ! n) (as ! n))" "n < length ?xs" using Suc.prems by simp_all
  have "\<bar>int (as ! n) - int ((a # as) ! n) - 250000 * ?xs ! n\<bar> \<le> 249999"
    unfolding x(1) using assms(1) Suc.prems by (intro ticks_between_error) simp
  moreover have "sum_list (take (Suc n) ?xs) = sum_list (take n ?xs) + ?xs ! n" using x(2) by (simp add: take_Suc_conv_app_nth del: map_map)
  ultimately show ?case using Suc by (simp del: map_map)
qed simp

text \<open>
  The bound on the error grows with the number of packets because the rounding of each delta is thrown away: packets 499 microseconds apart are
  all reported 250 microseconds apart.
\<close>

lemma rounding_adds_up: "ticks_between (n * 499000) (Suc n * 499000) = 1"
  by (simp add: ticks_between_def)

text \<open>
  C11: A TWCC feedback packet tells the publisher exactly which packets arrived and when. Decoding it
  gives the recorder's pending base sequence number and count, the media SSRC and the feedback
  counter; a packet of the range is reported lost if and only if the recorder has no arrival for it. The reference time is the
  number of whole 64 milliseconds from the recorder's base time to the first arrival, modulo 2 to the 24; the first
  delta is the rest of that in ticks of 250 microseconds, and each further delta the whole ticks from the previous arrival, negative if that
  was later, limited to what its one- or two-byte form can hold. So, as long as successive arrivals are less than 2.048 seconds
  apart, the first is not before the base time and the reference time has not wrapped, the time that a decoder adds up for the n-th packet received is off by less than n ticks.
\<close>

theorem twcc_feedback_reports_arrivals:
  assumes "build_twcc_feedback r ssrc = (Some p, r')"
  shows "fb_base p = pending_base_seq r \<and> fb_count p = pending_count r \<and> be32_at p 8 = ssrc \<and>
         p ! 19 = fb_pkt_count r \<and>
         (\<exists>bt ds a as. base_time r = Some bt \<and> fb_deltas p = Some ds \<and> length ds = unat (fb_count p) \<and>
            (\<forall>i<unat (fb_count p). ds ! i = None \<longleftrightarrow> tw_get r (fb_base p + word_of_nat i) = None) \<and>
            received r (fb_base p) (unat (fb_count p)) = a # as \<and>
            fb_reference p = (a - bt) div 64000000 mod 2 ^ 24 \<and>
            List.map_filter id ds = map clamp_delta (first_ticks bt a # map2 ticks_between (a # as) as) \<and>
            (bt \<le> a \<and> (a - bt) div 64000000 < 2 ^ 24 \<and>
             (\<forall>n<length as. \<bar>int (as ! n) - int ((a # as) ! n)\<bar> < 8192 * 250000) \<longrightarrow>
             (\<forall>n\<le>length as. \<bar>int ((a # as) ! n) -
                (int bt + 64000000 * int (fb_reference p) + 250000 * sum_list (take (Suc n) (List.map_filter id ds)))\<bar>
                < 250000 * (int n + 1))))"
proof -
  obtain bt ref rep n where f: "base_time r = Some bt"
    "rep = fb_reports r bt (fb_seqs (pending_base_seq r) (pending_count r)) None"
    "p = fb_head n ssrc (pending_base_seq r) (pending_count r) ref (fb_pkt_count r) @
         concat (map be16 (encode_status_chunks (map report_status rep))) @
         encode_recv_deltas (map report_status rep) (List.map_filter id rep) @ fb_tail n"
    by (rule build_fb_Some [OF assms]) blast
  have flds: "fb_base p = pending_base_seq r" "fb_count p = pending_count r" "be32_at p 8 = ssrc"
    "p ! 19 = fb_pkt_count r"
    unfolding f(3) fb_base_def fb_count_def by (simp_all only: fb_head_fields)
  obtain a as where rc: "received r (pending_base_seq r) (unat (pending_count r)) = a # as"
    and ref: "fb_reference p = (a - bt) div 64000000 mod 2 ^ 24"
    by (rule build_fb_reference [OF assms f(1)])
  let ?ds = "map (map_option clamp_delta) rep"
  have "unat (fb_count p) = length rep" by (simp add: f(2) flds)
  from fb_decode(3) [OF f(3) length_fb_head this] have ds: "fb_deltas p = Some ?ds" .
  have lost: "?ds ! i = None \<longleftrightarrow> tw_get r (pending_base_seq r + word_of_nat i) = None"
    if "i < unat (pending_count r)" for i
    using that by (simp add: f(2) fb_reports_None_iff) (simp add: fb_seqs_def)
  have "List.map_filter id rep = first_ticks bt a # map2 ticks_between (a # as) as"
    using fb_reports_ticks [of r bt "fb_seqs (pending_base_seq r) (pending_count r)" None] rc
    unfolding f(2) received_seqs by (simp add: Let_def)
  then have ticks: "List.map_filter id ?ds = map clamp_delta (first_ticks bt a # map2 ticks_between (a # as) as)"
    by (metis (no_types, lifting) map_filter_clamp)
  have "\<bar>int ((a # as) ! n) - (int bt + 64000000 * int (fb_reference p) + 250000 * sum_list (take (Suc n) (List.map_filter id ?ds)))\<bar>
      < 250000 * (int n + 1)"
    if "bt \<le> a" "(a - bt) div 64000000 < 2 ^ 24" "\<forall>n<length as. \<bar>int (as ! n) - int ((a # as) ! n)\<bar> < 8192 * 250000" "n \<le> length as" for n
    using reported_times_error [OF that(3,4)] first_ticks_error [OF that(1)] that(2) unfolding ticks ref by simp
  then show ?thesis
    by (simp only: flds ds option.inject simp_thms) (use f(1) lost rc ref ticks in \<open>auto simp: f(2)\<close>)
qed

definition demo_rec :: twcc_recorder where
  "demo_rec = tw_record 65535 2000000 (tw_record 1 5000000 (tw_record 65534 1000000 twcc_new))"

lemma demo_rec_facts:
  "tw_get demo_rec 65534 = Some \<lparr> ae_twcc_seq = 65534, ae_arrival = 1000000 \<rparr>"
  "tw_get demo_rec 65535 = Some \<lparr> ae_twcc_seq = 65535, ae_arrival = 2000000 \<rparr>"
  "tw_get demo_rec 0 = None"
  "tw_get demo_rec 1 = Some \<lparr> ae_twcc_seq = 1, ae_arrival = 5000000 \<rparr>"
  "pending_base_seq demo_rec = 65534" "pending_count demo_rec = 4" "started demo_rec"
  "base_time demo_rec = Some 1000000"
proof -
  have three: "(- 65533 :: u16) = 3" by simp
  have ok: "recorder_ok twcc_new" "recorder_ok (tw_record 65534 1000000 twcc_new)"
    "recorder_ok (tw_record 1 5000000 (tw_record 65534 1000000 twcc_new))"
    by (simp_all add: recorder_ok_new recorder_ok_record)
  show "tw_get demo_rec 65534 = Some \<lparr> ae_twcc_seq = 65534, ae_arrival = 1000000 \<rparr>"
    "tw_get demo_rec 65535 = Some \<lparr> ae_twcc_seq = 65535, ae_arrival = 2000000 \<rparr>"
    "tw_get demo_rec 0 = None"
    "tw_get demo_rec 1 = Some \<lparr> ae_twcc_seq = 1, ae_arrival = 5000000 \<rparr>"
    unfolding demo_rec_def by (simp_all add: tw_get_record ok) (simp add: tw_get_def twcc_new_def)
  show "pending_base_seq demo_rec = 65534" "pending_count demo_rec = 4" "started demo_rec"
    "base_time demo_rec = Some 1000000"
    using three
    by (simp_all add: demo_rec_def pending_count_def tw_record_def twcc_new_def Let_def word_gt_0)
qed

lemma demo_feedback: "\<exists>p r'. build_twcc_feedback demo_rec 9 = (Some p, r')"
proof -
  have "fb_seqs 65534 4 = [65534, 65535, 0, 1]" by (simp add: fb_seqs_def upt_rec)
  then show ?thesis
    by (simp add: build_twcc_feedback_def demo_rec_facts Let_def)
qed

theorem twcc_feedback_reports_arrivals_witness:
  "\<exists>p r' ds. build_twcc_feedback demo_rec 9 = (Some p, r') \<and> fb_reference p = 0 \<and>
          fb_deltas p = Some ds \<and> ds ! 2 = None \<and> List.map_filter id ds = [0, 4, 12]"
proof -
  obtain p r' where b: "build_twcc_feedback demo_rec 9 = (Some p, r')" using demo_feedback by blast
  have "fb_seqs 65534 4 = [65534, 65535, 0, 1]" by (simp add: fb_seqs_def upt_rec)
  then have "received demo_rec 65534 4 = [1000000, 2000000, 5000000]"
    using received_seqs [of demo_rec 65534 4] by (simp add: map_filter_simps demo_rec_facts)
  moreover have wrap: "(65536 :: u16) = 0" by simp
  moreover note T = twcc_feedback_reports_arrivals [OF b]
  moreover have fld: "fb_base p = 65534" "fb_count p = 4" using T by (simp_all add: demo_rec_facts)
  moreover from T obtain bt ds a as where "base_time demo_rec = Some bt" "fb_deltas p = Some ds"
    "received demo_rec (fb_base p) (unat (fb_count p)) = a # as" "fb_reference p = (a - bt) div 64000000 mod 2 ^ 24"
    "\<forall>i<unat (fb_count p). ds ! i = None \<longleftrightarrow> tw_get demo_rec (fb_base p + word_of_nat i) = None"
    "List.map_filter id ds = map clamp_delta (first_ticks bt a # map2 ticks_between (a # as) as)" by blast
  moreover from this(5) [rule_format, of 2] have "ds ! 2 = None" using demo_rec_facts(3) fld wrap by simp
  ultimately show ?thesis using b
    by (intro exI [of _ p] exI [of _ r'] exI [of _ ds]) (auto simp: demo_rec_facts first_ticks_def ticks_between_def clamp_delta_id)
qed

subsection \<open>Feedback ranges tile the sequence space\<close>

datatype twcc_op = Rec u16 instant | Fb u32

fun tw_run :: "twcc_recorder \<Rightarrow> twcc_op list \<Rightarrow> bytes list \<times> twcc_recorder" where
  "tw_run r [] = ([], r)"
| "tw_run r (Rec s t # ops) = tw_run (tw_record s t r) ops"
| "tw_run r (Fb ssrc # ops) =
     (case build_twcc_feedback r ssrc of (out, r1) \<Rightarrow>
        (case tw_run r1 ops of (ps, r2) \<Rightarrow> ((case out of None \<Rightarrow> ps | Some p \<Rightarrow> p # ps), r2)))"

text \<open>No feedback finds more pending packets than the ring holds.\<close>

fun never_overdue :: "twcc_recorder \<Rightarrow> twcc_op list \<Rightarrow> bool" where
  "never_overdue r [] \<longleftrightarrow> True"
| "never_overdue r (Rec s t # ops) \<longleftrightarrow> never_overdue (tw_record s t r) ops"
| "never_overdue r (Fb ssrc # ops) \<longleftrightarrow>
     unat (pending_count r) \<le> TWCC_RECORDER_CAPACITY \<and> never_overdue (snd (build_twcc_feedback r ssrc)) ops"

fun tiles :: "u16 \<Rightarrow> bytes list \<Rightarrow> u16 \<Rightarrow> bool" where
  "tiles b [] b' \<longleftrightarrow> b = b'"
| "tiles b (p # ps) b' \<longleftrightarrow> fb_base p = b \<and> fb_count p \<noteq> 0 \<and> tiles (b + fb_count p) ps b'"

lemma build_fb_range:
  assumes "build_twcc_feedback r ssrc = (Some p, r')"
  shows "fb_base p = pending_base_seq r \<and> fb_count p = pending_count r \<and> fb_count p \<noteq> 0 \<and> started r \<and>
         pending_base_seq r' = fb_base p + fb_count p \<and> max_seq r' = max_seq r \<and> started r' \<and>
         arrivals r' = arrivals r \<and> base_time r' = base_time r"
  by (rule build_fb_Some [OF assms])
    (simp only: fb_base_def fb_count_def fb_head_fields, simp)

lemma build_fb_None:
  assumes "build_twcc_feedback r ssrc = (None, r')" and "unat (pending_count r) \<le> 8192"
  shows "r' = r"
  using assms by (auto simp: build_twcc_feedback_def Let_def word_less_nat_alt
      split: if_splits option.splits prod.splits)

lemma tw_run_tiles:
  "started r \<Longrightarrow> never_overdue r ops \<Longrightarrow> tw_run r ops = (ps, r') \<Longrightarrow>
     tiles (pending_base_seq r) ps (pending_base_seq r')"
proof (induction r ops arbitrary: ps rule: tw_run.induct)
  case (2 r s t ops)
  then show ?case using record_started [of r s t] by simp
next
  case (3 r ssrc ops)
  obtain out r1 where b: "build_twcc_feedback r ssrc = (out, r1)" by fastforce
  obtain ps' where run: "tw_run r1 ops = (ps', r')"
    and ps: "ps = (case out of None \<Rightarrow> ps' | Some p \<Rightarrow> p # ps')"
    using 3(4) b by (auto split: prod.splits)
  have ov: "never_overdue r1 ops" "unat (pending_count r) \<le> 8192" using 3(3) b by auto
  show ?case
  proof (cases out)
    case None
    then have "r1 = r" using build_fb_None b ov(2) by blast
    then show ?thesis using 3(1) [OF b [symmetric]] 3(2) ov(1) run ps None by simp
  next
    case (Some p)
    note rng = build_fb_range [OF b [unfolded Some]]
    then have "tiles (pending_base_seq r1) ps' (pending_base_seq r')"
      using 3(1) [OF b [symmetric]] ov(1) run by blast
    then show ?thesis using rng ps Some by auto
  qed
qed simp

text \<open>
  Every transport-wide sequence number is reported exactly once. Over any interleaving of
  recorded packets and feedback rounds, as long as no round is so late that more packets are pending
  than the ring holds, the ranges of the feedback packets follow one another without gap or overlap
  from the first pending number on, and a round that sends a packet leaves nothing pending.
\<close>

theorem twcc_feedback_tiles:
  assumes "started r" and "never_overdue r ops" and "tw_run r ops = (ps, r')"
  shows "tiles (pending_base_seq r) ps (pending_base_seq r') \<and>
         (\<forall>ssrc p r''. build_twcc_feedback r' ssrc = (Some p, r'') \<longrightarrow>
            fb_base p = pending_base_seq r' \<and> pending_base_seq r'' = max_seq r' + 1 \<and> pending_count r'' = 0)"
proof -
  have "fb_base p = pending_base_seq r' \<and> pending_base_seq r'' = max_seq r' + 1 \<and> pending_count r'' = 0"
    if "build_twcc_feedback r' ssrc = (Some p, r'')" for ssrc p r''
    using build_fb_range [OF that] by (auto simp: pending_count_def)
  then show ?thesis using tw_run_tiles [OF assms] by blast
qed

theorem twcc_feedback_tiles_witness:
  "\<exists>ps r'. tw_run demo_rec [Fb 9] = (ps, r') \<and> tiles 65534 ps (pending_base_seq r') \<and> length ps = 1"
proof -
  obtain p r' where b: "build_twcc_feedback demo_rec 9 = (Some p, r')" using demo_feedback by blast
  then have "tw_run demo_rec [Fb 9] = ([p], r')" by simp
  moreover have "never_overdue demo_rec [Fb 9]" by (simp add: demo_rec_facts)
  ultimately show ?thesis
    using twcc_feedback_tiles [of demo_rec "[Fb 9]" "[p]" r'] by (simp add: demo_rec_facts)
qed

subsection \<open>Length and padding\<close>

definition declared_padding :: "bytes \<Rightarrow> nat" where
  "declared_padding p = (if p ! 0 AND 0x20 \<noteq> 0 then unat (last p) else 0)"

definition fb_used :: "bytes \<Rightarrow> nat" where
  "fb_used p = 20 + 2 * fb_chunks p + sum_list (map unat (fb_symbols p))"

lemma length_encode_deltas:
  "length (encode_recv_deltas (map report_status ds) (List.map_filter id ds)) =
     sum_list (map (unat \<circ> status_code \<circ> report_status) ds)"
proof (induction ds)
  case (Cons d ds)
  then show ?case
    by (cases d) (simp_all add: report_status_def status_of_def map_filter_simps)
qed (simp add: map_filter_simps)

lemma sum_codes_le: "sum_list (map (unat \<circ> status_code \<circ> report_status) ds) \<le> 2 * length ds"
proof (induction ds)
  case (Cons d ds)
  have "unat (status_code s) \<le> 2" for s by (cases s) auto
  then have "unat (status_code (report_status d)) \<le> 2" by blast
  then show ?case using Cons by simp
qed simp

lemma last_fb_tail: "last (fb_tail n) = word_of_nat (align4 n - n)"
proof (cases "align4 n - n")
  case 0
  then show ?thesis by (simp add: fb_tail_def)
next
  case (Suc d)
  have "fb_tail n = (replicate (4 + Suc d) 0)[3 + Suc d := word_of_nat (Suc d)]"
    unfolding fb_tail_def Suc by (simp only: Let_def zero_less_Suc if_True)
  moreover have "last ((replicate (4 + Suc d) 0)[3 + Suc d := v]) = v" for v :: u8
    by (subst last_conv_nth) (simp_all del: replicate_Suc add: list_update_nonempty)
  ultimately show ?thesis using Suc by (simp only:)
qed

text \<open>
  The length field of a TWCC feedback packet matches its size, but four bytes of it are neither
  content nor declared padding: the packet is always four bytes longer than its header, chunks,
  deltas and the padding its last byte announces. (The two SSRCs take eight bytes, not the twelve
  that \<open>body_len\<close> counts.)
\<close>

theorem twcc_feedback_overlong:
  assumes "build_twcc_feedback r ssrc = (Some p, r')"
  shows "length p = (unat (be16_at p 2) + 1) * 4 \<and>
         length p = fb_used p + declared_padding p + 4"
proof -
  obtain bt ref rep n where f: "unat (pending_count r) \<le> 8192"
    "rep = fb_reports r bt (fb_seqs (pending_base_seq r) (pending_count r)) None"
    "n = 20 + 2 * length (encode_status_chunks (map report_status rep)) +
         length (encode_recv_deltas (map report_status rep) (List.map_filter id rep))"
    "p = fb_head n ssrc (pending_base_seq r) (pending_count r) ref (fb_pkt_count r) @
         concat (map be16 (encode_status_chunks (map report_status rep))) @
         encode_recv_deltas (map report_status rep) (List.map_filter id rep) @ fb_tail n"
    by (rule build_fb_Some [OF assms]) blast
  have cnt: "unat (fb_count p) = length rep"
    unfolding f(4) fb_count_def by (simp only: fb_head_fields) (simp add: f(2))
  have rl: "length rep \<le> 8192" using f(1,2) by simp
  note dec = fb_decode [OF f(4) length_fb_head cnt]
  have ch: "length (encode_status_chunks (map report_status rep)) = (length rep + 6) div 7"
    using encode_status_chunks_decode [of "map report_status rep"] by simp
  have used: "fb_used p = n"
    unfolding fb_used_def dec f(3) length_encode_deltas by (simp add: comp_assoc)
  have "n < 20000"
    using f(3) ch rl sum_codes_le [of rep] length_encode_deltas [of rep] div_le_mono [of "length rep + 6" 8198 7]
    by simp
  then have small: "align4 n div 4 < 2 ^ 16" using align4_less [of n] by simp
  have n_le: "n \<le> align4 n" "align4 n < n + 4" by (rule align4_ge, rule align4_less)
  have len: "length p = align4 n + 4" unfolding f(4) using f(3) n_le(1) by simp
  have fld: "be16_at p 2 = word_of_nat (align4 n div 4)" "p ! 0 = (if n < align4 n then 0xAF else 0x8F)"
    unfolding f(4) by (simp_all only: fb_head_fields)
  have "align4 n = 4 * (align4 n div 4)" using align4_dvd [of n] by (metis dvd_mult_div_cancel)
  then have "length p = (unat (be16_at p 2) + 1) * 4"
    using len unat_word_of_nat [where 'a = 16, of "align4 n div 4"] small by (simp add: fld(1))
  moreover have "last p = word_of_nat (align4 n - n)"
  proof -
    have "fb_tail n \<noteq> []" using length_fb_tail [of n] by (metis add_eq_0_iff_both_eq_0 list.size(3) zero_neq_numeral)
    then show ?thesis unfolding f(4) using last_fb_tail [of n] by (simp add: last_append)
  qed
  then have "declared_padding p = align4 n - n"
    using n_le fld(2) unat_word_of_nat [where 'a = 8, of "align4 n - n"] by (auto simp: declared_padding_def)
  ultimately show ?thesis using len used n_le by simp
qed

theorem twcc_feedback_overlong_witness:
  "\<exists>p r'. build_twcc_feedback demo_rec 9 = (Some p, r') \<and> length p = fb_used p + declared_padding p + 4"
proof -
  obtain p r' where b: "build_twcc_feedback demo_rec 9 = (Some p, r')" using demo_feedback by blast
  then show ?thesis using twcc_feedback_overlong [OF b] by blast
qed

subsection \<open>The header extension\<close>

lemma ext_loop_total: "e \<le> length buf \<Longrightarrow> \<exists>res. ext_loop buf x pos e = Some res"
proof (induction "e - pos" arbitrary: pos rule: less_induct)
  case less
  show ?case
  proof (cases "pos < e")
    case True
    let ?len = "unat (buf ! pos AND 0x0F) + 1"
    obtain r1 r2 where "ext_loop buf x (pos + 1) e = Some r1" "ext_loop buf x (pos + 1 + ?len) e = Some r2"
      using less True by (metis diff_less_mono2 less_add_one add.assoc trans_less_add1)
    then show ?thesis using True less.prems by (subst ext_loop.simps) (auto simp: Let_def rd16_def)
  next
    case False
    then show ?thesis by (subst ext_loop.simps) simp
  qed
qed

text \<open>The wire form of one-byte header elements.\<close>

definition ext_elem :: "nat \<times> bytes \<Rightarrow> bytes" where
  "ext_elem e = word_of_nat (16 * fst e + (length (snd e) - 1)) # snd e"

definition elem_ok :: "nat \<times> bytes \<Rightarrow> bool" where
  "elem_ok e \<longleftrightarrow> 1 \<le> fst e \<and> fst e \<le> 14 \<and> 1 \<le> length (snd e) \<and> length (snd e) \<le> 16"

definition ext_lookup :: "u8 \<Rightarrow> (nat \<times> bytes) list \<Rightarrow> u16 option" where
  "ext_lookup x es = map_option (\<lambda>e. be16_at (snd e) 0)
     (find (\<lambda>e. fst e = unat x \<and> 2 \<le> length (snd e)) es)"

lemma elem_byte:
  assumes "elem_ok e" and "w = (word_of_nat (16 * fst e + (length (snd e) - 1)) :: u8)"
  shows "w \<noteq> 0" "unat (drop_bit 4 w AND 0x0F) = fst e" "unat (w AND 0x0F) + 1 = length (snd e)"
proof -
  have u: "unat w = 16 * fst e + (length (snd e) - 1)"
    unfolding assms(2) using assms(1) by (intro unat_word_of_nat) (auto simp: elem_ok_def)
  have m: "unat (v AND 0x0F) = unat v mod 16" for v :: u8
    by (rule unat_and_0F)
  show "w \<noteq> 0" using u assms(1) by (auto simp: elem_ok_def)
  show "unat (w AND 0x0F) + 1 = length (snd e)"
    using m u assms(1) by (cases "length (snd e)") (simp_all add: elem_ok_def)
  have "unat (drop_bit 4 w) = fst e"
    unfolding unat_drop_bit_eq u using assms(1)
    by (cases "length (snd e)") (simp_all add: drop_bit_eq_div elem_ok_def)
  then show "unat (drop_bit 4 w AND 0x0F) = fst e" using m assms(1) by (simp add: elem_ok_def)
qed

lemma ext_loop_padding:
  "e \<le> length buf \<Longrightarrow> \<forall>i. pos \<le> i \<and> i < e \<longrightarrow> buf ! i = 0 \<Longrightarrow> ext_loop buf x pos e = Some None"
proof (induction "e - pos" arbitrary: pos rule: less_induct)
  case less
  show ?case
  proof (cases "pos < e")
    case True
    then have "ext_loop buf x (pos + 1) e = Some None" using less by simp
    then show ?thesis using True less.prems by (subst ext_loop.simps) simp
  next
    case False
    then show ?thesis by (subst ext_loop.simps) simp
  qed
qed

lemma ext_loop_elems:
  assumes "\<forall>e\<in>set es. elem_ok e"
  shows "ext_loop (pre @ concat (map ext_elem es) @ replicate k 0 @ post) x (length pre)
           (length pre + length (concat (map ext_elem es)) + k) = Some (ext_lookup x es)"
  using assms
proof (induction es arbitrary: pre)
  case Nil
  have "ext_loop (pre @ replicate k 0 @ post) x (length pre) (length pre + k) = Some None"
    by (rule ext_loop_padding) (auto simp: nth_append)
  then show ?case by (simp add: ext_lookup_def)
next
  case (Cons e es)
  define w where "w = (word_of_nat (16 * fst e + (length (snd e) - 1)) :: u8)"
  have ok: "elem_ok e" using Cons.prems by simp
  let ?rest = "concat (map ext_elem es) @ replicate k 0 @ post"
  let ?buf = "pre @ concat (map ext_elem (e # es)) @ replicate k 0 @ post"
  let ?stop = "length pre + length (concat (map ext_elem (e # es))) + k"
  have buf: "?buf = pre @ (w # snd e) @ ?rest" by (simp add: ext_elem_def w_def)
  have fin: "?stop = length pre + 1 + length (snd e) + length (concat (map ext_elem es)) + k"
    by (simp add: ext_elem_def)
  have r8: "rd8 ?buf (length pre) = Some w" unfolding buf rd8_def by simp
  have r16: "rd16 ?buf (length pre + 1) = Some (be16_at (snd e) 0)" if "2 \<le> length (snd e)"
    using that unfolding buf rd16_def by (auto simp: be16_at_def nth_append)
  have id: "drop_bit 4 w AND 0x0F = x \<longleftrightarrow> fst e = unat x" "drop_bit 4 w AND 0x0F \<noteq> 15"
    using elem_byte(2) [OF ok w_def] ok by (auto simp: word_unat_eq_iff elem_ok_def)
  have IH: "ext_loop ?buf x (length pre + 1 + length (snd e)) ?stop = Some (ext_lookup x es)"
    using Cons.IH [of "pre @ w # snd e"] Cons.prems unfolding buf fin by (simp add: add.assoc)
  have pe: "length pre < ?stop" unfolding fin by simp
  have ne: "\<not> ?stop < length pre + 1 + length (snd e)" unfolding fin by simp
  show ?case
  proof (cases "fst e = unat x \<and> 2 \<le> length (snd e)")
    case True
    then show ?thesis
      using r8 r16 id ne pe elem_byte(1,3) [OF ok w_def]
      by (subst ext_loop.simps) (simp add: Let_def ext_lookup_def)
  next
    case False
    then show ?thesis
      using r8 id ne pe elem_byte(1,3) [OF ok w_def] IH
      by (subst ext_loop.simps) (auto simp: Let_def ext_lookup_def)
  qed
qed

lemma parse_twcc_seq_total: "\<exists>res. parse_twcc_seq buf x = Some res"
  by (auto simp: parse_twcc_seq_def Let_def rd16_def intro: ext_loop_total)

text \<open>An RTP packet with a one-byte header extension.\<close>

definition ext_packet :: "u8 \<Rightarrow> bytes \<Rightarrow> bytes \<Rightarrow> (nat \<times> bytes) list \<Rightarrow> nat \<Rightarrow> bytes \<Rightarrow> bytes" where
  "ext_packet b0 hdr csrcs es k payload =
     (let body = concat (map ext_elem es) @ replicate k 0
      in b0 # hdr @ csrcs @ be16 0xBEDE @ be16 (word_of_nat (length body div 4)) @ body @ payload)"

lemma parse_ext_packet:
  assumes "\<forall>e\<in>set es. elem_ok e" and "b0 AND 0x10 \<noteq> 0" and "length hdr = 11"
    and "length csrcs = unat (b0 AND 0x0F) * 4"
    and "length (concat (map ext_elem es)) + k = 4 * n" and "n < 65536"
  shows "parse_twcc_seq (ext_packet b0 hdr csrcs es k payload) x = Some (ext_lookup x es)"
proof -
  define pre0 where "pre0 = b0 # hdr @ csrcs"
  define body where "body = concat (map ext_elem es) @ replicate k 0"
  let ?p = "ext_packet b0 hdr csrcs es k payload"
  let ?off = "12 + unat (b0 AND 0x0F) * 4"
  have lb: "length body = 4 * n" using assms(5) by (simp add: body_def)
  have p: "?p = pre0 @ be16 0xBEDE @ be16 (word_of_nat n) @ body @ payload"
    using lb by (simp add: ext_packet_def Let_def pre0_def body_def)
  have l0: "length pre0 = ?off" using assms(3,4) by (simp add: pre0_def)
  have prof: "be16_at ?p ?off = 0xBEDE" unfolding p l0 [symmetric] by (rule be16_at_append)
  have lenw: "be16_at ?p (?off + 2) = word_of_nat n"
    using be16_at_append [of "pre0 @ be16 0xBEDE" "word_of_nat n" "body @ payload"] unfolding p l0 [symmetric]
    by simp
  have un: "unat (word_of_nat n :: u16) = n" using assms(6) by (intro unat_word_of_nat) simp
  have lp: "length ?p = ?off + 4 + 4 * n + length payload" unfolding p using l0 lb by simp
  have p0: "?p ! 0 = b0" by (simp add: p pre0_def)
  have "ext_loop ?p x (?off + 4) (?off + 4 + n * 4) = Some (ext_lookup x es)"
    using ext_loop_elems [OF assms(1), of "pre0 @ be16 0xBEDE @ be16 (word_of_nat n)" k payload x] l0 assms(5)
    unfolding p body_def by (simp add: add.assoc mult.commute)
  then show ?thesis
    unfolding parse_twcc_seq_def p0 Let_def using lp prof lenw un assms(2) by simp
qed

text \<open>
  The transport-wide sequence number is read correctly from the RTP header extension. The parser
  never indexes out of range, on any bytes. On a well-formed packet with a one-byte header extension
  it skips the CSRCs, all elements with other identifiers and the padding, and returns the first two
  bytes of the first element that bears the wanted identifier (and has at least two bytes), or
  nothing if there is none.
\<close>

theorem twcc_seq_parsed:
  "(\<exists>res. parse_twcc_seq buf x = Some res) \<and>
   ((\<forall>e\<in>set es. elem_ok e) \<and> b0 AND 0x10 \<noteq> 0 \<and> length hdr = 11 \<and>
    length csrcs = unat (b0 AND 0x0F) * 4 \<and>
    length (concat (map ext_elem es)) + k = 4 * n \<and> n < 65536 \<longrightarrow>
    parse_twcc_seq (ext_packet b0 hdr csrcs es k payload) x = Some (ext_lookup x es))"
  using parse_ext_packet parse_twcc_seq_total by blast

theorem twcc_seq_parsed_witness:
  "parse_twcc_seq (ext_packet 0x90 (replicate 11 0) [] [(3, [7]), (6, [1, 2])] 3 [5]) 6 = Some (Some 258)"
proof -
  have "ext_lookup 6 [(3, [7]), (6, [1, 2])] = Some 258"
    by (simp add: ext_lookup_def be16_at_def of_be16_def)
  then show ?thesis
    using twcc_seq_parsed [where x = 6 and es = "[(3, [7]), (6, [1, 2])]" and ?b0.0 = "0x90" and
        hdr = "replicate 11 0" and csrcs = "[]" and k = 3 and n = 2 and payload = "[5]"]
    by (simp add: elem_ok_def ext_elem_def)
qed

end
