(* ===== verification/Terminator.thy ===== *)
theory Terminator
  imports Config
begin

text \<open>
  The RTCP terminator, \<open>transport/udp/rtcp_terminator.rs\<close>: reception statistics of one publisher
  SSRC (RFC 3550 A.1, A.3, A.8), receiver reports built from them, send statistics, and the
  translation of a publisher's sender report for a subscriber.

  The jitter is an \<open>f64\<close>; the model takes the floating-point operations as a record \<open>f64_ops\<close> over
  an arbitrary type, so nothing depends on rounding. Plain \<open>+=\<close> on counters wraps as in a release
  build. Products of milliseconds and clock rates are \<open>int\<close>, which an \<open>i64\<close> holds for any real clock.
\<close>

section \<open>Reception statistics\<close>

record 'f f64_ops =
  f_zero :: 'f
  f_of_i64 :: "int \<Rightarrow> 'f"
  f_add :: "'f \<Rightarrow> 'f \<Rightarrow> 'f"
  f_sub :: "'f \<Rightarrow> 'f \<Rightarrow> 'f"
  f_div16 :: "'f \<Rightarrow> 'f"
  f_to_u32 :: "'f \<Rightarrow> u32"

record 'f recv_stats =
  rs_ssrc :: u32
  rs_clock_rate :: u32
  rs_max_seq :: u16
  rs_cycles :: u32
  rs_base_seq :: u32
  rs_bad_seq :: u32
  rs_received :: u32
  rs_expected_prior :: u32
  rs_received_prior :: u32
  rs_jitter :: 'f
  rs_last_transit :: int
  rs_last_sr_ntp_middle :: u32
  rs_last_sr_received_at :: "instant option"
  rs_initialized :: bool
  rs_seq_probation :: u32

definition recv_new :: "'f f64_ops \<Rightarrow> u32 \<Rightarrow> u32 \<Rightarrow> 'f recv_stats" where
  "recv_new F ssrc clock_rate =
     \<lparr> rs_ssrc = ssrc, rs_clock_rate = clock_rate, rs_max_seq = 0, rs_cycles = 0, rs_base_seq = 0,
       rs_bad_seq = 0, rs_received = 0, rs_expected_prior = 0, rs_received_prior = 0,
       rs_jitter = f_zero F, rs_last_transit = 0, rs_last_sr_ntp_middle = 0,
       rs_last_sr_received_at = None, rs_initialized = False,
       rs_seq_probation = RTP_SEQ_MIN_SEQUENTIAL \<rparr>"

definition init_seq :: "u16 \<Rightarrow> 'f recv_stats \<Rightarrow> 'f recv_stats" where
  "init_seq seq s =
     s\<lparr> rs_base_seq := ucast seq, rs_max_seq := seq, rs_bad_seq := ucast seq + 1, rs_cycles := 0,
        rs_received := 0, rs_received_prior := 0, rs_expected_prior := 0 \<rparr>"

definition update_jitter :: "'f f64_ops \<Rightarrow> u32 \<Rightarrow> u64 \<Rightarrow> 'f recv_stats \<Rightarrow> 'f recv_stats" where
  "update_jitter F rtp_ts arrival_ms s =
     (let arrival_rtp = int (unat arrival_ms) * int (unat (rs_clock_rate s)) div 1000;
          transit = arrival_rtp - int (unat rtp_ts);
          s1 = (if rs_last_transit s \<noteq> 0
                then (let d = f_of_i64 F \<bar>transit - rs_last_transit s\<bar>
                      in s\<lparr> rs_jitter := f_add F (rs_jitter s) (f_div16 F (f_sub F d (rs_jitter s))) \<rparr>)
                else s)
      in s1\<lparr> rs_last_transit := transit \<rparr>)"

text \<open>\<open>self.received += 1; self.update_jitter(rtp_ts, arrival_ms)\<close>\<close>

definition count_packet :: "'f f64_ops \<Rightarrow> u32 \<Rightarrow> u64 \<Rightarrow> 'f recv_stats \<Rightarrow> 'f recv_stats" where
  "count_packet F rtp_ts arrival_ms s =
     update_jitter F rtp_ts arrival_ms (s\<lparr> rs_received := rs_received s + 1 \<rparr>)"

definition recv_update :: "'f f64_ops \<Rightarrow> u16 \<Rightarrow> u32 \<Rightarrow> u64 \<Rightarrow> 'f recv_stats \<Rightarrow> 'f recv_stats" where
  "recv_update F seq rtp_ts arrival_ms s =
     (if \<not> rs_initialized s then
        count_packet F rtp_ts arrival_ms
          ((init_seq seq s)\<lparr> rs_initialized := True, rs_seq_probation := RTP_SEQ_MIN_SEQUENTIAL - 1 \<rparr>)
      else if 0 < rs_seq_probation s then
        (if seq = rs_max_seq s + 1 then
           (let s1 = s\<lparr> rs_seq_probation := rs_seq_probation s - 1, rs_max_seq := seq \<rparr>
            in if rs_seq_probation s1 = 0
               then count_packet F rtp_ts arrival_ms (init_seq seq s1)
               else s1\<lparr> rs_received := rs_received s1 + 1 \<rparr>)
         else
           s\<lparr> rs_seq_probation := RTP_SEQ_MIN_SEQUENTIAL - 1, rs_max_seq := seq,
              rs_received := rs_received s + 1 \<rparr>)
      else
        (let udelta = seq - rs_max_seq s
         in if udelta < RTP_SEQ_MAX_DROPOUT then
              count_packet F rtp_ts arrival_ms
                (s\<lparr> rs_cycles := (if seq < rs_max_seq s then rs_cycles s + 65536 else rs_cycles s),
                    rs_max_seq := seq \<rparr>)
            else if udelta \<le> 65535 - RTP_SEQ_MAX_MISORDER then
              (if ucast seq = rs_bad_seq s
               then count_packet F rtp_ts arrival_ms (init_seq seq s)
               else s\<lparr> rs_bad_seq := ucast seq + 1 \<rparr>)
            else count_packet F rtp_ts arrival_ms s))"

definition on_sr_received :: "instant \<Rightarrow> u32 \<Rightarrow> u32 \<Rightarrow> 'f recv_stats \<Rightarrow> 'f recv_stats" where
  "on_sr_received now ntp_ts_hi ntp_ts_lo s =
     s\<lparr> rs_last_sr_ntp_middle := push_bit 16 (ntp_ts_hi AND 0xFFFF) OR drop_bit 16 ntp_ts_lo,
        rs_last_sr_received_at := Some now \<rparr>"

section \<open>Receiver reports\<close>

record rr_report_block =
  rb_ssrc :: u32
  rb_fraction_lost :: u8
  rb_cumulative_lost :: u32
  rb_extended_highest_seq :: u32
  rb_jitter :: u32
  rb_last_sr :: u32
  rb_delay_since_last_sr :: u32

text \<open>The interval since the last sender report in units of 1/65536 seconds.\<close>

definition dlsr_of :: "nat \<Rightarrow> u32" where
  "dlsr_of ns =
     (let secs = word_of_nat (ns div 1000000000);
          frac = word_of_nat (ns mod 1000000000 * 65536 div 1000000000)
      in secs * 65536 + frac)"

definition build_rr_block :: "'f f64_ops \<Rightarrow> instant \<Rightarrow> 'f recv_stats \<Rightarrow> rr_report_block \<times> 'f recv_stats" where
  "build_rr_block F now s =
     (let extended_max = rs_cycles s + ucast (rs_max_seq s);
          expected = extended_max - rs_base_seq s + 1;
          lost = (if rs_received s < expected then expected - rs_received s else 0);
          expected_interval = expected - rs_expected_prior s;
          received_interval = rs_received s - rs_received_prior s;
          lost_interval = (if received_interval < expected_interval
                           then expected_interval - received_interval else 0);
          fraction = (if 0 < expected_interval
                      then (ucast ((ucast lost_interval :: u64) * 256 div ucast expected_interval) :: u8)
                      else 0);
          cum_lost = min lost 0x7FFFFF;
          dlsr = (case rs_last_sr_received_at s of None \<Rightarrow> 0 | Some t \<Rightarrow> dlsr_of (elapsed now t))
      in (\<lparr> rb_ssrc = rs_ssrc s, rb_fraction_lost = fraction, rb_cumulative_lost = cum_lost,
            rb_extended_highest_seq = extended_max, rb_jitter = f_to_u32 F (rs_jitter s),
            rb_last_sr = rs_last_sr_ntp_middle s, rb_delay_since_last_sr = dlsr \<rparr>,
          s\<lparr> rs_expected_prior := expected, rs_received_prior := rs_received s \<rparr>))"

definition rr_block_bytes :: "rr_report_block \<Rightarrow> bytes" where
  "rr_block_bytes b =
     (let cum = rb_cumulative_lost b AND 0x00FFFFFF
      in be32 (rb_ssrc b) @
         [rb_fraction_lost b, ucast (drop_bit 16 cum AND 0xFF), ucast (drop_bit 8 cum AND 0xFF), ucast (cum AND 0xFF)] @
         be32 (rb_extended_highest_seq b) @ be32 (rb_jitter b) @ be32 (rb_last_sr b) @
         be32 (rb_delay_since_last_sr b))"

definition build_receiver_report :: "u32 \<Rightarrow> rr_report_block list \<Rightarrow> bytes" where
  "build_receiver_report sender_ssrc blocks =
     (let rc = min (length blocks) 31;
          total_len = 8 + 24 * rc;
          length_field = total_len div 4 - 1
      in [0x80 OR word_of_nat rc, RTCP_PT_RR] @ be16 (word_of_nat length_field) @ be32 sender_ssrc @
         concat (map rr_block_bytes (take rc blocks)))"

section \<open>Sender reports\<close>

record send_stats =
  ss_ssrc :: u32
  ss_packets_sent :: u32
  ss_bytes_sent :: u32
  ss_last_rtp_ts :: u32
  ss_last_send_time :: "instant option"
  ss_clock_rate :: u32

definition send_new :: "u32 \<Rightarrow> u32 \<Rightarrow> send_stats" where
  "send_new ssrc clock_rate =
     \<lparr> ss_ssrc = ssrc, ss_packets_sent = 0, ss_bytes_sent = 0, ss_last_rtp_ts = 0,
       ss_last_send_time = None, ss_clock_rate = clock_rate \<rparr>"

definition on_rtp_sent :: "instant \<Rightarrow> u32 \<Rightarrow> nat \<Rightarrow> send_stats \<Rightarrow> send_stats" where
  "on_rtp_sent now rtp_ts payload_len s =
     s\<lparr> ss_packets_sent := ss_packets_sent s + 1, ss_bytes_sent := ss_bytes_sent s + word_of_nat payload_len,
        ss_last_rtp_ts := rtp_ts, ss_last_send_time := Some now \<rparr>"

text \<open>\<open>unix_ns\<close> is the wall clock in nanoseconds since the Unix epoch.\<close>

definition wallclock_to_ntp :: "nat \<Rightarrow> u32 \<times> u32" where
  "wallclock_to_ntp unix_ns =
     (let ntp_secs = unix_ns div 1000000000 + 2208988800;
          ntp_frac = unix_ns mod 1000000000 * 2 ^ 32 div 1000000000
      in (word_of_nat ntp_secs, word_of_nat ntp_frac))"

definition build_sender_report :: "nat \<Rightarrow> instant \<Rightarrow> send_stats \<Rightarrow> bytes" where
  "build_sender_report unix_ns now stats =
     (let (ntp_hi, ntp_lo) = wallclock_to_ntp unix_ns;
          rtp_ts = (case ss_last_send_time stats of
                      Some t \<Rightarrow> ss_last_rtp_ts stats +
                                as_millis_u32 (elapsed now t) * ss_clock_rate stats div 1000
                    | None \<Rightarrow> 0)
      in [0x80, RTCP_PT_SR] @ be16 6 @ be32 (ss_ssrc stats) @ be32 ntp_hi @ be32 ntp_lo @
         be32 rtp_ts @ be32 (ss_packets_sent stats) @ be32 (ss_bytes_sent stats))"

record sr_translation =
  tr_ssrc :: "u32 option"
  tr_rtp_ts :: "u32 option"
  tr_packet_count :: u32
  tr_octet_count :: u32

definition translate_sr :: "bytes \<Rightarrow> sr_translation \<Rightarrow> bytes option" where
  "translate_sr sr_block tr =
     (if length sr_block < 28 then None
      else if sr_block ! 1 \<noteq> RTCP_PT_SR then None
      else
        (let out1 = (case tr_ssrc tr of Some ssrc \<Rightarrow> copy_at 4 (be32 ssrc) sr_block | None \<Rightarrow> sr_block);
             out2 = (case tr_rtp_ts tr of Some ts \<Rightarrow> copy_at 16 (be32 ts) out1 | None \<Rightarrow> out1);
             out3 = copy_at 20 (be32 (tr_packet_count tr)) out2
         in Some (copy_at 24 (be32 (tr_octet_count tr)) out3)))"

definition parse_sr_ntp :: "bytes \<Rightarrow> (u32 \<times> u32 \<times> u32) option" where
  "parse_sr_ntp sr_block =
     (if length sr_block < 28 then None
      else if sr_block ! 1 \<noteq> RTCP_PT_SR then None
      else Some (be32_at sr_block 4, be32_at sr_block 8, be32_at sr_block 12))"

section \<open>Unwrapped sequence numbers\<close>

text \<open>
  The abstract view of the statistics once the source is synchronised: the sequence number it
  started with, the highest one seen, both unwrapped, and the number of packets counted.
\<close>

definition tracks :: "nat \<Rightarrow> nat \<Rightarrow> nat \<Rightarrow> 'f recv_stats \<Rightarrow> bool" where
  "tracks x0 m n s \<longleftrightarrow>
     rs_initialized s \<and> rs_seq_probation s = 0 \<and> x0 < 65536 \<and> x0 \<le> m \<and>
     rs_base_seq s = word_of_nat x0 \<and> rs_max_seq s = word_of_nat m \<and>
     rs_cycles s = word_of_nat (65536 * (m div 65536)) \<and> rs_received s = word_of_nat n \<and>
     rs_expected_prior s = 0 \<and> rs_received_prior s = 0"

fun in_window :: "nat \<Rightarrow> nat list \<Rightarrow> bool" where
  "in_window m [] \<longleftrightarrow> True"
| "in_window m (x # xs) \<longleftrightarrow> m \<le> x + 100 \<and> x < m + 3000 \<and> in_window (max m x) xs"

lemma update_jitter_fields [simp]:
  "rs_ssrc (update_jitter F ts a s) = rs_ssrc s"
  "rs_max_seq (update_jitter F ts a s) = rs_max_seq s" "rs_cycles (update_jitter F ts a s) = rs_cycles s"
  "rs_base_seq (update_jitter F ts a s) = rs_base_seq s" "rs_bad_seq (update_jitter F ts a s) = rs_bad_seq s"
  "rs_received (update_jitter F ts a s) = rs_received s"
  "rs_expected_prior (update_jitter F ts a s) = rs_expected_prior s"
  "rs_received_prior (update_jitter F ts a s) = rs_received_prior s"
  "rs_initialized (update_jitter F ts a s) = rs_initialized s"
  "rs_seq_probation (update_jitter F ts a s) = rs_seq_probation s"
  by (simp_all add: update_jitter_def Let_def)

lemma tracks_count:
  "tracks x0 m n s \<Longrightarrow> tracks x0 m (Suc n) (count_packet F ts a s)"
  by (simp add: tracks_def count_packet_def add.commute)

lemma seq_diff:
  "m \<le> x \<Longrightarrow> (word_of_nat x - word_of_nat m :: u16) = word_of_nat (x - m)"
  by (simp add: of_nat_diff)

lemma unat_u16: "unat (word_of_nat x :: u16) = x mod 65536"
  by (simp add: unat_of_nat take_bit_eq_mod)

lemma tracks_forward:
  assumes "tracks x0 m n s" and "m \<le> x" "x < m + 3000"
  shows "tracks x0 x (Suc n) (recv_update F (word_of_nat x) ts a s)"
proof -
  have ud: "(word_of_nat x - rs_max_seq s) < RTP_SEQ_MAX_DROPOUT"
  proof -
    have "rs_max_seq s = word_of_nat m" using assms(1) by (simp add: tracks_def)
    then have "unat (word_of_nat x - rs_max_seq s) = x - m"
      using assms(2,3) by (simp only: seq_diff unat_u16) simp
    then show ?thesis using assms(2,3) by (simp add: word_less_nat_alt)
  qed
  have lt: "(word_of_nat x :: u16) < rs_max_seq s \<longleftrightarrow> x mod 65536 < m mod 65536"
    using assms(1) by (simp add: tracks_def word_less_nat_alt unat_u16)
  have cyc: "x div 65536 = (if x mod 65536 < m mod 65536 then m div 65536 + 1 else m div 65536)"
  proof -
    define a b c e where abce: "a = m div 65536" "b = m mod 65536" "c = x div 65536" "e = x mod 65536"
    then have d: "m = 65536 * a + b" "x = 65536 * c + e" and bd: "b < 65536" "e < 65536" by simp_all
    then have "c \<le> a + 1" "a \<le> c" using assms(2,3) by linarith+
    then consider "c = a" | "c = a + 1" by linarith
    then have "c = (if e < b then a + 1 else a)" by cases (use assms(2,3) d bd in auto)
    then show ?thesis by (simp only: abce)
  qed
  let ?s = "s\<lparr> rs_cycles := (if (word_of_nat x :: u16) < rs_max_seq s then rs_cycles s + 65536 else rs_cycles s),
               rs_max_seq := word_of_nat x \<rparr>"
  have up: "recv_update F (word_of_nat x) ts a s = count_packet F ts a ?s"
    using assms(1) ud by (simp add: recv_update_def Let_def tracks_def)
  have "tracks x0 x n ?s"
    using assms lt cyc unfolding tracks_def by (auto simp: distrib_left)
  then show ?thesis unfolding up by (rule tracks_count)
qed

lemma tracks_late:
  assumes "tracks x0 m n s" and "x < m" "m \<le> x + 100"
  shows "tracks x0 m (Suc n) (recv_update F (word_of_nat x) ts a s)"
proof -
  define d where "d = m - x"
  have d: "0 < d" "d \<le> 100" using assms(2,3) by (auto simp: d_def)
  have "(word_of_nat x - word_of_nat m :: u16) = word_of_nat (65536 - d)"
  proof -
    have "(word_of_nat x :: u16) = word_of_nat m - word_of_nat d" using assms(2) by (simp add: d_def of_nat_diff)
    moreover have "(word_of_nat (65536 - d) :: u16) = - word_of_nat d"
      using d by (simp add: of_nat_diff)
    ultimately show ?thesis by simp
  qed
  moreover have "unat (word_of_nat (65536 - d) :: u16) = 65536 - d" using d by (simp only: unat_u16) simp
  ultimately have "unat (word_of_nat x - rs_max_seq s) = 65536 - d"
    using assms(1) by (simp only: tracks_def)
  then have "\<not> (word_of_nat x - rs_max_seq s) < RTP_SEQ_MAX_DROPOUT"
    "\<not> (word_of_nat x - rs_max_seq s) \<le> 65535 - RTP_SEQ_MAX_MISORDER"
    using d by (simp_all add: word_less_nat_alt word_le_nat_alt)
  then have "recv_update F (word_of_nat x) ts a s = count_packet F ts a s"
    using assms(1) by (simp add: recv_update_def Let_def tracks_def)
  then show ?thesis using tracks_count [OF assms(1)] by simp
qed

definition recv_run :: "'f f64_ops \<Rightarrow> (nat \<times> u32 \<times> u64) list \<Rightarrow> 'f recv_stats \<Rightarrow> 'f recv_stats" where
  "recv_run F ps s = foldl (\<lambda>s (x, ts, a). recv_update F (word_of_nat x) ts a s) s ps"

lemma tracks_run:
  "tracks x0 m n s \<Longrightarrow> in_window m (map fst ps) \<Longrightarrow>
     tracks x0 (foldl max m (map fst ps)) (n + length ps) (recv_run F ps s)"
proof (induction ps arbitrary: m n s)
  case Nil
  then show ?case by (simp add: recv_run_def)
next
  case (Cons p ps)
  obtain x ts a where p: "p = (x, ts, a)" by (cases p) auto
  have "tracks x0 (max m x) (Suc n) (recv_update F (word_of_nat x) ts a s)"
  proof (cases "m \<le> x")
    case True
    then show ?thesis using tracks_forward [OF Cons.prems(1) True] Cons.prems(2) p by (simp add: max_def)
  next
    case False
    then show ?thesis using tracks_late [OF Cons.prems(1)] Cons.prems(2) p by (simp add: max_def)
  qed
  from Cons.IH [OF this] show ?case using Cons.prems(2) p by (simp add: recv_run_def)
qed

lemma tracks_sync:
  assumes "1 \<le> x0" "x0 < 65536"
  shows "tracks x0 x0 1 (recv_run F [(x0 - 1, ts1, a1), (x0, ts2, a2)] (recv_new F ssrc rate))"
proof -
  have s: "(word_of_nat x0 :: u16) = word_of_nat (x0 - 1) + 1" using assms(1) by (simp add: of_nat_diff)
  have b: "(ucast (word_of_nat x0 :: u16) :: u32) = word_of_nat x0"
    using assms(2) by (simp add: unsigned_of_nat take_bit_nat_eq_self)
  show ?thesis
    unfolding recv_run_def using assms b
    by (simp add: recv_update_def recv_new_def count_packet_def init_seq_def tracks_def s [symmetric] Let_def)
qed

lemma foldl_max_ge: "m \<le> foldl max m xs" for m :: nat
proof (induction xs arbitrary: m)
  case (Cons x xs)
  then have "max m x \<le> foldl max (max m x) xs" by blast
  then show ?case by simp
qed simp

section \<open>What a report says\<close>

lemma ucast_u64: "unat (ucast (w :: u32) :: u64) = unat w"
proof -
  have "unat w < 2 ^ 32" using unsigned_less [of w] by simp
  then have "unat w < 2 ^ 64" by simp
  then show ?thesis by (simp add: unsigned_ucast_eq take_bit_nat_eq_self)
qed

lemma fraction_value:
  assumes "0 < n" "n < 2 ^ 32" "0 < E" "E < 2 ^ 32" and "lost = (word_of_nat (E - n) :: u32)"
  shows "unat (ucast ((ucast lost :: u64) * 256 div ucast (word_of_nat E :: u32)) :: u8) = 256 * (E - n) div E"
proof -
  have ul: "unat lost = E - n" unfolding assms(5) using assms(4) by (intro unat_word_of_nat) auto
  have uE: "unat (word_of_nat E :: u32) = E" using assms(4) by (intro unat_word_of_nat) auto
  have "unat ((ucast lost :: u64) * 256) = 256 * (E - n)"
    using ul assms(4) by (simp add: unat_word_ariths ucast_u64)
  then have q: "unat ((ucast lost :: u64) * 256 div ucast (word_of_nat E :: u32)) = 256 * (E - n) div E"
    using uE by (simp add: unat_div ucast_u64)
  have "256 * (E - n) < 256 * E" using assms(1,3) by simp
  then have "256 * (E - n) div E < 256" by (simp add: less_mult_imp_div_less)
  then show ?thesis using q by (simp add: unsigned_ucast_eq take_bit_nat_eq_self)
qed

lemma rr_block_of_tracks:
  assumes t: "tracks x0 m n s" and m: "m < 2 ^ 32 - 1" and n: "0 < n" "n < 2 ^ 32"
  shows "unat (rb_extended_highest_seq (fst (build_rr_block F now s))) = m \<and>
         unat (rb_cumulative_lost (fst (build_rr_block F now s))) = min (m - x0 + 1 - n) 0x7FFFFF \<and>
         unat (rb_fraction_lost (fst (build_rr_block F now s))) = 256 * (m - x0 + 1 - n) div (m - x0 + 1)"
proof -
  define E where "E = m - x0 + 1"
  have le: "x0 \<le> m" and E: "0 < E" "E < 2 ^ 32" using t m by (auto simp: tracks_def E_def)
  have ext: "rs_cycles s + ucast (rs_max_seq s) = word_of_nat m"
  proof -
    have "(ucast (word_of_nat m :: u16) :: u32) = word_of_nat (m mod 65536)"
      by (simp add: unsigned_of_nat take_bit_eq_mod)
    moreover have "word_of_nat (65536 * (m div 65536)) + word_of_nat (m mod 65536) = (word_of_nat m :: u32)"
      by (metis of_nat_add mult_div_mod_eq)
    ultimately show ?thesis using t by (simp only: tracks_def)
  qed
  have exp: "word_of_nat m - rs_base_seq s + 1 = word_of_nat E"
    using t le by (simp add: tracks_def E_def of_nat_diff)
  have uE: "unat (word_of_nat E :: u32) = E" and un: "unat (word_of_nat n :: u32) = n"
    using E n by (auto intro!: unat_word_of_nat)
  have um: "unat (word_of_nat m :: u32) = m" using m by (intro unat_word_of_nat) simp
  define lost where "lost = (if (word_of_nat n :: u32) < word_of_nat E then word_of_nat E - word_of_nat n else 0 :: u32)"
  have lost: "lost = word_of_nat (E - n)"
    using uE un by (auto simp: lost_def word_less_nat_alt of_nat_diff)
  have ul: "unat lost = E - n" unfolding lost using E(2) by (intro unat_word_of_nat) auto
  have cum: "unat (min lost 0x7FFFFF) = min (E - n) 0x7FFFFF"
    using ul by (auto simp: min_def word_le_nat_alt)
  have pos: "0 < (word_of_nat E :: u32)" using uE E(1) by (simp add: word_less_nat_alt)
  have rec: "rs_received s = word_of_nat n" "rs_expected_prior s = 0" "rs_received_prior s = 0"
    using t by (auto simp: tracks_def)
  have "fst (build_rr_block F now s) =
    \<lparr> rb_ssrc = rs_ssrc s,
      rb_fraction_lost = ucast ((ucast lost :: u64) * 256 div ucast (word_of_nat E :: u32)),
      rb_cumulative_lost = min lost 0x7FFFFF, rb_extended_highest_seq = word_of_nat m,
      rb_jitter = f_to_u32 F (rs_jitter s), rb_last_sr = rs_last_sr_ntp_middle s,
      rb_delay_since_last_sr =
        (case rs_last_sr_received_at s of None \<Rightarrow> 0 | Some t \<Rightarrow> dlsr_of (elapsed now t)) \<rparr>"
    unfolding build_rr_block_def Let_def ext exp rec diff_0_right lost_def [symmetric] using pos by simp
  then show ?thesis
    using um cum fraction_value [OF n E lost] by (simp only: E_def) simp
qed

text \<open>
  C12: The receiver report states the true loss. Let a new source be synchronised by two consecutive
  packets and then send any packets whose sequence numbers, unwrapped, stay within the accepted window
  (less than 3000 ahead of the highest so far, or at most 100 behind it: loss, reordering,
  duplication and any number of 16-bit wrap-arounds). Then the first report gives as extended highest
  sequence number the highest unwrapped number received, as cumulative loss the packets expected
  since synchronisation less those received, capped at 2 to the 23 less one, and as fraction lost
  that loss in 256ths of the expected packets, with no overflow of its eight bits.
\<close>

theorem receiver_report_counts_losses:
  assumes "1 \<le> x0" "x0 < 65536" and "in_window x0 (map fst ps)"
    and "m = foldl max x0 (map fst ps)" and "m < 2 ^ 32 - 1" "length ps < 2 ^ 32 - 1"
    and "s = recv_run F ((x0 - 1, ts1, a1) # (x0, ts2, a2) # ps) (recv_new F ssrc rate)"
    and "b = fst (build_rr_block F now s)" and "E = m - x0 + 1" and "lost = E - (length ps + 1)"
  shows "unat (rb_extended_highest_seq b) = m \<and>
         unat (rb_cumulative_lost b) = min lost 0x7FFFFF \<and>
         unat (rb_fraction_lost b) = 256 * lost div E"
proof -
  have "s = recv_run F ps (recv_run F [(x0 - 1, ts1, a1), (x0, ts2, a2)] (recv_new F ssrc rate))"
    using assms(7) by (simp add: recv_run_def)
  then have "tracks x0 m (1 + length ps) s"
    using tracks_run [OF tracks_sync [OF assms(1,2)] assms(3)] assms(4) by simp
  from rr_block_of_tracks [OF this assms(5)] show ?thesis
    using assms(6,8,9,10) by simp
qed

definition nat_f64 :: "nat f64_ops" where
  "nat_f64 = \<lparr> f_zero = 0, f_of_i64 = nat, f_add = (+), f_sub = (-), f_div16 = (\<lambda>x. x div 16), f_to_u32 = word_of_nat \<rparr>"

theorem receiver_report_counts_losses_witness:
  "unat (rb_cumulative_lost (fst (build_rr_block nat_f64 0
     (recv_run nat_f64 ((65533, 0, 0) # (65534, 0, 0) # [(65535, 0, 0), (65539, 0, 0), (65538, 0, 0)])
        (recv_new nat_f64 7 48000))))) = 2"
proof -
  let ?ps = "[(65535, 0, 0), (65539, 0, 0), (65538, 0, 0)] :: (nat \<times> u32 \<times> u64) list"
  have w: "in_window 65534 (map fst ?ps)" by simp
  have m: "65539 = foldl max 65534 (map fst ?ps)" by simp
  have x: "(1 :: nat) \<le> 65534" "(65534 :: nat) < 65536" "(65539 :: nat) < 2 ^ 32 - 1"
    "length ?ps < 2 ^ 32 - 1" by simp_all
  have "65534 - (1 :: nat) = 65533" "min (65539 - 65534 + 1 - (length ?ps + 1)) 0x7FFFFF = 2" by simp_all
  then show ?thesis
    using receiver_report_counts_losses [where F = nat_f64, OF x(1,2) w m x(3,4) refl refl refl refl]
    by (simp only:)
qed

section \<open>Report packets\<close>

definition parse_rr_block :: "bytes \<Rightarrow> rr_report_block" where
  "parse_rr_block b =
     \<lparr> rb_ssrc = be32_at b 0, rb_fraction_lost = b ! 4, rb_cumulative_lost = of_be32 0 (b ! 5) (b ! 6) (b ! 7),
       rb_extended_highest_seq = be32_at b 8, rb_jitter = be32_at b 12, rb_last_sr = be32_at b 16,
       rb_delay_since_last_sr = be32_at b 20 \<rparr>"

definition parse_rr :: "bytes \<Rightarrow> rr_report_block list" where
  "parse_rr p = map (\<lambda>i. parse_rr_block (take 24 (drop (8 + 24 * i) p))) [0..<unat (p ! 0 AND 0x1F)]"

lemma length_rr_block_bytes [simp]: "length (rr_block_bytes b) = 24"
  by (simp add: rr_block_bytes_def Let_def)

lemma ucast_and_FF: "(ucast ((v :: u32) AND 0xFF) :: u8) = ucast v"
proof (rule bit_word_eqI)
  fix n assume "n < LENGTH(8)"
  moreover have "bit (0xFF :: u32) n \<longleftrightarrow> n < 8"
    using bit_mask_iff [where 'a = "32 word", of 8 n] by (auto simp: mask_eq_exp_minus_1)
  ultimately show "bit (ucast (v AND 0xFF) :: u8) n = bit (ucast v :: u8) n"
    by (simp only: bit_ucast_iff bit_and_iff) simp
qed

lemma u24_self:
  assumes "(w :: u32) \<le> 0xFFFFFF"
  shows "w AND 0x00FFFFFF = w" "drop_bit 24 w = 0"
proof -
  have u: "unat w < 2 ^ 24" using assms by (simp add: word_le_nat_alt)
  then have "unat (take_bit 24 w) = unat w" by (simp add: unsigned_take_bit_eq take_bit_nat_eq_self)
  then have "take_bit 24 w = w" by (simp only: word_unat_eq_iff)
  then show "w AND 0x00FFFFFF = w" by (simp add: take_bit_eq_mask mask_eq_exp_minus_1)
  have "unat (drop_bit 24 w) = unat w div 2 ^ 24" unfolding unat_drop_bit_eq by (rule drop_bit_eq_div)
  then have "unat (drop_bit 24 w) = unat 0" using u by simp
  then show "drop_bit 24 w = 0" by (simp only: word_unat_eq_iff)
qed

lemma cumulative_round_trip:
  assumes "w \<le> 0xFFFFFF"
  shows "of_be32 0 (ucast (drop_bit 16 (w AND 0x00FFFFFF) AND 0xFF))
           (ucast (drop_bit 8 (w AND 0x00FFFFFF) AND 0xFF)) (ucast ((w AND 0x00FFFFFF) AND 0xFF)) = w"
  using of_be32_ucast [of w] by (simp only: u24_self [OF assms] ucast_and_FF ucast_0)

lemma parse_rr_block_bytes:
  assumes "rb_cumulative_lost b \<le> 0xFFFFFF"
  shows "parse_rr_block (rr_block_bytes b) = b"
proof -
  define c0 c1 c2 :: u8 where c: "c0 = ucast (drop_bit 16 (rb_cumulative_lost b AND 0x00FFFFFF) AND 0xFF)"
    "c1 = ucast (drop_bit 8 (rb_cumulative_lost b AND 0x00FFFFFF) AND 0xFF)"
    "c2 = ucast ((rb_cumulative_lost b AND 0x00FFFFFF) AND 0xFF)"
  have "of_be32 0 c0 c1 c2 = rb_cumulative_lost b"
    unfolding c by (rule cumulative_round_trip [OF assms])
  moreover have "rr_block_bytes b = be32 (rb_ssrc b) @ [rb_fraction_lost b, c0, c1, c2] @
      be32 (rb_extended_highest_seq b) @ be32 (rb_jitter b) @ be32 (rb_last_sr b) @ be32 (rb_delay_since_last_sr b)"
    by (simp only: rr_block_bytes_def c Let_def)
  ultimately show ?thesis by (simp add: parse_rr_block_def be32_at_def be32_def)
qed

lemma nth_block_concat:
  assumes "i < length bs" and "\<And>b. length (f b) = k"
  shows "take k (drop (k * i) (concat (map f bs))) = f (bs ! i)"
  using assms(1)
proof (induction bs arbitrary: i)
  case (Cons b bs)
  then show ?case using assms(2) by (cases i) (auto simp: drop_append)
qed simp

lemma min31_byte:
  assumes "rc \<le> 31"
  shows "unat ((0x80 OR word_of_nat rc :: u8) AND 0x1F) = rc"
proof -
  have "(0x80 OR word_of_nat rc :: u8) AND 0x1F = word_of_nat rc AND 0x1F"
    by (simp add: bit.conj_disj_distrib2)
  moreover have "word_of_nat rc AND 0x1F = take_bit 5 (word_of_nat rc :: u8)"
    by (simp add: take_bit_eq_mask mask_eq_exp_minus_1)
  moreover have "unat (take_bit 5 (word_of_nat rc :: u8)) = rc"
    using assms unat_word_of_nat [where 'a = 8, of rc] by (simp add: unsigned_take_bit_eq take_bit_nat_eq_self)
  ultimately show ?thesis by simp
qed

text \<open>
  Receiver reports survive the wire. For every list of report blocks whose cumulative loss fits
  24 bits (which the builder of the blocks guarantees), the packet has a correct length field and
  block count, and decoding it returns the blocks, all fields equal; of more than 31 blocks, the first
  31 are sent.
\<close>

theorem receiver_report_round_trip:
  assumes "\<forall>b\<in>set bs. rb_cumulative_lost b \<le> 0xFFFFFF"
  shows "parse_rr (build_receiver_report sender bs) = take 31 bs \<and>
         length (build_receiver_report sender bs) =
           4 * (unat (be16_at (build_receiver_report sender bs) 2) + 1) \<and>
         (\<forall>F now s. rb_cumulative_lost (fst (build_rr_block F now s)) \<le> 0xFFFFFF)"
proof -
  define rc where "rc = min (length bs) 31"
  define lf where "lf = (8 + 24 * rc) div 4 - 1"
  let ?body = "concat (map rr_block_bytes (take rc bs))"
  let ?p = "build_receiver_report sender bs"
  have p: "?p = [0x80 OR word_of_nat rc, RTCP_PT_RR] @ be16 (word_of_nat lf) @ be32 sender @ ?body"
    by (simp add: build_receiver_report_def Let_def rc_def lf_def)
  have rc: "rc \<le> 31" "take rc bs = take 31 bs" "length (take rc bs) = rc"
    by (auto simp: rc_def min_def)
  have lb: "length ?body = 24 * rc" using rc(3) by (simp add: length_concat comp_def sum_list_triv)
  have lf: "lf = 1 + 6 * rc" by (simp add: lf_def)
  have cnt: "unat (?p ! 0 AND 0x1F) = rc" unfolding p using min31_byte [OF rc(1)] by simp
  have blk: "parse_rr_block (take 24 (drop (8 + 24 * i) ?p)) = take 31 bs ! i" if "i < rc" for i
  proof -
    have "length ([0x80 OR word_of_nat rc, RTCP_PT_RR] @ be16 (word_of_nat lf) @ be32 sender) = 8" by simp
    then have "drop (8 + 24 * i) (([0x80 OR word_of_nat rc, RTCP_PT_RR] @ be16 (word_of_nat lf) @ be32 sender) @ ?body)
        = drop (24 * i) ?body"
      by (simp only: drop_append) simp
    then have "drop (8 + 24 * i) ?p = drop (24 * i) ?body" unfolding p by (simp only: append_assoc)
    then have "take 24 (drop (8 + 24 * i) ?p) = rr_block_bytes (take rc bs ! i)"
      using nth_block_concat [of i "take rc bs" rr_block_bytes 24] that rc(3) by simp
    moreover have "take rc bs ! i \<in> set bs" using that rc(3) by (metis in_set_takeD nth_mem)
    ultimately show ?thesis using assms parse_rr_block_bytes rc(2) by simp
  qed
  have "parse_rr ?p = take 31 bs"
    unfolding parse_rr_def cnt by (rule nth_equalityI) (use blk rc in auto)
  moreover have "be16_at ?p 2 = word_of_nat lf"
    using be16_at_append [of "[0x80 OR word_of_nat rc, RTCP_PT_RR]"] unfolding p by (simp add: numeral_2_eq_2)
  then have "length ?p = 4 * (unat (be16_at ?p 2) + 1)"
    using lb lf rc(1) unat_word_of_nat [where 'a = 16, of lf] unfolding p by simp
  moreover have "rb_cumulative_lost (fst (build_rr_block F now s)) \<le> 0xFFFFFF" for F :: "'a f64_ops" and now s
    by (simp add: build_rr_block_def Let_def min_def word_le_nat_alt)
  ultimately show ?thesis by blast
qed

theorem receiver_report_round_trip_witness:
  "parse_rr (build_receiver_report 1
     [\<lparr> rb_ssrc = 7, rb_fraction_lost = 3, rb_cumulative_lost = 0x10203, rb_extended_highest_seq = 9,
        rb_jitter = 4, rb_last_sr = 5, rb_delay_since_last_sr = 6 \<rparr>]) =
     [\<lparr> rb_ssrc = 7, rb_fraction_lost = 3, rb_cumulative_lost = 0x10203, rb_extended_highest_seq = 9,
        rb_jitter = 4, rb_last_sr = 5, rb_delay_since_last_sr = 6 \<rparr>]"
  using receiver_report_round_trip [of "[\<lparr> rb_ssrc = 7, rb_fraction_lost = 3, rb_cumulative_lost = 0x10203,
      rb_extended_highest_seq = 9, rb_jitter = 4, rb_last_sr = 5, rb_delay_since_last_sr = 6 \<rparr>]" 1]
  by auto

section \<open>Sender-report translation\<close>

text \<open>
  Translating a sender report changes what it must and nothing else. Exactly the blocks of type
  200 with at least 28 bytes are translated; the result has the same size, the same header word, the
  same NTP timestamp (so that the media clock of the publisher is kept) and the same bytes behind the
  sender information; the SSRC and the RTP timestamp are the given ones, or the original ones where
  none is given; and the counts are those of the egress side.
\<close>

theorem translate_sr_correct:
  "(translate_sr sr tr = None \<longleftrightarrow> length sr < 28 \<or> sr ! 1 \<noteq> RTCP_PT_SR) \<and>
   (\<forall>out. translate_sr sr tr = Some out \<longrightarrow>
      length out = length sr \<and> take 4 out = take 4 sr \<and> drop 28 out = drop 28 sr \<and>
      parse_sr_ntp out = Some (case tr_ssrc tr of Some s \<Rightarrow> s | None \<Rightarrow> be32_at sr 4, be32_at sr 8, be32_at sr 12) \<and>
      be32_at out 16 = (case tr_rtp_ts tr of Some ts \<Rightarrow> ts | None \<Rightarrow> be32_at sr 16) \<and>
      be32_at out 20 = tr_packet_count tr \<and> be32_at out 24 = tr_octet_count tr)"
proof (intro conjI allI impI)
  show "translate_sr sr tr = None \<longleftrightarrow> length sr < 28 \<or> sr ! 1 \<noteq> RTCP_PT_SR"
    by (simp add: translate_sr_def Let_def)
  fix out assume t: "translate_sr sr tr = Some out"
  then have ok: "28 \<le> length sr" "sr ! 1 = RTCP_PT_SR"
    by (auto simp: translate_sr_def split: if_splits)
  define o1 where "o1 = (case tr_ssrc tr of Some ssrc \<Rightarrow> copy_at 4 (be32 ssrc) sr | None \<Rightarrow> sr)"
  define o2 where "o2 = (case tr_rtp_ts tr of Some ts \<Rightarrow> copy_at 16 (be32 ts) o1 | None \<Rightarrow> o1)"
  have out: "out = copy_at 24 (be32 (tr_octet_count tr)) (copy_at 20 (be32 (tr_packet_count tr)) o2)"
    unfolding o2_def o1_def using t ok by (simp add: translate_sr_def Let_def)
  have o1: "length o1 = length sr" "take 4 o1 = take 4 sr" "drop 28 o1 = drop 28 sr"
    "be32_at o1 4 = (case tr_ssrc tr of Some s \<Rightarrow> s | None \<Rightarrow> be32_at sr 4)"
    "be32_at o1 8 = be32_at sr 8" "be32_at o1 12 = be32_at sr 12" "be32_at o1 16 = be32_at sr 16" "o1 ! 1 = sr ! 1"
    using ok(1) by (auto simp: o1_def wire_simps split: option.splits)
  have o2: "length o2 = length sr" "take 4 o2 = take 4 sr" "drop 28 o2 = drop 28 sr"
    "be32_at o2 4 = be32_at o1 4" "be32_at o2 8 = be32_at sr 8" "be32_at o2 12 = be32_at sr 12"
    "be32_at o2 16 = (case tr_rtp_ts tr of Some ts \<Rightarrow> ts | None \<Rightarrow> be32_at sr 16)" "o2 ! 1 = sr ! 1"
    using ok(1) o1 by (auto simp: o2_def wire_simps split: option.splits)
  show "length out = length sr" using ok(1) o2 by (simp add: out)
  show "take 4 out = take 4 sr" using ok(1) o2 by (simp add: out wire_simps)
  show "drop 28 out = drop 28 sr" using ok(1) o2 by (simp add: out wire_simps)
  show "parse_sr_ntp out =
      Some (case tr_ssrc tr of Some s \<Rightarrow> s | None \<Rightarrow> be32_at sr 4, be32_at sr 8, be32_at sr 12)"
    using ok o1(4) o2 by (simp add: out parse_sr_ntp_def wire_simps)
  show "be32_at out 16 = (case tr_rtp_ts tr of Some ts \<Rightarrow> ts | None \<Rightarrow> be32_at sr 16)"
    using ok(1) o2 by (simp add: out wire_simps)
  show "be32_at out 20 = tr_packet_count tr" using ok(1) o2 by (simp add: out wire_simps)
  show "be32_at out 24 = tr_octet_count tr" using ok(1) o2 by (simp add: out wire_simps)
qed

theorem translate_sr_correct_witness:
  "\<exists>out. translate_sr (build_sender_report 0 0 (send_new 9 48000))
           \<lparr> tr_ssrc = Some 5, tr_rtp_ts = None, tr_packet_count = 3, tr_octet_count = 4 \<rparr> = Some out \<and>
         be32_at out 20 = 3 \<and> be32_at out 24 = 4"
proof -
  let ?sr = "build_sender_report 0 0 (send_new 9 48000)"
  let ?tr = "\<lparr> tr_ssrc = Some 5, tr_rtp_ts = None, tr_packet_count = 3, tr_octet_count = 4 \<rparr>"
  have "length ?sr = 28" "?sr ! 1 = RTCP_PT_SR"
    by (simp_all add: build_sender_report_def Let_def case_prod_beta)
  then obtain out where "translate_sr ?sr ?tr = Some out" by (auto simp: translate_sr_def Let_def)
  then show ?thesis using translate_sr_correct [of ?sr ?tr] by auto
qed

section \<open>Source restarts and probation\<close>

definition far :: "u16 \<Rightarrow> u16 \<Rightarrow> bool" where
  "far q mx \<longleftrightarrow> \<not> (q - mx) < RTP_SEQ_MAX_DROPOUT \<and> (q - mx) \<le> 65535 - RTP_SEQ_MAX_MISORDER"

lemma recv_update_far:
  assumes "rs_initialized s" "rs_seq_probation s = 0" "far q (rs_max_seq s)"
  shows "recv_update F q ts a s =
    (if ucast q = rs_bad_seq s then count_packet F ts a (init_seq q s)
     else s\<lparr> rs_bad_seq := ucast q + 1 \<rparr>)"
  using assms by (simp add: recv_update_def far_def Let_def)

text \<open>
  A restarted source is recognised by two consecutive packets far from the expected range: the
  statistics start anew at the second one. This holds for every position but one. When the two are
  numbered 65535 and 0, the remembered successor is 65536, because the code does not reduce it modulo
  2 to the 16, and the restart goes unnoticed: the second packet is dropped from the statistics too.
\<close>

theorem restart_detected_except_at_wrap:
  assumes "rs_initialized s" "rs_seq_probation s = 0" "ucast q \<noteq> rs_bad_seq s"
    and "far q (rs_max_seq s)" "far (q + 1) (rs_max_seq s)"
    and "s' = recv_update F (q + 1) ts2 a2 (recv_update F q ts1 a1 s)"
  shows "if q \<noteq> 65535
         then rs_base_seq s' = ucast (q + 1) \<and> rs_max_seq s' = q + 1 \<and> rs_received s' = 1 \<and> rs_cycles s' = 0
         else rs_base_seq s' = rs_base_seq s \<and> rs_max_seq s' = rs_max_seq s \<and> rs_received s' = rs_received s"
proof -
  have s1: "recv_update F q ts1 a1 s = s\<lparr> rs_bad_seq := ucast q + 1 \<rparr>"
    using recv_update_far [OF assms(1,2,4)] assms(3) by simp
  have wrap: "(ucast (q + 1) :: u32) = ucast q + 1 \<longleftrightarrow> q \<noteq> 65535"
  proof -
    have u: "unat (ucast q + 1 :: u32) = unat q + 1"
      using unsigned_less [of q, where ?'a = nat] by (simp add: unat_word_ariths unsigned_ucast_eq take_bit_nat_eq_self)
    have "unat (ucast (q + 1) :: u32) = unat (q + 1)"
      using unsigned_less [of "q + 1", where ?'a = nat] by (simp add: unsigned_ucast_eq take_bit_nat_eq_self)
    moreover have "unat (q + 1) = (unat q + 1) mod 65536" by (simp add: unat_word_ariths)
    moreover have "unat q < 65536" using unsigned_less [of q, where ?'a = nat] by simp
    moreover have "q \<noteq> 65535 \<longleftrightarrow> unat q \<noteq> 65535" by (simp add: word_unat_eq_iff)
    ultimately show ?thesis using u by (auto simp: word_unat_eq_iff [of "ucast (q + 1) :: u32"])
  qed
  have s': "s' = (if ucast (q + 1) = (ucast q + 1 :: u32)
      then count_packet F ts2 a2 (init_seq (q + 1) (s\<lparr> rs_bad_seq := ucast q + 1 \<rparr>))
      else s\<lparr> rs_bad_seq := ucast (q + 1) + 1 \<rparr>)"
    unfolding assms(6) s1 by (subst recv_update_far) (use assms(1,2,5) in simp_all)
  show ?thesis unfolding s' wrap by (simp add: count_packet_def init_seq_def)
qed

theorem restart_detected_except_at_wrap_witness:
  "rs_max_seq (recv_update nat_f64 0 0 0 (recv_update nat_f64 65535 0 0
     ((recv_new nat_f64 7 48000)\<lparr> rs_initialized := True, rs_seq_probation := 0, rs_max_seq := 30000 \<rparr>))) = 30000"
proof -
  let ?s = "(recv_new nat_f64 7 48000)\<lparr> rs_initialized := True, rs_seq_probation := 0, rs_max_seq := 30000 \<rparr>"
  have z: "(65536 :: u16) = 0" by simp
  have "far 65535 (rs_max_seq ?s)" "far (65535 + 1) (rs_max_seq ?s)" by (simp_all add: far_def)
  then show ?thesis
    using restart_detected_except_at_wrap [of ?s 65535 _ nat_f64 0 0 0 0] z by (simp add: recv_new_def)
qed

text \<open>
  Reports built while a source is on probation can be nonsense. After a first packet numbered \<open>x\<close>
  and a second one with a lower number (other than its predecessor), the highest number is below the
  base, the number of expected packets wraps, and a report built at that moment claims the largest
  representable loss, 8388607 packets, of two packets received.
\<close>

theorem probation_reports_bogus_loss:
  assumes "unat y + 1 < unat x" and "y \<noteq> x + 1"
    and "s = recv_update F y ts2 a2 (recv_update F x ts1 a1 (recv_new F ssrc rate))"
  shows "rb_cumulative_lost (fst (build_rr_block F now s)) = 0x7FFFFF \<and> rs_received s = 2"
proof -
  have s: "rs_base_seq s = ucast x" "rs_max_seq s = y" "rs_cycles s = 0" "rs_received s = 2"
    unfolding assms(3) using assms(2)
    by (simp_all add: recv_update_def recv_new_def count_packet_def init_seq_def)
  have ux: "unat (ucast x :: u32) = unat x" "unat x < 65536" and uy: "unat (ucast y :: u32) = unat y"
    using unsigned_less [of x, where ?'a = nat] unsigned_less [of y, where ?'a = nat]
    by (simp_all add: unsigned_ucast_eq take_bit_nat_eq_self)
  define e where "e = (ucast y - ucast x + 1 :: u32)"
  have e: "e = word_of_nat (2 ^ 32 - (unat x - unat y - 1))"
  proof -
    have "ucast w = (word_of_nat (unat w) :: u32)" for w :: u16 by simp
    moreover have "2 ^ 32 - (unat x - unat y - 1) = 2 ^ 32 + unat y + 1 - unat x" using assms(1) ux(2) by simp
    moreover have "(word_of_nat (2 ^ 32 + unat y + 1 - unat x) :: u32) =
        word_of_nat (2 ^ 32 + unat y + 1) - word_of_nat (unat x)"
      using ux(2) by (intro of_nat_diff) simp
    ultimately show ?thesis by (simp add: e_def)
  qed
  have ue: "unat e = 2 ^ 32 - (unat x - unat y - 1)"
    unfolding e using assms(1) by (intro unat_word_of_nat) simp
  then have big: "4294901760 \<le> unat e" using ux(2) by simp
  have lt: "2 < e" using big by (simp add: word_less_nat_alt)
  have "unat (e - 2) = unat e - 2" using lt by (simp add: unat_sub word_le_nat_alt word_less_nat_alt)
  then have "\<not> (e - 2 \<le> 0x7FFFFF)" using big by (simp add: word_le_nat_alt)
  then show ?thesis using s lt by (simp add: build_rr_block_def Let_def e_def [symmetric] min_def)
qed

theorem probation_reports_bogus_loss_witness:
  "rb_cumulative_lost (fst (build_rr_block nat_f64 0
     (recv_update nat_f64 50 0 0 (recv_update nat_f64 100 0 0 (recv_new nat_f64 7 48000))))) = 0x7FFFFF"
  using probation_reports_bogus_loss [of 50 100 _ nat_f64 0 0 0 0 7 48000 0] by simp

end
