(* ===== verification/Stun.thy ===== *)
theory Stun
  imports Config
begin

text \<open>
  The STUN messages of \<open>transport/stun.rs\<close>, the ICE-Lite agent of \<open>transport/ice.rs\<close> and the packet
  demultiplexer of \<open>transport/demux.rs\<close>. HMAC-SHA1 and CRC-32 come from other crates and are the
  parameters \<open>hmac\<close> and \<open>crc\<close>; of the former the code relies on its output size only. The attribute
  loops are checked: \<open>None\<close> of the outer option is an index out of range.
\<close>

section \<open>Demultiplexer\<close>

datatype packet_type = Stun_pkt | Dtls_pkt | Srtp_pkt | Unknown_pkt

definition classify :: "bytes \<Rightarrow> packet_type" where
  "classify buf =
     (if buf = [] then Unknown_pkt
      else (let first = buf ! 0
            in if DEMUX_STUN_MIN \<le> first \<and> first \<le> DEMUX_STUN_MAX then Stun_pkt
               else if DEMUX_DTLS_MIN \<le> first \<and> first \<le> DEMUX_DTLS_MAX then Dtls_pkt
               else if DEMUX_RTP_MIN \<le> first \<and> first \<le> DEMUX_RTP_MAX then Srtp_pkt
               else Unknown_pkt))"

section \<open>STUN messages\<close>

definition MAGIC_COOKIE :: u32 where [simp]: "MAGIC_COOKIE = 0x2112A442"
definition HEADER_SIZE :: nat where [simp]: "HEADER_SIZE = 20"
definition BINDING_REQUEST :: u16 where [simp]: "BINDING_REQUEST = 0x0001"
definition BINDING_RESPONSE :: u16 where [simp]: "BINDING_RESPONSE = 0x0101"
definition ATTR_USERNAME :: u16 where [simp]: "ATTR_USERNAME = 0x0006"
definition ATTR_MESSAGE_INTEGRITY :: u16 where [simp]: "ATTR_MESSAGE_INTEGRITY = 0x0008"
definition ATTR_XOR_MAPPED_ADDRESS :: u16 where [simp]: "ATTR_XOR_MAPPED_ADDRESS = 0x0020"
definition ATTR_PRIORITY :: u16 where [simp]: "ATTR_PRIORITY = 0x0024"
definition ATTR_USE_CANDIDATE :: u16 where [simp]: "ATTR_USE_CANDIDATE = 0x0025"
definition ATTR_FINGERPRINT :: u16 where [simp]: "ATTR_FINGERPRINT = 0x8028"
definition ATTR_SOFTWARE :: u16 where [simp]: "ATTR_SOFTWARE = 0x8022"
definition ADDR_FAMILY_IPV4 :: u8 where [simp]: "ADDR_FAMILY_IPV4 = 1"
definition ADDR_FAMILY_IPV6 :: u8 where [simp]: "ADDR_FAMILY_IPV6 = 2"

datatype socket_addr = V4 bytes u16 | V6 bytes u16

record stun_attribute =
  attr_type :: u16
  attr_value :: bytes

record stun_message =
  msg_type :: u16
  msg_length :: u16
  transaction_id :: bytes
  attributes :: "stun_attribute list"
  raw :: bytes

function attr_loop :: "bytes \<Rightarrow> nat \<Rightarrow> nat \<Rightarrow> stun_attribute list option" where
  "attr_loop buf total_len offset =
     (if offset + 4 \<le> total_len then
        do {
          at \<leftarrow> rd16 buf offset;
          al \<leftarrow> rd16 buf (offset + 2);
          let attr_len = unat al;
          if total_len < offset + 4 + attr_len then Some []
          else do {
            v \<leftarrow> slice buf (offset + 4) (offset + 4 + attr_len);
            rest \<leftarrow> attr_loop buf total_len (offset + 4 + align4 attr_len);
            Some (\<lparr> attr_type = at, attr_value = v \<rparr> # rest)
          }
        }
      else Some [])"
  by auto
termination
  by (relation "measure (\<lambda>(buf, t, off). t - off)") auto

declare attr_loop.simps [simp del]

definition stun_parse :: "bytes \<Rightarrow> stun_message option option" where
  "stun_parse buf =
     (if length buf < HEADER_SIZE then Some None
      else if buf ! 0 AND 0xC0 \<noteq> 0 then Some None
      else
        (let mt = be16_at buf 0;
             len = be16_at buf 2;
             cookie = be32_at buf 4
         in if cookie \<noteq> MAGIC_COOKIE then Some None
            else if len mod 4 \<noteq> 0 then Some None
            else
              (let total_len = HEADER_SIZE + unat len
               in if length buf < total_len then Some None
                  else do {
                    attrs \<leftarrow> attr_loop buf total_len HEADER_SIZE;
                    Some (Some \<lparr> msg_type = mt, msg_length = len, transaction_id = take 12 (drop 8 buf),
                                 attributes = attrs, raw = take total_len buf \<rparr>)
                  })))"

definition get_attr :: "stun_message \<Rightarrow> u16 \<Rightarrow> stun_attribute option" where
  "get_attr msg at = find (\<lambda>a. attr_type a = at) (attributes msg)"

definition username :: "stun_message \<Rightarrow> string option" where
  "username msg = Option.bind (get_attr msg ATTR_USERNAME) (\<lambda>a. from_utf8 (attr_value a))"

definition has_use_candidate :: "stun_message \<Rightarrow> bool" where
  "has_use_candidate msg \<longleftrightarrow> get_attr msg ATTR_USE_CANDIDATE \<noteq> None"

definition stun_priority :: "stun_message \<Rightarrow> u32 option" where
  "stun_priority msg = Option.bind (get_attr msg ATTR_PRIORITY)
     (\<lambda>a. if length (attr_value a) = 4 then Some (be32_at (attr_value a) 0) else None)"

definition message_integrity :: "stun_message \<Rightarrow> bytes option" where
  "message_integrity msg = map_option attr_value (get_attr msg ATTR_MESSAGE_INTEGRITY)"

definition write_attr :: "u16 \<Rightarrow> bytes \<Rightarrow> bytes \<Rightarrow> bytes" where
  "write_attr at value buf =
     buf @ be16 at @ be16 (word_of_nat (length value)) @ value @
     replicate ((4 - length value mod 4) mod 4) 0"

definition encode_xor_mapped_address :: "socket_addr \<Rightarrow> bytes \<Rightarrow> bytes" where
  "encode_xor_mapped_address addr tid =
     (case addr of
        V4 ip port \<Rightarrow>
          [0, ADDR_FAMILY_IPV4] @ be16 (port XOR ucast (drop_bit 16 MAGIC_COOKIE)) @
          map (\<lambda>i. ip ! i XOR be32 MAGIC_COOKIE ! i) [0..<4]
      | V6 ip port \<Rightarrow>
          [0, ADDR_FAMILY_IPV6] @ be16 (port XOR ucast (drop_bit 16 MAGIC_COOKIE)) @
          map (\<lambda>i. ip ! i XOR (be32 MAGIC_COOKIE @ tid) ! i) [0..<16])"

definition SOFTWARE_NAME :: bytes where "SOFTWARE_NAME = bytes_of ''light-livechat''"

definition build_binding_response ::
  "(bytes \<Rightarrow> bytes \<Rightarrow> bytes) \<Rightarrow> (bytes \<Rightarrow> u32) \<Rightarrow> bytes \<Rightarrow> socket_addr \<Rightarrow> bytes \<Rightarrow> bytes" where
  "build_binding_response hmac crc tid remote_addr integrity_key =
     (let b0 = be16 BINDING_RESPONSE @ be16 0 @ be32 MAGIC_COOKIE @ tid;
          b1 = write_attr ATTR_XOR_MAPPED_ADDRESS (encode_xor_mapped_address remote_addr tid) b0;
          b2 = write_attr ATTR_SOFTWARE SOFTWARE_NAME b1;
          b3 = copy_at 2 (be16 (word_of_nat (length b2 - HEADER_SIZE + 24))) b2;
          hmac_value = hmac b3 integrity_key;
          b4 = write_attr ATTR_MESSAGE_INTEGRITY hmac_value b3;
          b5 = copy_at 2 (be16 (word_of_nat (length b4 - HEADER_SIZE + 8))) b4;
          c = crc b5 XOR 0x5354554E;
          b6 = write_attr ATTR_FINGERPRINT (be32 c) b5
      in copy_at 2 (be16 (word_of_nat (length b6 - HEADER_SIZE))) b6)"

function find_attr_offset_loop :: "bytes \<Rightarrow> u16 \<Rightarrow> nat \<Rightarrow> nat option option" where
  "find_attr_offset_loop buf target_type offset =
     (if offset + 4 \<le> length buf then
        do {
          at \<leftarrow> rd16 buf offset;
          if at = target_type then Some (Some offset)
          else do {
            al \<leftarrow> rd16 buf (offset + 2);
            find_attr_offset_loop buf target_type (offset + (4 + align4 (unat al)))
          }
        }
      else Some None)"
  by auto
termination
  by (relation "measure (\<lambda>(buf, t, off). length buf - off)") auto

declare find_attr_offset_loop.simps [simp del]

definition find_attr_offset :: "bytes \<Rightarrow> u16 \<Rightarrow> nat option option" where
  "find_attr_offset buf target_type = find_attr_offset_loop buf target_type HEADER_SIZE"

definition verify_message_integrity :: "(bytes \<Rightarrow> bytes \<Rightarrow> bytes) \<Rightarrow> stun_message \<Rightarrow> bytes \<Rightarrow> bool option" where
  "verify_message_integrity hmac msg key =
     (case message_integrity msg of
        None \<Rightarrow> Some False
      | Some received_hmac \<Rightarrow> do {
          off \<leftarrow> find_attr_offset (raw msg) ATTR_MESSAGE_INTEGRITY;
          case off of
            None \<Rightarrow> Some False
          | Some mi_offset \<Rightarrow> do {
              tmp \<leftarrow> slice (raw msg) 0 mi_offset;
              let tmp' = copy_at 2 (be16 (word_of_nat (mi_offset - HEADER_SIZE + 24))) tmp;
              let expected = hmac tmp' key;
              Some (length expected = length received_hmac \<and>
                    list_all (\<lambda>(a, b). a = b) (zip expected received_hmac))
            }
        })"

definition ice_integrity_key :: "string \<Rightarrow> bytes" where
  "ice_integrity_key password = bytes_of password"

section \<open>ICE-Lite\<close>

record ice_credentials =
  ice_ufrag :: string
  ice_pwd :: string

datatype ice_result = SendResponse bytes socket_addr bool | Ignore

definition handle_stun_packet ::
  "(bytes \<Rightarrow> bytes \<Rightarrow> bytes) \<Rightarrow> (bytes \<Rightarrow> u32) \<Rightarrow> bytes \<Rightarrow> socket_addr \<Rightarrow> ice_credentials \<Rightarrow> ice_result option" where
  "handle_stun_packet hmac crc buf remote local_creds = do {
     parsed \<leftarrow> stun_parse buf;
     case parsed of
       None \<Rightarrow> Some Ignore
     | Some msg \<Rightarrow>
         if msg_type msg \<noteq> BINDING_REQUEST then Some Ignore
         else (case username msg of
           None \<Rightarrow> Some Ignore
         | Some un \<Rightarrow>
             (let expected_prefix = ice_ufrag local_creds @ '':''
              in if take (length expected_prefix) un \<noteq> expected_prefix then Some Ignore
                 else do {
                   let key = ice_integrity_key (ice_pwd local_creds);
                   ok \<leftarrow> verify_message_integrity hmac msg key;
                   if \<not> ok then Some Ignore
                   else Some (SendResponse (build_binding_response hmac crc (transaction_id msg) remote key)
                                remote (has_use_candidate msg))
                 }))
   }"

text \<open>The alphabet of \<open>random_ice_string\<close>, given the random bytes.\<close>

definition random_ice_string :: "bytes \<Rightarrow> string" where
  "random_ice_string rnd =
     map (\<lambda>b. let r = b mod 36
              in char_of (unat (if r < 10 then 48 + r else 97 + r - 10))) rnd"

section \<open>No out-of-range reads\<close>

lemma attr_loop_total: "t \<le> length buf \<Longrightarrow> \<exists>attrs. attr_loop buf t off = Some attrs"
proof (induction "t - off" arbitrary: off rule: less_induct)
  case less
  show ?case
  proof (cases "off + 4 \<le> t")
    case True
    let ?al = "unat (be16_at buf (off + 2))"
    obtain rest where "attr_loop buf t (off + 4 + align4 ?al) = Some rest"
      using less True by (metis diff_less_mono2 add.assoc less_le_trans less_add_same_cancel1 add_pos_nonneg zero_le zero_less_numeral)
    then show ?thesis using True less.prems by (subst attr_loop.simps) (simp add: Let_def)
  next
    case False
    then show ?thesis by (subst attr_loop.simps) simp
  qed
qed

lemma find_attr_offset_total:
  "\<exists>off. find_attr_offset_loop buf at offset = Some off \<and>
         (\<forall>o'. off = Some o' \<longrightarrow> offset \<le> o' \<and> o' + 4 \<le> length buf)"
proof (induction "length buf - offset" arbitrary: offset rule: less_induct)
  case less
  show ?case
  proof (cases "offset + 4 \<le> length buf")
    case True
    let ?next = "offset + (4 + align4 (unat (be16_at buf (offset + 2))))"
    obtain off where "find_attr_offset_loop buf at ?next = Some off"
      "\<forall>o'. off = Some o' \<longrightarrow> ?next \<le> o' \<and> o' + 4 \<le> length buf"
      using less [of ?next] True by (auto simp: diff_less_mono2)
    then show ?thesis using True by (subst find_attr_offset_loop.simps) auto
  next
    case False
    then show ?thesis by (subst find_attr_offset_loop.simps) simp
  qed
qed

lemma stun_parse_total: "\<exists>m. stun_parse buf = Some m"
proof (cases "length buf < 20 + unat (be16_at buf 2)")
  case False
  then obtain attrs where "attr_loop buf (20 + unat (be16_at buf 2)) 20 = Some attrs"
    using attr_loop_total [of "20 + unat (be16_at buf 2)" buf 20] by auto
  then show ?thesis by (auto simp: stun_parse_def Let_def)
qed (auto simp: stun_parse_def Let_def)

lemma verify_total: "\<exists>b. verify_message_integrity hmac msg key = Some b"
proof -
  obtain off where off: "find_attr_offset (raw msg) ATTR_MESSAGE_INTEGRITY = Some off"
    "\<forall>o'. off = Some o' \<longrightarrow> 20 \<le> o' \<and> o' + 4 \<le> length (raw msg)"
    using find_attr_offset_total [of "raw msg" ATTR_MESSAGE_INTEGRITY HEADER_SIZE]
    by (auto simp: find_attr_offset_def)
  show ?thesis
    using off by (auto simp: verify_message_integrity_def Let_def split: option.splits)
qed

lemma handle_total: "\<exists>r. handle_stun_packet hmac crc buf remote creds = Some r"
proof -
  obtain m where m: "stun_parse buf = Some m" using stun_parse_total by blast
  show ?thesis
  proof (cases m)
    case (Some msg)
    obtain b where "verify_message_integrity hmac msg (ice_integrity_key (ice_pwd creds)) = Some b"
      using verify_total by blast
    then show ?thesis using m Some
      by (auto simp: handle_stun_packet_def Let_def split: option.splits)
  qed (simp add: handle_stun_packet_def m)
qed

section \<open>Messages on the wire\<close>

definition enc_attr :: "stun_attribute \<Rightarrow> bytes" where
  "enc_attr a = write_attr (attr_type a) (attr_value a) []"

definition enc_attrs :: "stun_attribute list \<Rightarrow> bytes" where
  "enc_attrs as = concat (map enc_attr as)"

definition stun_hdr :: "u16 \<Rightarrow> nat \<Rightarrow> bytes \<Rightarrow> bytes" where
  "stun_hdr mt len tid = be16 mt @ be16 (word_of_nat len) @ be32 MAGIC_COOKIE @ tid"

definition stun_wire :: "u16 \<Rightarrow> bytes \<Rightarrow> stun_attribute list \<Rightarrow> bytes" where
  "stun_wire mt tid as = stun_hdr mt (length (enc_attrs as)) tid @ enc_attrs as"

definition attr_ok :: "stun_attribute \<Rightarrow> bool" where
  "attr_ok a \<longleftrightarrow> length (attr_value a) < 65536"

lemma write_attr_enc: "write_attr at v buf = buf @ enc_attr \<lparr> attr_type = at, attr_value = v \<rparr>"
  by (simp add: write_attr_def enc_attr_def)

lemma enc_attrs_simps [simp]:
  "enc_attrs [] = []" "enc_attrs (a # as) = enc_attr a @ enc_attrs as"
  "enc_attrs (as @ bs) = enc_attrs as @ enc_attrs bs"
  by (simp_all add: enc_attrs_def)

lemma pad_align4: "n + (4 - n mod 4) mod 4 = align4 n"
proof -
  define q r where qr: "q = n div 4" "r = n mod 4"
  then have n: "n = 4 * q + r" and "r < 4" by simp_all
  then consider "r = 0" | "r = 1" | "r = 2" | "r = 3" by linarith
  then show ?thesis
    unfolding align4_def qr(2) [symmetric] by cases (simp_all add: n)
qed

lemma length_enc_attr [simp]: "length (enc_attr a) = 4 + align4 (length (attr_value a))"
  using pad_align4 [of "length (attr_value a)"] by (simp add: enc_attr_def write_attr_def)

lemma dvd_enc_attrs: "4 dvd length (enc_attrs as)"
  by (induction as) auto

lemma length_stun_hdr [simp]: "length tid = 12 \<Longrightarrow> length (stun_hdr mt len tid) = 20"
  by (simp add: stun_hdr_def)

text \<open>Reading one attribute off the wire.\<close>

lemma attr_reads:
  assumes "attr_ok a" and "buf = pre @ enc_attr a @ post"
  shows "rd16 buf (length pre) = Some (attr_type a)"
    and "rd16 buf (length pre + 2) = Some (word_of_nat (length (attr_value a)))"
    and "unat (word_of_nat (length (attr_value a)) :: u16) = length (attr_value a)"
    and "slice buf (length pre + 4) (length pre + 4 + length (attr_value a)) = Some (attr_value a)"
proof -
  define pad where "pad = replicate ((4 - length (attr_value a) mod 4) mod 4) (0 :: u8)"
  let ?w = "word_of_nat (length (attr_value a)) :: u16"
  have buf: "buf = pre @ be16 (attr_type a) @ be16 ?w @ attr_value a @ pad @ post"
    unfolding assms(2) by (simp add: enc_attr_def write_attr_def pad_def)
  show "rd16 buf (length pre) = Some (attr_type a)"
    unfolding buf by (simp add: rd16_def be16_at_append)
  show "rd16 buf (length pre + 2) = Some ?w"
    using be16_at_append [of "pre @ be16 (attr_type a)" ?w] unfolding buf by (simp add: rd16_def)
  show "unat ?w = length (attr_value a)"
    using assms(1) by (intro unat_word_of_nat) (simp add: attr_ok_def)
  show "slice buf (length pre + 4) (length pre + 4 + length (attr_value a)) = Some (attr_value a)"
    unfolding buf by simp
qed

lemma attr_loop_wire:
  assumes "\<forall>a\<in>set as. attr_ok a"
  shows "attr_loop (pre @ enc_attrs as @ post) (length pre + length (enc_attrs as)) (length pre) = Some as"
  using assms
proof (induction as arbitrary: pre)
  case Nil
  show ?case by (subst attr_loop.simps) simp
next
  case (Cons a as)
  let ?buf = "pre @ enc_attrs (a # as) @ post"
  let ?t = "length pre + length (enc_attrs (a # as))"
  have "attr_ok a" using Cons.prems by simp
  note r = attr_reads [OF this, of ?buf pre "enc_attrs as @ post"]
  have IH: "attr_loop ?buf ?t (length pre + 4 + align4 (length (attr_value a))) = Some as"
    using Cons.IH [of "pre @ enc_attr a"] Cons.prems by (simp add: add.assoc)
  have "\<not> ?t < length pre + 4 + length (attr_value a)"
    using align4_ge [of "length (attr_value a)"] by simp
  then show ?case using r IH by (subst attr_loop.simps) (simp add: Let_def)
qed

lemma find_attr_wire:
  assumes "\<forall>a\<in>set as. attr_ok a \<and> attr_type a \<noteq> at" and "attr_type b = at" "attr_ok b"
  shows "find_attr_offset_loop (pre @ enc_attrs as @ enc_attr b @ post) at (length pre) =
         Some (Some (length pre + length (enc_attrs as)))"
  using assms(1)
proof (induction as arbitrary: pre)
  case Nil
  note r = attr_reads [OF assms(3), of "pre @ enc_attr b @ post" pre post]
  show ?case using r(1) assms(2) by (subst find_attr_offset_loop.simps) simp
next
  case (Cons a as)
  let ?buf = "pre @ enc_attrs (a # as) @ enc_attr b @ post"
  have "attr_ok a" using Cons.prems by simp
  note r = attr_reads [OF this, of ?buf pre "enc_attrs as @ enc_attr b @ post"]
  have "find_attr_offset_loop ?buf at (length pre + (4 + align4 (length (attr_value a)))) =
      Some (Some (length pre + length (enc_attrs (a # as))))"
    using Cons.IH [of "pre @ enc_attr a"] Cons.prems by (simp add: add.assoc)
  then show ?case using r Cons.prems by (subst find_attr_offset_loop.simps) simp
qed

lemma stun_hdr_fields:
  assumes "length tid = 12"
  shows "be16_at (stun_hdr mt len tid @ ys) 0 = mt" "be16_at (stun_hdr mt len tid @ ys) 2 = word_of_nat len"
    "be32_at (stun_hdr mt len tid @ ys) 4 = MAGIC_COOKIE" "take 12 (drop 8 (stun_hdr mt len tid @ ys)) = tid"
    "(stun_hdr mt len tid @ ys) ! 0 = ucast (drop_bit 8 mt)"
    "copy_at 2 (be16 (word_of_nat l)) (stun_hdr mt len tid @ ys) = stun_hdr mt l tid @ ys"
  using assms by (simp_all add: stun_hdr_def be16_at_def be32_at_def be16_def be32_def copy_at_def of_be32_def)

text \<open>The parser inverts the wire form, whatever follows the message in the datagram.\<close>

lemma stun_parse_wire:
  assumes "length tid = 12" and "\<forall>a\<in>set as. attr_ok a" and "length (enc_attrs as) < 65536"
    and "(ucast (drop_bit 8 mt) :: u8) AND 0xC0 = 0"
  shows "stun_parse (stun_wire mt tid as @ junk) =
    Some (Some \<lparr> msg_type = mt, msg_length = word_of_nat (length (enc_attrs as)), transaction_id = tid,
                 attributes = as, raw = stun_wire mt tid as \<rparr>)"
proof -
  define L where "L = length (enc_attrs as)"
  let ?p = "stun_wire mt tid as @ junk"
  have p: "?p = stun_hdr mt L tid @ enc_attrs as @ junk" by (simp add: stun_wire_def L_def)
  have uL: "unat (word_of_nat L :: u16) = L" using assms(3) by (intro unat_word_of_nat) (simp add: L_def)
  have mod4: "(word_of_nat L :: u16) mod 4 = 0"
  proof -
    have "unat ((word_of_nat L :: u16) mod 4) = L mod 4" using uL by (simp add: unat_mod)
    also have "\<dots> = 0" using dvd_enc_attrs [of as] by (simp add: L_def)
    finally show ?thesis by (simp add: unat_eq_zero)
  qed
  have lp: "length ?p = 20 + L + length junk" using assms(1) by (simp add: p L_def)
  have al: "attr_loop ?p (20 + L) 20 = Some as"
    using attr_loop_wire [OF assms(2), of "stun_hdr mt L tid" junk] assms(1) unfolding p by (simp add: L_def)
  have rw: "take (20 + L) ?p = stun_wire mt tid as" using assms(1) by (simp add: stun_wire_def L_def)
  note f = stun_hdr_fields [OF assms(1), where mt = mt and len = L and ys = "enc_attrs as @ junk", folded p]
  show ?thesis
    unfolding stun_parse_def Let_def using f assms(4) lp uL mod4 al rw
    by (simp add: L_def [symmetric])
qed

text \<open>The integrity check of a message whose first integrity attribute carries \<open>h\<close>.\<close>

lemma verify_wire:
  assumes "length tid = 12" and "\<forall>a\<in>set as1. attr_ok a \<and> attr_type a \<noteq> ATTR_MESSAGE_INTEGRITY"
    and "attr_type mi = ATTR_MESSAGE_INTEGRITY" "attr_ok mi"
    and "attributes msg = as1 @ mi # as2" "raw msg = stun_wire mt tid (as1 @ mi # as2)"
  shows "verify_message_integrity hmac msg key =
    Some (attr_value mi = hmac (stun_hdr mt (length (enc_attrs as1) + 24) tid @ enc_attrs as1) key)"
proof -
  define L where "L = length (enc_attrs (as1 @ mi # as2))"
  have rw: "raw msg = stun_hdr mt L tid @ enc_attrs as1 @ enc_attr mi @ enc_attrs as2"
    by (simp add: assms(6) stun_wire_def L_def)
  have "find (\<lambda>a. attr_type a = ATTR_MESSAGE_INTEGRITY) (as1 @ mi # as2) = Some mi"
    using assms(2,3) by (induction as1) auto
  then have mi: "message_integrity msg = Some (attr_value mi)"
    by (simp add: message_integrity_def get_attr_def assms(5))
  have off: "find_attr_offset (raw msg) ATTR_MESSAGE_INTEGRITY = Some (Some (20 + length (enc_attrs as1)))"
    using find_attr_wire [OF assms(2,3,4), of "stun_hdr mt L tid" "enc_attrs as2"] assms(1)
    by (simp add: find_attr_offset_def rw)
  have sl: "slice (raw msg) 0 (20 + length (enc_attrs as1)) = Some (stun_hdr mt L tid @ enc_attrs as1)"
    using assms(1) by (simp add: rw)
  have cp: "copy_at 2 (be16 (word_of_nat (20 + length (enc_attrs as1) - HEADER_SIZE + 24)))
        (stun_hdr mt L tid @ enc_attrs as1) = stun_hdr mt (length (enc_attrs as1) + 24) tid @ enc_attrs as1"
    by (subst stun_hdr_fields(6) [OF assms(1)]) simp
  have eq: "length xs = length ys \<and> list_all (\<lambda>(a, b). a = b) (zip xs ys) \<longleftrightarrow> ys = xs" for xs ys :: bytes
    by (auto simp: list_all_length intro: nth_equalityI)
  show ?thesis
    unfolding verify_message_integrity_def mi off Let_def
    by (simp only: option.case bind.bind_lunit sl cp eq)
qed

section \<open>The binding response\<close>

definition addr_ok :: "socket_addr \<Rightarrow> bool" where
  "addr_ok addr = (case addr of V4 ip _ \<Rightarrow> length ip = 4 | V6 ip _ \<Rightarrow> length ip = 16)"

text \<open>What a client does with the attribute.\<close>

definition decode_xor_mapped_address :: "bytes \<Rightarrow> bytes \<Rightarrow> socket_addr option" where
  "decode_xor_mapped_address v tid =
     (if 8 \<le> length v then
        (let port = be16_at v 2 XOR 0x2112;
             ip = map2 (\<lambda>a b. a XOR b) (drop 4 v) (be32 MAGIC_COOKIE @ tid)
         in if v ! 1 = 1 then Some (V4 ip port) else if v ! 1 = 2 then Some (V6 ip port) else None)
      else None)"

lemma length_xma [simp]:
  "addr_ok addr \<Longrightarrow> length (encode_xor_mapped_address addr tid) = (case addr of V4 _ _ \<Rightarrow> 8 | V6 _ _ \<Rightarrow> 20)"
  by (auto simp: encode_xor_mapped_address_def addr_ok_def split: socket_addr.splits)

lemma xor_bytes_cancel:
  assumes "length ip = n" "n \<le> length key"
  shows "map2 (\<lambda>a b. a XOR b) (map (\<lambda>i. ip ! i XOR key ! i) [0..<n]) key = (ip :: bytes)"
  using assms by (intro nth_equalityI) (auto simp: xor.assoc)

lemma decode_encode_xma:
  assumes "addr_ok addr" and "length tid = 12"
  shows "decode_xor_mapped_address (encode_xor_mapped_address addr tid) tid = Some addr"
proof -
  have hi: "(ucast (drop_bit 16 MAGIC_COOKIE) :: u16) = 0x2112" by simp
  have two: "length [0, f :: u8] = 2" for f by simp
  have port: "be16_at ([0, f] @ be16 (p XOR ucast (drop_bit 16 MAGIC_COOKIE)) @ ys) 2 XOR 0x2112 = p" for f p ys
    unfolding hi using be16_at_append [of "[0, f]" "p XOR 0x2112" ys, unfolded two] by (simp add: xor.assoc)
  show ?thesis
  proof (cases addr)
    case (V4 ip p)
    then have "length ip = 4" using assms(1) by (simp add: addr_ok_def)
    have "map2 (\<lambda>a b. a XOR b) (map (\<lambda>i. ip ! i XOR be32 MAGIC_COOKIE ! i) [0..<4]) (be32 MAGIC_COOKIE @ tid) = ip"
    proof -
      have m: "map (\<lambda>i. ip ! i XOR be32 MAGIC_COOKIE ! i) [0..<4] =
          map (\<lambda>i. ip ! i XOR (be32 MAGIC_COOKIE @ tid) ! i) [0..<4]"
        by (rule map_cong) (auto simp: nth_append)
      show ?thesis unfolding m by (rule xor_bytes_cancel) (simp_all add: \<open>length ip = 4\<close>)
    qed
    then show ?thesis
      unfolding V4 decode_xor_mapped_address_def Let_def encode_xor_mapped_address_def socket_addr.case port
      by (simp add: be16_def)
  next
    case (V6 ip p)
    then have "length ip = 16" using assms(1) by (simp add: addr_ok_def)
    have "map2 (\<lambda>a b. a XOR b) (map (\<lambda>i. ip ! i XOR (be32 MAGIC_COOKIE @ tid) ! i) [0..<16])
        (be32 MAGIC_COOKIE @ tid) = ip"
      using xor_bytes_cancel [OF \<open>length ip = 16\<close>, of "be32 MAGIC_COOKIE @ tid"] assms(2) by simp
    then show ?thesis
      unfolding V6 decode_xor_mapped_address_def Let_def encode_xor_mapped_address_def socket_addr.case port
      by (simp add: be16_def)
  qed
qed

text \<open>The attributes of a binding response, given its integrity value and fingerprint.\<close>

abbreviation xma_attr :: "socket_addr \<Rightarrow> bytes \<Rightarrow> stun_attribute" where
  "xma_attr addr tid \<equiv>
     \<lparr> attr_type = ATTR_XOR_MAPPED_ADDRESS, attr_value = encode_xor_mapped_address addr tid \<rparr>"

abbreviation sw_attr :: stun_attribute where
  "sw_attr \<equiv> \<lparr> attr_type = ATTR_SOFTWARE, attr_value = SOFTWARE_NAME \<rparr>"

abbreviation mi_attr :: "bytes \<Rightarrow> stun_attribute" where
  "mi_attr h \<equiv> \<lparr> attr_type = ATTR_MESSAGE_INTEGRITY, attr_value = h \<rparr>"

lemma length_sw [simp]: "length SOFTWARE_NAME = 14"
  by (simp add: SOFTWARE_NAME_def)

lemma build_response_wire:
  assumes "length tid = 12"
  shows "\<exists>fp. length fp = 4 \<and>
    build_binding_response hmac crc tid addr key =
      stun_wire BINDING_RESPONSE tid
        ([xma_attr addr tid, sw_attr] @
         mi_attr (hmac (stun_hdr BINDING_RESPONSE (length (enc_attrs [xma_attr addr tid, sw_attr]) + 24) tid @
                        enc_attrs [xma_attr addr tid, sw_attr]) key) #
         [\<lparr> attr_type = ATTR_FINGERPRINT, attr_value = fp \<rparr>])"
proof -
  let ?as = "[xma_attr addr tid, sw_attr]"
  have b0: "be16 BINDING_RESPONSE @ be16 0 @ be32 MAGIC_COOKIE @ tid = stun_hdr BINDING_RESPONSE 0 tid"
    by (simp add: stun_hdr_def)
  have al: "align4 20 = 20" "align4 4 = 4" by simp_all
  define b3 where "b3 = stun_hdr BINDING_RESPONSE (length (enc_attrs ?as) + 24) tid @ enc_attrs ?as"
  define h where "h = hmac b3 key"
  define b5 where "b5 = stun_hdr BINDING_RESPONSE (length (enc_attrs (?as @ [mi_attr h])) + 8) tid @
    enc_attrs (?as @ [mi_attr h])"
  define fp where "fp = be32 (crc b5 XOR 0x5354554E)"
  have s2: "write_attr ATTR_SOFTWARE SOFTWARE_NAME (write_attr ATTR_XOR_MAPPED_ADDRESS
      (encode_xor_mapped_address addr tid) (stun_hdr BINDING_RESPONSE 0 tid)) =
      stun_hdr BINDING_RESPONSE 0 tid @ enc_attrs ?as"
    by (simp add: write_attr_enc)
  have s3: "copy_at 2 (be16 (word_of_nat (length (stun_hdr BINDING_RESPONSE 0 tid @ enc_attrs ?as) - HEADER_SIZE + 24)))
      (stun_hdr BINDING_RESPONSE 0 tid @ enc_attrs ?as) = b3"
    unfolding stun_hdr_fields(6) [OF assms(1)] b3_def using assms(1) by simp
  have s5: "copy_at 2 (be16 (word_of_nat (length (write_attr ATTR_MESSAGE_INTEGRITY h b3) - HEADER_SIZE + 8)))
      (write_attr ATTR_MESSAGE_INTEGRITY h b3) = b5"
    unfolding write_attr_enc b3_def append_assoc stun_hdr_fields(6) [OF assms(1)] b5_def using assms(1) by simp
  have s6: "copy_at 2 (be16 (word_of_nat (length (write_attr ATTR_FINGERPRINT fp b5) - HEADER_SIZE)))
      (write_attr ATTR_FINGERPRINT fp b5) =
      stun_wire BINDING_RESPONSE tid (?as @ mi_attr h # [\<lparr> attr_type = ATTR_FINGERPRINT, attr_value = fp \<rparr>])"
    unfolding write_attr_enc b5_def append_assoc stun_hdr_fields(6) [OF assms(1)] stun_wire_def
    using assms(1) by simp
  have "build_binding_response hmac crc tid addr key =
      stun_wire BINDING_RESPONSE tid (?as @ mi_attr h # [\<lparr> attr_type = ATTR_FINGERPRINT, attr_value = fp \<rparr>])"
    unfolding build_binding_response_def Let_def b0 s2 s3 h_def [symmetric] s5 fp_def [symmetric] s6 by (rule refl)
  moreover have "length fp = 4" by (simp add: fp_def)
  ultimately show ?thesis unfolding h_def b3_def by blast
qed

lemma build_response_parses:
  assumes "length tid = 12" and "addr_ok addr" and "\<And>d k. length (hmac d k) = 20"
  shows "\<exists>msg d fp. stun_parse (build_binding_response hmac crc tid addr key @ junk) = Some (Some msg) \<and>
           msg_type msg = BINDING_RESPONSE \<and> transaction_id msg = tid \<and>
           attributes msg = [xma_attr addr tid, sw_attr, mi_attr (hmac d key), \<lparr> attr_type = ATTR_FINGERPRINT, attr_value = fp \<rparr>] \<and>
           (\<forall>k. verify_message_integrity hmac msg k = Some (hmac d key = hmac d k))"
proof -
  let ?as = "[xma_attr addr tid, sw_attr]"
  let ?d = "stun_hdr BINDING_RESPONSE (length (enc_attrs ?as) + 24) tid @ enc_attrs ?as"
  obtain fp where fp: "length fp = 4" "build_binding_response hmac crc tid addr key =
      stun_wire BINDING_RESPONSE tid (?as @ mi_attr (hmac ?d key) # [\<lparr> attr_type = ATTR_FINGERPRINT, attr_value = fp \<rparr>])"
    using build_response_wire [OF assms(1)] by blast
  let ?attrs = "?as @ mi_attr (hmac ?d key) # [\<lparr> attr_type = ATTR_FINGERPRINT, attr_value = fp \<rparr>]"
  have xl: "length (encode_xor_mapped_address addr tid) \<le> 20" using assms(2) by (auto split: socket_addr.splits)
  have ok: "\<forall>a\<in>set ?attrs. attr_ok a" using xl assms(3) fp(1) by (auto simp: attr_ok_def)
  have len: "length (enc_attrs ?attrs) < 65536"
    using xl align4_less [of "length (encode_xor_mapped_address addr tid)"] assms(3) fp(1)
      align4_less [of 14] by simp
  define msg where "msg = \<lparr> msg_type = BINDING_RESPONSE, msg_length = word_of_nat (length (enc_attrs ?attrs)),
      transaction_id = tid, attributes = ?attrs, raw = stun_wire BINDING_RESPONSE tid ?attrs \<rparr>"
  have "stun_parse (build_binding_response hmac crc tid addr key @ junk) = Some (Some msg)"
    unfolding fp(2) msg_def by (rule stun_parse_wire [OF assms(1) ok len]) simp
  moreover have "verify_message_integrity hmac msg k = Some (attr_value (mi_attr (hmac ?d key)) = hmac ?d k)" for k
  proof (rule verify_wire [OF assms(1)])
    show "\<forall>a\<in>set ?as. attr_ok a \<and> attr_type a \<noteq> ATTR_MESSAGE_INTEGRITY" using ok by simp
    show "attr_ok (mi_attr (hmac ?d key))" using ok by simp
  qed (simp_all add: msg_def)
  moreover have "msg_type msg = BINDING_RESPONSE" "transaction_id msg = tid" "attributes msg =
      [xma_attr addr tid, sw_attr, mi_attr (hmac ?d key), \<lparr> attr_type = ATTR_FINGERPRINT, attr_value = fp \<rparr>]"
    by (simp_all add: msg_def)
  ultimately show ?thesis unfolding stun_attribute.select_convs by blast
qed

text \<open>
  C13: The binding response the server sends is one the client accepts. It parses (whatever bytes
  follow it) as a binding success response with the transaction id of the request, it passes the
  message-integrity check under the key it was built with, and its XOR-MAPPED-ADDRESS decodes to the
  address the request came from, for IPv4 and IPv6. Of HMAC-SHA1 this uses only that its output has
  20 bytes.
\<close>

theorem binding_response_accepted:
  assumes "length tid = 12" and "addr_ok addr" and "\<And>d k. length (hmac d k) = 20"
  shows "\<exists>msg a. stun_parse (build_binding_response hmac crc tid addr key @ junk) = Some (Some msg) \<and>
           msg_type msg = BINDING_RESPONSE \<and> transaction_id msg = tid \<and>
           verify_message_integrity hmac msg key = Some True \<and>
           get_attr msg ATTR_XOR_MAPPED_ADDRESS = Some a \<and>
           decode_xor_mapped_address (attr_value a) tid = Some addr"
  using build_response_parses [where hmac = hmac, OF assms, where crc = crc and key = key and junk = junk]
    decode_encode_xma [OF assms(2,1)]
  by (fastforce simp: get_attr_def)

theorem binding_response_accepted_witness:
  "\<exists>msg a. stun_parse (build_binding_response (\<lambda>d k. replicate 20 7) (\<lambda>d. 9) (replicate 12 1)
             (V4 [192, 168, 0, 1] 5000) [3]) = Some (Some msg) \<and>
           get_attr msg ATTR_XOR_MAPPED_ADDRESS = Some a \<and>
           decode_xor_mapped_address (attr_value a) (replicate 12 1) = Some (V4 [192, 168, 0, 1] 5000)"
  using binding_response_accepted [of "replicate 12 1" "V4 [192, 168, 0, 1] 5000" "\<lambda>d k. replicate 20 7"
      "\<lambda>d. 9" "[3]" "[]"]
  by (auto simp: addr_ok_def)

text \<open>
  Attributes on arbitrary bytes: \<open>attr_walk\<close> relates the offset of an attribute to those of the attributes behind it, and
  \<open>stun_attr_at\<close> says that a message has a complete attribute of a type and a value at an offset.
\<close>

inductive attr_walk :: "bytes \<Rightarrow> nat \<Rightarrow> nat \<Rightarrow> nat \<Rightarrow> bool" for buf total where
  here: "attr_walk buf total off off"
| further: "off + 4 \<le> total \<Longrightarrow> attr_walk buf total (off + 4 + align4 (unat (be16_at buf (off + 2)))) off' \<Longrightarrow> attr_walk buf total off off'"

definition stun_total :: "bytes \<Rightarrow> nat" where
  "stun_total buf = 20 + unat (be16_at buf 2)"

definition stun_attr_at :: "bytes \<Rightarrow> nat \<Rightarrow> u16 \<Rightarrow> bytes \<Rightarrow> bool" where
  "stun_attr_at buf off at v \<longleftrightarrow> attr_walk buf (stun_total buf) 20 off \<and> off + 4 + length v \<le> stun_total buf \<and>
     be16_at buf off = at \<and> unat (be16_at buf (off + 2)) = length v \<and> v = take (length v) (drop (off + 4) buf)"

text \<open>The first attribute of a type that the parser lists is the one whose offset the integrity check finds.\<close>

lemma attr_loop_find:
  assumes "attr_loop buf t off = Some as" "t \<le> length buf" "find (\<lambda>a. attr_type a = at) as = Some a"
  shows "\<exists>off'. find_attr_offset_loop (take t buf) at off = Some (Some off') \<and> attr_walk buf t off off' \<and> off \<le> off' \<and>
    off' + 4 + length (attr_value a) \<le> t \<and> be16_at buf off' = at \<and> unat (be16_at buf (off' + 2)) = length (attr_value a) \<and>
    attr_value a = take (length (attr_value a)) (drop (off' + 4) buf)"
  using assms
proof (induction "t - off" arbitrary: off as rule: less_induct)
  case less
  have fits: "off + 4 \<le> t" using less.prems(1,3) by (subst (asm) attr_loop.simps) (auto split: if_splits)
  let ?al = "unat (be16_at buf (off + 2))"
  let ?next = "off + 4 + align4 ?al"
  have full: "off + 4 + ?al \<le> t"
    using less.prems fits by (subst (asm) attr_loop.simps) (auto simp: Let_def split: if_splits)
  obtain rest where rest: "attr_loop buf t ?next = Some rest"
    and as: "as = \<lparr> attr_type = be16_at buf off, attr_value = take ?al (drop (off + 4) buf) \<rparr> # rest"
    using less.prems(1,2) fits full
    by (subst (asm) attr_loop.simps) (auto simp: Let_def slice_def bind_eq_Some_conv split: if_splits)
  have raw: "be16_at (take t buf) off = be16_at buf off" "be16_at (take t buf) (off + 2) = be16_at buf (off + 2)"
    using fits less.prems(2) by (simp_all add: be16_at_def)
  show ?case
  proof (cases "be16_at buf off = at")
    case True
    then have "find_attr_offset_loop (take t buf) at off = Some (Some off)"
      using fits less.prems(2) raw by (subst find_attr_offset_loop.simps) simp
    then show ?thesis using True less.prems(2,3) full as by (intro exI [of _ off]) (auto intro: attr_walk.here)
  next
    case False
    have step: "find_attr_offset_loop (take t buf) at off = find_attr_offset_loop (take t buf) at ?next"
      using fits less.prems(2) raw False by (subst find_attr_offset_loop.simps) (simp add: add.assoc)
    have "find (\<lambda>a. attr_type a = at) rest = Some a" using less.prems(3) False by (simp add: as)
    moreover have "t - ?next < t - off" using fits by simp
    ultimately obtain off' where o: "find_attr_offset_loop (take t buf) at ?next = Some (Some off')" "attr_walk buf t ?next off'" "?next \<le> off'"
      "off' + 4 + length (attr_value a) \<le> t" "be16_at buf off' = at" "unat (be16_at buf (off' + 2)) = length (attr_value a)"
      "attr_value a = take (length (attr_value a)) (drop (off' + 4) buf)"
      using less.hyps rest less.prems(2) by blast
    have "off \<le> off'" using o(3) by linarith
    then show ?thesis unfolding step using o attr_walk.further [OF fits o(2)] by blast
  qed
qed

text \<open>What a datagram has to be, byte by byte, to be an authenticated binding request.\<close>

definition authentic_request :: "(bytes \<Rightarrow> bytes \<Rightarrow> bytes) \<Rightarrow> ice_credentials \<Rightarrow> bytes \<Rightarrow> bool" where
  "authentic_request hmac creds buf \<longleftrightarrow>
     stun_total buf \<le> length buf \<and> be16_at buf 0 = BINDING_REQUEST \<and> be32_at buf 4 = MAGIC_COOKIE \<and>
     (\<exists>off un. stun_attr_at buf off ATTR_USERNAME un \<and> valid_utf8 un \<and>
        take (length (ice_ufrag creds) + 1) (string_of un) = ice_ufrag creds @ '':'') \<and>
     (\<exists>off h. stun_attr_at buf off ATTR_MESSAGE_INTEGRITY h \<and>
        h = hmac (take 2 buf @ be16 (word_of_nat (off + 4)) @ drop 4 (take off buf)) (ice_integrity_key (ice_pwd creds)))"

lemma answered_is_authentic:
  assumes "handle_stun_packet hmac crc buf remote creds = Some (SendResponse resp to uc)"
  shows "authentic_request hmac creds buf"
    and "resp = build_binding_response hmac crc (take 12 (drop 8 buf)) remote (ice_integrity_key (ice_pwd creds))" "to = remote"
proof -
  obtain parsed where "stun_parse buf = Some parsed" using stun_parse_total by blast
  then obtain msg where msg: "stun_parse buf = Some (Some msg)"
    using assms by (cases parsed) (simp_all add: handle_stun_packet_def)
  have type: "msg_type msg = BINDING_REQUEST" using assms by (simp add: handle_stun_packet_def msg split: if_splits)
  obtain u where u: "username msg = Some u" using assms type by (cases "username msg") (simp_all add: handle_stun_packet_def msg)
  obtain ok where ok: "verify_message_integrity hmac msg (ice_integrity_key (ice_pwd creds)) = Some ok" using verify_total by blast
  have un: "\<exists>u. username msg = Some u \<and> take (length (ice_ufrag creds) + 1) u = ice_ufrag creds @ '':''"
    and ver: "verify_message_integrity hmac msg (ice_integrity_key (ice_pwd creds)) = Some True"
    and resp: "resp = build_binding_response hmac crc (transaction_id msg) remote (ice_integrity_key (ice_pwd creds))" "to = remote"
    using assms type u ok by (auto simp: handle_stun_packet_def Let_def msg split: if_splits)
  have wire: "stun_total buf \<le> length buf" "be32_at buf 4 = MAGIC_COOKIE" "msg_type msg = be16_at buf 0"
    "transaction_id msg = take 12 (drop 8 buf)" "raw msg = take (stun_total buf) buf"
    "attr_loop buf (stun_total buf) 20 = Some (attributes msg)"
    using msg by (auto simp: stun_parse_def stun_total_def Let_def bind_eq_Some_conv split: if_splits)
  have attr: "\<exists>off. find_attr_offset (raw msg) at = Some (Some off) \<and> 20 \<le> off \<and> stun_attr_at buf off at (attr_value a)"
    if "get_attr msg at = Some a" for at a
    using attr_loop_find [OF wire(6,1), of at a] that
    by (auto simp: get_attr_def find_attr_offset_def wire(5) stun_attr_at_def)
  obtain a where "get_attr msg ATTR_USERNAME = Some a" "valid_utf8 (attr_value a)"
    "take (length (ice_ufrag creds) + 1) (string_of (attr_value a)) = ice_ufrag creds @ '':''"
    using un by (auto simp: username_def from_utf8_def bind_eq_Some_conv split: if_splits)
  then have user: "\<exists>off un. stun_attr_at buf off ATTR_USERNAME un \<and> valid_utf8 un \<and>
      take (length (ice_ufrag creds) + 1) (string_of un) = ice_ufrag creds @ '':''"
    using attr by blast
  obtain mi where mi: "get_attr msg ATTR_MESSAGE_INTEGRITY = Some mi"
    using ver by (auto simp: verify_message_integrity_def message_integrity_def split: option.splits)
  obtain off where off: "find_attr_offset (raw msg) ATTR_MESSAGE_INTEGRITY = Some (Some off)" "20 \<le> off"
    and at: "stun_attr_at buf off ATTR_MESSAGE_INTEGRITY (attr_value mi)"
    using attr [OF mi] by blast
  have le: "off \<le> stun_total buf" using at by (simp add: stun_attr_at_def)
  have eq: "length xs = length ys \<and> list_all (\<lambda>(a, b). a = b) (zip xs ys) \<longleftrightarrow> ys = xs" for xs ys :: bytes
    by (auto simp: list_all_length intro: nth_equalityI)
  have "copy_at 2 (be16 (word_of_nat (off - HEADER_SIZE + 24))) (take off (raw msg)) =
      take 2 buf @ be16 (word_of_nat (off + 4)) @ drop 4 (take off buf)"
    using le off(2) by (simp add: copy_at_def wire(5) min_def)
  moreover have "slice (raw msg) 0 off = Some (take off (raw msg))" using le wire(1) by (simp add: wire(5))
  ultimately have "attr_value mi = hmac (take 2 buf @ be16 (word_of_nat (off + 4)) @ drop 4 (take off buf)) (ice_integrity_key (ice_pwd creds))"
    using ver unfolding verify_message_integrity_def message_integrity_def mi off(1) Let_def option.map option.case bind.bind_lunit
    by (simp only: eq option.inject bind.bind_lunit simp_thms)
  with at user wire(1-3) type show "authentic_request hmac creds buf" unfolding authentic_request_def by metis
  show "resp = build_binding_response hmac crc (take 12 (drop 8 buf)) remote (ice_integrity_key (ice_pwd creds))" "to = remote"
    using resp wire(4) by simp_all
qed

text \<open>
  C14: The ICE agent answers authenticated binding requests and nothing else. It never indexes out of
  range, on any bytes. Whatever datagram it answers is a binding request by its type and cookie, has a complete user name attribute that is
  valid UTF-8 and starts with the server's user fragment and a colon, and has a complete integrity attribute whose value is the
  HMAC, under the server's password, of the message up to that attribute with the length field adjusted; the answer has its transaction id
  and goes to the address it came from. Conversely a well-formed binding request whose first attribute is its user name and which
  carries an integrity attribute is answered, with the use-candidate flag it has, exactly when user name
  and integrity value are right, and ignored otherwise.
\<close>

theorem ice_answers_authenticated_requests:
  assumes "length tid = 12" and "\<forall>a\<in>set (others @ rest). attr_ok a" and "length un < 65536" "length h < 65536"
    and "\<forall>a\<in>set others. attr_type a \<noteq> ATTR_MESSAGE_INTEGRITY"
    and "as1 = \<lparr> attr_type = ATTR_USERNAME, attr_value = un \<rparr> # others" and "as = as1 @ mi_attr h # rest"
    and "length (enc_attrs as) < 65536"
  shows "handle_stun_packet hmac crc (stun_wire BINDING_REQUEST tid as) remote creds =
    Some (if valid_utf8 un \<and> take (length (ice_ufrag creds) + 1) (string_of un) = ice_ufrag creds @ '':'' \<and>
             h = hmac (stun_hdr BINDING_REQUEST (length (enc_attrs as1) + 24) tid @ enc_attrs as1)
                   (ice_integrity_key (ice_pwd creds))
          then SendResponse (build_binding_response hmac crc tid remote (ice_integrity_key (ice_pwd creds))) remote
                 (\<exists>a\<in>set (others @ rest). attr_type a = ATTR_USE_CANDIDATE)
          else Ignore) \<and>
    (\<forall>buf. \<exists>r. handle_stun_packet hmac crc buf remote creds = Some r \<and>
      (\<forall>resp to uc. r = SendResponse resp to uc \<longrightarrow> authentic_request hmac creds buf \<and>
         resp = build_binding_response hmac crc (take 12 (drop 8 buf)) remote (ice_integrity_key (ice_pwd creds)) \<and> to = remote))"
proof -
  define msg where msg: "msg = \<lparr> msg_type = BINDING_REQUEST, msg_length = word_of_nat (length (enc_attrs as)),
      transaction_id = tid, attributes = as, raw = stun_wire BINDING_REQUEST tid as \<rparr>"
  have ok: "\<forall>a\<in>set as. attr_ok a" using assms(2,3,4,6,7) by (auto simp: attr_ok_def)
  have parse: "stun_parse (stun_wire BINDING_REQUEST tid as) = Some (Some msg)"
    using stun_parse_wire [OF assms(1) ok assms(8), of BINDING_REQUEST "[]"] by (simp add: msg)
  have un: "username msg = from_utf8 un" by (simp add: username_def get_attr_def msg assms(6,7))
  have uc: "has_use_candidate msg \<longleftrightarrow> (\<exists>a\<in>set (others @ rest). attr_type a = ATTR_USE_CANDIDATE)"
    by (auto simp: has_use_candidate_def get_attr_def find_None_iff msg assms(6,7))
  have hd: "msg_type msg = BINDING_REQUEST" "transaction_id msg = tid" by (simp_all add: msg)
  have ver: "verify_message_integrity hmac msg key =
      Some (attr_value (mi_attr h) = hmac (stun_hdr BINDING_REQUEST (length (enc_attrs as1) + 24) tid @ enc_attrs as1) key)"
    for key
  proof (rule verify_wire [OF assms(1)])
    show "\<forall>a\<in>set as1. attr_ok a \<and> attr_type a \<noteq> ATTR_MESSAGE_INTEGRITY" using ok assms(5,6,7) by auto
    show "attr_ok (mi_attr h)" using ok assms(7) by simp
  qed (simp_all add: msg assms(7))
  have "handle_stun_packet hmac crc (stun_wire BINDING_REQUEST tid as) remote creds =
    Some (if valid_utf8 un \<and> take (length (ice_ufrag creds) + 1) (string_of un) = ice_ufrag creds @ '':'' \<and>
             h = hmac (stun_hdr BINDING_REQUEST (length (enc_attrs as1) + 24) tid @ enc_attrs as1)
                   (ice_integrity_key (ice_pwd creds))
          then SendResponse (build_binding_response hmac crc tid remote (ice_integrity_key (ice_pwd creds))) remote
                 (\<exists>a\<in>set (others @ rest). attr_type a = ATTR_USE_CANDIDATE)
          else Ignore)"
    unfolding handle_stun_packet_def parse uc [symmetric]
    by (auto simp: un ver hd from_utf8_def Let_def)
  moreover have "\<exists>r. handle_stun_packet hmac crc buf remote creds = Some r \<and>
      (\<forall>resp to uc. r = SendResponse resp to uc \<longrightarrow> authentic_request hmac creds buf \<and>
         resp = build_binding_response hmac crc (take 12 (drop 8 buf)) remote (ice_integrity_key (ice_pwd creds)) \<and> to = remote)" for buf
    using handle_total [of hmac crc buf remote creds] answered_is_authentic [of hmac crc buf remote creds] by fast
  ultimately show ?thesis by (intro conjI allI)
qed

theorem ice_answers_authenticated_requests_witness:
  "\<exists>data. handle_stun_packet (\<lambda>d k. replicate 20 7) (\<lambda>d. 9)
     (stun_wire BINDING_REQUEST (replicate 12 1)
        ([\<lparr> attr_type = ATTR_USERNAME, attr_value = bytes_of ''srv:cli'' \<rparr>] @
         mi_attr (replicate 20 7) # [\<lparr> attr_type = ATTR_USE_CANDIDATE, attr_value = [] \<rparr>]))
     (V4 [10, 0, 0, 1] 5000) \<lparr> ice_ufrag = ''srv'', ice_pwd = ''secret'' \<rparr> =
   Some (SendResponse data (V4 [10, 0, 0, 1] 5000) True)"
proof -
  have v: "valid_utf8 (bytes_of ''srv:cli'')" by (simp add: bytes_of_def)
  have al: "align4 (length (bytes_of ''srv:cli'')) = 8" by (simp add: align4_def)
  have "length (enc_attrs ([\<lparr> attr_type = ATTR_USERNAME, attr_value = bytes_of ''srv:cli'' \<rparr>] @
         mi_attr (replicate 20 7) # [\<lparr> attr_type = ATTR_USE_CANDIDATE, attr_value = [] \<rparr>])) < 65536"
    by (simp only: enc_attrs_simps append_Cons append_Nil length_append length_enc_attr stun_attribute.select_convs al) simp
  then show ?thesis
    using ice_answers_authenticated_requests [of "replicate 12 1" "[]"
        "[\<lparr> attr_type = ATTR_USE_CANDIDATE, attr_value = [] \<rparr>]" "bytes_of ''srv:cli''" "replicate 20 7"
        "[\<lparr> attr_type = ATTR_USERNAME, attr_value = bytes_of ''srv:cli'' \<rparr>]" _
        "\<lambda>d k. replicate 20 7" "\<lambda>d. 9" "V4 [10, 0, 0, 1] 5000" "\<lparr> ice_ufrag = ''srv'', ice_pwd = ''secret'' \<rparr>"] v
    by (simp add: attr_ok_def)
qed

end
