(* ===== verification/Participant.thy ===== *)
theory Participant
  imports Rtcp Twcc Terminator Stun RtpStream
begin

text \<open>
  The state of one participant, \<open>room/participant.rs\<close>: its two media sessions, published tracks, the
  cache of recent video packets for retransmission, and the simulcast rewriter a subscriber keeps per
  publisher. Atomic counters are plain words; random numbers are arguments. The channels to the
  WebSocket and the egress task are not part of the record: a step that sends returns what it sends.
\<close>

section \<open>Simulcast rewriter\<close>

record simulcast_rewriter =
  sr_virtual_ssrc :: u32
  sr_seq_offset :: u16
  sr_ts_offset :: u32
  sr_last_out_seq :: u16
  sr_last_out_ts :: u32
  sr_pending_keyframe :: bool
  sr_initialized :: bool
  sr_pli_sent_at :: "instant option"

definition simulcast_new :: "u32 \<Rightarrow> simulcast_rewriter" where
  "simulcast_new vssrc =
     \<lparr> sr_virtual_ssrc = vssrc, sr_seq_offset = 0, sr_ts_offset = 0, sr_last_out_seq = 0,
       sr_last_out_ts = 0, sr_pending_keyframe = False, sr_initialized = False, sr_pli_sent_at = None \<rparr>"

definition needs_pli_retry :: "instant \<Rightarrow> simulcast_rewriter \<Rightarrow> bool" where
  "needs_pli_retry now s =
     (if sr_initialized s then False
      else case sr_pli_sent_at s of None \<Rightarrow> True | Some t \<Rightarrow> 2000000000 \<le> elapsed now t)"

definition mark_pli_sent :: "instant \<Rightarrow> simulcast_rewriter \<Rightarrow> simulcast_rewriter" where
  "mark_pli_sent now s = s\<lparr> sr_pli_sent_at := Some now \<rparr>"

definition switch_layer :: "simulcast_rewriter \<Rightarrow> simulcast_rewriter" where
  "switch_layer s = s\<lparr> sr_pending_keyframe := True \<rparr>"

text \<open>The offsets for an accepted packet; \<open>None\<close> when it has to wait for a keyframe.\<close>

definition simulcast_sync :: "u16 \<Rightarrow> u32 \<Rightarrow> bool \<Rightarrow> simulcast_rewriter \<Rightarrow> simulcast_rewriter option" where
  "simulcast_sync input_seq input_ts is_keyframe s =
     (if \<not> sr_initialized s then
        (if \<not> is_keyframe then None
         else Some (s\<lparr> sr_seq_offset := 0, sr_ts_offset := 0, sr_initialized := True, sr_pending_keyframe := False \<rparr>))
      else if sr_pending_keyframe s then
        (if \<not> is_keyframe then None
         else Some (s\<lparr> sr_seq_offset := (sr_last_out_seq s + 1) - input_seq,
                       sr_ts_offset := (sr_last_out_ts s + 1) - input_ts, sr_pending_keyframe := False \<rparr>))
      else Some s)"

definition simulcast_rewrite :: "simulcast_rewriter \<Rightarrow> bytes \<Rightarrow> bool \<Rightarrow> bool \<times> bytes \<times> simulcast_rewriter" where
  "simulcast_rewrite s buf is_keyframe =
     (if length buf < 12 then (False, buf, s)
      else
        (let input_seq = be16_at buf 2;
             input_ts = be32_at buf 4
         in case simulcast_sync input_seq input_ts is_keyframe s of
              None \<Rightarrow> (False, buf, s)
            | Some s1 \<Rightarrow>
                (let out_seq = input_seq + sr_seq_offset s1;
                     out_ts = input_ts + sr_ts_offset s1;
                     b1 = copy_at 8 (be32 (sr_virtual_ssrc s1)) buf;
                     b2 = copy_at 2 (be16 out_seq) b1;
                     b3 = copy_at 4 (be32 out_ts) b2
                 in (True, b3, s1\<lparr> sr_last_out_seq := out_seq, sr_last_out_ts := out_ts \<rparr>))))"

definition simulcast_reverse_seq :: "simulcast_rewriter \<Rightarrow> u16 \<Rightarrow> u16" where
  "simulcast_reverse_seq s virtual_seq = virtual_seq - sr_seq_offset s"

record subscribe_layer_entry =
  sl_rid :: string
  sl_rewriter :: simulcast_rewriter

section \<open>Tracks and codecs\<close>

datatype pc_type = Publish | Subscribe

instantiation pc_type :: enum
begin

definition "enum_pc_type = [Publish, Subscribe]"
definition "enum_all_pc_type P \<longleftrightarrow> P Publish \<and> P Subscribe"
definition "enum_ex_pc_type P \<longleftrightarrow> P Publish \<or> P Subscribe"

instance
proof
  show all: "UNIV = set (enum_class.enum :: pc_type list)" using pc_type.exhaust by (auto simp: enum_pc_type_def)
qed (auto simp: enum_pc_type_def enum_all_pc_type_def enum_ex_pc_type_def, (metis pc_type.exhaust)+)

end

datatype video_codec = Vp8 | H264 | Vp9

definition to_upper_ascii :: "string \<Rightarrow> string" where
  "to_upper_ascii s =
     map (\<lambda>c. let n = of_char c :: nat in if 97 \<le> n \<and> n \<le> 122 then char_of (n - 32) else c) s"

definition from_str_or_default :: "string option \<Rightarrow> video_codec" where
  "from_str_or_default s =
     (case map_option to_upper_ascii s of
        None \<Rightarrow> Vp8
      | Some u \<Rightarrow> if u = ''H264'' then H264 else if u = ''VP9'' then Vp9 else Vp8)"

definition standard_pt :: "video_codec \<Rightarrow> u8" where
  "standard_pt c = (case c of H264 \<Rightarrow> H264_PAYLOAD_TYPE | _ \<Rightarrow> VP8_PAYLOAD_TYPE)"

definition standard_rtx_pt :: "video_codec \<Rightarrow> u8" where
  "standard_rtx_pt c = rtx_pt_for (standard_pt c)"

datatype track_kind = Audio | Video

record track =
  t_ssrc :: u32
  t_kind :: track_kind
  t_track_id :: string
  t_rtx_ssrc :: "u32 option"
  t_muted :: bool
  t_rid :: "string option"
  t_simulcast_group :: "u32 option"
  t_video_codec :: video_codec
  t_actual_pt :: u8
  t_actual_rtx_pt :: u8

section \<open>Media sessions\<close>

text \<open>
  An SRTP context is ready once keys are installed. Whether the keys are accepted is decided by the
  SRTP library, so \<open>install_srtp_keys\<close> takes its verdicts.
\<close>

record media_session =
  ms_ufrag :: string
  ms_ice_pwd :: string
  ms_address :: "socket_addr option"
  ms_inbound_ready :: bool
  ms_outbound_ready :: bool

definition media_session_new :: "string \<Rightarrow> string \<Rightarrow> media_session" where
  "media_session_new ufrag pwd =
     \<lparr> ms_ufrag = ufrag, ms_ice_pwd = pwd, ms_address = None, ms_inbound_ready = False, ms_outbound_ready = False \<rparr>"

definition latch_address :: "socket_addr \<Rightarrow> media_session \<Rightarrow> media_session" where
  "latch_address addr s = s\<lparr> ms_address := Some addr \<rparr>"

definition is_media_ready :: "media_session \<Rightarrow> bool" where
  "is_media_ready s = ms_inbound_ready s"

definition install_srtp_keys :: "bool \<Rightarrow> bool \<Rightarrow> media_session \<Rightarrow> media_session" where
  "install_srtp_keys in_ok out_ok s =
     s\<lparr> ms_inbound_ready := ms_inbound_ready s \<or> in_ok, ms_outbound_ready := ms_outbound_ready s \<or> out_ok \<rparr>"

section \<open>RTP cache\<close>

type_synonym rtp_cache = "bytes option list"

definition cache_new :: rtp_cache where
  "cache_new = replicate RTP_CACHE_SIZE None"

definition cache_store :: "u16 \<Rightarrow> bytes \<Rightarrow> rtp_cache \<Rightarrow> rtp_cache" where
  "cache_store seq plaintext c = c[unat seq mod RTP_CACHE_SIZE := Some plaintext]"

definition slot_seq :: "rtp_cache \<Rightarrow> u16 \<Rightarrow> u16 option" where
  "slot_seq c seq =
     (case c ! (unat seq mod RTP_CACHE_SIZE) of
        Some pkt \<Rightarrow> if RTP_HEADER_MIN_SIZE \<le> length pkt then Some (be16_at pkt 2) else None
      | None \<Rightarrow> None)"

definition cache_get :: "rtp_cache \<Rightarrow> u16 \<Rightarrow> bytes option" where
  "cache_get c seq =
     (case c ! (unat seq mod RTP_CACHE_SIZE) of
        Some pkt \<Rightarrow>
          if RTP_HEADER_MIN_SIZE \<le> length pkt then (if be16_at pkt 2 = seq then Some pkt else None) else None
      | None \<Rightarrow> None)"

section \<open>Pipeline counters\<close>

record pipeline_stats =
  pub_rtp_in :: u64
  pub_rtp_gated :: u64
  pub_rtp_rewritten :: u64
  pub_video_pending :: u64
  pub_pli_received :: u64
  sub_rtp_relayed :: u64
  sub_rtp_dropped :: u64
  sub_sr_relayed :: u64
  sub_nack_sent :: u64
  sub_rtx_received :: u64

definition pipeline_new :: pipeline_stats where
  "pipeline_new = \<lparr> pub_rtp_in = 0, pub_rtp_gated = 0, pub_rtp_rewritten = 0, pub_video_pending = 0,
     pub_pli_received = 0, sub_rtp_relayed = 0, sub_rtp_dropped = 0, sub_sr_relayed = 0,
     sub_nack_sent = 0, sub_rtx_received = 0 \<rparr>"

record pipeline_snapshot =
  sn_pub_rtp_in :: u64
  sn_pub_rtp_gated :: u64
  sn_pub_rtp_rewritten :: u64
  sn_pub_video_pending :: u64
  sn_pub_pli_received :: u64
  sn_sub_rtp_relayed :: u64
  sn_sub_rtp_dropped :: u64
  sn_sub_sr_relayed :: u64
  sn_sub_nack_sent :: u64
  sn_sub_rtx_received :: u64

text \<open>A snapshot reads the counters and leaves them as they are.\<close>

definition snapshot :: "pipeline_stats \<Rightarrow> pipeline_snapshot" where
  "snapshot s = \<lparr> sn_pub_rtp_in = pub_rtp_in s, sn_pub_rtp_gated = pub_rtp_gated s, sn_pub_rtp_rewritten = pub_rtp_rewritten s,
     sn_pub_video_pending = pub_video_pending s, sn_pub_pli_received = pub_pli_received s,
     sn_sub_rtp_relayed = sub_rtp_relayed s, sn_sub_rtp_dropped = sub_rtp_dropped s, sn_sub_sr_relayed = sub_sr_relayed s,
     sn_sub_nack_sent = sub_nack_sent s, sn_sub_rtx_received = sub_rtx_received s \<rparr>"

section \<open>Participants\<close>

text \<open>
  A WebSocket sender is the number of the connection whose channel it feeds. The egress channel is
  the queue of the packets not yet taken by the egress task; its receiver lives as long as the
  participant, so that a \<open>try_send\<close> fails exactly when the queue is full.
\<close>

datatype egress_packet = EgRtp bytes | EgRtcp bytes

record 'f participant =
  p_user_id :: user_id
  p_room_id :: string
  p_joined_at :: u64
  p_last_seen :: u64
  p_ws_tx :: nat
  p_publish :: media_session
  p_subscribe :: media_session
  p_tracks :: "track list"
  p_rtp_cache :: rtp_cache
  p_rtx_ssrc_counter :: u32
  p_rtx_seq :: u16
  p_twcc_recorder :: twcc_recorder
  p_recv_stats :: "(u32, 'f recv_stats) dmap"
  p_send_stats :: "(u32, send_stats) dmap"
  p_egress :: "egress_packet list"
  p_egress_rx :: bool
  p_rtx_budget_used :: u64
  p_pli_burst :: bool
  p_last_audio_arrival_us :: u64
  p_nack_suppress_until_ms :: u64
  p_rtp_gap_suppress_until_ms :: u64
  p_last_video_rtp_ms :: u64
  p_last_pli_relay_ms :: u64
  p_twcc_extmap_id :: u8
  p_simulcast_video_ssrc :: u32
  p_subscribe_layers :: "(user_id, subscribe_layer_entry) dmap"
  p_pipeline :: pipeline_stats

definition participant_new ::
  "user_id \<Rightarrow> string \<Rightarrow> string \<Rightarrow> string \<Rightarrow> string \<Rightarrow> string \<Rightarrow> nat \<Rightarrow> u64 \<Rightarrow> 'f participant" where
  "participant_new uid rid pub_ufrag pub_pwd sub_ufrag sub_pwd ws_tx joined_at =
     \<lparr> p_user_id = uid, p_room_id = rid, p_joined_at = joined_at, p_last_seen = joined_at, p_ws_tx = ws_tx,
       p_publish = media_session_new pub_ufrag pub_pwd, p_subscribe = media_session_new sub_ufrag sub_pwd,
       p_tracks = [], p_rtp_cache = cache_new, p_rtx_ssrc_counter = 0, p_rtx_seq = 0,
       p_twcc_recorder = twcc_new, p_recv_stats = [], p_send_stats = [], p_egress = [], p_egress_rx = True,
       p_rtx_budget_used = 0,
       p_pli_burst = False, p_last_audio_arrival_us = 0, p_nack_suppress_until_ms = 0,
       p_rtp_gap_suppress_until_ms = 0, p_last_video_rtp_ms = 0, p_last_pli_relay_ms = 0,
       p_twcc_extmap_id = 0, p_simulcast_video_ssrc = 0, p_subscribe_layers = [],
       p_pipeline = pipeline_new \<rparr>"

definition try_send :: "egress_packet \<Rightarrow> 'f participant \<Rightarrow> bool \<times> 'f participant" where
  "try_send pkt p =
     (if length (p_egress p) < EGRESS_QUEUE_SIZE then (True, p\<lparr> p_egress := p_egress p @ [pkt] \<rparr>) else (False, p))"

definition touch :: "u64 \<Rightarrow> 'f participant \<Rightarrow> 'f participant" where
  "touch ts p = p\<lparr> p_last_seen := ts \<rparr>"

definition session :: "'f participant \<Rightarrow> pc_type \<Rightarrow> media_session" where
  "session p pc = (case pc of Publish \<Rightarrow> p_publish p | Subscribe \<Rightarrow> p_subscribe p)"

definition update_session :: "pc_type \<Rightarrow> (media_session \<Rightarrow> media_session) \<Rightarrow> 'f participant \<Rightarrow> 'f participant" where
  "update_session pc f p =
     (case pc of Publish \<Rightarrow> p\<lparr> p_publish := f (p_publish p) \<rparr>
      | Subscribe \<Rightarrow> p\<lparr> p_subscribe := f (p_subscribe p) \<rparr>)"

definition alloc_rtx_ssrc :: "u32 \<Rightarrow> 'f participant \<Rightarrow> u32 \<times> 'f participant" where
  "alloc_rtx_ssrc media_ssrc p =
     (media_ssrc + 1000 + p_rtx_ssrc_counter p, p\<lparr> p_rtx_ssrc_counter := p_rtx_ssrc_counter p + 1 \<rparr>)"

definition add_track_full ::
  "u32 \<Rightarrow> track_kind \<Rightarrow> string \<Rightarrow> string option \<Rightarrow> u32 option \<Rightarrow> video_codec \<Rightarrow> u8 \<Rightarrow> u8 \<Rightarrow>
     'f participant \<Rightarrow> 'f participant" where
  "add_track_full ssrc kind tid rid sim_group codec actual_pt actual_rtx_pt p =
     (if \<not> list_ex (\<lambda>t. t_ssrc t = ssrc) (p_tracks p) then
        (let (rtx_ssrc, p1) =
               (if kind = Video then (case alloc_rtx_ssrc ssrc p of (r, p1) \<Rightarrow> (Some r, p1)) else (None, p))
         in p1\<lparr> p_tracks := p_tracks p1 @
              [\<lparr> t_ssrc = ssrc, t_kind = kind, t_track_id = tid, t_rtx_ssrc = rtx_ssrc, t_muted = False,
                 t_rid = rid, t_simulcast_group = sim_group, t_video_codec = codec, t_actual_pt = actual_pt,
                 t_actual_rtx_pt = actual_rtx_pt \<rparr>] \<rparr>)
      else p)"

definition add_track :: "u32 \<Rightarrow> track_kind \<Rightarrow> string \<Rightarrow> 'f participant \<Rightarrow> 'f participant" where
  "add_track ssrc kind tid p = add_track_full ssrc kind tid None None Vp8 0 0 p"

definition get_video_codec :: "'f participant \<Rightarrow> video_codec" where
  "get_video_codec p =
     (case find (\<lambda>t. t_kind t = Video) (p_tracks p) of Some t \<Rightarrow> t_video_codec t | None \<Rightarrow> Vp8)"

definition next_rtx_seq :: "'f participant \<Rightarrow> u16 \<times> 'f participant" where
  "next_rtx_seq p = (p_rtx_seq p, p\<lparr> p_rtx_seq := p_rtx_seq p + 1 \<rparr>)"

definition remove_track :: "u32 \<Rightarrow> 'f participant \<Rightarrow> track option \<times> 'f participant" where
  "remove_track ssrc p =
     (case position (\<lambda>t. t_ssrc t = ssrc) (p_tracks p) of
        Some pos \<Rightarrow> (Some (p_tracks p ! pos),
                     p\<lparr> p_tracks := take pos (p_tracks p) @ drop (Suc pos) (p_tracks p) \<rparr>)
      | None \<Rightarrow> (None, p))"

definition set_track_muted :: "u32 \<Rightarrow> bool \<Rightarrow> 'f participant \<Rightarrow> track_kind option \<times> 'f participant" where
  "set_track_muted ssrc muted p =
     (case position (\<lambda>t. t_ssrc t = ssrc) (p_tracks p) of
        Some pos \<Rightarrow>
          (let t = p_tracks p ! pos
           in (Some (t_kind t), p\<lparr> p_tracks := (p_tracks p)[pos := t\<lparr> t_muted := muted \<rparr>] \<rparr>))
      | None \<Rightarrow> (None, p))"

definition is_publish_ready :: "'f participant \<Rightarrow> bool" where
  "is_publish_ready p = is_media_ready (p_publish p)"

definition is_subscribe_ready :: "'f participant \<Rightarrow> bool" where
  "is_subscribe_ready p = is_media_ready (p_subscribe p)"

definition cancel_pli_burst :: "'f participant \<Rightarrow> 'f participant" where
  "cancel_pli_burst p = p\<lparr> p_pli_burst := False \<rparr>"

text \<open>\<open>rnd\<close> is the non-zero number that \<open>rand_u32_nonzero\<close> returns.\<close>

definition ensure_simulcast_video_ssrc :: "u32 \<Rightarrow> 'f participant \<Rightarrow> u32 \<times> 'f participant" where
  "ensure_simulcast_video_ssrc rnd p =
     (if p_simulcast_video_ssrc p \<noteq> 0 then (p_simulcast_video_ssrc p, p)
      else (rnd, p\<lparr> p_simulcast_video_ssrc := rnd \<rparr>))"

section \<open>Lemmas: tracks\<close>

definition tracks_ok :: "'f participant \<Rightarrow> bool" where
  "tracks_ok p \<longleftrightarrow> distinct (map t_ssrc (p_tracks p)) \<and>
     (\<forall>t\<in>set (p_tracks p). (t_kind t = Video \<longleftrightarrow> t_rtx_ssrc t \<noteq> None))"

lemma tracks_ok_new: "tracks_ok (participant_new uid rid pu pp su sp tx at)"
  by (simp add: tracks_ok_def participant_new_def)

lemma tracks_ok_add: "tracks_ok p \<Longrightarrow> tracks_ok (add_track_full ssrc k tid rid g c apt arpt p)"
  by (cases k) (auto simp: tracks_ok_def add_track_full_def alloc_rtx_ssrc_def list_ex_iff)

lemma tracks_ok_remove: "tracks_ok p \<Longrightarrow> tracks_ok (snd (remove_track ssrc p))"
proof (cases "position (\<lambda>t. t_ssrc t = ssrc) (p_tracks p)")
  case (Some pos)
  assume ok: "tracks_ok p"
  let ?ts = "take pos (p_tracks p) @ drop (Suc pos) (p_tracks p)"
  have "distinct (map t_ssrc ?ts)" "set ?ts \<subseteq> set (p_tracks p)"
    using ok distinct_take [of "map t_ssrc (p_tracks p)" pos] distinct_drop [of "map t_ssrc (p_tracks p)" "Suc pos"]
      set_take_disj_set_drop_if_distinct [of "map t_ssrc (p_tracks p)" pos "Suc pos"]
    by (auto simp: tracks_ok_def take_map drop_map dest: in_set_takeD in_set_dropD)
  then show ?thesis using ok Some by (auto simp: tracks_ok_def remove_track_def)
qed (simp add: remove_track_def)

lemma tracks_ok_mute: "tracks_ok p \<Longrightarrow> tracks_ok (snd (set_track_muted ssrc m p))"
proof (cases "position (\<lambda>t. t_ssrc t = ssrc) (p_tracks p)")
  case (Some pos)
  assume ok: "tracks_ok p"
  have "pos < length (p_tracks p)" using position_Some [OF Some] by simp
  moreover have "map t_ssrc ((p_tracks p)[pos := (p_tracks p ! pos)\<lparr> t_muted := m \<rparr>]) = map t_ssrc (p_tracks p)"
    using calculation by (simp add: map_update list_update_same_conv)
  ultimately show ?thesis using ok Some
    by (auto simp: tracks_ok_def set_track_muted_def Let_def dest!: set_update_subset_insert [THEN subsetD])
qed (simp add: set_track_muted_def)

section \<open>The simulcast stream\<close>

datatype simulcast_event = SwitchLayer | LayerPacket bytes bool

fun simulcast_step :: "simulcast_rewriter \<Rightarrow> simulcast_event \<Rightarrow> bytes list \<times> simulcast_rewriter" where
  "simulcast_step s SwitchLayer = ([], switch_layer s)"
| "simulcast_step s (LayerPacket p k) =
     (case simulcast_rewrite s p k of (fwd, p', s') \<Rightarrow> (if fwd then [p'] else [], s'))"

text \<open>
  A packet is in order when it starts the stream of a layer or carries the number after that of the
  last packet forwarded. The very first packet keeps its own number, which the model accounts for by
  starting the count just before it.
\<close>

definition layer_last :: "simulcast_rewriter \<Rightarrow> u16" where
  "layer_last s = sr_last_out_seq s"

fun layer_in_order :: "simulcast_rewriter \<Rightarrow> simulcast_event \<Rightarrow> bool" where
  "layer_in_order s SwitchLayer \<longleftrightarrow> True"
| "layer_in_order s (LayerPacket p k) \<longleftrightarrow>
     \<not> fst (simulcast_rewrite s p k) \<or> sr_pending_keyframe s \<or>
     pkt_seq p = simulcast_reverse_seq s (layer_last s) + 1"

lemma simulcast_rewrite_False:
  "simulcast_rewrite s p k = (False, p', s') \<Longrightarrow> p' = p \<and> s' = s"
  by (auto simp: simulcast_rewrite_def Let_def split: if_splits option.splits)

lemma simulcast_rewrite_True:
  assumes "simulcast_rewrite s p k = (True, p', s')"
  shows "12 \<le> length p" "length p' = length p" "drop 12 p' = drop 12 p" "take 2 p' = take 2 p"
    "pkt_ssrc p' = sr_virtual_ssrc s" "pkt_seq p' = sr_last_out_seq s'" "pkt_ts p' = sr_last_out_ts s'"
    "sr_initialized s'" "\<not> sr_pending_keyframe s'" "sr_virtual_ssrc s' = sr_virtual_ssrc s"
    "sr_last_out_seq s' = pkt_seq p + sr_seq_offset s'" "sr_last_out_ts s' = pkt_ts p + sr_ts_offset s'"
    "sr_initialized s \<Longrightarrow> sr_pending_keyframe s \<Longrightarrow>
       sr_last_out_seq s' = sr_last_out_seq s + 1 \<and> sr_last_out_ts s' = sr_last_out_ts s + 1 \<and> k"
    "sr_initialized s \<Longrightarrow> \<not> sr_pending_keyframe s \<Longrightarrow>
       sr_seq_offset s' = sr_seq_offset s \<and> sr_ts_offset s' = sr_ts_offset s"
    "\<not> sr_initialized s \<Longrightarrow> k \<and> sr_seq_offset s' = 0"
proof -
  have len: "12 \<le> length p"
    using assms by (auto simp: simulcast_rewrite_def split: if_splits)
  obtain s1 where s1: "simulcast_sync (pkt_seq p) (pkt_ts p) k s = Some s1"
    and p': "p' = copy_at 4 (be32 (pkt_ts p + sr_ts_offset s1)) (copy_at 2 (be16 (pkt_seq p + sr_seq_offset s1))
               (copy_at 8 (be32 (sr_virtual_ssrc s1)) p))"
    and s': "s' = s1\<lparr> sr_last_out_seq := pkt_seq p + sr_seq_offset s1, sr_last_out_ts := pkt_ts p + sr_ts_offset s1 \<rparr>"
    using assms len by (auto simp: simulcast_rewrite_def Let_def split: if_splits option.splits)
  have s1f: "sr_initialized s1" "\<not> sr_pending_keyframe s1" "sr_virtual_ssrc s1 = sr_virtual_ssrc s"
    "sr_initialized s \<Longrightarrow> sr_pending_keyframe s \<Longrightarrow> k \<and>
       sr_seq_offset s1 = sr_last_out_seq s + 1 - pkt_seq p \<and> sr_ts_offset s1 = sr_last_out_ts s + 1 - pkt_ts p"
    "sr_initialized s \<Longrightarrow> \<not> sr_pending_keyframe s \<Longrightarrow> s1 = s"
    "\<not> sr_initialized s \<Longrightarrow> k \<and> sr_seq_offset s1 = 0"
    using s1 by (auto simp: simulcast_sync_def split: if_splits)
  show "12 \<le> length p" by (rule len)
  show "length p' = length p" "drop 12 p' = drop 12 p" "take 2 p' = take 2 p"
    using len by (simp_all add: p' wire_simps)
  show "pkt_ssrc p' = sr_virtual_ssrc s" "pkt_seq p' = sr_last_out_seq s'" "pkt_ts p' = sr_last_out_ts s'"
    using len s1f(3) by (simp_all add: p' s' wire_simps)
  show "sr_initialized s'" "\<not> sr_pending_keyframe s'" "sr_virtual_ssrc s' = sr_virtual_ssrc s"
    "sr_last_out_seq s' = pkt_seq p + sr_seq_offset s'" "sr_last_out_ts s' = pkt_ts p + sr_ts_offset s'"
    using s1f by (simp_all add: s')
  show "sr_initialized s \<Longrightarrow> sr_pending_keyframe s \<Longrightarrow>
       sr_last_out_seq s' = sr_last_out_seq s + 1 \<and> sr_last_out_ts s' = sr_last_out_ts s + 1 \<and> k"
    "sr_initialized s \<Longrightarrow> \<not> sr_pending_keyframe s \<Longrightarrow>
       sr_seq_offset s' = sr_seq_offset s \<and> sr_ts_offset s' = sr_ts_offset s"
    "\<not> sr_initialized s \<Longrightarrow> k \<and> sr_seq_offset s' = 0"
    using s1f by (auto simp: s')
qed

lemma simulcast_step_stream:
  assumes inv: "sr_initialized s" and io: "layer_in_order s e" and st: "simulcast_step s e = (out, s')"
  shows "map pkt_seq out = count_up (layer_last s) (length out) \<and>
         layer_last s' = layer_last s + word_of_nat (length out) \<and>
         (\<forall>p\<in>set out. pkt_ssrc p = sr_virtual_ssrc s \<and> 12 \<le> length p)"
proof (cases e)
  case SwitchLayer
  then show ?thesis using st by (auto simp: switch_layer_def layer_last_def)
next
  case (LayerPacket p k)
  obtain fwd p' s'' where r: "simulcast_rewrite s p k = (fwd, p', s'')" by (metis prod_cases3)
  show ?thesis
  proof (cases fwd)
    case False
    then show ?thesis using st LayerPacket r simulcast_rewrite_False [of s p k p' s''] by (auto simp: layer_last_def)
  next
    case True
    have r': "simulcast_rewrite s p k = (True, p', s'')" using r True by simp
    note t = simulcast_rewrite_True [OF r']
    have "sr_last_out_seq s'' = sr_last_out_seq s + 1"
    proof (cases "sr_pending_keyframe s")
      case True
      then show ?thesis using t(13) inv by blast
    next
      case False
      then have "pkt_seq p = simulcast_reverse_seq s (sr_last_out_seq s) + 1"
        using io LayerPacket r \<open>fwd\<close> by (simp add: layer_last_def)
      then show ?thesis using t(11,14) inv False by (simp add: simulcast_reverse_seq_def)
    qed
    moreover have "out = [p']" "s' = s''" using st LayerPacket r True by auto
    ultimately show ?thesis using t by (simp add: layer_last_def)
  qed
qed

interpretation simulcast: gapless_stream simulcast_step layer_in_order sr_initialized layer_last sr_virtual_ssrc
proof unfold_locales
  fix s e out s'
  assume i: "sr_initialized s" and st: "simulcast_step s e = (out, s')"
  show "sr_initialized s' \<and> sr_virtual_ssrc s' = sr_virtual_ssrc s"
  proof (cases e)
    case SwitchLayer
    then show ?thesis using i st by (auto simp: switch_layer_def)
  next
    case (LayerPacket p k)
    obtain fwd p' s'' where r: "simulcast_rewrite s p k = (fwd, p', s'')" by (metis prod_cases3)
    then show ?thesis
      using i st LayerPacket simulcast_rewrite_False [of s p k p' s''] simulcast_rewrite_True(8,10) [of s p k p' s'']
      by (cases fwd) auto
  qed
qed (rule simulcast_step_stream)

lemma simulcast_dropped_until_keyframe:
  assumes "sr_pending_keyframe s \<or> \<not> sr_initialized s" and "\<not> (12 \<le> length p \<and> k)"
  shows "simulcast_step s (LayerPacket p k) = ([], s)"
  using assms by (auto simp: simulcast_rewrite_def simulcast_sync_def Let_def)

text \<open>
  C15: A simulcast subscriber sees one gapless video stream over layer switches. From the first
  keyframe on, whatever layers are switched to and whatever packets are offered, as long as the
  packets of a layer arrive in order, the forwarded packets carry the subscriber's virtual SSRC and
  consecutive sequence numbers; and while a keyframe is awaited, at the start or after a switch, other
  packets are dropped and leave no trace in the state.
\<close>

theorem simulcast_stream_contiguous:
  assumes "sr_initialized s" and "all_steps simulcast_step layer_in_order s es"
    and "run_steps simulcast_step s es = (out, s')"
  shows "map pkt_seq out = map (\<lambda>i. sr_last_out_seq s + 1 + word_of_nat i) [0..<length out] \<and>
         (\<forall>p\<in>set out. pkt_ssrc p = sr_virtual_ssrc s \<and> 12 \<le> length p) \<and>
         (\<forall>r p. sr_pending_keyframe r \<or> \<not> sr_initialized r \<longrightarrow> simulcast_step r (LayerPacket p False) = ([], r))"
  using simulcast.run_contiguous [OF assms] simulcast_dropped_until_keyframe by (auto simp: layer_last_def)

definition demo_layer :: "u16 \<Rightarrow> bytes" where
  "demo_layer seq = [0x80, 96] @ be16 seq @ be32 100 @ be32 7 @ [1, 2, 3]"

theorem simulcast_stream_contiguous_witness:
  "map pkt_seq (fst (run_steps simulcast_step
       ((simulcast_new 5)\<lparr> sr_initialized := True, sr_last_out_seq := 9 \<rparr>)
       [SwitchLayer, LayerPacket (demo_layer 400) False, LayerPacket (demo_layer 500) True,
        LayerPacket (demo_layer 501) False])) = [10, 11]"
proof -
  let ?s = "(simulcast_new 5)\<lparr> sr_initialized := True, sr_last_out_seq := 9 \<rparr>"
  let ?es = "[SwitchLayer, LayerPacket (demo_layer 400) False, LayerPacket (demo_layer 500) True,
        LayerPacket (demo_layer 501) False]"
  have "all_steps simulcast_step layer_in_order ?s ?es"
    "length (fst (run_steps simulcast_step ?s ?es)) = 2" "sr_initialized ?s" "sr_last_out_seq ?s = 9"
    by (simp_all add: demo_layer_def simulcast_rewrite_def simulcast_sync_def simulcast_new_def switch_layer_def
        simulcast_reverse_seq_def layer_last_def be16_at_def be16_def be32_def of_be16_def Let_def copy_at_def)
  then show ?thesis
    using simulcast_stream_contiguous [of ?s ?es "fst (run_steps simulcast_step ?s ?es)"
        "snd (run_steps simulcast_step ?s ?es)"]
    by (simp add: upt_rec numeral_2_eq_2)
qed

section \<open>The retransmission cache\<close>

definition cache_run :: "bytes list \<Rightarrow> rtp_cache \<Rightarrow> rtp_cache" where
  "cache_run ps c = foldl (\<lambda>c p. cache_store (pkt_seq p) p c) c ps"

lemma cache_run_snoc: "cache_run (ps @ [p]) c = cache_store (pkt_seq p) p (cache_run ps c)"
  by (simp add: cache_run_def)

lemma length_cache_run [simp]: "length (cache_run ps c) = length c"
  by (induction ps rule: rev_induct) (simp_all add: cache_run_def cache_store_def)

lemma cache_get_store:
  assumes "length c = RTP_CACHE_SIZE" and "12 \<le> length p"
  shows "cache_get (cache_store (pkt_seq p) p c) s =
    (if s = pkt_seq p then Some p
     else if unat s mod 512 = unat (pkt_seq p) mod 512 then None else cache_get c s)"
  using assms by (auto simp: cache_get_def cache_store_def nth_list_update)

lemma seq_residue: "unat (a + word_of_nat i :: u16) mod 512 = (unat a + i) mod 512"
proof -
  have "unat (a + word_of_nat i :: u16) = (unat a + i) mod 65536"
    by (simp add: unat_word_ariths unat_of_nat take_bit_eq_mod mod_add_right_eq)
  moreover have "(512 :: nat) dvd 65536" by (intro dvdI [of _ _ 128]) simp
  ultimately show ?thesis by (simp add: mod_mod_cancel)
qed

lemma residue_differs:
  assumes "i < n" "n < i + 512"
  shows "(a + i) mod 512 \<noteq> (a + n) mod (512 :: nat)"
proof
  assume "(a + i) mod 512 = (a + n) mod 512"
  then have "512 dvd (a + n) - (a + i)" using assms(1) by (metis mod_eq_dvd_iff_nat add_le_mono1 add.commute less_imp_le)
  then show False using assms by (auto dest: dvd_imp_le)
qed

lemma cache_get_mem:
  assumes "length c = RTP_CACHE_SIZE" "\<forall>q\<in>set ps. 12 \<le> length q" "\<And>s. cache_get c s = None"
  shows "cache_get (cache_run ps c) s = Some p \<Longrightarrow> p \<in> set ps \<and> pkt_seq p = s"
  using assms(2)
proof (induction ps arbitrary: p rule: rev_induct)
  case Nil
  then show ?case using assms(3) by (simp add: cache_run_def)
next
  case (snoc q ps)
  then show ?case
    using assms(1) cache_get_store [of "cache_run ps c" q s] by (auto simp: cache_run_snoc split: if_splits)
qed

text \<open>
  The retransmission cache serves exactly what was sent recently. After any number of consecutive
  video packets (sequence numbers wrap at 2 to the 16), each of the last 512 is found under its
  sequence number, byte for byte; and whatever the cache returns for a number is a packet that was
  stored and bears that number.
\<close>

theorem rtp_cache_keeps_last_512:
  assumes "\<forall>i<length ps. 12 \<le> length (ps ! i) \<and> pkt_seq (ps ! i) = a + word_of_nat i"
  shows "(\<forall>i<length ps. length ps \<le> i + 512 \<longrightarrow>
            cache_get (cache_run ps cache_new) (pkt_seq (ps ! i)) = Some (ps ! i)) \<and>
         (\<forall>s p. cache_get (cache_run ps cache_new) s = Some p \<longrightarrow> p \<in> set ps \<and> pkt_seq p = s)"
proof -
  have new: "length cache_new = RTP_CACHE_SIZE" "cache_get cache_new s = None" for s
    by (simp_all add: cache_new_def cache_get_def)
  have len: "\<forall>q\<in>set ps. 12 \<le> length q" using assms by (auto simp: in_set_conv_nth)
  have "cache_get (cache_run ps cache_new) (pkt_seq (ps ! i)) = Some (ps ! i)"
    if "i < length ps" "length ps \<le> i + 512" for i
    using assms that
  proof (induction ps rule: rev_induct)
    case (snoc q ps)
    have q: "12 \<le> length q" "pkt_seq q = a + word_of_nat (length ps)"
      using snoc.prems(1) by (auto dest: spec [of _ "length ps"])
    note get = cache_get_store [of "cache_run ps cache_new" q, OF _ q(1)]
    show ?case
    proof (cases "i = length ps")
      case True
      then show ?thesis using get new(1) by (simp add: cache_run_snoc)
    next
      case False
      then have i: "i < length ps" "length ps < i + 512" using snoc.prems(2,3) by auto
      have pi: "(ps @ [q]) ! i = ps ! i" using i by (simp add: nth_append)
      have seq: "pkt_seq (ps ! i) = a + word_of_nat i" using snoc.prems(1) i pi by (metis snoc.prems(2))
      have "unat (pkt_seq (ps ! i)) mod 512 \<noteq> unat (pkt_seq q) mod 512"
        unfolding seq q(2) seq_residue by (rule residue_differs) (use i in auto)
      moreover have "cache_get (cache_run ps cache_new) (pkt_seq (ps ! i)) = Some (ps ! i)"
      proof (rule snoc.IH)
        show "\<forall>j<length ps. 12 \<le> length (ps ! j) \<and> pkt_seq (ps ! j) = a + word_of_nat j"
        proof (intro allI impI)
          fix j assume "j < length ps"
          then show "12 \<le> length (ps ! j) \<and> pkt_seq (ps ! j) = a + word_of_nat j"
            using snoc.prems(1) [rule_format, of j] by (simp add: nth_append)
        qed
      qed (use i in auto)
      ultimately show ?thesis using get new(1) pi by (auto simp: cache_run_snoc)
    qed
  qed simp
  then show ?thesis using cache_get_mem [OF new(1) len new(2)] by blast
qed

theorem rtp_cache_keeps_last_512_witness:
  "cache_get (cache_run [demo_layer 65535, demo_layer 0] cache_new) 65535 = Some (demo_layer 65535)"
proof -
  let ?ps = "[demo_layer 65535, demo_layer 0]"
  have seq: "pkt_seq (demo_layer w) = w" "length (demo_layer w) = 15" for w
    by (simp_all add: demo_layer_def be16_at_def be16_def)
  then have "\<forall>i<length ?ps. 12 \<le> length (?ps ! i) \<and> pkt_seq (?ps ! i) = 65535 + word_of_nat i"
    by (auto simp: less_Suc_eq)
  from rtp_cache_keeps_last_512 [OF this, THEN conjunct1, rule_format, of 0] show ?thesis by (simp add: seq)
qed

section \<open>RTX SSRC allocation\<close>

text \<open>
  C16: Tracks of one participant keep distinct SSRCs, and exactly the video tracks have an RTX SSRC,
  under every registration, removal and mute. The RTX SSRCs however collide although their allocation
  means to avoid it: two video tracks whose SSRCs are \<open>s\<close> and \<open>s - 1\<close>, registered in this order on a
  new participant, get the same RTX SSRC.
\<close>

theorem track_ssrcs_distinct_rtx_collide:
  "(\<forall>p :: 'f participant. tracks_ok p \<longrightarrow>
      (\<forall>ssrc k tid rid g c apt arpt. tracks_ok (add_track_full ssrc k tid rid g c apt arpt p)) \<and>
      (\<forall>ssrc. tracks_ok (snd (remove_track ssrc p))) \<and>
      (\<forall>ssrc m. tracks_ok (snd (set_track_muted ssrc m p)))) \<and>
   map t_rtx_ssrc (p_tracks (add_track (s - 1) Video tid2 (add_track s Video tid1
     (participant_new uid rid pu pp su sp tx at :: 'f participant)))) = [Some (s + 1000), Some (s + 1000)]"
proof -
  have "map t_rtx_ssrc (p_tracks (add_track (s - 1) Video tid2 (add_track s Video tid1
     (participant_new uid rid pu pp su sp tx at :: 'f participant)))) = [Some (s + 1000), Some (s + 1000)]"
    by (auto simp: add_track_def add_track_full_def alloc_rtx_ssrc_def participant_new_def)
  then show ?thesis using tracks_ok_add tracks_ok_remove tracks_ok_mute by blast
qed

theorem track_ssrcs_distinct_rtx_collide_witness:
  "tracks_ok (add_track 5 Audio ''t'' (participant_new ''u'' ''r'' ''a'' ''b'' ''c'' ''d'' 0 0 :: unit participant))"
proof -
  have "tracks_ok (participant_new ''u'' ''r'' ''a'' ''b'' ''c'' ''d'' 0 0 :: unit participant)"
    by (rule tracks_ok_new)
  with track_ssrcs_distinct_rtx_collide [where 'f = unit, THEN conjunct1] show ?thesis
    unfolding add_track_def by blast
qed

end
