(* ===== verification/Room.thy ===== *)
theory Room
  imports Floor PttRewriter Participant
begin

text \<open>
  Rooms and the room hub of \<open>room/room.rs\<close>. Participants are shared objects (\<open>Arc<Participant>\<close>):
  they live in a heap, a list whose positions are the references, and the indices of a room and of
  the hub hold references, so that a latch through one index is seen through all of them. A
  reference is never freed, as an \<open>Arc\<close> is not while an index or a task holds it. A room is named
  by its identifier. Hash maps are association lists with distinct keys; iteration visits them in
  the order of the list.
\<close>

section \<open>Data\<close>

type_synonym pref = nat
type_synonym room_id = string
type_synonym 'f heap = "'f participant list"

record room =
  r_id :: room_id
  r_name :: string
  r_capacity :: nat
  r_mode :: room_mode
  r_created_at :: u64
  r_simulcast_enabled :: bool
  r_floor :: floor_inner
  r_audio_rewriter :: ptt_rewriter
  r_video_rewriter :: ptt_rewriter
  r_participants :: "(user_id, pref) dmap"
  r_by_ufrag :: "(string, pref \<times> pc_type) dmap"
  r_by_addr :: "(socket_addr, pref \<times> pc_type) dmap"
  r_active_since :: u64

record hub =
  h_rooms :: "(room_id, room) dmap"
  h_ufrag_index :: "(string, room_id) dmap"
  h_addr_index :: "(socket_addr, room_id) dmap"

section \<open>Room\<close>

text \<open>The two SSRCs are the random ones that the rewriters draw.\<close>

definition room_new ::
  "room_id \<Rightarrow> string \<Rightarrow> nat option \<Rightarrow> room_mode \<Rightarrow> u64 \<Rightarrow> bool \<Rightarrow> u32 \<Rightarrow> u32 \<Rightarrow> room" where
  "room_new uuid name capacity mode created_at simulcast_enabled audio_ssrc video_ssrc =
     (let sim = (if mode = Ptt then False else simulcast_enabled)
      in \<lparr> r_id = uuid, r_name = name,
           r_capacity = min (case capacity of Some c \<Rightarrow> c | None \<Rightarrow> ROOM_DEFAULT_CAPACITY) ROOM_MAX_CAPACITY,
           r_mode = mode, r_created_at = created_at, r_simulcast_enabled = sim,
           r_floor = floor_new, r_audio_rewriter = new_audio audio_ssrc, r_video_rewriter = new_video video_ssrc,
           r_participants = [], r_by_ufrag = [], r_by_addr = [], r_active_since = 0 \<rparr>)"

definition room_add_participant :: "'f heap \<Rightarrow> pref \<Rightarrow> u64 \<Rightarrow> room \<Rightarrow> light_error + room" where
  "room_add_participant heap r now room =
     (let p = heap ! r
      in if r_capacity room \<le> length (r_participants room) then Inl RoomFull
         else if dm_get (r_participants room) (p_user_id p) \<noteq> None then Inl AlreadyInRoom
         else Inr (room\<lparr>
           r_by_ufrag := dm_insert (ms_ufrag (p_subscribe p)) (r, Subscribe)
                           (dm_insert (ms_ufrag (p_publish p)) (r, Publish) (r_by_ufrag room)),
           r_participants := dm_insert (p_user_id p) r (r_participants room),
           r_active_since := (if r_active_since room = 0 then now else r_active_since room) \<rparr>))"

definition remove_addr :: "socket_addr option \<Rightarrow> (socket_addr, 'v) dmap \<Rightarrow> (socket_addr, 'v) dmap" where
  "remove_addr addr m = (case addr of Some a \<Rightarrow> dm_remove a m | None \<Rightarrow> m)"

definition room_remove_participant :: "'f heap \<Rightarrow> user_id \<Rightarrow> room \<Rightarrow> light_error + (pref \<times> room)" where
  "room_remove_participant heap user_id room =
     (case dm_get (r_participants room) user_id of
        None \<Rightarrow> Inl NotInRoom
      | Some r \<Rightarrow>
          (let p = heap ! r
           in Inr (r, room\<lparr>
                r_participants := dm_remove user_id (r_participants room),
                r_by_ufrag := dm_remove (ms_ufrag (p_subscribe p)) (dm_remove (ms_ufrag (p_publish p)) (r_by_ufrag room)),
                r_by_addr := remove_addr (ms_address (p_subscribe p))
                               (remove_addr (ms_address (p_publish p)) (r_by_addr room)) \<rparr>)))"

definition room_latch ::
  "string \<Rightarrow> socket_addr \<Rightarrow> 'f heap \<Rightarrow> room \<Rightarrow> (pref \<times> pc_type \<times> 'f heap \<times> room) option" where
  "room_latch ufrag addr heap room =
     (case dm_get (r_by_ufrag room) ufrag of
        None \<Rightarrow> None
      | Some (r, pc) \<Rightarrow>
          (let by_addr =
                 (case ms_address (session (heap ! r) pc) of
                    Some old_addr \<Rightarrow> if old_addr \<noteq> addr then dm_remove old_addr (r_by_addr room) else r_by_addr room
                  | None \<Rightarrow> r_by_addr room)
           in Some (r, pc, heap[r := update_session pc (latch_address addr) (heap ! r)],
                    room\<lparr> r_by_addr := dm_insert addr (r, pc) by_addr \<rparr>)))"

definition get_participant :: "room \<Rightarrow> user_id \<Rightarrow> pref option" where
  "get_participant room user_id = dm_get (r_participants room) user_id"

definition get_by_ufrag :: "room \<Rightarrow> string \<Rightarrow> (pref \<times> pc_type) option" where
  "get_by_ufrag room ufrag = dm_get (r_by_ufrag room) ufrag"

definition get_by_addr :: "room \<Rightarrow> socket_addr \<Rightarrow> (pref \<times> pc_type) option" where
  "get_by_addr room addr = dm_get (r_by_addr room) addr"

definition participant_count :: "room \<Rightarrow> nat" where
  "participant_count room = length (r_participants room)"

definition member_ids :: "room \<Rightarrow> user_id list" where
  "member_ids room = dm_keys (r_participants room)"

definition all_participants :: "room \<Rightarrow> pref list" where
  "all_participants room = map snd (r_participants room)"

definition other_participants :: "room \<Rightarrow> user_id \<Rightarrow> pref list" where
  "other_participants room exclude_user = map snd (filter (\<lambda>e. fst e \<noteq> exclude_user) (r_participants room))"

definition find_by_track_ssrc :: "'f heap \<Rightarrow> room \<Rightarrow> u32 \<Rightarrow> pref option" where
  "find_by_track_ssrc heap room ssrc =
     map_option snd (find (\<lambda>e. list_ex (\<lambda>t. t_ssrc t = ssrc) (p_tracks (heap ! snd e))) (r_participants room))"

definition find_publisher_by_vssrc :: "'f heap \<Rightarrow> room \<Rightarrow> u32 \<Rightarrow> pref option" where
  "find_publisher_by_vssrc heap room vssrc =
     (if vssrc = 0 then None
      else map_option snd (find (\<lambda>e. p_simulcast_video_ssrc (heap ! snd e) = vssrc) (r_participants room)))"

section \<open>Room hub\<close>

definition hub_new :: hub where
  "hub_new = \<lparr> h_rooms = [], h_ufrag_index = [], h_addr_index = [] \<rparr>"

text \<open>\<open>uuid\<close> is the fresh UUID that \<open>create\<close> draws.\<close>

definition hub_create ::
  "room_id \<Rightarrow> string \<Rightarrow> nat option \<Rightarrow> room_mode \<Rightarrow> u64 \<Rightarrow> bool \<Rightarrow> u32 \<Rightarrow> u32 \<Rightarrow> hub \<Rightarrow> room \<times> hub" where
  "hub_create uuid name capacity mode created_at simulcast_enabled audio_ssrc video_ssrc hub =
     (let room = room_new uuid name capacity mode created_at simulcast_enabled audio_ssrc video_ssrc
      in (room, hub\<lparr> h_rooms := dm_insert uuid room (h_rooms hub) \<rparr>))"

definition hub_get :: "hub \<Rightarrow> room_id \<Rightarrow> light_error + room" where
  "hub_get hub room_id = (case dm_get (h_rooms hub) room_id of Some room \<Rightarrow> Inr room | None \<Rightarrow> Inl RoomNotFound)"

text \<open>The reverse indices lose the four entries of a participant.\<close>

definition unindex :: "'f participant \<Rightarrow> hub \<Rightarrow> hub" where
  "unindex p hub = hub\<lparr>
     h_ufrag_index := dm_remove (ms_ufrag (p_subscribe p)) (dm_remove (ms_ufrag (p_publish p)) (h_ufrag_index hub)),
     h_addr_index := remove_addr (ms_address (p_subscribe p))
                       (remove_addr (ms_address (p_publish p)) (h_addr_index hub)) \<rparr>"

definition hub_remove_room :: "'f heap \<Rightarrow> room_id \<Rightarrow> hub \<Rightarrow> light_error + (room \<times> hub)" where
  "hub_remove_room heap room_id hub =
     (case dm_get (h_rooms hub) room_id of
        None \<Rightarrow> Inl RoomNotFound
      | Some room \<Rightarrow>
          Inr (room, fold (\<lambda>e. unindex (heap ! snd e)) (r_participants room)
                       (hub\<lparr> h_rooms := dm_remove room_id (h_rooms hub) \<rparr>)))"

definition hub_count :: "hub \<Rightarrow> nat" where
  "hub_count hub = length (h_rooms hub)"

definition hub_add_participant :: "'f heap \<Rightarrow> room_id \<Rightarrow> pref \<Rightarrow> u64 \<Rightarrow> hub \<Rightarrow> light_error + hub" where
  "hub_add_participant heap room_id r now hub =
     (case hub_get hub room_id of
        Inl e \<Rightarrow> Inl e
      | Inr room \<Rightarrow>
          (case room_add_participant heap r now room of
             Inl e \<Rightarrow> Inl e
           | Inr room' \<Rightarrow>
               Inr (hub\<lparr> h_rooms := dm_insert room_id room' (h_rooms hub),
                         h_ufrag_index := dm_insert (ms_ufrag (p_subscribe (heap ! r))) room_id
                           (dm_insert (ms_ufrag (p_publish (heap ! r))) room_id (h_ufrag_index hub)) \<rparr>)))"

definition hub_remove_participant :: "'f heap \<Rightarrow> room_id \<Rightarrow> user_id \<Rightarrow> hub \<Rightarrow> light_error + (pref \<times> hub)" where
  "hub_remove_participant heap room_id user_id hub =
     (case hub_get hub room_id of
        Inl e \<Rightarrow> Inl e
      | Inr room \<Rightarrow>
          (case room_remove_participant heap user_id room of
             Inl e \<Rightarrow> Inl e
           | Inr (r, room') \<Rightarrow>
               Inr (r, unindex (heap ! r) (hub\<lparr> h_rooms := dm_insert room_id room' (h_rooms hub) \<rparr>))))"

definition latch_by_ufrag ::
  "string \<Rightarrow> socket_addr \<Rightarrow> 'f heap \<Rightarrow> hub \<Rightarrow> (pref \<times> pc_type \<times> room_id \<times> 'f heap \<times> hub) option" where
  "latch_by_ufrag ufrag addr heap hub =
     do { room_id \<leftarrow> dm_get (h_ufrag_index hub) ufrag;
          room \<leftarrow> dm_get (h_rooms hub) room_id;
          (r, pc, heap', room') \<leftarrow> room_latch ufrag addr heap room;
          Some (r, pc, room_id, heap',
                hub\<lparr> h_rooms := dm_insert room_id room' (h_rooms hub),
                     h_addr_index := dm_insert addr room_id (h_addr_index hub) \<rparr>) }"

definition find_by_addr :: "hub \<Rightarrow> socket_addr \<Rightarrow> (pref \<times> pc_type \<times> room_id) option" where
  "find_by_addr hub addr =
     do { room_id \<leftarrow> dm_get (h_addr_index hub) addr;
          room \<leftarrow> dm_get (h_rooms hub) room_id;
          (r, pc) \<leftarrow> get_by_addr room addr;
          Some (r, pc, room_id) }"

definition find_by_ufrag :: "hub \<Rightarrow> string \<Rightarrow> (pref \<times> pc_type \<times> room_id) option" where
  "find_by_ufrag hub ufrag =
     do { room_id \<leftarrow> dm_get (h_ufrag_index hub) ufrag;
          room \<leftarrow> dm_get (h_rooms hub) room_id;
          (r, pc) \<leftarrow> get_by_ufrag room ufrag;
          Some (r, pc, room_id) }"

definition is_zombie :: "u64 \<Rightarrow> u64 \<Rightarrow> 'f participant \<Rightarrow> bool" where
  "is_zombie now_ms timeout_ms p \<longleftrightarrow> 0 < p_last_seen p \<and> timeout_ms < sat_sub now_ms (p_last_seen p)"

fun reap_users :: "'f heap \<Rightarrow> room_id \<Rightarrow> user_id list \<Rightarrow> hub \<Rightarrow> (room_id \<times> pref) list \<times> hub" where
  "reap_users heap room_id [] hub = ([], hub)"
| "reap_users heap room_id (user_id # us) hub =
     (case hub_remove_participant heap room_id user_id hub of
        Inr (r, hub') \<Rightarrow> (case reap_users heap room_id us hub' of (reaped, hub'') \<Rightarrow> ((room_id, r) # reaped, hub''))
      | Inl _ \<Rightarrow> reap_users heap room_id us hub)"

fun reap_rooms :: "'f heap \<Rightarrow> u64 \<Rightarrow> u64 \<Rightarrow> room_id list \<Rightarrow> hub \<Rightarrow> (room_id \<times> pref) list \<times> hub" where
  "reap_rooms heap now_ms timeout_ms [] hub = ([], hub)"
| "reap_rooms heap now_ms timeout_ms (room_id # ids) hub =
     (case dm_get (h_rooms hub) room_id of
        None \<Rightarrow> reap_rooms heap now_ms timeout_ms ids hub
      | Some room \<Rightarrow>
          (let zombie_ids = map fst (filter (\<lambda>e. is_zombie now_ms timeout_ms (heap ! snd e)) (r_participants room))
           in case reap_users heap room_id zombie_ids hub of
                (reaped, hub') \<Rightarrow>
                  (case reap_rooms heap now_ms timeout_ms ids hub' of (reaped', hub'') \<Rightarrow> (reaped @ reaped', hub''))))"

definition reap_zombies :: "'f heap \<Rightarrow> u64 \<Rightarrow> u64 \<Rightarrow> hub \<Rightarrow> (room_id \<times> pref) list \<times> hub" where
  "reap_zombies heap now_ms timeout_ms hub = reap_rooms heap now_ms timeout_ms (dm_keys (h_rooms hub)) hub"

section \<open>The index invariant\<close>

definition registered :: "room \<Rightarrow> pref \<Rightarrow> bool" where
  "registered room r \<longleftrightarrow> r \<in> snd ` set (r_participants room)"

text \<open>
  The index of a room agrees with its participants: a name, a ufrag and an address lead to a member
  with that name, ufrag or address, and every ufrag of a member is indexed. The converse does not
  hold for addresses, because two sessions may have latched the same address.
\<close>

definition room_inv :: "'f heap \<Rightarrow> room \<Rightarrow> bool" where
  "room_inv heap room \<longleftrightarrow>
     dm_ok (r_participants room) \<and> dm_ok (r_by_ufrag room) \<and> dm_ok (r_by_addr room) \<and>
     length (r_participants room) \<le> r_capacity room \<and>
     (\<forall>uid r. dm_get (r_participants room) uid = Some r \<longrightarrow>
        r < length heap \<and> p_user_id (heap ! r) = uid \<and> p_room_id (heap ! r) = r_id room) \<and>
     (\<forall>uf r pc. dm_get (r_by_ufrag room) uf = Some (r, pc) \<longleftrightarrow>
        registered room r \<and> ms_ufrag (session (heap ! r) pc) = uf) \<and>
     (\<forall>a r pc. dm_get (r_by_addr room) a = Some (r, pc) \<longrightarrow>
        registered room r \<and> ms_address (session (heap ! r) pc) = Some a)"

definition hub_inv :: "'f heap \<Rightarrow> hub \<Rightarrow> bool" where
  "hub_inv heap hub \<longleftrightarrow>
     dm_ok (h_rooms hub) \<and> dm_ok (h_ufrag_index hub) \<and> dm_ok (h_addr_index hub) \<and>
     (\<forall>rid room. dm_get (h_rooms hub) rid = Some room \<longrightarrow> r_id room = rid \<and> room_inv heap room) \<and>
     (\<forall>uf rid. dm_get (h_ufrag_index hub) uf = Some rid \<longleftrightarrow>
        (\<exists>room. dm_get (h_rooms hub) rid = Some room \<and> dm_get (r_by_ufrag room) uf \<noteq> None))"

text \<open>An update of a participant in place that leaves its identity and its sessions' keys alone.\<close>

definition same_identity :: "'f participant \<Rightarrow> 'f participant \<Rightarrow> bool" where
  "same_identity p q \<longleftrightarrow> p_user_id q = p_user_id p \<and> p_room_id q = p_room_id p \<and>
     (\<forall>pc. ms_ufrag (session q pc) = ms_ufrag (session p pc) \<and> ms_address (session q pc) = ms_address (session p pc))"

definition same_heap :: "'f heap \<Rightarrow> 'f heap \<Rightarrow> bool" where
  "same_heap h h' \<longleftrightarrow> length h \<le> length h' \<and> (\<forall>r < length h. same_identity (h ! r) (h' ! r))"

section \<open>Lemmas: the invariant\<close>

lemma session_simps [simp]:
  "session p Publish = p_publish p" "session p Subscribe = p_subscribe p"
  by (simp_all add: session_def)

lemma all_pc: "(\<forall>pc. P pc) \<longleftrightarrow> P Publish \<and> P Subscribe"
  unfolding enum_all [symmetric] enum_all_pc_type_def ..

lemma ex_pc: "(\<exists>pc. P pc) \<longleftrightarrow> P Publish \<or> P Subscribe"
  unfolding enum_ex [symmetric] enum_ex_pc_type_def ..

lemma session_update_session:
  "session (update_session pc f p) pc' = (if pc' = pc then f (session p pc) else session p pc')"
  by (cases pc; cases pc') (simp_all add: update_session_def)

lemma update_session_ident [simp]:
  "p_user_id (update_session pc f p) = p_user_id p" "p_room_id (update_session pc f p) = p_room_id p"
  by (cases pc; simp add: update_session_def)+

lemma latch_address_simps [simp]:
  "ms_ufrag (latch_address a s) = ms_ufrag s" "ms_address (latch_address a s) = Some a"
  by (simp_all add: latch_address_def)

lemma dm_get_remove_addr [simp]:
  "dm_get (remove_addr addr m) a = (if addr = Some a then None else dm_get m a)"
  by (simp add: remove_addr_def split: option.split)

lemma dm_ok_remove_addr [simp]: "dm_ok m \<Longrightarrow> dm_ok (remove_addr addr m)"
  by (simp add: remove_addr_def dm.ok_del split: option.split)

lemma registered_iff:
  "dm_ok (r_participants room) \<Longrightarrow> registered room r \<longleftrightarrow> (\<exists>uid. dm_get (r_participants room) uid = Some r)"
  by (force simp: registered_def dm_get_iff image_iff)

lemma room_invD:
  assumes "room_inv heap room"
  shows "dm_ok (r_participants room)" "dm_ok (r_by_ufrag room)" "dm_ok (r_by_addr room)"
    and "length (r_participants room) \<le> r_capacity room"
    and "dm_get (r_participants room) uid = Some r \<Longrightarrow>
           r < length heap \<and> p_user_id (heap ! r) = uid \<and> p_room_id (heap ! r) = r_id room"
    and "dm_get (r_by_ufrag room) uf = Some (r, pc) \<longleftrightarrow> registered room r \<and> ms_ufrag (session (heap ! r) pc) = uf"
    and "dm_get (r_by_addr room) a = Some (r, pc) \<Longrightarrow> registered room r \<and> ms_address (session (heap ! r) pc) = Some a"
  using assms unfolding room_inv_def by blast+

lemma registeredD:
  "room_inv heap room \<Longrightarrow> registered room r \<Longrightarrow>
     r < length heap \<and> p_room_id (heap ! r) = r_id room \<and> dm_get (r_participants room) (p_user_id (heap ! r)) = Some r"
  using registered_iff [OF room_invD(1)] room_invD(5) by metis

lemma room_invI:
  assumes "dm_ok (r_participants room)" "dm_ok (r_by_ufrag room)" "dm_ok (r_by_addr room)"
    and "length (r_participants room) \<le> r_capacity room"
    and "\<And>uid r. dm_get (r_participants room) uid = Some r \<Longrightarrow>
           r < length heap \<and> p_user_id (heap ! r) = uid \<and> p_room_id (heap ! r) = r_id room"
    and "\<And>uf r pc. dm_get (r_by_ufrag room) uf = Some (r, pc) \<longleftrightarrow>
           registered room r \<and> ms_ufrag (session (heap ! r) pc) = uf"
    and "\<And>a r pc. dm_get (r_by_addr room) a = Some (r, pc) \<Longrightarrow>
           registered room r \<and> ms_address (session (heap ! r) pc) = Some a"
  shows "room_inv heap room"
  using assms unfolding room_inv_def by blast

lemma room_inv_new [simp]: "room_inv heap (room_new rid name cap mode at sim a v)"
  by (rule room_invI) (auto simp: room_new_def Let_def registered_def)

lemma room_inv_heap:
  assumes inv: "room_inv heap room"
    and reg: "\<And>r. registered room r \<Longrightarrow> r < length heap' \<and> same_identity (heap ! r) (heap' ! r)"
  shows "room_inv heap' room"
proof -
  have uf: "ms_ufrag (session (heap' ! r) pc) = ms_ufrag (session (heap ! r) pc)"
    and ad: "ms_address (session (heap' ! r) pc) = ms_address (session (heap ! r) pc)"
    if "registered room r" for r pc
    using reg [OF that] by (auto simp: same_identity_def)
  have mem: "registered room r" if "dm_get (r_participants room) uid = Some r" for uid r
    using that registered_iff [OF room_invD(1) [OF inv]] by blast
  show ?thesis
  proof (rule room_invI)
    fix uid r assume g: "dm_get (r_participants room) uid = Some r"
    then show "r < length heap' \<and> p_user_id (heap' ! r) = uid \<and> p_room_id (heap' ! r) = r_id room"
      using reg [OF mem [OF g]] room_invD(5) [OF inv g] by (simp add: same_identity_def)
  next
    fix uf r pc
    show "dm_get (r_by_ufrag room) uf = Some (r, pc) \<longleftrightarrow> registered room r \<and> ms_ufrag (session (heap' ! r) pc) = uf"
      unfolding room_invD(6) [OF inv] using uf by auto
  next
    fix a r pc assume "dm_get (r_by_addr room) a = Some (r, pc)"
    then show "registered room r \<and> ms_address (session (heap' ! r) pc) = Some a"
      using room_invD(7) [OF inv] ad by auto
  qed (use room_invD(1-4) [OF inv] in simp_all)
qed

lemma room_add_simps:
  assumes "room_add_participant heap r now room = Inr room'"
  shows "r_participants room' = dm_insert (p_user_id (heap ! r)) r (r_participants room)"
    and "r_by_ufrag room' = dm_insert (ms_ufrag (p_subscribe (heap ! r))) (r, Subscribe)
           (dm_insert (ms_ufrag (p_publish (heap ! r))) (r, Publish) (r_by_ufrag room))"
    and "r_by_addr room' = r_by_addr room" "r_id room' = r_id room" "r_capacity room' = r_capacity room"
    and "r_mode room' = r_mode room"
    and "dm_get (r_participants room) (p_user_id (heap ! r)) = None"
    and "length (r_participants room) < r_capacity room"
  using assms by (auto simp: room_add_participant_def Let_def split: if_splits)

lemma room_add_inv:
  assumes inv: "room_inv heap room" and add: "room_add_participant heap r now room = Inr room'"
    and r: "r < length heap" "p_room_id (heap ! r) = r_id room"
    and fresh: "ms_ufrag (p_publish (heap ! r)) \<noteq> ms_ufrag (p_subscribe (heap ! r))"
      "dm_get (r_by_ufrag room) (ms_ufrag (p_publish (heap ! r))) = None"
      "dm_get (r_by_ufrag room) (ms_ufrag (p_subscribe (heap ! r))) = None"
  shows "room_inv heap room'" and "registered room' x \<longleftrightarrow> registered room x \<or> x = r"
proof -
  note eqs = room_add_simps [OF add]
  have okp: "dm_ok (r_participants room')" using room_invD(1) [OF inv] by (simp add: eqs dm.ok_put)
  have reg: "registered room' x \<longleftrightarrow> registered room x \<or> x = r" for x
    using eqs(7) room_invD(1) [OF inv]
    by (force simp: registered_def eqs(1) set_dm_insert map_of_eq_None_iff)
  then show "registered room' x \<longleftrightarrow> registered room x \<or> x = r" .
  have notr: "\<not> registered room r" using registeredD [OF inv, of r] eqs(7) by auto
  have other: "ms_ufrag (session (heap ! x) pc) \<noteq> ms_ufrag (session (heap ! r) pc')" if "registered room x" for x pc pc'
  proof -
    have "dm_get (r_by_ufrag room) (ms_ufrag (session (heap ! x) pc)) = Some (x, pc)"
      using room_invD(6) [OF inv, of "ms_ufrag (session (heap ! x) pc)" x pc] that by simp
    moreover have "dm_get (r_by_ufrag room) (ms_ufrag (session (heap ! r) pc')) = None"
      using fresh(2,3) by (cases pc') simp_all
    ultimately show ?thesis by (metis option.distinct(1))
  qed
  show "room_inv heap room'"
  proof (rule room_invI)
    fix uid x assume "dm_get (r_participants room') uid = Some x"
    then show "x < length heap \<and> p_user_id (heap ! x) = uid \<and> p_room_id (heap ! x) = r_id room'"
      using room_invD(5) [OF inv, of uid x] r by (auto simp: eqs split: if_splits)
  next
    fix uf x pc
    show "dm_get (r_by_ufrag room') uf = Some (x, pc) \<longleftrightarrow> registered room' x \<and> ms_ufrag (session (heap ! x) pc) = uf"
      unfolding reg eqs using fresh notr other [of x pc] room_invD(6) [OF inv, of uf x pc] by (cases pc) auto
  next
    fix a x pc assume "dm_get (r_by_addr room') a = Some (x, pc)"
    then show "registered room' x \<and> ms_address (session (heap ! x) pc) = Some a"
      using room_invD(7) [OF inv] by (simp add: eqs reg)
  qed (use room_invD(1-4) [OF inv] eqs(8) okp in
        \<open>auto simp: eqs(1-6) dm.ok_put length_dm_insert\<close>)
qed

lemma room_remove_simps:
  assumes "room_remove_participant heap uid room = Inr (r, room')"
  shows "dm_get (r_participants room) uid = Some r"
    and "r_participants room' = dm_remove uid (r_participants room)"
    and "r_by_ufrag room' = dm_remove (ms_ufrag (p_subscribe (heap ! r)))
           (dm_remove (ms_ufrag (p_publish (heap ! r))) (r_by_ufrag room))"
    and "r_by_addr room' = remove_addr (ms_address (p_subscribe (heap ! r)))
           (remove_addr (ms_address (p_publish (heap ! r))) (r_by_addr room))"
    and "r_id room' = r_id room" "r_capacity room' = r_capacity room"
  using assms by (auto simp: room_remove_participant_def Let_def split: option.splits)

lemma member_key_iff:
  assumes inv: "room_inv heap room" and uid: "dm_get (r_participants room) uid = Some r"
    and e: "e \<in> set (r_participants room)"
  shows "fst e = uid \<longleftrightarrow> snd e = r"
proof -
  have get: "dm_get (r_participants room) (fst e) = Some (snd e)"
    using e dm_get_iff [OF room_invD(1) [OF inv], of "fst e" "snd e"] by simp
  show ?thesis
  proof
    assume "fst e = uid"
    then show "snd e = r" using get uid by simp
  next
    assume "snd e = r"
    then show "fst e = uid" using room_invD(5) [OF inv get] room_invD(5) [OF inv uid] by simp
  qed
qed

lemma room_remove_inv:
  assumes inv: "room_inv heap room" and rem: "room_remove_participant heap uid room = Inr (r, room')"
  shows "room_inv heap room'" and "registered room' x \<longleftrightarrow> registered room x \<and> x \<noteq> r"
proof -
  note eqs = room_remove_simps [OF rem]
  have uid: "p_user_id (heap ! r) = uid" using room_invD(5) [OF inv eqs(1)] by simp
  have okp: "dm_ok (r_participants room')" using room_invD(1) [OF inv] by (simp add: eqs dm.ok_del)
  have reg: "registered room' x \<longleftrightarrow> registered room x \<and> x \<noteq> r" for x
    using member_key_iff [OF inv eqs(1)] by (auto simp: registered_def eqs(2) set_dm_remove)
  then show "registered room' x \<longleftrightarrow> registered room x \<and> x \<noteq> r" .
  have regr: "registered room r" using eqs(1) registered_iff [OF room_invD(1) [OF inv]] by blast
  show "room_inv heap room'"
  proof (rule room_invI)
    fix v x assume "dm_get (r_participants room') v = Some x"
    then show "x < length heap \<and> p_user_id (heap ! x) = v \<and> p_room_id (heap ! x) = r_id room'"
      using room_invD(5) [OF inv, of v x] by (auto simp: eqs split: if_splits)
  next
    fix uf x pc
    have own: "dm_get (r_by_ufrag room) (ms_ufrag (session (heap ! r) pc')) = Some (r, pc')" for pc'
      using regr room_invD(6) [OF inv] by blast
    show "dm_get (r_by_ufrag room') uf = Some (x, pc) \<longleftrightarrow> registered room' x \<and> ms_ufrag (session (heap ! x) pc) = uf"
      unfolding reg eqs using room_invD(6) [OF inv, of uf x pc] own [of Publish] own [of Subscribe]
      by (cases pc) auto
  next
    fix a x pc assume "dm_get (r_by_addr room') a = Some (x, pc)"
    then show "registered room' x \<and> ms_address (session (heap ! x) pc) = Some a"
      using room_invD(7) [OF inv, of a x pc] by (cases pc) (auto simp: eqs reg split: if_splits)
  next
    show "length (r_participants room') \<le> r_capacity room'"
      using room_invD(4) [OF inv] length_filter_le le_trans unfolding eqs dm_remove_def by blast
  qed (use room_invD(2,3) [OF inv] okp in \<open>simp_all add: eqs dm.ok_del\<close>)
qed

lemma room_latch_simps:
  assumes "room_latch uf addr heap room = Some (r, pc, heap', room')"
  shows "dm_get (r_by_ufrag room) uf = Some (r, pc)"
    and "heap' = heap[r := update_session pc (latch_address addr) (heap ! r)]"
    and "r_participants room' = r_participants room" "r_by_ufrag room' = r_by_ufrag room"
    and "r_id room' = r_id room" "r_capacity room' = r_capacity room"
    and "dm_get (r_by_addr room') a = (if a = addr then Some (r, pc)
           else if ms_address (session (heap ! r) pc) = Some a then None else dm_get (r_by_addr room) a)"
    and "dm_ok (r_by_addr room) \<Longrightarrow> dm_ok (r_by_addr room')"
  using assms by (auto simp: room_latch_def Let_def dm.ok_put dm.ok_del split: option.splits if_splits)

lemma registered_latch:
  "room_latch uf addr heap room = Some (r, pc, heap', room') \<Longrightarrow> registered room' x \<longleftrightarrow> registered room x"
  by (simp add: registered_def room_latch_simps)

lemma latched_session:
  "r < length heap \<Longrightarrow>
     ms_address (session (heap[r := update_session pc (latch_address addr) (heap ! r)] ! x) pc') =
       (if x = r \<and> pc' = pc then Some addr else ms_address (session (heap ! x) pc'))"
  "r < length heap \<Longrightarrow>
     ms_ufrag (session (heap[r := update_session pc (latch_address addr) (heap ! r)] ! x) pc') =
       ms_ufrag (session (heap ! x) pc')"
  by (auto simp: nth_list_update session_update_session)

lemma room_latch_inv:
  assumes inv: "room_inv heap room" and latch: "room_latch uf addr heap room = Some (r, pc, heap', room')"
  shows "room_inv heap' room'"
proof -
  note eqs = room_latch_simps [OF latch]
  have regr: "registered room r" using eqs(1) room_invD(6) [OF inv] by blast
  then have r: "r < length heap" using registeredD [OF inv] by blast
  note reg = registered_latch [OF latch]
  show ?thesis
  proof (rule room_invI)
    fix uid x assume "dm_get (r_participants room') uid = Some x"
    then show "x < length heap' \<and> p_user_id (heap' ! x) = uid \<and> p_room_id (heap' ! x) = r_id room'"
      using room_invD(5) [OF inv, of uid x] r by (cases "x = r") (auto simp: eqs(2-6))
  next
    fix uf' x pc'
    show "dm_get (r_by_ufrag room') uf' = Some (x, pc') \<longleftrightarrow> registered room' x \<and> ms_ufrag (session (heap' ! x) pc') = uf'"
      unfolding reg eqs(2,4) latched_session [OF r] by (rule room_invD(6) [OF inv])
  next
    fix a x pc' assume "dm_get (r_by_addr room') a = Some (x, pc')"
    then show "registered room' x \<and> ms_address (session (heap' ! x) pc') = Some a"
      using room_invD(7) [OF inv, of a x pc'] regr unfolding reg eqs(2) eqs(7) latched_session [OF r]
      by (auto split: if_splits)
  qed (use room_invD(1-4) [OF inv] eqs(3-6,8) in simp_all)
qed

lemma hub_invD:
  assumes "hub_inv heap hub"
  shows "dm_ok (h_rooms hub)" "dm_ok (h_ufrag_index hub)" "dm_ok (h_addr_index hub)"
    and "dm_get (h_rooms hub) rid = Some room \<Longrightarrow> r_id room = rid"
    and "dm_get (h_rooms hub) rid = Some room \<Longrightarrow> room_inv heap room"
    and "dm_get (h_ufrag_index hub) uf = Some rid \<longleftrightarrow>
           (\<exists>room. dm_get (h_rooms hub) rid = Some room \<and> dm_get (r_by_ufrag room) uf \<noteq> None)"
  using assms unfolding hub_inv_def by blast+

lemma hub_invI:
  assumes "dm_ok (h_rooms hub)" "dm_ok (h_ufrag_index hub)" "dm_ok (h_addr_index hub)"
    and "\<And>rid room. dm_get (h_rooms hub) rid = Some room \<Longrightarrow> r_id room = rid \<and> room_inv heap room"
    and "\<And>uf rid. dm_get (h_ufrag_index hub) uf = Some rid \<longleftrightarrow>
           (\<exists>room. dm_get (h_rooms hub) rid = Some room \<and> dm_get (r_by_ufrag room) uf \<noteq> None)"
  shows "hub_inv heap hub"
  using assms unfolding hub_inv_def by blast

lemma hub_inv_new [simp]: "hub_inv heap hub_new"
  by (rule hub_invI) (simp_all add: hub_new_def)

lemma hub_member_room:
  assumes inv: "hub_inv heap hub" and room: "dm_get (h_rooms hub) rid = Some room" and r: "registered room r"
  shows "r < length heap" "p_room_id (heap ! r) = rid"
  using registeredD [OF hub_invD(5) [OF inv room] r] hub_invD(4) [OF inv room] by auto

lemma hub_unused_ufrag:
  "hub_inv heap hub \<Longrightarrow> dm_get (h_ufrag_index hub) uf = None \<Longrightarrow> dm_get (h_rooms hub) rid = Some room \<Longrightarrow>
     dm_get (r_by_ufrag room) uf = None"
  using hub_invD(6) by (metis option.distinct(1) option.exhaust)

lemma hub_inv_heap:
  assumes inv: "hub_inv heap hub" and sh: "same_heap heap heap'"
  shows "hub_inv heap' hub"
proof (rule hub_invI)
  fix rid room assume room: "dm_get (h_rooms hub) rid = Some room"
  have "room_inv heap' room"
    by (rule room_inv_heap [OF hub_invD(5) [OF inv room]])
       (use hub_member_room(1) [OF inv room] sh in \<open>auto simp: same_heap_def intro: less_le_trans\<close>)
  then show "r_id room = rid \<and> room_inv heap' room" using hub_invD(4) [OF inv room] by simp
qed (use hub_invD(1-3) [OF inv] hub_invD(6) [OF inv] in blast)+

lemma same_heap_append: "same_heap heap (heap @ ps)"
  by (auto simp: same_heap_def same_identity_def nth_append)

lemma same_heap_update: "same_identity (heap ! r) p \<Longrightarrow> same_heap heap (heap[r := p])"
  by (cases "r < length heap") (auto simp: same_heap_def same_identity_def nth_list_update)

lemma same_heap_refl [simp]: "same_heap heap heap"
  by (simp add: same_heap_def same_identity_def)

lemma same_heap_trans: "same_heap a b \<Longrightarrow> same_heap b c \<Longrightarrow> same_heap a c"
  by (fastforce simp: same_heap_def same_identity_def)

lemma hub_create_inv:
  assumes inv: "hub_inv heap hub" and fresh: "dm_get (h_rooms hub) rid = None"
  shows "hub_inv heap (snd (hub_create rid name cap mode at sim a v hub))"
  by (rule hub_invI)
     (use hub_invD [OF inv] fresh in
       \<open>auto simp: hub_create_def Let_def dm.ok_put split: if_splits\<close>,
      auto simp: room_new_def Let_def)

text \<open>What a new participant needs: its own place in the heap, its room, and unused distinct ufrags.\<close>

definition can_join :: "'f heap \<Rightarrow> room_id \<Rightarrow> pref \<Rightarrow> hub \<Rightarrow> bool" where
  "can_join heap rid r hub \<longleftrightarrow> r < length heap \<and> p_room_id (heap ! r) = rid \<and>
     ms_ufrag (p_publish (heap ! r)) \<noteq> ms_ufrag (p_subscribe (heap ! r)) \<and>
     dm_get (h_ufrag_index hub) (ms_ufrag (p_publish (heap ! r))) = None \<and>
     dm_get (h_ufrag_index hub) (ms_ufrag (p_subscribe (heap ! r))) = None"

lemma hub_add_simps:
  assumes "hub_add_participant heap rid r now hub = Inr hub'"
  obtains room room' where "dm_get (h_rooms hub) rid = Some room"
    and "room_add_participant heap r now room = Inr room'"
    and "h_rooms hub' = dm_insert rid room' (h_rooms hub)"
    and "h_ufrag_index hub' = dm_insert (ms_ufrag (p_subscribe (heap ! r))) rid
           (dm_insert (ms_ufrag (p_publish (heap ! r))) rid (h_ufrag_index hub))"
    and "h_addr_index hub' = h_addr_index hub"
  using assms by (auto simp: hub_add_participant_def hub_get_def split: option.splits sum.splits)

lemma hub_add_inv:
  assumes inv: "hub_inv heap hub" and new: "can_join heap rid r hub"
    and add: "hub_add_participant heap rid r now hub = Inr hub'"
  shows "hub_inv heap hub'"
proof -
  from add obtain room room' where room: "dm_get (h_rooms hub) rid = Some room"
    and ra: "room_add_participant heap r now room = Inr room'"
    and eqs: "h_rooms hub' = dm_insert rid room' (h_rooms hub)"
      "h_ufrag_index hub' = dm_insert (ms_ufrag (p_subscribe (heap ! r))) rid
           (dm_insert (ms_ufrag (p_publish (heap ! r))) rid (h_ufrag_index hub))"
      "h_addr_index hub' = h_addr_index hub"
    by (rule hub_add_simps)
  note unused = hub_unused_ufrag [OF inv _ room]
  have inv': "room_inv heap room'"
    by (rule room_add_inv(1) [OF hub_invD(5) [OF inv room] ra])
       (use new unused hub_invD(4) [OF inv room] in \<open>auto simp: can_join_def\<close>)
  show ?thesis
  proof (rule hub_invI)
    fix x room'' assume "dm_get (h_rooms hub') x = Some room''"
    then show "r_id room'' = x \<and> room_inv heap room''"
      using inv' hub_invD(4,5) [OF inv] room room_add_simps(4) [OF ra] by (auto simp: eqs split: if_splits)
  next
    fix uf x
    have other: "dm_get (h_ufrag_index hub) uf = Some x \<longleftrightarrow>
        (\<exists>room. dm_get (h_rooms hub) x = Some room \<and> dm_get (r_by_ufrag room) uf \<noteq> None)"
      by (rule hub_invD(6) [OF inv])
    show "dm_get (h_ufrag_index hub') uf = Some x \<longleftrightarrow>
        (\<exists>room. dm_get (h_rooms hub') x = Some room \<and> dm_get (r_by_ufrag room) uf \<noteq> None)"
      using other new room by (auto simp: eqs room_add_simps(2) [OF ra] can_join_def)
  qed (use hub_invD(1-3) [OF inv] in \<open>simp_all add: eqs dm.ok_put\<close>)
qed

lemma hub_remove_simps:
  assumes "hub_remove_participant heap rid uid hub = Inr (r, hub')"
  obtains room room' where "dm_get (h_rooms hub) rid = Some room"
    and "room_remove_participant heap uid room = Inr (r, room')"
    and "h_rooms hub' = dm_insert rid room' (h_rooms hub)"
    and "h_ufrag_index hub' = dm_remove (ms_ufrag (p_subscribe (heap ! r)))
           (dm_remove (ms_ufrag (p_publish (heap ! r))) (h_ufrag_index hub))"
    and "h_addr_index hub' = remove_addr (ms_address (p_subscribe (heap ! r)))
           (remove_addr (ms_address (p_publish (heap ! r))) (h_addr_index hub))"
  using assms by (auto simp: hub_remove_participant_def hub_get_def unindex_def split: option.splits sum.splits)

lemma hub_ufrag_owner:
  assumes inv: "hub_inv heap hub" and room: "dm_get (h_rooms hub) rid = Some room" and r: "registered room r"
  shows "dm_get (h_ufrag_index hub) (ms_ufrag (session (heap ! r) pc)) = Some rid"
    and "dm_get (r_by_ufrag room) (ms_ufrag (session (heap ! r) pc)) = Some (r, pc)"
proof -
  show "dm_get (r_by_ufrag room) (ms_ufrag (session (heap ! r) pc)) = Some (r, pc)"
    using room_invD(6) [OF hub_invD(5) [OF inv room]] r by blast
  then show "dm_get (h_ufrag_index hub) (ms_ufrag (session (heap ! r) pc)) = Some rid"
    using hub_invD(6) [OF inv] room by blast
qed

lemma hub_remove_inv:
  assumes inv: "hub_inv heap hub" and rem: "hub_remove_participant heap rid uid hub = Inr (r, hub')"
  shows "hub_inv heap hub'"
proof -
  from rem obtain room room' where room: "dm_get (h_rooms hub) rid = Some room"
    and rr: "room_remove_participant heap uid room = Inr (r, room')"
    and eqs: "h_rooms hub' = dm_insert rid room' (h_rooms hub)"
      "h_ufrag_index hub' = dm_remove (ms_ufrag (p_subscribe (heap ! r)))
           (dm_remove (ms_ufrag (p_publish (heap ! r))) (h_ufrag_index hub))"
      "h_addr_index hub' = remove_addr (ms_address (p_subscribe (heap ! r)))
           (remove_addr (ms_address (p_publish (heap ! r))) (h_addr_index hub))"
    by (rule hub_remove_simps)
  have regr: "registered room r"
    using room_remove_simps(1) [OF rr] registered_iff room_invD(1) [OF hub_invD(5) [OF inv room]] by blast
  note own = hub_ufrag_owner [OF inv room regr]
  show ?thesis
  proof (rule hub_invI)
    fix x room'' assume "dm_get (h_rooms hub') x = Some room''"
    then show "r_id room'' = x \<and> room_inv heap room''"
      using room_remove_inv(1) [OF hub_invD(5) [OF inv room] rr] hub_invD(4,5) [OF inv] room
        room_remove_simps(5) [OF rr] by (auto simp: eqs split: if_splits)
  next
    fix uf x
    show "dm_get (h_ufrag_index hub') uf = Some x \<longleftrightarrow>
        (\<exists>room. dm_get (h_rooms hub') x = Some room \<and> dm_get (r_by_ufrag room) uf \<noteq> None)"
      using hub_invD(6) [OF inv, of uf x] own(1) [of Publish] own(1) [of Subscribe]
        hub_invD(6) [OF inv, of uf rid] room
      by (auto simp: eqs room_remove_simps(3) [OF rr])
  qed (use hub_invD(1-3) [OF inv] in \<open>simp_all add: eqs dm.ok_put dm.ok_del\<close>)
qed

lemma latch_by_ufrag_simps:
  assumes "latch_by_ufrag uf addr heap hub = Some (r, pc, rid, heap', hub')"
  obtains room room' where "dm_get (h_ufrag_index hub) uf = Some rid" "dm_get (h_rooms hub) rid = Some room"
    and "room_latch uf addr heap room = Some (r, pc, heap', room')"
    and "h_rooms hub' = dm_insert rid room' (h_rooms hub)" "h_ufrag_index hub' = h_ufrag_index hub"
    and "h_addr_index hub' = dm_insert addr rid (h_addr_index hub)"
  using assms by (auto simp: latch_by_ufrag_def bind_eq_Some_conv)

lemma latch_other_room:
  assumes inv: "room_inv heap room" and other: "\<not> registered room r"
  shows "room_inv (heap[r := p]) room"
proof (rule room_inv_heap [OF inv])
  fix x assume x: "registered room x"
  then have "x \<noteq> r" "x < length heap" using other registeredD [OF inv x] by auto
  then show "x < length (heap[r := p]) \<and> same_identity (heap ! x) (heap[r := p] ! x)"
    by (simp add: same_identity_def)
qed

lemma hub_latch_inv:
  assumes inv: "hub_inv heap hub" and latch: "latch_by_ufrag uf addr heap hub = Some (r, pc, rid, heap', hub')"
  shows "hub_inv heap' hub'"
proof -
  from latch obtain room room' where "dm_get (h_ufrag_index hub) uf = Some rid"
    and room: "dm_get (h_rooms hub) rid = Some room"
    and rl: "room_latch uf addr heap room = Some (r, pc, heap', room')"
    and eqs: "h_rooms hub' = dm_insert rid room' (h_rooms hub)" "h_ufrag_index hub' = h_ufrag_index hub"
      "h_addr_index hub' = dm_insert addr rid (h_addr_index hub)"
    by (rule latch_by_ufrag_simps)
  note rinv = hub_invD(5) [OF inv room]
  have regr: "registered room r" using room_latch_simps(1) [OF rl] room_invD(6) [OF rinv] by blast
  show ?thesis
  proof (rule hub_invI)
    fix x room'' assume get: "dm_get (h_rooms hub') x = Some room''"
    show "r_id room'' = x \<and> room_inv heap' room''"
    proof (cases "x = rid")
      case True
      then show ?thesis using get room_latch_inv [OF rinv rl] room_latch_simps(5) [OF rl] hub_invD(4) [OF inv room]
        by (simp add: eqs)
    next
      case False
      then have room2: "dm_get (h_rooms hub) x = Some room''" using get by (simp add: eqs)
      have "\<not> registered room'' r"
        using hub_member_room(2) [OF inv room2] hub_member_room(2) [OF inv room regr] False by metis
      then have "room_inv heap' room''"
        using latch_other_room [OF hub_invD(5) [OF inv room2]] room_latch_simps(2) [OF rl] by simp
      then show ?thesis using hub_invD(4) [OF inv room2] by simp
    qed
  next
    fix uf' x
    show "dm_get (h_ufrag_index hub') uf' = Some x \<longleftrightarrow>
        (\<exists>room. dm_get (h_rooms hub') x = Some room \<and> dm_get (r_by_ufrag room) uf' \<noteq> None)"
      using hub_invD(6) [OF inv, of uf' x] room by (auto simp: eqs room_latch_simps(4) [OF rl])
  qed (use hub_invD(1-3) [OF inv] in \<open>simp_all add: eqs dm.ok_put\<close>)
qed

lemma reap_users_inv:
  "hub_inv heap hub \<Longrightarrow> hub_inv heap (snd (reap_users heap rid us hub))"
  by (induction us arbitrary: hub)
     (auto split: sum.split prod.split dest: hub_remove_inv, metis hub_remove_inv snd_conv)

lemma reap_rooms_inv:
  "hub_inv heap hub \<Longrightarrow> hub_inv heap (snd (reap_rooms heap now tmo ids hub))"
proof (induction ids arbitrary: hub)
  case (Cons rid ids)
  show ?case
  proof (cases "dm_get (h_rooms hub) rid")
    case (Some room)
    let ?zs = "map fst (filter (\<lambda>e. is_zombie now tmo (heap ! snd e)) (r_participants room))"
    have "hub_inv heap (snd (reap_users heap rid ?zs hub))" using Cons.prems by (rule reap_users_inv)
    then show ?thesis using Cons.IH Some by (simp add: case_prod_beta Let_def)
  qed (use Cons in simp)
qed simp

lemma unindex_fold:
  "h_rooms (fold (\<lambda>e. unindex (heap ! snd e)) es hub) = h_rooms hub"
  "dm_ok (h_ufrag_index hub) \<Longrightarrow> dm_ok (h_ufrag_index (fold (\<lambda>e. unindex (heap ! snd e)) es hub))"
  "dm_ok (h_addr_index hub) \<Longrightarrow> dm_ok (h_addr_index (fold (\<lambda>e. unindex (heap ! snd e)) es hub))"
  "dm_get (h_ufrag_index (fold (\<lambda>e. unindex (heap ! snd e)) es hub)) uf =
     (if \<exists>e\<in>set es. \<exists>pc. ms_ufrag (session (heap ! snd e) pc) = uf then None else dm_get (h_ufrag_index hub) uf)"
proof (induction es arbitrary: hub)
  case (Cons e es)
  {
    case 4
    show ?case using Cons.IH(4) [of "unindex (heap ! snd e) hub"] by (simp add: unindex_def ex_pc)
  }
qed (auto simp: unindex_def dm.ok_del)

lemma hub_remove_room_inv:
  assumes inv: "hub_inv heap hub" and rem: "hub_remove_room heap rid hub = Inr (room, hub')"
  shows "hub_inv heap hub'"
proof -
  let ?hub = "hub\<lparr> h_rooms := dm_remove rid (h_rooms hub) \<rparr>"
  have room: "dm_get (h_rooms hub) rid = Some room"
    and hub': "hub' = fold (\<lambda>e. unindex (heap ! snd e)) (r_participants room) ?hub"
    using rem by (auto simp: hub_remove_room_def split: option.splits)
  have members: "(\<exists>e\<in>set (r_participants room). \<exists>pc. ms_ufrag (session (heap ! snd e) pc) = uf) \<longleftrightarrow>
      dm_get (r_by_ufrag room) uf \<noteq> None" for uf
  proof -
    have "dm_get (r_by_ufrag room) uf \<noteq> None \<longleftrightarrow> (\<exists>r pc. dm_get (r_by_ufrag room) uf = Some (r, pc))" by auto
    also have "\<dots> \<longleftrightarrow> (\<exists>r pc. registered room r \<and> ms_ufrag (session (heap ! r) pc) = uf)"
      unfolding room_invD(6) [OF hub_invD(5) [OF inv room]] ..
    finally show ?thesis by (auto simp: registered_def)
  qed
  show ?thesis
  proof (rule hub_invI)
    fix uf x
    show "dm_get (h_ufrag_index hub') uf = Some x \<longleftrightarrow>
        (\<exists>room. dm_get (h_rooms hub') x = Some room \<and> dm_get (r_by_ufrag room) uf \<noteq> None)"
      unfolding hub' unindex_fold(1) unindex_fold(4) members
      using hub_invD(6) [OF inv, of uf x] hub_invD(6) [OF inv, of uf rid] room by auto
  qed (use hub_invD [OF inv] in \<open>auto simp: hub' unindex_fold dm.ok_del split: if_splits\<close>)
qed

section \<open>Runs of the hub\<close>

text \<open>
  One step is one call of a hub method with the heap it works on: a new room under a fresh
  identifier, a join of a new participant with unused ufrags (which may fail, and then only leaves
  an unreferenced participant behind), a leave, a latch, a reaper pass, the removal of a room, or any
  change of a participant that keeps its identity, its ufrags and its addresses.
\<close>

inductive hub_step :: "'f heap \<times> hub \<Rightarrow> 'f heap \<times> hub \<Rightarrow> bool" where
  Create: "dm_get (h_rooms hub) rid = None \<Longrightarrow>
     hub_step (heap, hub) (heap, snd (hub_create rid name cap mode at sim a v hub))"
| Join: "p = participant_new uid rid pu pp su sp tx at \<Longrightarrow> can_join (heap @ [p]) rid (length heap) hub \<Longrightarrow>
     hub_add_participant (heap @ [p]) rid (length heap) now hub = Inr hub' \<Longrightarrow>
     hub_step (heap, hub) (heap @ [p], hub')"
| Leave: "hub_remove_participant heap rid uid hub = Inr (r, hub') \<Longrightarrow> hub_step (heap, hub) (heap, hub')"
| Latch: "latch_by_ufrag uf addr heap hub = Some (r, pc, rid, heap', hub') \<Longrightarrow> hub_step (heap, hub) (heap', hub')"
| Reap: "hub_step (heap, hub) (heap, snd (reap_zombies heap now tmo hub))"
| RemoveRoom: "hub_remove_room heap rid hub = Inr (room, hub') \<Longrightarrow> hub_step (heap, hub) (heap, hub')"
| Update: "same_heap heap heap' \<Longrightarrow> hub_step (heap, hub) (heap', hub)"

abbreviation hub_reachable :: "'f heap \<Rightarrow> hub \<Rightarrow> bool" where
  "hub_reachable heap hub \<equiv> hub_step\<^sup>*\<^sup>* ([], hub_new) (heap, hub)"

lemma hub_step_inv: "hub_step s s' \<Longrightarrow> hub_inv (fst s) (snd s) \<Longrightarrow> hub_inv (fst s') (snd s')"
proof (induction rule: hub_step.induct)
  case (Join p uid rid pu pp su sp tx at heap hub now hub')
  then show ?case using hub_add_inv hub_inv_heap [OF _ same_heap_append] by fastforce
qed (auto intro: hub_create_inv hub_remove_inv hub_latch_inv reap_rooms_inv hub_remove_room_inv hub_inv_heap
       simp: reap_zombies_def)

interpretation hub_steps: step_invariant hub_step "\<lambda>s. hub_inv (fst s) (snd s)"
  by unfold_locales (rule hub_step_inv)

lemma hub_reachable_hub_inv: "hub_reachable heap hub \<Longrightarrow> hub_inv heap hub"
  using hub_steps.run by fastforce

section \<open>Lookup through an index\<close>

text \<open>
  What a client of an index relies on: a hit is a member that has the key. A complete index also
  finds every member that has the key; then a lookup is a search through the members.
\<close>

locale registry =
  fixes valid :: "'s \<Rightarrow> bool"
    and members :: "'s \<Rightarrow> 'v list"
    and key :: "'s \<Rightarrow> 'v \<Rightarrow> 'k option"
    and lookup :: "'s \<Rightarrow> 'k \<Rightarrow> 'v option"
  assumes sound: "valid s \<Longrightarrow> lookup s k = Some v \<Longrightarrow> v \<in> set (members s) \<and> key s v = Some k"
begin

lemma gone: "valid s \<Longrightarrow> v \<notin> set (members s) \<Longrightarrow> lookup s k \<noteq> Some v"
  using sound by blast

lemma one_key: "valid s \<Longrightarrow> lookup s k = Some v \<Longrightarrow> lookup s k' = Some v \<Longrightarrow> k = k'"
  using sound [of s k v] sound [of s k' v] by simp

end

locale complete_registry = registry +
  assumes complete: "valid s \<Longrightarrow> v \<in> set (members s) \<Longrightarrow> key s v = Some k \<Longrightarrow> lookup s k = Some v"
begin

lemma lookup_iff: "valid s \<Longrightarrow> lookup s k = Some v \<longleftrightarrow> v \<in> set (members s) \<and> key s v = Some k"
  using sound complete by blast

lemma lookup_is_search:
  assumes s: "valid s"
  shows "lookup s k = find (\<lambda>v. key s v = Some k) (members s)"
proof (cases "find (\<lambda>v. key s v = Some k) (members s)")
  case None
  then have "key s v \<noteq> Some k" if "v \<in> set (members s)" for v using that by (simp add: find_None_iff)
  then have "lookup s k = None" using sound [OF s, of k] by (cases "lookup s k") auto
  then show ?thesis using None by simp
next
  case (Some v)
  then have "v \<in> set (members s)" "key s v = Some k" by (auto simp: find_Some_iff)
  then show ?thesis using complete [OF s] Some by simp
qed

end

definition all_sessions :: "hub \<Rightarrow> (pref \<times> pc_type \<times> room_id) list" where
  "all_sessions hub =
     concat (map (\<lambda>(rid, room). concat (map (\<lambda>(uid, r). [(r, Publish, rid), (r, Subscribe, rid)]) (r_participants room)))
       (h_rooms hub))"

definition session_of :: "'f heap \<Rightarrow> pref \<times> pc_type \<times> room_id \<Rightarrow> media_session" where
  "session_of heap v = session (heap ! fst v) (fst (snd v))"

lemma all_sessions_iff:
  "dm_ok (h_rooms hub) \<Longrightarrow>
     (r, pc, rid) \<in> set (all_sessions hub) \<longleftrightarrow> (\<exists>room. dm_get (h_rooms hub) rid = Some room \<and> registered room r)"
  by (cases pc) (force simp: all_sessions_def registered_def dm_get_iff image_iff)+

interpretation ufrag: complete_registry "\<lambda>(heap, hub). hub_inv heap hub" "\<lambda>(heap, hub). all_sessions hub"
  "\<lambda>(heap, hub) v. Some (ms_ufrag (session_of heap v))" "\<lambda>(heap, hub) uf. find_by_ufrag hub uf"
proof (unfold_locales; clarify)
  fix heap :: "'f heap" and hub and r pc rid
  assume inv: "hub_inv heap hub"
  note ok = hub_invD(1) [OF inv]
  {
    fix uf assume "find_by_ufrag hub uf = Some (r, pc, rid)"
    then obtain room where room: "dm_get (h_rooms hub) rid = Some room" and "dm_get (r_by_ufrag room) uf = Some (r, pc)"
      by (auto simp: find_by_ufrag_def get_by_ufrag_def bind_eq_Some_conv)
    then show "(r, pc, rid) \<in> set (all_sessions hub) \<and> Some (ms_ufrag (session_of heap (r, pc, rid))) = Some uf"
      using room_invD(6) [OF hub_invD(5) [OF inv room]] by (auto simp: all_sessions_iff [OF ok] session_of_def)
  }
  assume "(r, pc, rid) \<in> set (all_sessions hub)"
  then obtain room where "dm_get (h_rooms hub) rid = Some room" "registered room r"
    by (auto simp: all_sessions_iff [OF ok])
  then show "find_by_ufrag hub (ms_ufrag (session_of heap (r, pc, rid))) = Some (r, pc, rid)"
    using hub_ufrag_owner [OF inv, of rid room r pc] by (simp add: find_by_ufrag_def get_by_ufrag_def session_of_def)
qed

interpretation addr: registry "\<lambda>(heap, hub). hub_inv heap hub" "\<lambda>(heap, hub). all_sessions hub"
  "\<lambda>(heap, hub) v. ms_address (session_of heap v)" "\<lambda>(heap, hub) a. find_by_addr hub a"
proof (unfold_locales; clarify)
  fix heap :: "'f heap" and hub and r pc rid a
  assume inv: "hub_inv heap hub" and "find_by_addr hub a = Some (r, pc, rid)"
  then obtain room where room: "dm_get (h_rooms hub) rid = Some room" and "dm_get (r_by_addr room) a = Some (r, pc)"
    by (auto simp: find_by_addr_def get_by_addr_def bind_eq_Some_conv)
  then show "(r, pc, rid) \<in> set (all_sessions hub) \<and> ms_address (session_of heap (r, pc, rid)) = Some a"
    using room_invD(7) [OF hub_invD(5) [OF inv room]]
    by (auto simp: all_sessions_iff [OF hub_invD(1) [OF inv]] session_of_def)
qed

section \<open>Properties\<close>

lemma remove_sessions:
  assumes inv: "hub_inv heap hub" and rem: "hub_remove_participant heap rid uid hub = Inr (r, hub')"
  shows "(x, pc, y) \<in> set (all_sessions hub') \<longleftrightarrow> (x, pc, y) \<in> set (all_sessions hub) \<and> x \<noteq> r"
    and "(r, pc, rid) \<in> set (all_sessions hub)"
proof -
  from rem obtain room room' where room: "dm_get (h_rooms hub) rid = Some room"
    and rr: "room_remove_participant heap uid room = Inr (r, room')"
    and eqs: "h_rooms hub' = dm_insert rid room' (h_rooms hub)"
    by (rule hub_remove_simps)
  note rinv = hub_invD(5) [OF inv room]
  have regr: "registered room r"
    using room_remove_simps(1) [OF rr] registered_iff [OF room_invD(1) [OF rinv]] by blast
  then show "(r, pc, rid) \<in> set (all_sessions hub)" using room by (auto simp: all_sessions_iff [OF hub_invD(1) [OF inv]])
  have "x \<noteq> r" if "dm_get (h_rooms hub) y = Some room2" "registered room2 x" "y \<noteq> rid" for room2
    using hub_member_room(2) [OF inv that(1,2)] hub_member_room(2) [OF inv room regr] that(3) by auto
  then show "(x, pc, y) \<in> set (all_sessions hub') \<longleftrightarrow> (x, pc, y) \<in> set (all_sessions hub) \<and> x \<noteq> r"
    using room room_remove_inv(2) [OF rinv rr]
    unfolding all_sessions_iff [OF hub_invD(1) [OF inv]] all_sessions_iff [OF hub_invD(1) [OF hub_remove_inv [OF inv rem]]]
    by (auto simp: eqs)
qed

text \<open>
  C17: In every state the hub reaches by creating rooms, joins of participants with unused ufrags,
  leaves, latches, reaper passes, room removals and changes of participants that keep their keys,
  the indices agree: the ufrag lookup over the two hash maps returns what a search through all
  sessions of all rooms returns, an address lookup only returns a session that is a member of the
  returned room and has latched that address, and no room holds more participants than its capacity.
\<close>

theorem index_lookup_is_search:
  assumes "hub_reachable heap hub"
  shows "find_by_ufrag hub uf = find (\<lambda>v. ms_ufrag (session_of heap v) = uf) (all_sessions hub) \<and>
    (find_by_addr hub a = Some v \<longrightarrow> v \<in> set (all_sessions hub) \<and> ms_address (session_of heap v) = Some a) \<and>
    (dm_get (h_rooms hub) rid = Some room \<longrightarrow> participant_count room \<le> r_capacity room)"
proof -
  have inv: "hub_inv heap hub" using assms by (rule hub_reachable_hub_inv)
  then have "find_by_ufrag hub uf = find (\<lambda>v. ms_ufrag (session_of heap v) = uf) (all_sessions hub)"
    using ufrag.lookup_is_search [of "(heap, hub)" uf] by simp
  then show ?thesis
    using addr.sound [of "(heap, hub)" a v] hub_invD(5) [OF inv, of rid room] room_invD(4) [of heap room] inv
    by (auto simp: participant_count_def)
qed

definition demo_p :: "unit participant" where
  "demo_p = participant_new ''u'' ''r'' ''pu'' ''pp'' ''su'' ''sp'' 0 1000"

definition demo_room :: room where
  "demo_room = room_new ''r'' ''n'' None Conference 0 False 1 2"

definition demo_hub_at :: "(socket_addr, pref \<times> pc_type) dmap \<Rightarrow> (socket_addr, room_id) dmap \<Rightarrow> hub" where
  "demo_hub_at by_addr addr_index = \<lparr> h_rooms = [(''r'', demo_room\<lparr> r_participants := [(''u'', 0)],
       r_by_ufrag := [(''pu'', 0, Publish), (''su'', 0, Subscribe)], r_by_addr := by_addr, r_active_since := 1000 \<rparr>)],
     h_ufrag_index = [(''pu'', ''r''), (''su'', ''r'')], h_addr_index = addr_index \<rparr>"

abbreviation demo_hub :: hub where "demo_hub \<equiv> demo_hub_at [] []"

lemma demo_p_simps [simp]:
  "p_user_id demo_p = ''u''" "p_room_id demo_p = ''r''" "p_publish demo_p = media_session_new ''pu'' ''pp''"
  "p_subscribe demo_p = media_session_new ''su'' ''sp''" "p_last_seen demo_p = 1000"
  by (simp_all add: demo_p_def participant_new_def)

lemma media_session_new_simps [simp]:
  "ms_ufrag (media_session_new uf pwd) = uf" "ms_address (media_session_new uf pwd) = None"
  by (simp_all add: media_session_new_def)

lemma demo_hub_reachable: "hub_reachable [demo_p] demo_hub"
proof -
  have create: "hub_step ([], hub_new) ([], snd (hub_create ''r'' ''n'' None Conference 0 False 1 2 hub_new))"
    by (rule hub_step.Create) (simp add: hub_new_def)
  have "hub_step ([], snd (hub_create ''r'' ''n'' None Conference 0 False 1 2 hub_new)) ([] @ [demo_p], demo_hub)"
    by (rule hub_step.Join [where now = 1000, OF demo_p_def])
       (simp_all add: can_join_def hub_create_def Let_def hub_new_def hub_add_participant_def hub_get_def
         room_add_participant_def demo_hub_at_def demo_room_def room_new_def)
  with create have "hub_reachable ([] @ [demo_p]) demo_hub"
    by (meson r_into_rtranclp rtranclp.rtrancl_into_rtrancl)
  then show ?thesis by simp
qed

theorem index_lookup_is_search_witness:
  "find_by_ufrag demo_hub ''su'' = Some (0, Subscribe, ''r'') \<and>
   find (\<lambda>v. ms_ufrag (session_of [demo_p] v) = ''su'') (all_sessions demo_hub) = Some (0, Subscribe, ''r'')"
proof -
  have "find (\<lambda>v. ms_ufrag (session_of [demo_p] v) = ''su'') (all_sessions demo_hub) = Some (0, Subscribe, ''r'')"
    by (simp add: all_sessions_def demo_hub_at_def session_of_def)
  then show ?thesis using index_lookup_is_search [OF demo_hub_reachable, of "''su''"] by simp
qed

lemma latch_session:
  assumes inv: "hub_inv heap hub"
    and latch: "latch_by_ufrag uf addr heap hub = Some (r, pc, rid, heap', hub')"
  shows "find_by_ufrag hub uf = Some (r, pc, rid) \<and> find_by_addr hub' addr = Some (r, pc, rid) \<and>
    ms_address (session (heap' ! r) pc) = Some addr \<and>
    (\<forall>a x. find_by_addr hub' a = Some (r, pc, x) \<longrightarrow> a = addr) \<and>
    (\<forall>r' pc'. (r', pc') \<noteq> (r, pc) \<longrightarrow> ms_address (session (heap' ! r') pc') = ms_address (session (heap ! r') pc'))"
proof -
  from latch obtain room room' where "dm_get (h_ufrag_index hub) uf = Some rid"
    and room: "dm_get (h_rooms hub) rid = Some room"
    and rl: "room_latch uf addr heap room = Some (r, pc, heap', room')"
    and eqs: "h_rooms hub' = dm_insert rid room' (h_rooms hub)"
      "h_addr_index hub' = dm_insert addr rid (h_addr_index hub)"
    by (rule latch_by_ufrag_simps)
  note ls = room_latch_simps [OF rl]
  have r: "r < length heap"
    using ls(1) room_invD(6) [OF hub_invD(5) [OF inv room]] hub_member_room(1) [OF inv room] by blast
  have sess: "ms_address (session (heap' ! r') pc') =
      (if r' = r \<and> pc' = pc then Some addr else ms_address (session (heap ! r') pc'))" for r' pc'
    unfolding ls(2) by (rule latched_session(1) [OF r])
  have found: "find_by_addr hub' addr = Some (r, pc, rid)"
    by (simp add: find_by_addr_def get_by_addr_def eqs ls(7))
  have only: "a = addr" if "find_by_addr hub' a = Some (r, pc, x)" for a x
    using addr.sound [of "(heap', hub')" a "(r, pc, x)"] hub_latch_inv [OF inv latch] that sess
    by (simp add: session_of_def)
  have by_uf: "find_by_ufrag hub uf = Some (r, pc, rid)"
    using ls(1) room \<open>dm_get (h_ufrag_index hub) uf = Some rid\<close>
    by (simp add: find_by_ufrag_def get_by_ufrag_def)
  show ?thesis by (intro conjI allI impI; (rule found by_uf | erule only | auto simp: sess))
qed

lemma find_latch:
  "find_by_ufrag hub uf = Some (r, pc, rid) \<Longrightarrow>
   \<exists>heap' hub'. latch_by_ufrag uf addr heap hub = Some (r, pc, rid, heap', hub')"
  by (auto simp: find_by_ufrag_def latch_by_ufrag_def get_by_ufrag_def room_latch_def bind_eq_Some_conv Let_def)

text \<open>
  A latch makes the session reachable under its new address and under no other: the lookup of the
  address returns the session found by the ufrag, the session has that address, every address
  under which the hub still finds the session is the new one, and every other session keeps its
  address.
\<close>

theorem latch_then_find:
  assumes reach: "hub_reachable heap hub"
    and latch: "latch_by_ufrag uf addr heap hub = Some (r, pc, rid, heap', hub')"
  shows "find_by_ufrag hub uf = Some (r, pc, rid) \<and> find_by_addr hub' addr = Some (r, pc, rid) \<and>
    ms_address (session (heap' ! r) pc) = Some addr \<and>
    (\<forall>a x. find_by_addr hub' a = Some (r, pc, x) \<longrightarrow> a = addr) \<and>
    (\<forall>r' pc'. (r', pc') \<noteq> (r, pc) \<longrightarrow> ms_address (session (heap' ! r') pc') = ms_address (session (heap ! r') pc'))"
  by (rule latch_session [OF hub_reachable_hub_inv [OF reach] latch])

abbreviation demo_addr :: socket_addr where "demo_addr \<equiv> V4 [10, 0, 0, 1] 5000"
abbreviation demo_addr2 :: socket_addr where "demo_addr2 \<equiv> V4 [10, 0, 0, 1] 5001"

definition demo_p_at :: "socket_addr \<Rightarrow> unit participant" where
  "demo_p_at a = demo_p\<lparr> p_publish := latch_address a (media_session_new ''pu'' ''pp'') \<rparr>"

lemma demo_latch:
  "latch_by_ufrag ''pu'' demo_addr [demo_p] demo_hub = Some (0, Publish, ''r'', [demo_p_at demo_addr],
     demo_hub_at [(demo_addr, 0, Publish)] [(demo_addr, ''r'')])"
  by (simp add: latch_by_ufrag_def demo_hub_at_def room_latch_def demo_p_at_def update_session_def)

theorem latch_then_find_witness:
  "find_by_addr (demo_hub_at [(demo_addr, 0, Publish)] [(demo_addr, ''r'')]) demo_addr = Some (0, Publish, ''r'')"
  using latch_then_find [OF demo_hub_reachable demo_latch] by simp

text \<open>
  Once a participant has left, no lookup returns it, neither by ufrag nor by address, and the
  ufrag lookups of all other sessions are what they were.
\<close>

theorem removed_participant_not_found:
  assumes reach: "hub_reachable heap hub" and rem: "hub_remove_participant heap rid uid hub = Inr (r, hub')"
  shows "(\<forall>uf pc x. find_by_ufrag hub' uf \<noteq> Some (r, pc, x)) \<and> (\<forall>a pc x. find_by_addr hub' a \<noteq> Some (r, pc, x)) \<and>
    (\<forall>uf x pc y. x \<noteq> r \<longrightarrow> (find_by_ufrag hub' uf = Some (x, pc, y) \<longleftrightarrow> find_by_ufrag hub uf = Some (x, pc, y)))"
proof -
  have inv: "hub_inv heap hub" using reach by (rule hub_reachable_hub_inv)
  note inv' = hub_remove_inv [OF inv rem] and sess = remove_sessions(1) [OF inv rem]
  have gone: "(r, pc, x) \<notin> set (all_sessions hub')" for pc x using sess by blast
  have iff: "find_by_ufrag h uf = Some v \<longleftrightarrow> v \<in> set (all_sessions h) \<and> ms_ufrag (session_of heap v) = uf"
    if "hub_inv heap h" for h uf v
    using ufrag.lookup_iff [of "(heap, h)" uf v] that by simp
  show ?thesis using gone addr.gone [of "(heap, hub')"] inv' sess
    by (simp add: iff [OF inv] iff [OF inv'])
qed

theorem removed_participant_not_found_witness:
  "\<exists>hub'. hub_remove_participant [demo_p] ''r'' ''u'' demo_hub = Inr (0, hub') \<and> (\<forall>uf pc x. find_by_ufrag hub' uf \<noteq> Some (0, pc, x))"
proof -
  obtain hub' where rem: "hub_remove_participant [demo_p] ''r'' ''u'' demo_hub = Inr (0, hub')"
    by (simp add: hub_remove_participant_def hub_get_def demo_hub_at_def room_remove_participant_def)
  with removed_participant_not_found [OF demo_hub_reachable rem] show ?thesis by auto
qed

lemma remove_by_user:
  assumes inv: "hub_inv heap hub"
  shows "hub_remove_participant heap rid uid hub = Inr (r, hub') \<Longrightarrow>
      (r, Publish, rid) \<in> set (all_sessions hub) \<and> p_user_id (heap ! r) = uid \<and>
      (\<forall>x pc y. (x, pc, y) \<in> set (all_sessions hub') \<longleftrightarrow>
         (x, pc, y) \<in> set (all_sessions hub) \<and> \<not> (y = rid \<and> p_user_id (heap ! x) = uid))"
    and "hub_remove_participant heap rid uid hub = Inl e \<Longrightarrow> (x, pc, rid) \<in> set (all_sessions hub) \<Longrightarrow>
      p_user_id (heap ! x) \<noteq> uid"
proof -
  note iff = all_sessions_iff [OF hub_invD(1) [OF inv]]
  have member: "dm_get (r_participants room) (p_user_id (heap ! x)) = Some x"
    if "dm_get (h_rooms hub) y = Some room" "registered room x" for room x y
    using registeredD [OF hub_invD(5) [OF inv that(1)] that(2)] by blast
  {
    assume rem: "hub_remove_participant heap rid uid hub = Inr (r, hub')"
    then obtain room room' where room: "dm_get (h_rooms hub) rid = Some room"
      and rr: "room_remove_participant heap uid room = Inr (r, room')" by (rule hub_remove_simps)
    note get = room_remove_simps(1) [OF rr]
    have uid: "p_user_id (heap ! r) = uid" using room_invD(5) [OF hub_invD(5) [OF inv room] get] by simp
    have "x \<noteq> r \<longleftrightarrow> \<not> (y = rid \<and> p_user_id (heap ! x) = uid)" if "(x, pc, y) \<in> set (all_sessions hub)" for x pc y
    proof -
      from that obtain room2 where room2: "dm_get (h_rooms hub) y = Some room2" "registered room2 x" by (auto simp: iff)
      have "registered room r" using get registered_iff [OF room_invD(1) [OF hub_invD(5) [OF inv room]]] by blast
      then have "p_room_id (heap ! r) = rid" by (rule hub_member_room(2) [OF inv room])
      then show ?thesis using member [OF room2] get uid room2(1) room hub_member_room(2) [OF inv room2] by auto
    qed
    then show "(r, Publish, rid) \<in> set (all_sessions hub) \<and> p_user_id (heap ! r) = uid \<and>
      (\<forall>x pc y. (x, pc, y) \<in> set (all_sessions hub') \<longleftrightarrow>
         (x, pc, y) \<in> set (all_sessions hub) \<and> \<not> (y = rid \<and> p_user_id (heap ! x) = uid))"
      using remove_sessions [OF inv rem] uid by blast
  }
  assume "hub_remove_participant heap rid uid hub = Inl e" "(x, pc, rid) \<in> set (all_sessions hub)"
  then show "p_user_id (heap ! x) \<noteq> uid"
    using member by (auto simp: iff hub_remove_participant_def hub_get_def room_remove_participant_def Let_def
      split: option.splits)
qed

lemma reap_users_sessions:
  assumes "hub_inv heap hub"
  shows "(x, pc, y) \<in> set (all_sessions (snd (reap_users heap rid us hub))) \<longleftrightarrow>
      (x, pc, y) \<in> set (all_sessions hub) \<and> \<not> (y = rid \<and> p_user_id (heap ! x) \<in> set us)"
    and "(y, x) \<in> set (fst (reap_users heap rid us hub)) \<longleftrightarrow>
      y = rid \<and> (x, Publish, rid) \<in> set (all_sessions hub) \<and> p_user_id (heap ! x) \<in> set us"
  using assms
proof (induction us arbitrary: hub)
  case (Cons u us)
  {
    case 1
    show ?case
    proof (cases "hub_remove_participant heap rid u hub")
      case (Inl e)
      then show ?thesis using Cons.IH(1) [OF 1] remove_by_user(2) [OF 1 Inl, of x pc] by auto
    next
      case (Inr rh)
      obtain r hub' where [simp]: "rh = (r, hub')" by (cases rh)
      have rem: "hub_remove_participant heap rid u hub = Inr (r, hub')" using Inr by simp
      show ?thesis using rem Cons.IH(1) [OF hub_remove_inv [OF 1 rem]] remove_by_user(1) [OF 1 rem]
        by (auto simp: case_prod_beta)
    qed
  next
    case 2
    show ?case
    proof (cases "hub_remove_participant heap rid u hub")
      case (Inl e)
      then show ?thesis using Cons.IH(2) [OF 2] remove_by_user(2) [OF 2 Inl, of x Publish] by auto
    next
      case (Inr rh)
      obtain r hub' where [simp]: "rh = (r, hub')" by (cases rh)
      have rem: "hub_remove_participant heap rid u hub = Inr (r, hub')" using Inr by simp
      have "x = r" if "(x, Publish, rid) \<in> set (all_sessions hub)" "p_user_id (heap ! x) = u"
        using that remove_sessions(1) [OF 2 rem, of x Publish rid] remove_by_user(1) [OF 2 rem] by blast
      then show ?thesis using rem Cons.IH(2) [OF hub_remove_inv [OF 2 rem]] remove_by_user(1) [OF 2 rem]
        by (auto simp: case_prod_beta)
    qed
  }
qed simp_all

lemma zombie_ids_iff:
  assumes inv: "hub_inv heap hub" and room: "dm_get (h_rooms hub) rid = Some room"
    and x: "(x, pc, rid) \<in> set (all_sessions hub)"
  shows "p_user_id (heap ! x) \<in> set (map fst (filter (\<lambda>e. is_zombie now tmo (heap ! snd e)) (r_participants room))) \<longleftrightarrow>
    is_zombie now tmo (heap ! x)"
proof -
  note rinv = hub_invD(5) [OF inv room]
  have "registered room x" using x room by (auto simp: all_sessions_iff [OF hub_invD(1) [OF inv]])
  then have get: "dm_get (r_participants room) (p_user_id (heap ! x)) = Some x" using registeredD [OF rinv] by blast
  then have "(p_user_id (heap ! x), x) \<in> set (r_participants room)" using dm_get_iff [OF room_invD(1) [OF rinv]] by blast
  then show ?thesis using member_key_iff [OF rinv get] by (force simp: image_iff)
qed

lemma reap_rooms_sessions:
  assumes "hub_inv heap hub"
  shows "(x, pc, y) \<in> set (all_sessions (snd (reap_rooms heap now tmo ids hub))) \<longleftrightarrow>
      (x, pc, y) \<in> set (all_sessions hub) \<and> \<not> (y \<in> set ids \<and> is_zombie now tmo (heap ! x))"
    and "(y, x) \<in> set (fst (reap_rooms heap now tmo ids hub)) \<longleftrightarrow>
      y \<in> set ids \<and> (x, Publish, y) \<in> set (all_sessions hub) \<and> is_zombie now tmo (heap ! x)"
  using assms
proof (induction ids arbitrary: hub)
  case (Cons rid ids)
  let ?zs = "\<lambda>room. map fst (filter (\<lambda>e. is_zombie now tmo (heap ! snd e)) (r_participants room))"
  have none: "(x, pc, rid) \<notin> set (all_sessions hub)" if "hub_inv heap hub" "dm_get (h_rooms hub) rid = None" for pc hub
    using that by (simp add: all_sessions_iff hub_invD(1))
  {
    case 1
    show ?case
    proof (cases "dm_get (h_rooms hub) rid")
      case None
      then show ?thesis using Cons.IH(1) [OF 1] none [OF 1 None] by auto
    next
      case (Some room)
      show ?thesis
        using Some Cons.IH(1) [OF reap_users_inv [OF 1, of rid "?zs room"]] reap_users_sessions(1) [OF 1, of x pc y rid "?zs room"]
          zombie_ids_iff [OF 1 Some, of x pc now tmo] by (auto simp: case_prod_beta Let_def)
    qed
  next
    case 2
    show ?case
    proof (cases "dm_get (h_rooms hub) rid")
      case None
      then show ?thesis using Cons.IH(2) [OF 2] none [OF 2 None] by auto
    next
      case (Some room)
      show ?thesis
        using Some Cons.IH(2) [OF reap_users_inv [OF 2, of rid "?zs room"]] reap_users_sessions(1) [OF 2, of x Publish y rid "?zs room"]
          reap_users_sessions(2) [OF 2, of y x rid "?zs room"] zombie_ids_iff [OF 2 Some, of x Publish now tmo]
        by (auto simp: case_prod_beta Let_def)
    qed
  }
qed simp_all

text \<open>
  A reaper pass removes exactly the participants that were seen at least once and whose last sign
  of life is more than the timeout before now, from whatever room they are in, and reports exactly
  those; the clock comparison saturates, so a time stamp from the future never makes a zombie.
\<close>

theorem reaper_removes_exactly_zombies:
  assumes "hub_reachable heap hub"
  shows "((x, pc, y) \<in> set (all_sessions (snd (reap_zombies heap now tmo hub))) \<longleftrightarrow>
      (x, pc, y) \<in> set (all_sessions hub) \<and> \<not> is_zombie now tmo (heap ! x)) \<and>
    ((y, x) \<in> set (fst (reap_zombies heap now tmo hub)) \<longleftrightarrow>
      (x, Publish, y) \<in> set (all_sessions hub) \<and> is_zombie now tmo (heap ! x)) \<and>
    (is_zombie now tmo (heap ! x) \<longleftrightarrow>
      0 < unat (p_last_seen (heap ! x)) \<and> unat (p_last_seen (heap ! x)) + unat tmo < unat now)"
proof -
  have inv: "hub_inv heap hub" using assms by (rule hub_reachable_hub_inv)
  have "y \<in> set (dm_keys (h_rooms hub))" if "(x, pc', y) \<in> set (all_sessions hub)" for pc'
    using that by (auto simp: all_sessions_iff [OF hub_invD(1) [OF inv]] dest: map_of_SomeD intro: rev_image_eqI)
  then show ?thesis
    using reap_rooms_sessions(1) [OF inv, of x] reap_rooms_sessions(2) [OF inv, of y x] unfolding reap_zombies_def
    by (auto simp: is_zombie_def sat_sub_gt_iff word_less_nat_alt)
qed

theorem reaper_removes_exactly_zombies_witness:
  "fst (reap_zombies [demo_p] 200000 120000 demo_hub) \<noteq> []"
proof -
  have "(0, Publish, ''r'') \<in> set (all_sessions demo_hub)" by (simp add: all_sessions_def demo_hub_at_def)
  moreover have "is_zombie 200000 120000 ([demo_p] ! 0)" by (simp add: is_zombie_def sat_sub_def)
  ultimately have "(''r'', 0) \<in> set (fst (reap_zombies [demo_p] 200000 120000 demo_hub))"
    using reaper_removes_exactly_zombies [OF demo_hub_reachable, of 0 Publish "''r''" 200000 120000] by blast
  then show ?thesis by auto
qed

text \<open>
  When a session moves from an old address to another one, the hub's address index keeps the entry
  of the old address, and it keeps it even when the participant leaves, because the removal only
  cleans the addresses that the sessions have then: the entry is never taken back by the
  participant it was made for.
\<close>

theorem rebind_leaks_addr_entry:
  assumes reach: "hub_reachable heap hub"
    and latch: "latch_by_ufrag uf addr heap hub = Some (r, pc, rid, heap', hub')"
    and old: "ms_address (session (heap ! r) pc) = Some old_addr" "old_addr \<noteq> addr"
    and other: "\<forall>pc'. pc' \<noteq> pc \<longrightarrow> ms_address (session (heap ! r) pc') \<noteq> Some old_addr"
    and index: "dm_get (h_addr_index hub) old_addr = Some x"
    and leave: "hub_remove_participant heap' rid uid hub' = Inr (r, hub'')"
  shows "dm_get (h_addr_index hub') old_addr = Some x \<and> dm_get (h_addr_index hub'') old_addr = Some x"
proof -
  have inv: "hub_inv heap hub" using reach by (rule hub_reachable_hub_inv)
  from latch obtain room room' where room: "dm_get (h_rooms hub) rid = Some room"
    and rl: "room_latch uf addr heap room = Some (r, pc, heap', room')"
    and idx: "h_addr_index hub' = dm_insert addr rid (h_addr_index hub)"
    by (rule latch_by_ufrag_simps)
  have r: "r < length heap"
    using room_latch_simps(1) [OF rl] room_invD(6) [OF hub_invD(5) [OF inv room]] hub_member_room(1) [OF inv room] by blast
  have "ms_address (session (heap' ! r) pc') \<noteq> Some old_addr" for pc'
    unfolding room_latch_simps(2) [OF rl] latched_session(1) [OF r] using old other by auto
  from this [of Publish] this [of Subscribe]
  have "dm_get (h_addr_index hub'') old_addr = dm_get (h_addr_index hub') old_addr"
    using leave by (elim hub_remove_simps) simp
  then show ?thesis using idx index old by simp
qed

lemma demo_latched_reachable:
  "hub_reachable [demo_p_at demo_addr] (demo_hub_at [(demo_addr, 0, Publish)] [(demo_addr, ''r'')])"
  using demo_hub_reachable hub_step.Latch [OF demo_latch] by (rule rtranclp.rtrancl_into_rtrancl)

abbreviation demo_rebound :: hub where
  "demo_rebound \<equiv> demo_hub_at [(demo_addr2, 0, Publish)] [(demo_addr, ''r''), (demo_addr2, ''r'')]"

lemma demo_relatch:
  "latch_by_ufrag ''pu'' demo_addr2 [demo_p_at demo_addr] (demo_hub_at [(demo_addr, 0, Publish)] [(demo_addr, ''r'')]) =
     Some (0, Publish, ''r'', [demo_p_at demo_addr2], demo_rebound)"
  by (simp add: latch_by_ufrag_def demo_hub_at_def room_latch_def demo_p_at_def update_session_def latch_address_def dm_remove_def)

theorem rebind_leaks_addr_entry_witness:
  "\<exists>hub''. hub_remove_participant [demo_p_at demo_addr2] ''r'' ''u'' demo_rebound = Inr (0, hub'') \<and>
     dm_get (h_addr_index hub'') demo_addr = Some ''r''"
proof -
  obtain hub'' where leave: "hub_remove_participant [demo_p_at demo_addr2] ''r'' ''u'' demo_rebound = Inr (0, hub'')"
    by (simp add: demo_hub_at_def hub_remove_participant_def hub_get_def room_remove_participant_def Let_def)
  have "dm_get (h_addr_index demo_rebound) demo_addr = Some ''r'' \<and> dm_get (h_addr_index hub'') demo_addr = Some ''r''"
    by (rule rebind_leaks_addr_entry [OF demo_latched_reachable demo_relatch _ _ _ _ leave])
       (auto simp: demo_p_at_def demo_hub_at_def all_pc)
  then show ?thesis using leave by blast
qed

end
