(* ===== verification/Message.thy ===== *)
theory Message
  imports Config
begin

text \<open>
  The signaling messages of \<open>signaling/message.rs\<close> and \<open>signaling/opcode.rs\<close>. A \<open>serde_json::Value\<close>
  is the datatype \<open>json\<close>; the packets of the model carry the value, and their text form is left to
  serde. A request payload is the record it is deserialised to; a handler receives \<open>None\<close> for a
  payload that serde rejects.
\<close>

section \<open>JSON values and packets\<close>

datatype json =
    JNull
  | JBool bool
  | JNum int
  | JStr string
  | JArr "json list"
  | JObj "(string \<times> json) list"

abbreviation jnum :: "'a::len word \<Rightarrow> json" where "jnum w \<equiv> JNum (uint w)"

definition jopt :: "('a \<Rightarrow> json) \<Rightarrow> 'a option \<Rightarrow> json" where
  "jopt f v = (case v of Some x \<Rightarrow> f x | None \<Rightarrow> JNull)"

text \<open>\<open>Value::get\<close> and the assignment \<open>v[key] = x\<close> on an object, and removal of a key.\<close>

fun jget :: "json \<Rightarrow> string \<Rightarrow> json option" where
  "jget (JObj fs) k = map_of fs k"
| "jget _ k = None"

fun jset :: "string \<Rightarrow> json \<Rightarrow> json \<Rightarrow> json" where
  "jset k v (JObj fs) = JObj (dm_insert k v fs)"
| "jset k v j = j"

fun jdel :: "string \<Rightarrow> json \<Rightarrow> json" where
  "jdel k (JObj fs) = JObj (dm_remove k fs)"
| "jdel k j = j"

fun jstr :: "json option \<Rightarrow> string option" where
  "jstr (Some (JStr s)) = Some s"
| "jstr _ = None"

record packet =
  pk_op :: u16
  pk_pid :: u64
  pk_ok :: "bool option"
  pk_d :: json

definition packet_new :: "u16 \<Rightarrow> u64 \<Rightarrow> json \<Rightarrow> packet" where
  "packet_new op pid d = \<lparr> pk_op = op, pk_pid = pid, pk_ok = None, pk_d = d \<rparr>"

definition packet_ok :: "u16 \<Rightarrow> u64 \<Rightarrow> json \<Rightarrow> packet" where
  "packet_ok op pid d = \<lparr> pk_op = op, pk_pid = pid, pk_ok = Some True, pk_d = d \<rparr>"

definition packet_err :: "u16 \<Rightarrow> u64 \<Rightarrow> u16 \<Rightarrow> string \<Rightarrow> packet" where
  "packet_err op pid code msg =
     \<lparr> pk_op = op, pk_pid = pid, pk_ok = Some False, pk_d = JObj [(''code'', jnum code), (''msg'', JStr msg)] \<rparr>"

definition is_response :: "packet \<Rightarrow> bool" where
  "is_response p \<longleftrightarrow> pk_ok p \<noteq> None"

section \<open>Opcodes\<close>

definition HEARTBEAT :: u16 where "HEARTBEAT = 1"
definition IDENTIFY :: u16 where "IDENTIFY = 3"
definition ROOM_LIST :: u16 where "ROOM_LIST = 9"
definition ROOM_CREATE :: u16 where "ROOM_CREATE = 10"
definition ROOM_JOIN :: u16 where "ROOM_JOIN = 11"
definition ROOM_LEAVE :: u16 where "ROOM_LEAVE = 12"
definition PUBLISH_TRACKS :: u16 where "PUBLISH_TRACKS = 15"
definition TRACKS_ACK :: u16 where "TRACKS_ACK = 16"
definition MUTE_UPDATE :: u16 where "MUTE_UPDATE = 17"
definition CAMERA_READY :: u16 where "CAMERA_READY = 18"
definition MESSAGE :: u16 where "MESSAGE = 20"
definition TELEMETRY :: u16 where "TELEMETRY = 30"
definition FLOOR_REQUEST :: u16 where "FLOOR_REQUEST = 40"
definition FLOOR_RELEASE :: u16 where "FLOOR_RELEASE = 41"
definition FLOOR_PING :: u16 where "FLOOR_PING = 42"
definition FLOOR_QUEUE_POS :: u16 where "FLOOR_QUEUE_POS = 43"
definition ROOM_SYNC :: u16 where "ROOM_SYNC = 50"
definition SUBSCRIBE_LAYER :: u16 where "SUBSCRIBE_LAYER = 51"
definition ROOM_EVENT :: u16 where "ROOM_EVENT = 100"
definition TRACKS_UPDATE :: u16 where "TRACKS_UPDATE = 101"
definition TRACK_STATE :: u16 where "TRACK_STATE = 102"
definition MESSAGE_EVENT :: u16 where "MESSAGE_EVENT = 103"
definition VIDEO_SUSPENDED :: u16 where "VIDEO_SUSPENDED = 104"
definition VIDEO_RESUMED :: u16 where "VIDEO_RESUMED = 105"
definition TRACKS_RESYNC :: u16 where "TRACKS_RESYNC = 106"
definition FLOOR_TAKEN :: u16 where "FLOOR_TAKEN = 141"
definition FLOOR_IDLE :: u16 where "FLOOR_IDLE = 142"
definition FLOOR_REVOKE :: u16 where "FLOOR_REVOKE = 143"

lemmas opcode_defs = HEARTBEAT_def IDENTIFY_def ROOM_LIST_def ROOM_CREATE_def ROOM_JOIN_def ROOM_LEAVE_def
  PUBLISH_TRACKS_def TRACKS_ACK_def MUTE_UPDATE_def CAMERA_READY_def MESSAGE_def TELEMETRY_def
  FLOOR_REQUEST_def FLOOR_RELEASE_def FLOOR_PING_def FLOOR_QUEUE_POS_def ROOM_SYNC_def SUBSCRIBE_LAYER_def
  ROOM_EVENT_def TRACKS_UPDATE_def TRACK_STATE_def MESSAGE_EVENT_def VIDEO_SUSPENDED_def VIDEO_RESUMED_def
  TRACKS_RESYNC_def FLOOR_TAKEN_def FLOOR_IDLE_def FLOOR_REVOKE_def

section \<open>Requests\<close>

record identify_request =
  idr_token :: string
  idr_user_id :: "string option"

text \<open>The \<open>mode\<close> field of a creation request is an enum of its own.\<close>

datatype room_mode_field = ConferenceField | PttField

definition to_config :: "room_mode_field \<Rightarrow> room_mode" where
  "to_config m = (case m of ConferenceField \<Rightarrow> Conference | PttField \<Rightarrow> Ptt)"

record room_create_request =
  rcr_name :: string
  rcr_capacity :: "nat option"
  rcr_mode :: "room_mode_field option"
  rcr_simulcast :: "bool option"

record publish_track_item =
  pti_kind :: string
  pti_ssrc :: u32
  pti_rid :: "string option"
  pti_codec :: "string option"
  pti_pt :: "u8 option"
  pti_rtx_pt :: "u8 option"

record publish_tracks_request =
  ptr_tracks :: "publish_track_item list"
  ptr_twcc_extmap_id :: "u8 option"

record mute_update_request =
  mur_ssrc :: u32
  mur_muted :: bool

record message_request =
  mr_room_id :: string
  mr_content :: string

record floor_request_msg =
  frm_room_id :: string
  frm_priority :: "u8 option"

record subscribe_layer_target =
  slt_user_id :: user_id
  slt_rid :: string

text \<open>A payload with one field is the type of that field.\<close>

type_synonym room_join_request = string
type_synonym room_leave_request = string
type_synonym camera_ready_request = string
type_synonym floor_release_msg = string
type_synonym floor_ping_msg = string
type_synonym floor_queue_pos_msg = string
type_synonym tracks_ack_request = "u32 list"
type_synonym subscribe_layer_request = "subscribe_layer_target list"

section \<open>Events\<close>

record track_info =
  ti_user_id :: user_id
  ti_track_id :: string
  ti_kind :: string
  ti_ssrc :: u32

definition hello_event :: "u64 \<Rightarrow> json" where
  "hello_event heartbeat_interval = JObj [(''heartbeat_interval'', jnum heartbeat_interval)]"

definition room_event_payload :: "string \<Rightarrow> string \<Rightarrow> string option \<Rightarrow> json" where
  "room_event_payload event_type room_id user_id =
     JObj ([(''type'', JStr event_type), (''room_id'', JStr room_id)] @
       (case user_id of Some u \<Rightarrow> [(''user_id'', JStr u)] | None \<Rightarrow> []))"

section \<open>Lemmas\<close>

lemma packet_fields [simp]:
  "pk_op (packet_new op pid d) = op" "pk_pid (packet_new op pid d) = pid" "pk_ok (packet_new op pid d) = None"
  "pk_op (packet_ok op pid d) = op" "pk_pid (packet_ok op pid d) = pid" "pk_ok (packet_ok op pid d) = Some True"
  "pk_op (packet_err op pid c m) = op" "pk_pid (packet_err op pid c m) = pid" "pk_ok (packet_err op pid c m) = Some False"
  "pk_d (packet_new op pid d) = d" "pk_d (packet_ok op pid d) = d"
  by (simp_all add: packet_new_def packet_ok_def packet_err_def)

lemma is_response_simps [simp]:
  "\<not> is_response (packet_new op pid d)" "is_response (packet_ok op pid d)" "is_response (packet_err op pid c m)"
  by (simp_all add: is_response_def)

lemma jget_jset [simp]: "jget (jset k v (JObj fs)) k' = (if k' = k then Some v else jget (JObj fs) k')"
  by simp

end
