(* ===== verification/World.thy ===== *)
theory World
  imports Room Message
begin

text \<open>
  The state that the handlers share, and their effects. A world holds the participants and the hub
  (\<open>AppState.rooms\<close>), the metric counters by field name, and what left the server so far: packets
  put on WebSocket channels, datagrams given to the UDP socket, and PLI bursts spawned.

  An \<open>env\<close> is what one handler call reads from outside: the clocks, random numbers, the verdicts of
  the SRTP library on the sessions of a participant, and whether the socket accepts a datagram. Its
  functions are arbitrary. Log lines, the log aggregator and the telemetry bus carry no state that a
  handler reads back and are left out.
\<close>

section \<open>Data\<close>

record pli_burst =
  pb_target :: pref
  pb_ssrc :: u32
  pb_addr :: socket_addr
  pb_delays :: "u64 list"
  pb_prefix :: string

record 'f world =
  w_heap :: "'f heap"
  w_hub :: hub
  w_metrics :: "string \<Rightarrow> u64"
  w_ws :: "(nat \<times> packet) list"
  w_udp :: "(bytes \<times> socket_addr) list"
  w_bursts :: "pli_burst list"

record 'f env =
  e_now_ms :: u64
  e_now_us :: u64
  e_instant :: instant
  e_rnd :: "pref \<Rightarrow> u32"
  e_f64 :: "'f f64_ops"
  e_decrypt_rtp :: "pref \<Rightarrow> pc_type \<Rightarrow> bytes \<Rightarrow> bytes option"
  e_decrypt_rtcp :: "pref \<Rightarrow> pc_type \<Rightarrow> bytes \<Rightarrow> bytes option"
  e_encrypt_rtp :: "pref \<Rightarrow> pc_type \<Rightarrow> bytes \<Rightarrow> bytes option"
  e_encrypt_rtcp :: "pref \<Rightarrow> pc_type \<Rightarrow> bytes \<Rightarrow> bytes option"
  e_send_ok :: "bytes \<Rightarrow> socket_addr \<Rightarrow> bool"

section \<open>Effects\<close>

abbreviation part :: "'f world \<Rightarrow> pref \<Rightarrow> 'f participant" where
  "part w r \<equiv> w_heap w ! r"

definition update_part :: "pref \<Rightarrow> ('f participant \<Rightarrow> 'f participant) \<Rightarrow> 'f world \<Rightarrow> 'f world" where
  "update_part r f w = w\<lparr> w_heap := (w_heap w)[r := f (w_heap w ! r)] \<rparr>"

definition put_room :: "room \<Rightarrow> 'f world \<Rightarrow> 'f world" where
  "put_room room w = w\<lparr> w_hub := (w_hub w)\<lparr> h_rooms := dm_insert (r_id room) room (h_rooms (w_hub w)) \<rparr> \<rparr>"

definition bump :: "string \<Rightarrow> u64 \<Rightarrow> 'f world \<Rightarrow> 'f world" where
  "bump m n w = w\<lparr> w_metrics := (w_metrics w)(m := w_metrics w m + n) \<rparr>"

definition ws_send :: "pref \<Rightarrow> packet \<Rightarrow> 'f world \<Rightarrow> 'f world" where
  "ws_send r pkt w = w\<lparr> w_ws := w_ws w @ [(p_ws_tx (part w r), pkt)] \<rparr>"

definition udp_send :: "bytes \<Rightarrow> socket_addr \<Rightarrow> 'f world \<Rightarrow> 'f world" where
  "udp_send pkt addr w = w\<lparr> w_udp := w_udp w @ [(pkt, addr)] \<rparr>"

definition egress_send :: "pref \<Rightarrow> egress_packet \<Rightarrow> 'f world \<Rightarrow> bool \<times> 'f world" where
  "egress_send r pkt w = (fst (try_send pkt (part w r)), update_part r (\<lambda>p. snd (try_send pkt p)) w)"

definition count_pipeline :: "(pipeline_stats \<Rightarrow> pipeline_stats) \<Rightarrow> 'f participant \<Rightarrow> 'f participant" where
  "count_pipeline f p = p\<lparr> p_pipeline := f (p_pipeline p) \<rparr>"

definition broadcast_to_others :: "room \<Rightarrow> user_id \<Rightarrow> packet \<Rightarrow> 'f world \<Rightarrow> 'f world" where
  "broadcast_to_others room exclude pkt w = fold (\<lambda>r. ws_send r pkt) (other_participants room exclude) w"

definition broadcast_to_room :: "room \<Rightarrow> packet \<Rightarrow> 'f world \<Rightarrow> 'f world" where
  "broadcast_to_room room pkt w = fold (\<lambda>r. ws_send r pkt) (all_participants room) w"

text \<open>
  A burst replaces a running one: its handle takes the place of the old one, which is aborted. The
  task itself sends one PLI per delay and stops at the first failing send; \<open>enc\<close> and \<open>send\<close> tell the
  outcome of encryption and send for the packet with the given index.
\<close>

definition spawn_pli_burst :: "pref \<Rightarrow> u32 \<Rightarrow> socket_addr \<Rightarrow> u64 list \<Rightarrow> string \<Rightarrow> 'f world \<Rightarrow> 'f world" where
  "spawn_pli_burst r ssrc addr delays prefix w =
     (let w1 = update_part r cancel_pli_burst w
      in (update_part r (\<lambda>p. p\<lparr> p_pli_burst := True \<rparr>) w1)
           \<lparr> w_bursts := w_bursts w1 @ [\<lparr> pb_target = r, pb_ssrc = ssrc, pb_addr = addr, pb_delays = delays,
                                         pb_prefix = prefix \<rparr>] \<rparr>)"

fun pli_burst_task ::
  "(nat \<Rightarrow> bytes \<Rightarrow> bytes option) \<Rightarrow> (nat \<Rightarrow> bool) \<Rightarrow> u32 \<Rightarrow> nat \<Rightarrow> u64 list \<Rightarrow> u64 \<Rightarrow> (u64 \<times> bytes) list \<times> nat" where
  "pli_burst_task enc send ssrc i [] t = ([], 0)"
| "pli_burst_task enc send ssrc i (delay # delays) t =
     (let t' = t + delay
      in case enc i (build_pli ssrc) of
           Some pkt \<Rightarrow>
             if send i then (case pli_burst_task enc send ssrc (Suc i) delays t' of
                               (sent, n) \<Rightarrow> ((t', pkt) # sent, Suc n))
             else ([], 0)
         | None \<Rightarrow> pli_burst_task enc send ssrc (Suc i) delays t')"

definition first_video_ssrc :: "'f participant \<Rightarrow> u32 option" where
  "first_video_ssrc p = map_option t_ssrc (find (\<lambda>t. t_kind t = Video) (p_tracks p))"

section \<open>Frame lemmas\<close>

text \<open>Which part of the world an effect leaves alone.\<close>

lemma fold_frame: "(\<And>x s. f (g x s) = f s) \<Longrightarrow> f (fold g xs s) = f s"
  by (induction xs arbitrary: s) auto

lemma hub_frame [simp]:
  "w_hub (update_part r f w) = w_hub w" "w_hub (bump m n w) = w_hub w" "w_hub (ws_send r pkt w) = w_hub w"
  "w_hub (udp_send d a w) = w_hub w" "w_hub (snd (egress_send r e w)) = w_hub w"
  "w_hub (spawn_pli_burst r ssrc a ds p w) = w_hub w"
  by (simp_all add: update_part_def bump_def ws_send_def udp_send_def egress_send_def spawn_pli_burst_def Let_def)

lemma hub_frame_broadcast [simp]:
  "w_hub (broadcast_to_others room u pkt w) = w_hub w" "w_hub (broadcast_to_room room pkt w) = w_hub w"
  by (simp_all add: broadcast_to_others_def broadcast_to_room_def fold_frame)

lemma heap_frame [simp]:
  "w_heap (bump m n w) = w_heap w" "w_heap (ws_send r pkt w) = w_heap w" "w_heap (udp_send d a w) = w_heap w"
  "w_heap (put_room room w) = w_heap w" "w_heap (update_part r f w) = (w_heap w)[r := f (w_heap w ! r)]"
  by (simp_all add: bump_def ws_send_def udp_send_def put_room_def update_part_def)

lemma heap_frame_broadcast [simp]:
  "w_heap (broadcast_to_others room u pkt w) = w_heap w" "w_heap (broadcast_to_room room pkt w) = w_heap w"
  by (simp_all add: broadcast_to_others_def broadcast_to_room_def fold_frame)

lemma ws_frame [simp]:
  "w_ws (update_part r f w) = w_ws w" "w_ws (bump m n w) = w_ws w" "w_ws (udp_send d a w) = w_ws w"
  "w_ws (put_room room w) = w_ws w" "w_ws (snd (egress_send r e w)) = w_ws w"
  "w_ws (spawn_pli_burst r ssrc a ds p w) = w_ws w"
  by (simp_all add: update_part_def bump_def udp_send_def put_room_def egress_send_def spawn_pli_burst_def Let_def)

lemma udp_frame [simp]:
  "w_udp (update_part r f w) = w_udp w" "w_udp (bump m n w) = w_udp w" "w_udp (ws_send r pkt w) = w_udp w"
  "w_udp (put_room room w) = w_udp w" "w_udp (snd (egress_send r e w)) = w_udp w"
  "w_udp (spawn_pli_burst r ssrc a ds p w) = w_udp w" "w_udp (udp_send d a w) = w_udp w @ [(d, a)]"
  by (simp_all add: update_part_def bump_def ws_send_def put_room_def egress_send_def spawn_pli_burst_def udp_send_def Let_def)

lemma put_room_hub [simp]:
  "h_rooms (w_hub (put_room room w)) = dm_insert (r_id room) room (h_rooms (w_hub w))"
  "h_ufrag_index (w_hub (put_room room w)) = h_ufrag_index (w_hub w)"
  "h_addr_index (w_hub (put_room room w)) = h_addr_index (w_hub w)"
  by (simp_all add: put_room_def)

lemma hub_get_eq: "hub_get hub rid = Inr room \<longleftrightarrow> dm_get (h_rooms hub) rid = Some room"
  by (simp add: hub_get_def split: option.split)

text \<open>A broadcast puts the packet once on the channel of each participant addressed.\<close>

lemma ws_fold_send:
  "w_ws (fold (\<lambda>r. ws_send r pkt) rs w) = w_ws w @ map (\<lambda>r. (p_ws_tx (part w r), pkt)) rs"
  by (induction rs arbitrary: w) (simp_all add: ws_send_def)

lemma ws_broadcast:
  "w_ws (broadcast_to_others room u pkt w) = w_ws w @ map (\<lambda>r. (p_ws_tx (part w r), pkt)) (other_participants room u)"
  "w_ws (broadcast_to_room room pkt w) = w_ws w @ map (\<lambda>r. (p_ws_tx (part w r), pkt)) (all_participants room)"
  by (simp_all add: broadcast_to_others_def broadcast_to_room_def ws_fold_send)

text \<open>An environment for concrete runs: the SRTP library passes everything through, every send succeeds.\<close>

definition demo_env :: "unit env" where
  "demo_env = \<lparr> e_now_ms = 5000, e_now_us = 5000000, e_instant = 5000000000, e_rnd = (\<lambda>_. 77),
     e_f64 = \<lparr> f_zero = (), f_of_i64 = (\<lambda>_. ()), f_add = (\<lambda>_ _. ()), f_sub = (\<lambda>_ _. ()), f_div16 = (\<lambda>_. ()),
              f_to_u32 = (\<lambda>_. 0) \<rparr>,
     e_decrypt_rtp = (\<lambda>_ _. Some), e_decrypt_rtcp = (\<lambda>_ _. Some), e_encrypt_rtp = (\<lambda>_ _. Some),
     e_encrypt_rtcp = (\<lambda>_ _. Some), e_send_ok = (\<lambda>_ _. True) \<rparr>"

section \<open>The server invariant\<close>

text \<open>
  What holds of the shared state between two handler calls: the indices agree, every floor is in a
  legal state, no push-to-talk rewriter passes on anyone but the floor holder, the tracks of every participant
  have distinct SSRCs, no egress queue exceeds its capacity and every RTP cache has its size.
\<close>

definition part_ok :: "'f participant \<Rightarrow> bool" where
  "part_ok p \<longleftrightarrow> tracks_ok p \<and> length (p_egress p) \<le> EGRESS_QUEUE_SIZE \<and> length (p_rtp_cache p) = RTP_CACHE_SIZE"

text \<open>
  The speakers that the two rewriters of a room pass on. A push-to-talk room has no simulcast, and its rewriters
  carry the floor holder or nobody; the latter happens under a holder too, as a leave can clear them.
\<close>

definition rw_speakers :: "room \<Rightarrow> user_id option \<times> user_id option" where
  "rw_speakers room = (speaker (rw_state (r_audio_rewriter room)), speaker (rw_state (r_video_rewriter room)))"

definition room_ok :: "room \<Rightarrow> bool" where
  "room_ok room \<longleftrightarrow> (r_mode room = Ptt \<longrightarrow> \<not> r_simulcast_enabled room \<and>
     (rw_speakers room = (current_speaker (r_floor room), current_speaker (r_floor room)) \<or> rw_speakers room = (None, None)))"

definition server_inv :: "'f world \<Rightarrow> bool" where
  "server_inv w \<longleftrightarrow> hub_inv (w_heap w) (w_hub w) \<and> (\<forall>p\<in>set (w_heap w). part_ok p) \<and>
     (\<forall>rid room. dm_get (h_rooms (w_hub w)) rid = Some room \<longrightarrow> floor_inv default_floor_config (r_floor room) \<and> room_ok room)"

text \<open>
  Most effects keep the shape of the state: no participant is made or loses its identity, no index
  changes, and whatever was in order stays in order. This is a preorder that the invariant respects.
\<close>

definition part_le :: "'f participant \<Rightarrow> 'f participant \<Rightarrow> bool" where
  "part_le p q \<longleftrightarrow> same_identity p q \<and> (part_ok p \<longrightarrow> part_ok q)"

definition room_le :: "room \<Rightarrow> room \<Rightarrow> bool" where
  "room_le room room' \<longleftrightarrow> r_id room' = r_id room \<and> r_mode room' = r_mode room \<and> r_capacity room' = r_capacity room \<and>
     r_simulcast_enabled room' = r_simulcast_enabled room \<and>
     r_participants room' = r_participants room \<and> r_by_ufrag room' = r_by_ufrag room \<and> r_by_addr room' = r_by_addr room \<and>
     (floor_inv default_floor_config (r_floor room) \<longrightarrow> floor_inv default_floor_config (r_floor room'))"

definition room_keeps :: "room \<Rightarrow> room \<Rightarrow> bool" where
  "room_keeps room room' \<longleftrightarrow> room_le room room' \<and> (room_ok room \<longrightarrow> room_ok room')"

definition world_le :: "'f world \<Rightarrow> 'f world \<Rightarrow> bool" where
  "world_le w w' \<longleftrightarrow> length (w_heap w') = length (w_heap w) \<and>
     (\<forall>r < length (w_heap w). part_le (part w r) (part w' r)) \<and>
     h_ufrag_index (w_hub w') = h_ufrag_index (w_hub w) \<and> h_addr_index (w_hub w') = h_addr_index (w_hub w) \<and>
     (dm_ok (h_rooms (w_hub w)) \<longrightarrow> dm_ok (h_rooms (w_hub w'))) \<and>
     (\<forall>rid. rel_option room_keeps (dm_get (h_rooms (w_hub w)) rid) (dm_get (h_rooms (w_hub w')) rid))"

named_theorems world_le_intros

lemma part_le_refl [simp]: "part_le p p"
  by (simp add: part_le_def same_identity_def)

lemma part_le_trans: "part_le p q \<Longrightarrow> part_le q r \<Longrightarrow> part_le p r"
  by (auto simp: part_le_def same_identity_def)

lemma room_le_refl [simp]: "room_le room room"
  by (simp add: room_le_def)

lemma room_le_trans: "room_le a b \<Longrightarrow> room_le b c \<Longrightarrow> room_le a c"
  by (auto simp: room_le_def)

lemma room_keeps_refl [simp]: "room_keeps room room"
  by (simp add: room_keeps_def)

lemma room_keeps_trans: "room_keeps a b \<Longrightarrow> room_keeps b c \<Longrightarrow> room_keeps a c"
  unfolding room_keeps_def using room_le_trans by blast

lemma world_le_refl [simp]: "world_le w w"
  by (auto simp: world_le_def intro: option.rel_refl)

lemma world_le_trans:
  assumes ab: "world_le a b" and bc: "world_le b c"
  shows "world_le a c"
proof -
  have "rel_option room_keeps (dm_get (h_rooms (w_hub a)) rid) (dm_get (h_rooms (w_hub c)) rid)" for rid
  proof -
    have "rel_option room_keeps (dm_get (h_rooms (w_hub a)) rid) (dm_get (h_rooms (w_hub b)) rid)"
      "rel_option room_keeps (dm_get (h_rooms (w_hub b)) rid) (dm_get (h_rooms (w_hub c)) rid)"
      using ab bc by (simp_all add: world_le_def)
    then show ?thesis by (auto simp: option_rel_Some1 elim!: option.rel_cases intro: room_keeps_trans)
  qed
  moreover have "part_le (part a r) (part c r)" if "r < length (w_heap a)" for r
    using ab bc that part_le_trans [of "part a r" "part b r" "part c r"] by (simp add: world_le_def)
  ultimately show ?thesis using ab bc by (auto simp: world_le_def)
qed

lemma server_inv_le:
  assumes inv: "server_inv w" and le: "world_le w w'"
  shows "server_inv w'"
proof -
  let ?h = "w_heap w" and ?h' = "w_heap w'" and ?m = "h_rooms (w_hub w)" and ?m' = "h_rooms (w_hub w')"
  have hub: "hub_inv ?h (w_hub w)" using inv by (simp add: server_inv_def)
  have "same_heap ?h ?h'" using le by (auto simp: world_le_def same_heap_def part_le_def)
  then have "hub_inv ?h' (w_hub w)" by (rule hub_inv_heap [OF hub])
  have bwd: "\<exists>room. dm_get ?m rid = Some room \<and> room_le room room' \<and> (room_ok room \<longrightarrow> room_ok room')" if "dm_get ?m' rid = Some room'" for rid room'
    using le that by (auto simp: world_le_def room_keeps_def option_rel_Some2 dest!: spec [of _ rid])
  have fwd: "\<exists>room'. dm_get ?m' rid = Some room' \<and> room_le room room'" if "dm_get ?m rid = Some room" for rid room
    using le that by (auto simp: world_le_def room_keeps_def option_rel_Some1 dest!: spec [of _ rid])
  have inv_le: "room_inv ?h' room' \<longleftrightarrow> room_inv ?h' room" if "room_le room room'" for room room'
    using that by (simp add: room_inv_def room_le_def registered_def)
  have "hub_inv ?h' (w_hub w')"
  proof (rule hub_invI)
    fix rid room' assume "dm_get ?m' rid = Some room'"
    then obtain room where room: "dm_get ?m rid = Some room" "room_le room room'" using bwd by blast
    then show "r_id room' = rid \<and> room_inv ?h' room'"
      using hub_invD(4) [OF hub room(1)] hub_invD(5) [OF \<open>hub_inv ?h' (w_hub w)\<close> room(1)] inv_le [OF room(2)]
      by (simp add: room_le_def)
  next
    fix uf rid
    show "dm_get (h_ufrag_index (w_hub w')) uf = Some rid \<longleftrightarrow>
        (\<exists>room. dm_get ?m' rid = Some room \<and> dm_get (r_by_ufrag room) uf \<noteq> None)"
      using hub_invD(6) [OF hub, of uf rid] le bwd [of rid] fwd [of rid] unfolding world_le_def
      by (auto simp: room_le_def)
  qed (use hub_invD(1-3) [OF hub] le in \<open>auto simp: world_le_def\<close>)
  moreover have "part_ok p" if "p \<in> set ?h'" for p
  proof -
    from that obtain i where "i < length ?h'" "p = ?h' ! i" by (auto simp: in_set_conv_nth)
    moreover have "part_ok (?h ! i)" if "i < length ?h" using inv that by (simp add: server_inv_def)
    ultimately show ?thesis using le by (auto simp: world_le_def part_le_def)
  qed
  moreover have "floor_inv default_floor_config (r_floor room') \<and> room_ok room'" if "dm_get ?m' rid = Some room'" for rid room'
    using bwd [OF that] inv by (auto simp: server_inv_def room_le_def)
  ultimately show ?thesis by (simp add: server_inv_def)
qed

subsection \<open>Effects respect the order\<close>

lemma world_le_part:
  "(\<And>p. part_le p (f p)) \<Longrightarrow> world_le w (update_part r f w)"
  by (cases "r < length (w_heap w)")
     (auto simp: world_le_def update_part_def nth_list_update intro: option.rel_refl)

lemma world_le_part_step: "world_le w w1 \<Longrightarrow> (\<And>p. part_le p (f p)) \<Longrightarrow> world_le w (update_part r f w1)"
  by (blast intro: world_le_trans world_le_part)

lemma world_le_frame:
  "w_heap w' = w_heap w \<Longrightarrow> w_hub w' = w_hub w \<Longrightarrow> world_le w w'"
  by (auto simp: world_le_def intro: option.rel_refl)

lemma part_le_simps [simp]:
  "part_le p (cancel_pli_burst p)" "part_le p (count_pipeline f p)" "part_le p (touch ts p)"
  "part_le p (p\<lparr> p_pli_burst := b \<rparr>)" "part_le p (p\<lparr> p_subscribe_layers := ls \<rparr>)"
  "part_le p (p\<lparr> p_simulcast_video_ssrc := v \<rparr>)" "part_le p (snd (ensure_simulcast_video_ssrc x p))"
  "part_le p (snd (try_send pkt p))"
  by (auto simp: part_le_def same_identity_def part_ok_def tracks_ok_def cancel_pli_burst_def count_pipeline_def touch_def
      session_def ensure_simulcast_video_ssrc_def try_send_def split: pc_type.split)

lemma world_le_effects [world_le_intros]:
  "world_le w (bump m n w)" "world_le w (ws_send r pkt w)" "world_le w (udp_send d a w)"
  "world_le w (broadcast_to_others room u pkt w)" "world_le w (broadcast_to_room room pkt w)"
  "world_le w (snd (egress_send r e w))" "world_le w (update_part r cancel_pli_burst w)"
  by (simp_all add: world_le_frame egress_send_def world_le_part)

lemma world_le_burst [world_le_intros]: "world_le w (spawn_pli_burst r ssrc a ds p w)"
proof -
  have "world_le w (update_part r (\<lambda>p. p\<lparr> p_pli_burst := True \<rparr>) (update_part r cancel_pli_burst w))"
    by (rule world_le_trans [OF world_le_part world_le_part]) simp_all
  then show ?thesis by (rule world_le_trans) (simp add: world_le_frame spawn_pli_burst_def Let_def)
qed

lemma world_le_fold: "(\<And>x w. world_le w (g x w)) \<Longrightarrow> world_le w (fold g xs w)"
  by (induction xs arbitrary: w) (auto intro: world_le_trans)

lemma world_le_put_room:
  assumes "dm_get (h_rooms (w_hub w)) (r_id room) = Some room" "world_le w w'" "room_le room room'"
    and "room_ok room \<Longrightarrow> room_ok room'"
  shows "world_le w (put_room room' w')"
proof -
  have "rel_option room_keeps (dm_get (h_rooms (w_hub w)) rid) (dm_get (h_rooms (w_hub (put_room room' w'))) rid)" for rid
    using assms by (auto simp: world_le_def room_le_def room_keeps_def)
  then show ?thesis using assms by (auto simp: world_le_def dm.ok_put)
qed

lemma server_invD:
  assumes "server_inv w"
  shows "hub_inv (w_heap w) (w_hub w)" and "r < length (w_heap w) \<Longrightarrow> part_ok (part w r)"
    and "dm_get (h_rooms (w_hub w)) rid = Some room \<Longrightarrow> floor_inv default_floor_config (r_floor room)"
    and "dm_get (h_rooms (w_hub w)) rid = Some room \<Longrightarrow> r_id room = rid"
    and "dm_get (h_rooms (w_hub w)) rid = Some room \<Longrightarrow> room_ok room"
  using assms hub_invD(4) by (auto simp: server_inv_def)

text \<open>A handler that threads a room value and the world: both move up.\<close>

definition rw_le :: "room \<times> 'f world \<Rightarrow> room \<times> 'f world \<Rightarrow> bool" where
  "rw_le s s' \<longleftrightarrow> room_le (fst s) (fst s') \<and> world_le (snd s) (snd s')"

lemma rw_le_refl [simp]: "rw_le s s"
  by (simp add: rw_le_def)

lemma rw_le_trans: "rw_le a b \<Longrightarrow> rw_le b c \<Longrightarrow> rw_le a c"
  by (auto simp: rw_le_def intro: room_le_trans world_le_trans)

lemma rw_le_fold:
  assumes "\<And>x s. rw_le s (g x s)"
  shows "rw_le s (fold g xs s)"
proof (induction xs arbitrary: s)
  case (Cons x xs)
  show ?case using rw_le_trans [OF assms [of s x] Cons] by simp
qed simp

lemma server_inv_put:
  assumes "server_inv w" "dm_get (h_rooms (w_hub w)) rid = Some room" "rw_le (room, w) (room', w')"
    and "room_ok room \<Longrightarrow> room_ok room'"
  shows "server_inv (put_room room' w')"
  using assms server_invD(4) [OF assms(1,2)]
  by (intro server_inv_le [OF assms(1)] world_le_put_room [of w room]) (auto simp: rw_le_def)

lemma rw_le_fold3:
  assumes "\<And>x s. rw_le (snd s) (snd (g x s))"
  shows "rw_le (snd s) (snd (fold g xs s))"
proof (induction xs arbitrary: s)
  case (Cons x xs)
  show ?case using rw_le_trans [OF assms [of s x] Cons] by simp
qed simp

end
