(* ===== verification/FloorOps.thy ===== *)
theory FloorOps
  imports World
begin

text \<open>
  The floor handlers: the WebSocket operations of \<open>signaling/handler/floor_ops.rs\<close> with the silence
  flush of \<open>helpers.rs\<close>, the floor timer of \<open>tasks.rs\<close> and the MBCP messages of
  \<open>transport/udp/ingress.rs\<close>. They run the floor controller of the room and apply the actions it
  returns: the rewriters of the room follow the speaker, participants are told over WebSocket or MBCP,
  and the new speaker is asked for a keyframe. The functions on actions take and return the room value
  they work on together with the world; the handler writes it back.
\<close>

section \<open>Effects on the room\<close>

definition switch_rewriters :: "instant \<Rightarrow> user_id \<Rightarrow> room \<Rightarrow> room" where
  "switch_rewriters now spk room = room\<lparr>
     r_audio_rewriter := switch_speaker (r_audio_rewriter room) now spk,
     r_video_rewriter := switch_speaker (r_video_rewriter room) now spk \<rparr>"

definition clear_rewriters :: "instant \<Rightarrow> room \<Rightarrow> room" where
  "clear_rewriters now room = room\<lparr>
     r_audio_rewriter := snd (clear_speaker (r_audio_rewriter room) now),
     r_video_rewriter := snd (clear_speaker (r_video_rewriter room) now) \<rparr>"

definition send_frames :: "bytes list \<Rightarrow> pref \<Rightarrow> 'f world \<Rightarrow> 'f world" where
  "send_frames frames r w =
     (if is_subscribe_ready (part w r) then fold (\<lambda>frame w. snd (egress_send r (EgRtp frame) w)) frames w else w)"

definition flush_ptt_silence :: "instant \<Rightarrow> room \<times> 'f world \<Rightarrow> room \<times> 'f world" where
  "flush_ptt_silence now rw =
     (case rw of (room, w) \<Rightarrow>
        (let silence = fst (clear_speaker (r_audio_rewriter room) now);
             room' = clear_rewriters now room
         in case silence of
              Some frames \<Rightarrow> (room', fold (send_frames frames) (all_participants room') w)
            | None \<Rightarrow> (room', w)))"

text \<open>The keyframe request to a new speaker: only when it publishes video and is reachable.\<close>

definition floor_pli_burst :: "string \<Rightarrow> room \<Rightarrow> user_id \<Rightarrow> 'f world \<Rightarrow> 'f world" where
  "floor_pli_burst prefix room spk w =
     (case get_participant room spk of
        None \<Rightarrow> w
      | Some r \<Rightarrow>
          if is_publish_ready (part w r) then
            (case ms_address (p_publish (part w r)) of
               Some pub_addr \<Rightarrow>
                 (case first_video_ssrc (part w r) of
                    Some ssrc \<Rightarrow> spawn_pli_burst r ssrc pub_addr [0, 500, 1500] prefix w
                  | None \<Rightarrow> w)
             | None \<Rightarrow> w)
          else w)"

section \<open>WebSocket messages\<close>

definition granted_json :: "user_id \<Rightarrow> u8 \<Rightarrow> u16 \<Rightarrow> json" where
  "granted_json spk priority duration_s =
     JObj [(''granted'', JBool True), (''speaker'', JStr spk), (''priority'', jnum priority), (''duration'', jnum duration_s)]"

definition floor_taken :: "room \<Rightarrow> user_id \<Rightarrow> u8 \<Rightarrow> packet" where
  "floor_taken room spk priority = packet_new FLOOR_TAKEN 0
     (JObj [(''room_id'', JStr (r_id room)), (''speaker'', JStr spk), (''priority'', jnum priority)])"

definition floor_revoke :: "room \<Rightarrow> string \<Rightarrow> packet" where
  "floor_revoke room cause = packet_new FLOOR_REVOKE 0 (JObj [(''room_id'', JStr (r_id room)), (''cause'', JStr cause)])"

definition floor_idle :: "room \<Rightarrow> user_id \<Rightarrow> string option \<Rightarrow> packet" where
  "floor_idle room prev_speaker cause = packet_new FLOOR_IDLE 0
     (JObj ([(''room_id'', JStr (r_id room)), (''prev_speaker'', JStr prev_speaker)] @
        (case cause of Some c \<Rightarrow> [(''cause'', JStr c)] | None \<Rightarrow> [])))"

definition denied_msg :: "string \<Rightarrow> user_id \<Rightarrow> string" where
  "denied_msg reason spk = reason @ '' (speaker='' @ spk @ '')''"

text \<open>The two counters of a grant, and those of a revocation.\<close>

definition count_grant :: "'f world \<Rightarrow> 'f world" where
  "count_grant w = bump ''ptt_speaker_switches'' 1 (bump ''ptt_floor_granted'' 1 w)"

definition count_revoke :: "string \<Rightarrow> 'f world \<Rightarrow> 'f world" where
  "count_revoke cause w =
     (let w1 = bump ''ptt_floor_revoked'' 1 w
      in if cause = ''preempted'' then bump ''ptt_floor_preempted'' 1 w1 else w1)"

definition tell_revoked :: "room \<Rightarrow> user_id \<Rightarrow> string \<Rightarrow> 'f world \<Rightarrow> 'f world" where
  "tell_revoked room prev_speaker cause w =
     (case get_participant room prev_speaker of
        Some r \<Rightarrow> ws_send r (floor_revoke room cause) (update_part r cancel_pli_burst w)
      | None \<Rightarrow> w)"

section \<open>WebSocket handlers\<close>

fun request_action ::
  "instant \<Rightarrow> user_id \<Rightarrow> u64 \<Rightarrow> floor_action \<Rightarrow> packet \<times> room \<times> 'f world \<Rightarrow> packet \<times> room \<times> 'f world" where
  "request_action now user_id pid (Granted spk priority duration_s) (response, room, w) =
     (let room' = switch_rewriters now spk room;
          w1 = floor_pli_burst ''FLOOR'' room' spk (count_grant w);
          response' = (if spk = user_id
                       then packet_ok FLOOR_REQUEST pid (granted_json spk priority duration_s) else response)
      in (response', room', broadcast_to_others room' user_id (floor_taken room' spk priority) w1))"
| "request_action now user_id pid (Revoked prev_speaker cause) (response, room, w) =
     (response, room, tell_revoked room prev_speaker cause (count_revoke cause w))"
| "request_action now user_id pid (Queued _ pos priority qsize) (response, room, w) =
     (packet_ok FLOOR_REQUEST pid (JObj [(''queued'', JBool True), (''position'', jnum pos),
        (''priority'', jnum priority), (''queue_size'', jnum qsize)]),
      room, bump ''ptt_floor_queued'' 1 w)"
| "request_action now user_id pid (Denied reason holder) (response, room, w) =
     (packet_err FLOOR_REQUEST pid 2010 (denied_msg reason holder), room, w)"
| "request_action now user_id pid _ (response, room, w) = (response, room, w)"

definition handle_floor_request ::
  "'f env \<Rightarrow> user_id \<Rightarrow> u64 \<Rightarrow> floor_request_msg option \<Rightarrow> 'f world \<Rightarrow> packet \<times> 'f world" where
  "handle_floor_request E user_id pid req w =
     (case req of
        None \<Rightarrow> (packet_err FLOOR_REQUEST pid 3002 ''invalid payload'', w)
      | Some m \<Rightarrow>
          (case hub_get (w_hub w) (frm_room_id m) of
             Inl _ \<Rightarrow> (packet_err FLOOR_REQUEST pid 2001 ''room not found'', w)
           | Inr room \<Rightarrow>
               if r_mode room \<noteq> Ptt then (packet_err FLOOR_REQUEST pid 2020 ''not a PTT room'', w)
               else
                 (let priority = (case frm_priority m of Some p \<Rightarrow> p | None \<Rightarrow> FLOOR_DEFAULT_PRIORITY);
                      (floor', actions) = request default_floor_config user_id priority (e_now_ms E) (r_floor room);
                      (response, room', w') =
                        fold (request_action (e_instant E) user_id pid) actions
                          (packet_ok FLOOR_REQUEST pid (JObj []), room\<lparr> r_floor := floor' \<rparr>, w)
                  in (response, put_room room' w'))))"

fun apply_floor_action ::
  "instant \<Rightarrow> u16 \<Rightarrow> u64 \<Rightarrow> user_id \<Rightarrow> floor_action \<Rightarrow> packet \<times> room \<times> 'f world \<Rightarrow> packet \<times> room \<times> 'f world" where
  "apply_floor_action now op pid user_id (Granted spk priority duration_s) (response, room, w) =
     (let room' = switch_rewriters now spk room;
          w1 = floor_pli_burst ''FLOOR'' room' spk (count_grant w);
          w2 = broadcast_to_room room' (floor_taken room' spk priority) w1;
          w3 = (if spk \<noteq> user_id then
                  (let w' = bump ''ptt_floor_queue_pop'' 1 w2
                   in case get_participant room' spk of
                        Some r \<Rightarrow> ws_send r (packet_ok FLOOR_REQUEST 0 (granted_json spk priority duration_s)) w'
                      | None \<Rightarrow> w')
                else w2)
      in (response, room', w3))"
| "apply_floor_action now op pid user_id (Denied reason holder) (response, room, w) =
     (packet_err op pid 2010 (denied_msg reason holder), room, w)"
| "apply_floor_action now op pid user_id (Released prev_speaker) (response, room, w) =
     (response, room, broadcast_to_room room (floor_idle room prev_speaker None) w)"
| "apply_floor_action now op pid user_id (Revoked prev_speaker cause) (response, room, w) =
     (response, room, broadcast_to_room room (floor_idle room prev_speaker (Some cause))
        (tell_revoked room prev_speaker cause (count_revoke cause w)))"
| "apply_floor_action now op pid user_id _ (response, room, w) = (response, room, w)"

definition apply_floor_actions ::
  "instant \<Rightarrow> u16 \<Rightarrow> u64 \<Rightarrow> floor_action list \<Rightarrow> user_id \<Rightarrow> room \<times> 'f world \<Rightarrow> packet \<times> room \<times> 'f world" where
  "apply_floor_actions now op pid actions user_id rw =
     fold (apply_floor_action now op pid user_id) actions (packet_ok op pid (JObj []), rw)"

fun flush_on_released :: "instant \<Rightarrow> floor_action \<Rightarrow> room \<times> 'f world \<Rightarrow> room \<times> 'f world" where
  "flush_on_released now (Released _) (room, w) = flush_ptt_silence now (room, bump ''ptt_floor_released'' 1 w)"
| "flush_on_released now _ (room, w) = (room, w)"

definition handle_floor_release :: "'f env \<Rightarrow> user_id \<Rightarrow> u64 \<Rightarrow> room_id option \<Rightarrow> 'f world \<Rightarrow> packet \<times> 'f world" where
  "handle_floor_release E user_id pid req w =
     (case req of
        None \<Rightarrow> (packet_err FLOOR_RELEASE pid 3002 ''invalid payload'', w)
      | Some room_id \<Rightarrow>
          (case hub_get (w_hub w) room_id of
             Inl _ \<Rightarrow> (packet_err FLOOR_RELEASE pid 2001 ''room not found'', w)
           | Inr room \<Rightarrow>
               if r_mode room \<noteq> Ptt then (packet_err FLOOR_RELEASE pid 2020 ''not a PTT room'', w)
               else
                 (let (floor', actions) = release user_id (e_now_ms E) (r_floor room);
                      rw = fold (flush_on_released (e_instant E)) actions (room\<lparr> r_floor := floor' \<rparr>, w);
                      (response, room', w') = apply_floor_actions (e_instant E) FLOOR_RELEASE pid actions user_id rw
                  in (response, put_room room' w'))))"

definition handle_floor_ping :: "'f env \<Rightarrow> user_id \<Rightarrow> u64 \<Rightarrow> room_id option \<Rightarrow> 'f world \<Rightarrow> packet \<times> 'f world" where
  "handle_floor_ping E user_id pid req w =
     (case req of
        None \<Rightarrow> (packet_err FLOOR_PING pid 3002 ''invalid payload'', w)
      | Some room_id \<Rightarrow>
          (case hub_get (w_hub w) room_id of
             Inl _ \<Rightarrow> (packet_err FLOOR_PING pid 2001 ''room not found'', w)
           | Inr room \<Rightarrow>
               (let (floor', action) = ping user_id (e_now_ms E) (r_floor room);
                    w' = put_room (room\<lparr> r_floor := floor' \<rparr>) w
                in case action of
                     PingOk \<Rightarrow> (packet_ok FLOOR_PING pid (JObj []), w')
                   | _ \<Rightarrow> (packet_err FLOOR_PING pid 2021 ''not current speaker'', w'))))"

definition queue_pos_json :: "u8 \<Rightarrow> u8 \<Rightarrow> nat \<Rightarrow> json" where
  "queue_pos_json pos priority qsize =
     JObj [(''position'', jnum pos), (''priority'', jnum priority), (''queue_size'', JNum (int qsize))]"

definition handle_floor_queue_pos :: "user_id \<Rightarrow> u64 \<Rightarrow> room_id option \<Rightarrow> 'f world \<Rightarrow> packet" where
  "handle_floor_queue_pos user_id pid req w =
     (case req of
        None \<Rightarrow> packet_err FLOOR_QUEUE_POS pid 3002 ''invalid payload''
      | Some room_id \<Rightarrow>
          (case hub_get (w_hub w) room_id of
             Inl _ \<Rightarrow> packet_err FLOOR_QUEUE_POS pid 2001 ''room not found''
           | Inr room \<Rightarrow>
               (case query_queue_position (r_floor room) user_id of
                  Some (pos, priority) \<Rightarrow>
                    packet_ok FLOOR_QUEUE_POS pid (queue_pos_json pos priority (queue_size (r_floor room)))
                | None \<Rightarrow> packet_ok FLOOR_QUEUE_POS pid (queue_pos_json 0 0 (queue_size (r_floor room))))))"

section \<open>The floor timer\<close>

fun timer_action :: "instant \<Rightarrow> floor_action \<Rightarrow> room \<times> 'f world \<Rightarrow> room \<times> 'f world" where
  "timer_action now (Revoked prev_speaker cause) (room, w) =
     (let w1 = bump ''ptt_floor_revoked'' 1 w;
          w2 = (case get_participant room prev_speaker of Some r \<Rightarrow> update_part r cancel_pli_burst w1 | None \<Rightarrow> w1);
          room' = clear_rewriters now room;
          w3 = (case get_participant room' prev_speaker of Some r \<Rightarrow> ws_send r (floor_revoke room' cause) w2 | None \<Rightarrow> w2)
      in (room', broadcast_to_room room' (floor_idle room' prev_speaker (Some cause)) w3))"
| "timer_action now (Granted spk priority duration_s) (room, w) =
     (let w1 = bump ''ptt_floor_queue_pop'' 1 (count_grant w);
          room' = switch_rewriters now spk room;
          w2 = floor_pli_burst ''FLOOR_QPOP'' room' spk w1;
          w3 = (case get_participant room' spk of
                  Some r \<Rightarrow> ws_send r (packet_ok FLOOR_REQUEST 0 (granted_json spk priority duration_s)) w2
                | None \<Rightarrow> w2)
      in (room', broadcast_to_room room' (floor_taken room' spk priority) w3))"
| "timer_action now _ (room, w) = (room, w)"

definition floor_timer_room :: "'f env \<Rightarrow> room_id \<Rightarrow> 'f world \<Rightarrow> 'f world" where
  "floor_timer_room E rid w =
     (case dm_get (h_rooms (w_hub w)) rid of
        None \<Rightarrow> w
      | Some room \<Rightarrow>
          if r_mode room \<noteq> Ptt then w
          else
            (let (floor', actions) = check_timers default_floor_config (e_now_ms E) (e_now_ms E) (r_floor room);
                 (room', w') = fold (timer_action (e_instant E)) actions (room\<lparr> r_floor := floor' \<rparr>, w)
             in put_room room' w'))"

definition floor_timer_tick :: "'f env \<Rightarrow> 'f world \<Rightarrow> 'f world" where
  "floor_timer_tick E w = fold (floor_timer_room E) (dm_keys (h_rooms (w_hub w))) w"

section \<open>MBCP over RTCP\<close>

definition send_mbcp_to_participant :: "bytes \<Rightarrow> pref \<Rightarrow> 'f world \<Rightarrow> 'f world" where
  "send_mbcp_to_participant pkt r w =
     (if \<not> is_subscribe_ready (part w r) then w
      else (case egress_send r (EgRtcp pkt) w of (ok, w') \<Rightarrow> if ok then w' else bump ''egress_drop'' 1 w'))"

definition broadcast_mbcp_to_subscribers :: "room \<Rightarrow> bytes \<Rightarrow> 'f world \<Rightarrow> 'f world" where
  "broadcast_mbcp_to_subscribers room pkt w = fold (send_mbcp_to_participant pkt) (all_participants room) w"

text \<open>The WebSocket copies carry the packets of the WebSocket handlers.\<close>

definition send_ws_floor_taken :: "room \<Rightarrow> user_id \<Rightarrow> u8 \<Rightarrow> 'f world \<Rightarrow> 'f world" where
  "send_ws_floor_taken room spk priority w = fold (\<lambda>r. ws_send r (floor_taken room spk priority)) (all_participants room) w"

definition send_ws_floor_idle :: "room \<Rightarrow> user_id \<Rightarrow> 'f world \<Rightarrow> 'f world" where
  "send_ws_floor_idle room prev_speaker w = fold (\<lambda>r. ws_send r (floor_idle room prev_speaker None)) (all_participants room) w"

definition send_pli_burst :: "room \<Rightarrow> user_id \<Rightarrow> 'f world \<Rightarrow> 'f world" where
  "send_pli_burst room spk w =
     (case get_participant room spk of
        None \<Rightarrow> w
      | Some r \<Rightarrow>
          if \<not> is_publish_ready (part w r) then w
          else (case (first_video_ssrc (part w r), ms_address (p_publish (part w r))) of
                  (Some ssrc, Some pub_addr) \<Rightarrow> spawn_pli_burst r ssrc pub_addr [0, 500, 1500] ''MBCP'' w
                | _ \<Rightarrow> w))"

text \<open>Decimal notation, as \<open>format!\<close> prints an integer.\<close>

fun decimal :: "nat \<Rightarrow> string" where
  "decimal n = (if n < 10 then [char_of (48 + n)] else decimal (n div 10) @ [char_of (48 + n mod 10)])"

declare decimal.simps [simp del]

definition queued_msg :: "u8 \<Rightarrow> u8 \<Rightarrow> u16 \<Rightarrow> string" where
  "queued_msg pos priority qsize =
     ''queued: pos='' @ decimal (unat pos) @ '' pri='' @ decimal (unat priority) @ '' size='' @ decimal (unat qsize)"

fun mbcp_action :: "instant \<Rightarrow> pref \<Rightarrow> floor_action \<Rightarrow> room \<times> 'f world \<Rightarrow> room \<times> 'f world" where
  "mbcp_action now requester (Granted spk priority _) (room, w) =
     (let room' = switch_rewriters now spk room;
          w1 = send_pli_burst room' spk (count_grant w);
          w2 = broadcast_mbcp_to_subscribers room' (build_mbcp_app MBCP_SUBTYPE_FTKN 0 (Some spk)) w1
      in (room', send_ws_floor_taken room' spk priority w2))"
| "mbcp_action now requester (Denied reason holder) (room, w) =
     (room, send_mbcp_to_participant
        (build_mbcp_app MBCP_SUBTYPE_FRVK 0 (Some (''denied: '' @ denied_msg reason holder))) requester w)"
| "mbcp_action now requester (Queued _ pos priority qsize) (room, w) =
     (room, send_mbcp_to_participant
        (build_mbcp_app MBCP_SUBTYPE_FRVK 0 (Some (queued_msg pos priority qsize))) requester (bump ''ptt_floor_queued'' 1 w))"
| "mbcp_action now requester (Released prev_speaker) (room, w) =
     (room, send_ws_floor_idle room prev_speaker
        (broadcast_mbcp_to_subscribers room (build_mbcp_app MBCP_SUBTYPE_FIDL 0 (Some prev_speaker)) w))"
| "mbcp_action now requester (Revoked prev_speaker cause) (room, w) =
     (let w1 = count_revoke cause w;
          w2 = (case get_participant room prev_speaker of
                  Some r \<Rightarrow> send_mbcp_to_participant (build_mbcp_app MBCP_SUBTYPE_FRVK 0 (Some cause)) r
                             (update_part r cancel_pli_burst w1)
                | None \<Rightarrow> w1);
          room' = clear_rewriters now room;
          w3 = broadcast_mbcp_to_subscribers room' (build_mbcp_app MBCP_SUBTYPE_FIDL 0 (Some prev_speaker)) w2
      in (room', send_ws_floor_idle room' prev_speaker w3))"
| "mbcp_action now requester _ (room, w) = (room, w)"

definition apply_mbcp_floor_actions ::
  "instant \<Rightarrow> floor_action list \<Rightarrow> pref \<Rightarrow> room \<times> 'f world \<Rightarrow> room \<times> 'f world" where
  "apply_mbcp_floor_actions now actions requester rw = fold (mbcp_action now requester) actions rw"

fun clear_on_released :: "instant \<Rightarrow> floor_action \<Rightarrow> room \<times> 'f world \<Rightarrow> room \<times> 'f world" where
  "clear_on_released now (Released _) (room, w) = (clear_rewriters now room, bump ''ptt_floor_released'' 1 w)"
| "clear_on_released now _ (room, w) = (room, w)"

definition mbcp_message_step :: "'f env \<Rightarrow> pref \<Rightarrow> mbcp_message \<Rightarrow> room \<times> 'f world \<Rightarrow> room \<times> 'f world" where
  "mbcp_message_step E sender msg rw =
     (case rw of (room, w) \<Rightarrow>
        (let user_id = p_user_id (part w sender)
         in if mb_subtype msg = MBCP_SUBTYPE_FREQ then
              (case request default_floor_config user_id FLOOR_DEFAULT_PRIORITY (e_now_ms E) (r_floor room) of
                 (floor', actions) \<Rightarrow>
                   apply_mbcp_floor_actions (e_instant E) actions sender (room\<lparr> r_floor := floor' \<rparr>, w))
            else if mb_subtype msg = MBCP_SUBTYPE_FREL then
              (case release user_id (e_now_ms E) (r_floor room) of
                 (floor', actions) \<Rightarrow>
                   apply_mbcp_floor_actions (e_instant E) actions sender
                     (fold (clear_on_released (e_instant E)) actions (room\<lparr> r_floor := floor' \<rparr>, w)))
            else if mb_subtype msg = MBCP_SUBTYPE_FPNG then
              (room\<lparr> r_floor := fst (ping user_id (e_now_ms E) (r_floor room)) \<rparr>, w)
            else (room, w)))"

definition handle_mbcp_from_publish :: "'f env \<Rightarrow> mbcp_message list \<Rightarrow> pref \<Rightarrow> room \<Rightarrow> 'f world \<Rightarrow> 'f world" where
  "handle_mbcp_from_publish E blocks sender room w =
     (if r_mode room \<noteq> Ptt then w
      else (case fold (mbcp_message_step E sender) blocks (room, w) of (room', w') \<Rightarrow> put_room room' w'))"

section \<open>The rewriters follow the floor\<close>

definition in_step :: "room \<Rightarrow> bool" where
  "in_step room \<longleftrightarrow> rw_speakers room = (current_speaker (r_floor room), current_speaker (r_floor room))"

definition world_in_step :: "'f world \<Rightarrow> bool" where
  "world_in_step w \<longleftrightarrow> (\<forall>rid room. dm_get (h_rooms (w_hub w)) rid = Some room \<longrightarrow>
     r_id room = rid \<and> (r_mode room = Ptt \<longrightarrow> in_step room))"

subsection \<open>Effects on speakers\<close>

lemma switch_rewriters_simps [simp]:
  "rw_speakers (switch_rewriters now u room) = (Some u, Some u)" "r_floor (switch_rewriters now u room) = r_floor room"
  "r_id (switch_rewriters now u room) = r_id room" "r_mode (switch_rewriters now u room) = r_mode room"
  "r_participants (switch_rewriters now u room) = r_participants room"
  "r_simulcast_enabled (switch_rewriters now u room) = r_simulcast_enabled room"
  by (simp_all add: switch_rewriters_def rw_speakers_def switch_speaker_def Let_def)

lemma clear_speaker_speaker: "speaker (rw_state (snd (clear_speaker r now))) = None"
  by (simp add: clear_speaker_def Let_def)

lemma clear_rewriters_simps [simp]:
  "rw_speakers (clear_rewriters now room) = (None, None)" "r_floor (clear_rewriters now room) = r_floor room"
  "r_id (clear_rewriters now room) = r_id room" "r_mode (clear_rewriters now room) = r_mode room"
  "r_participants (clear_rewriters now room) = r_participants room"
  "r_simulcast_enabled (clear_rewriters now room) = r_simulcast_enabled room"
  by (simp_all add: clear_rewriters_def rw_speakers_def clear_speaker_speaker)

lemma rw_speakers_floor [simp]: "rw_speakers (room\<lparr> r_floor := fl \<rparr>) = rw_speakers room"
  by (simp add: rw_speakers_def)

lemma flush_ptt_silence_room: "fst (flush_ptt_silence now (room, w)) = clear_rewriters now room"
  by (simp add: flush_ptt_silence_def Let_def split: option.split)

subsection \<open>Effects on the hub\<close>

lemma hub_send_frames [simp]: "w_hub (send_frames frames r w) = w_hub w"
  by (simp add: send_frames_def fold_frame)

lemma hub_flush [simp]: "w_hub (snd (flush_ptt_silence now rw)) = w_hub (snd rw)"
  by (simp add: flush_ptt_silence_def Let_def fold_frame split: prod.split option.split)

lemma hub_floor_effects [simp]:
  "w_hub (floor_pli_burst p room u w) = w_hub w" "w_hub (count_grant w) = w_hub w" "w_hub (count_revoke c w) = w_hub w"
  "w_hub (tell_revoked room u c w) = w_hub w" "w_hub (send_pli_burst room u w) = w_hub w"
  by (simp_all add: floor_pli_burst_def count_grant_def count_revoke_def tell_revoked_def send_pli_burst_def Let_def
      split: option.split)

lemma hub_mbcp_send [simp]:
  "w_hub (send_mbcp_to_participant pkt r w) = w_hub w" "w_hub (broadcast_mbcp_to_subscribers room pkt w) = w_hub w"
  "w_hub (send_ws_floor_taken room u p w) = w_hub w" "w_hub (send_ws_floor_idle room u w) = w_hub w"
proof -
  show send: "w_hub (send_mbcp_to_participant pkt r w) = w_hub w" for pkt r and w :: "'f world"
  proof -
    have "w_hub (snd (egress_send r (EgRtcp pkt) w)) = w_hub w" by simp
    then show ?thesis by (cases "egress_send r (EgRtcp pkt) w") (simp add: send_mbcp_to_participant_def)
  qed
  show "w_hub (broadcast_mbcp_to_subscribers room pkt w) = w_hub w"
    by (simp add: broadcast_mbcp_to_subscribers_def fold_frame send)
qed (simp_all add: send_ws_floor_taken_def send_ws_floor_idle_def fold_frame)

subsection \<open>One action\<close>

lemma request_action_effect:
  "fst (snd (request_action now u pid a s)) =
     (case a of Granted v _ _ \<Rightarrow> switch_rewriters now v (fst (snd s)) | _ \<Rightarrow> fst (snd s))"
  "w_hub (snd (snd (request_action now u pid a s))) = w_hub (snd (snd s))"
  by (cases s; cases a; simp add: Let_def)+

lemma apply_floor_action_effect:
  "fst (snd (apply_floor_action now op pid u a s)) =
     (case a of Granted v _ _ \<Rightarrow> switch_rewriters now v (fst (snd s)) | _ \<Rightarrow> fst (snd s))"
  "w_hub (snd (snd (apply_floor_action now op pid u a s))) = w_hub (snd (snd s))"
  by (cases s; cases a; simp add: Let_def split: option.split)+

lemma timer_action_effect:
  "fst (timer_action now a s) = (case a of Granted v _ _ \<Rightarrow> switch_rewriters now v (fst s)
     | Revoked _ _ \<Rightarrow> clear_rewriters now (fst s) | _ \<Rightarrow> fst s)"
  "w_hub (snd (timer_action now a s)) = w_hub (snd s)"
  by (cases s; cases a; simp add: Let_def split: option.split)+

lemma mbcp_action_effect:
  "fst (mbcp_action now r a s) = (case a of Granted v _ _ \<Rightarrow> switch_rewriters now v (fst s)
     | Revoked _ _ \<Rightarrow> clear_rewriters now (fst s) | _ \<Rightarrow> fst s)"
  "w_hub (snd (mbcp_action now r a s)) = w_hub (snd s)"
  by (cases s; cases a; simp add: Let_def split: option.split)+

lemma released_effect:
  "fst (flush_on_released now a s) = (case a of Released _ \<Rightarrow> clear_rewriters now (fst s) | _ \<Rightarrow> fst s)"
  "w_hub (snd (flush_on_released now a s)) = w_hub (snd s)"
  "fst (clear_on_released now a s) = (case a of Released _ \<Rightarrow> clear_rewriters now (fst s) | _ \<Rightarrow> fst s)"
  "w_hub (snd (clear_on_released now a s)) = w_hub (snd s)"
  by (cases s; cases a; simp add: flush_ptt_silence_room)+

declare request_action.simps [simp del] apply_floor_action.simps [simp del] timer_action.simps [simp del]
  mbcp_action.simps [simp del] flush_on_released.simps [simp del] clear_on_released.simps [simp del]

lemmas action_effects = released_effect request_action_effect apply_floor_action_effect timer_action_effect mbcp_action_effect

subsection \<open>The actions of a floor operation\<close>

lemma request_shape:
  assumes "request cfg u p now s = (s', acts)"
  obtains (grant) q d where "acts = [Granted u q d]" "current_speaker s' = Some u"
    | (preempt) x c q d where "acts = [Revoked x c, Granted u q d]" "current_speaker s' = Some u"
    | (queued) i q n where "acts = [Queued u i q n]" "current_speaker s' = current_speaker s"
    | (denied) m x where "acts = [Denied m x]" "current_speaker s' = current_speaker s"
  using assms unfolding request_def current_speaker_def
  by (auto simp: Let_def split: floor_state.splits if_splits)

lemma vacate_shape:
  assumes "vacate clock u act s = (s', acts)"
  obtains (idle) "acts = [act]" "current_speaker s' = None"
    | (next_one) v q d where "acts = [act, Granted v q d]" "current_speaker s' = Some v"
  using assms by (cases "f_queue s") (auto simp: vacate_simps current_speaker_def)

lemma release_shape:
  assumes "release u clock s = (s', acts)"
  obtains (idle) "acts = [Released u]" "current_speaker s' = None"
    | (next_one) v q d where "acts = [Released u, Granted v q d]" "current_speaker s' = Some v"
    | (other) "acts = []" "current_speaker s' = current_speaker s"
  using assms unfolding release_def
  by (auto simp: current_speaker_def split: floor_state.splits if_splits elim: vacate_shape)

lemma check_timers_shape:
  assumes "check_timers cfg now clock s = (s', acts)"
  obtains (idle) x c where "acts = [Revoked x c]" "current_speaker s' = None"
    | (next_one) x c v q d where "acts = [Revoked x c, Granted v q d]" "current_speaker s' = Some v"
    | (fine) "acts = []" "current_speaker s' = current_speaker s"
  using assms unfolding check_timers_def
  by (auto split: floor_state.splits if_splits elim: vacate_shape)

lemma leave_shape:
  assumes "on_participant_leave u clock s = (s', acts)"
  obtains (idle) "acts = [Released u]" "current_speaker s' = None"
    | (next_one) v q d where "acts = [Released u, Granted v q d]" "current_speaker s' = Some v"
    | (other) "acts = []" "current_speaker s' = current_speaker s"
  using assms unfolding on_participant_leave_def Let_def
  by (auto split: floor_state.splits if_splits elim: vacate_shape)

text \<open>What the actions of one floor operation make of a room whose rewriters carry the holder or nobody.\<close>

lemma floor_op_room_ok:
  assumes ok: "room_ok room"
  shows "request default_floor_config u p t (r_floor room) = (fl, acts) \<Longrightarrow>
      room_ok (fst (snd (fold (request_action now u pid) acts (resp, room\<lparr> r_floor := fl \<rparr>, w))))"
    and "request default_floor_config u p t (r_floor room) = (fl, acts) \<Longrightarrow>
      room_ok (fst (fold (mbcp_action now r) acts (room\<lparr> r_floor := fl \<rparr>, w)))"
    and "release u t (r_floor room) = (fl, acts) \<Longrightarrow>
      room_ok (fst (snd (apply_floor_actions now op pid acts u (fold (flush_on_released now) acts (room\<lparr> r_floor := fl \<rparr>, w)))))"
    and "release u t (r_floor room) = (fl, acts) \<Longrightarrow>
      room_ok (fst (fold (mbcp_action now r) acts (fold (clear_on_released now) acts (room\<lparr> r_floor := fl \<rparr>, w))))"
    and "check_timers default_floor_config t t' (r_floor room) = (fl, acts) \<Longrightarrow>
      room_ok (fst (fold (timer_action now) acts (room\<lparr> r_floor := fl \<rparr>, w)))"
    and "room_ok (room\<lparr> r_floor := fst (ping u t (r_floor room)) \<rparr>)"
proof -
  note simps = action_effects room_ok_def apply_floor_actions_def
  show "request default_floor_config u p t (r_floor room) = (fl, acts) \<Longrightarrow>
      room_ok (fst (snd (fold (request_action now u pid) acts (resp, room\<lparr> r_floor := fl \<rparr>, w))))"
    by (erule request_shape) (use ok in \<open>auto simp: simps\<close>)
  show "request default_floor_config u p t (r_floor room) = (fl, acts) \<Longrightarrow>
      room_ok (fst (fold (mbcp_action now r) acts (room\<lparr> r_floor := fl \<rparr>, w)))"
    by (erule request_shape) (use ok in \<open>auto simp: simps\<close>)
  show "release u t (r_floor room) = (fl, acts) \<Longrightarrow>
      room_ok (fst (snd (apply_floor_actions now op pid acts u (fold (flush_on_released now) acts (room\<lparr> r_floor := fl \<rparr>, w)))))"
    by (erule release_shape) (use ok in \<open>auto simp: simps flush_ptt_silence_room\<close>)
  show "release u t (r_floor room) = (fl, acts) \<Longrightarrow>
      room_ok (fst (fold (mbcp_action now r) acts (fold (clear_on_released now) acts (room\<lparr> r_floor := fl \<rparr>, w))))"
    by (erule release_shape) (use ok in \<open>auto simp: simps\<close>)
  show "check_timers default_floor_config t t' (r_floor room) = (fl, acts) \<Longrightarrow>
      room_ok (fst (fold (timer_action now) acts (room\<lparr> r_floor := fl \<rparr>, w)))"
    by (erule check_timers_shape) (use ok in \<open>auto simp: simps\<close>)
  show "room_ok (room\<lparr> r_floor := fst (ping u t (r_floor room)) \<rparr>)"
    using ok ping_speaker [of u t "r_floor room"] by (simp add: room_ok_def)
qed

subsection \<open>The handlers\<close>

lemma put_room_in_step:
  "world_in_step w \<Longrightarrow> w_hub w' = w_hub w \<Longrightarrow> (r_mode room = Ptt \<Longrightarrow> in_step room) \<Longrightarrow> world_in_step (put_room room w')"
  by (auto simp: world_in_step_def)

lemma world_in_stepD: "world_in_step w \<Longrightarrow> hub_get (w_hub w) rid = Inr room \<Longrightarrow> r_mode room = Ptt \<Longrightarrow> in_step room"
  by (simp add: world_in_step_def hub_get_eq)

lemma request_in_step:
  assumes w: "world_in_step w"
  shows "world_in_step (snd (handle_floor_request E u pid req w))"
proof (cases req)
  case (Some m)
  show ?thesis
  proof (cases "hub_get (w_hub w) (frm_room_id m)")
    case (Inr room)
    let ?p = "case frm_priority m of Some p \<Rightarrow> p | None \<Rightarrow> FLOOR_DEFAULT_PRIORITY"
    obtain fl acts where req: "request default_floor_config u ?p (e_now_ms E) (r_floor room) = (fl, acts)" by fastforce
    let ?s = "fold (request_action (e_instant E) u pid) acts (packet_ok FLOOR_REQUEST pid (JObj []), room\<lparr> r_floor := fl \<rparr>, w)"
    have "r_mode room = Ptt \<longrightarrow> in_step (fst (snd ?s)) \<and> w_hub (snd (snd ?s)) = w_hub w"
      using req world_in_stepD [OF w Inr]
      by (cases rule: request_shape) (auto simp: action_effects in_step_def)
    then show ?thesis using w unfolding handle_floor_request_def
      by (auto simp: Some Inr req case_prod_beta intro!: put_room_in_step [OF w])
  qed (simp add: handle_floor_request_def Some w)
qed (simp add: handle_floor_request_def w)

lemma release_in_step:
  assumes w: "world_in_step w"
  shows "world_in_step (snd (handle_floor_release E u pid req w))"
proof (cases req)
  case (Some rid)
  show ?thesis
  proof (cases "hub_get (w_hub w) rid")
    case (Inr room)
    obtain fl acts where rel: "release u (e_now_ms E) (r_floor room) = (fl, acts)" by fastforce
    let ?rw = "fold (flush_on_released (e_instant E)) acts (room\<lparr> r_floor := fl \<rparr>, w)"
    let ?s = "apply_floor_actions (e_instant E) FLOOR_RELEASE pid acts u ?rw"
    have "r_mode room = Ptt \<longrightarrow> in_step (fst (snd ?s)) \<and> w_hub (snd (snd ?s)) = w_hub w"
      using rel world_in_stepD [OF w Inr]
      by (cases rule: release_shape)
         (auto simp: apply_floor_actions_def action_effects in_step_def flush_ptt_silence_room)
    then show ?thesis using w unfolding handle_floor_release_def
      by (auto simp: Some Inr rel case_prod_beta Let_def intro!: put_room_in_step [OF w])
  qed (simp add: handle_floor_release_def Some w)
qed (simp add: handle_floor_release_def w)

lemma ping_in_step:
  assumes w: "world_in_step w"
  shows "world_in_step (snd (handle_floor_ping E u pid req w))"
proof (cases req)
  case (Some rid)
  show ?thesis
  proof (cases "hub_get (w_hub w) rid")
    case (Inr room)
    obtain fl act where ping: "ping u (e_now_ms E) (r_floor room) = (fl, act)" by fastforce
    have "current_speaker fl = current_speaker (r_floor room)" using ping_speaker [of u "e_now_ms E" "r_floor room"] ping by simp
    then have "world_in_step (put_room (room\<lparr> r_floor := fl \<rparr>) w)"
      by (intro put_room_in_step [OF w]) (use world_in_stepD [OF w Inr] in \<open>auto simp: in_step_def\<close>)
    then show ?thesis by (simp add: handle_floor_ping_def Some Inr ping Let_def split: floor_action.split)
  qed (simp add: handle_floor_ping_def Some w)
qed (simp add: handle_floor_ping_def w)

lemma timer_in_step:
  fixes w :: "'f world"
  assumes w: "world_in_step w"
  shows "world_in_step (floor_timer_tick E w)"
proof -
  have one: "world_in_step (floor_timer_room E rid w)" if w: "world_in_step w" for rid and w :: "'f world"
  proof (cases "dm_get (h_rooms (w_hub w)) rid")
    case (Some room)
    obtain fl acts where ct: "check_timers default_floor_config (e_now_ms E) (e_now_ms E) (r_floor room) = (fl, acts)" by fastforce
    let ?s = "fold (timer_action (e_instant E)) acts (room\<lparr> r_floor := fl \<rparr>, w)"
    have "r_mode room = Ptt \<longrightarrow> in_step (fst ?s) \<and> w_hub (snd ?s) = w_hub w"
      using ct world_in_stepD [OF w, unfolded hub_get_eq, OF Some]
      by (cases rule: check_timers_shape) (auto simp: action_effects in_step_def)
    then show ?thesis using w by (auto simp: floor_timer_room_def Some ct case_prod_beta intro!: put_room_in_step [OF w])
  qed (simp add: floor_timer_room_def w)
  have "world_in_step (fold (floor_timer_room E) rids w)" for rids using w by (induction rids arbitrary: w) (auto simp: one)
  then show ?thesis by (simp add: floor_timer_tick_def)
qed

lemma mbcp_message_in_step:
  assumes "in_step room"
  shows "in_step (fst (mbcp_message_step E r msg (room, w)))" and "r_id (fst (mbcp_message_step E r msg (room, w))) = r_id room"
    and "w_hub (snd (mbcp_message_step E r msg (room, w))) = w_hub w"
proof -
  let ?u = "p_user_id (part w r)"
  obtain fl acts where req: "request default_floor_config ?u 0 (e_now_ms E) (r_floor room) = (fl, acts)"
    by fastforce
  obtain fl' acts' where rel: "release ?u (e_now_ms E) (r_floor room) = (fl', acts')" by fastforce
  let ?q = "fold (mbcp_action (e_instant E) r) acts (room\<lparr> r_floor := fl \<rparr>, w)"
  let ?rw = "fold (clear_on_released (e_instant E)) acts' (room\<lparr> r_floor := fl' \<rparr>, w)"
  let ?l = "fold (mbcp_action (e_instant E) r) acts' ?rw"
  have q: "in_step (fst ?q) \<and> r_id (fst ?q) = r_id room \<and> w_hub (snd ?q) = w_hub w"
    using req assms by (cases rule: request_shape) (auto simp: action_effects in_step_def)
  have l: "in_step (fst ?l) \<and> r_id (fst ?l) = r_id room \<and> w_hub (snd ?l) = w_hub w"
    using rel assms by (cases rule: release_shape) (auto simp: action_effects in_step_def)
  have p: "in_step (room\<lparr> r_floor := fst (ping ?u (e_now_ms E) (r_floor room)) \<rparr>)"
    using assms ping_speaker [of ?u "e_now_ms E" "r_floor room"] by (simp add: in_step_def)
  show "in_step (fst (mbcp_message_step E r msg (room, w)))" "r_id (fst (mbcp_message_step E r msg (room, w))) = r_id room"
    "w_hub (snd (mbcp_message_step E r msg (room, w))) = w_hub w"
    using q l p assms by (simp_all add: mbcp_message_step_def apply_mbcp_floor_actions_def req rel Let_def)
qed

lemma mbcp_in_step:
  assumes w: "world_in_step w" and room: "dm_get (h_rooms (w_hub w)) rid = Some room"
  shows "world_in_step (handle_mbcp_from_publish E blocks sender room w)"
proof (cases "r_mode room = Ptt")
  case True
  have "in_step (fst (fold (mbcp_message_step E sender) blocks (room, w))) \<and>
      w_hub (snd (fold (mbcp_message_step E sender) blocks (room, w))) = w_hub w" if "in_step room" for room w
    using that
  proof (induction blocks arbitrary: room w)
    case (Cons b bs)
    obtain room' w' where s: "mbcp_message_step E sender b (room, w) = (room', w')" by fastforce
    show ?case using Cons.IH [of room' w'] mbcp_message_in_step [OF Cons.prems, of E sender b w] s by simp
  qed simp
  moreover have "in_step room" using w room True by (auto simp: world_in_step_def)
  ultimately show ?thesis using True
    by (auto simp: handle_mbcp_from_publish_def case_prod_beta intro!: put_room_in_step [OF w])
qed (simp add: handle_mbcp_from_publish_def w)

section \<open>The handlers keep the server invariant\<close>

lemma room_le_rewriters [simp]:
  "room_le room (switch_rewriters now u room)" "room_le room (clear_rewriters now room)"
  by (simp_all add: room_le_def switch_rewriters_def clear_rewriters_def)

lemma room_le_floor:
  "(floor_inv default_floor_config (r_floor room) \<Longrightarrow> floor_inv default_floor_config fl) \<Longrightarrow> room_le room (room\<lparr> r_floor := fl \<rparr>)"
  by (simp add: room_le_def)

lemma world_le_floor_effects [world_le_intros]:
  "world_le w (count_grant w)" "world_le w (count_revoke c w)" "world_le w (tell_revoked room u c w)"
  "world_le w (floor_pli_burst pre room u w)" "world_le w (send_pli_burst room u w)"
  by (auto simp: count_grant_def count_revoke_def tell_revoked_def floor_pli_burst_def send_pli_burst_def Let_def
      intro: world_le_intros world_le_trans split: option.split)

lemma world_le_frames [world_le_intros]: "world_le w (send_frames frames r w)"
  by (auto simp: send_frames_def intro!: world_le_fold world_le_intros)

lemma world_le_mbcp [world_le_intros]: "world_le w (send_mbcp_to_participant pkt r w)"
proof -
  have "world_le w (snd (egress_send r (EgRtcp pkt) w))" by (rule world_le_intros)
  then show ?thesis
    by (auto simp: send_mbcp_to_participant_def case_prod_beta intro: world_le_trans world_le_intros)
qed

lemma world_le_mbcp_broadcast [world_le_intros]:
  "world_le w (broadcast_mbcp_to_subscribers room pkt w)" "world_le w (send_ws_floor_taken room u p w)"
  "world_le w (send_ws_floor_idle room u w)"
  by (auto simp: broadcast_mbcp_to_subscribers_def send_ws_floor_taken_def send_ws_floor_idle_def
      intro!: world_le_fold world_le_intros)

lemma rw_le_flush: "rw_le s (flush_ptt_silence now s)"
  by (auto simp: rw_le_def flush_ptt_silence_def Let_def intro!: world_le_fold world_le_intros split: prod.split option.split)

lemma world_le_steps [world_le_intros]:
  "world_le w w1 \<Longrightarrow> world_le w (bump m n w1)" "world_le w w1 \<Longrightarrow> world_le w (ws_send r pkt w1)"
  "world_le w w1 \<Longrightarrow> world_le w (broadcast_to_others room u pkt w1)" "world_le w w1 \<Longrightarrow> world_le w (broadcast_to_room room pkt w1)"
  "world_le w w1 \<Longrightarrow> world_le w (count_grant w1)" "world_le w w1 \<Longrightarrow> world_le w (count_revoke c w1)"
  "world_le w w1 \<Longrightarrow> world_le w (tell_revoked room u c w1)" "world_le w w1 \<Longrightarrow> world_le w (floor_pli_burst pre room u w1)"
  "world_le w w1 \<Longrightarrow> world_le w (send_pli_burst room u w1)" "world_le w w1 \<Longrightarrow> world_le w (update_part r cancel_pli_burst w1)"
  "world_le w w1 \<Longrightarrow> world_le w (send_mbcp_to_participant mpkt r w1)"
  "world_le w w1 \<Longrightarrow> world_le w (broadcast_mbcp_to_subscribers room mpkt w1)"
  "world_le w w1 \<Longrightarrow> world_le w (send_ws_floor_taken room u p w1)" "world_le w w1 \<Longrightarrow> world_le w (send_ws_floor_idle room u w1)"
  by (erule world_le_trans; rule world_le_intros)+

lemma rw_le_actions:
  "rw_le (snd s) (snd (request_action now u pid a s))" "rw_le (snd s) (snd (apply_floor_action now op pid u a s))"
  "rw_le rw (timer_action now a rw)" "rw_le rw (mbcp_action now r a rw)"
  "rw_le rw (flush_on_released now a rw)" "rw_le rw (clear_on_released now a rw)"
proof -
  show "rw_le (snd s) (snd (request_action now u pid a s))"
    by (cases s; cases a) (auto simp: request_action.simps rw_le_def Let_def intro!: world_le_intros)
  show "rw_le (snd s) (snd (apply_floor_action now op pid u a s))"
    by (cases s; cases a) (auto simp: apply_floor_action.simps rw_le_def Let_def intro!: world_le_intros split: option.split)
  show "rw_le rw (timer_action now a rw)"
    by (cases rw; cases a) (auto simp: timer_action.simps rw_le_def Let_def intro!: world_le_intros split: option.split)
  show "rw_le rw (mbcp_action now r a rw)"
    by (cases rw; cases a) (auto simp: mbcp_action.simps rw_le_def Let_def intro!: world_le_intros split: option.split)
  show "rw_le rw (flush_on_released now a rw)"
  proof (cases rw; cases a)
    fix room w x assume "rw = (room, w)" "a = Released x"
    moreover have "rw_le (room, w) (room, bump ''ptt_floor_released'' 1 w)" by (simp add: rw_le_def world_le_intros)
    ultimately show ?thesis using rw_le_flush rw_le_trans by (simp add: flush_on_released.simps) blast
  qed (simp_all add: flush_on_released.simps)
  show "rw_le rw (clear_on_released now a rw)"
    by (cases rw; cases a) (auto simp: clear_on_released.simps rw_le_def intro!: world_le_intros)
qed

lemmas rw_le_folds = rw_le_fold [OF rw_le_actions(3)] rw_le_fold [OF rw_le_actions(4)] rw_le_fold [OF rw_le_actions(5)]
  rw_le_fold [OF rw_le_actions(6)] rw_le_fold3 [OF rw_le_actions(1)] rw_le_fold3 [OF rw_le_actions(2)]

text \<open>One step of a floor handler: the controller runs, then its actions are applied.\<close>

lemma rw_le_floor_step:
  assumes "floor_inv default_floor_config (r_floor room) \<Longrightarrow> floor_inv default_floor_config fl"
    and "rw_le (room\<lparr> r_floor := fl \<rparr>, w) s"
  shows "rw_le (room, w) s"
  using assms(2) rw_le_trans [of "(room, w)" "(room\<lparr> r_floor := fl \<rparr>, w)" s]
  by (simp add: rw_le_def room_le_floor assms(1))

lemma request_server_inv:
  assumes w: "server_inv w"
  shows "server_inv (snd (handle_floor_request E u pid req w))"
proof -
  let ?r = "\<lambda>p now room. request default_floor_config u p now (r_floor room)"
  let ?s = "\<lambda>p now room. fold (request_action (e_instant E) u pid) (snd (?r p now room))
    (packet_ok FLOOR_REQUEST pid (JObj []), room\<lparr> r_floor := fst (?r p now room) \<rparr>, w)"
  have "server_inv (put_room (fst (snd (?s p now room))) (snd (snd (?s p now room))))"
    if room: "dm_get (h_rooms (w_hub w)) rid = Some room" for rid room p now
  proof (rule server_inv_put [OF w room], rule rw_le_floor_step)
    show "rw_le (room\<lparr> r_floor := fst (?r p now room) \<rparr>, w) (fst (snd (?s p now room)), snd (snd (?s p now room)))"
      unfolding prod.collapse by (rule rw_le_folds(5) [of "(_, _)", unfolded snd_conv])
  qed (rule request_inv, assumption, rule floor_op_room_ok(1) [OF _ surjective_pairing])
  then show ?thesis using w
    by (auto simp: handle_floor_request_def case_prod_beta hub_get_eq split: option.split sum.split)
qed

lemma release_server_inv:
  assumes w: "server_inv w"
  shows "server_inv (snd (handle_floor_release E u pid req w))"
proof -
  let ?r = "\<lambda>room. release u (e_now_ms E) (r_floor room)"
  let ?s = "\<lambda>room. apply_floor_actions (e_instant E) FLOOR_RELEASE pid (snd (?r room)) u
    (fold (flush_on_released (e_instant E)) (snd (?r room)) (room\<lparr> r_floor := fst (?r room) \<rparr>, w))"
  have "server_inv (put_room (fst (snd (?s room))) (snd (snd (?s room))))"
    if room: "dm_get (h_rooms (w_hub w)) rid = Some room" for rid room
  proof (rule server_inv_put [OF w room], rule rw_le_floor_step)
    show "rw_le (room\<lparr> r_floor := fst (?r room) \<rparr>, w) (fst (snd (?s room)), snd (snd (?s room)))"
      unfolding prod.collapse apply_floor_actions_def
      by (rule rw_le_trans [OF rw_le_folds(3) rw_le_folds(6) [of "(_, _)", unfolded snd_conv]])
  qed (rule release_inv, assumption, rule floor_op_room_ok(3) [OF _ surjective_pairing])
  then show ?thesis using w
    by (auto simp: handle_floor_release_def case_prod_beta hub_get_eq Let_def split: option.split sum.split)
qed

lemma ping_server_inv:
  assumes w: "server_inv w"
  shows "server_inv (snd (handle_floor_ping E u pid req w))"
proof -
  have "server_inv (put_room (room\<lparr> r_floor := fst (ping u now (r_floor room)) \<rparr>) w)"
    if "dm_get (h_rooms (w_hub w)) rid = Some room" for rid room now
    by (rule server_inv_put [OF w that rw_le_floor_step [OF _ rw_le_refl] floor_op_room_ok(6)]) (rule ping_inv)
  then show ?thesis using w
    by (auto simp: handle_floor_ping_def case_prod_beta hub_get_eq Let_def split: option.split sum.split floor_action.split)
qed

lemma timer_server_inv:
  assumes "server_inv w"
  shows "server_inv (floor_timer_tick E w)"
proof -
  have "server_inv (floor_timer_room E rid w)" if w: "server_inv w" for rid and w :: "'a world"
  proof (cases "dm_get (h_rooms (w_hub w)) rid")
    case (Some room)
    obtain fl acts where ct: "check_timers default_floor_config (e_now_ms E) (e_now_ms E) (r_floor room) = (fl, acts)" by fastforce
    let ?s = "fold (timer_action (e_instant E)) acts (room\<lparr> r_floor := fl \<rparr>, w)"
    have "rw_le (room, w) ?s"
      by (rule rw_le_floor_step [OF _ rw_le_folds(1)])
         (use check_timers_inv [of default_floor_config "r_floor room" "e_now_ms E" "e_now_ms E"] ct in simp)
    then have "server_inv (put_room (fst ?s) (snd ?s))"
      by (intro server_inv_put [OF w Some] floor_op_room_ok(5) [OF _ ct]) simp_all
    then show ?thesis using w by (simp add: floor_timer_room_def Some ct case_prod_beta)
  qed (simp add: floor_timer_room_def w)
  then have "server_inv (fold (floor_timer_room E) rids w)" for rids using assms by (induction rids arbitrary: w) auto
  then show ?thesis by (simp add: floor_timer_tick_def)
qed

lemma rw_le_mbcp_step: "rw_le rw (mbcp_message_step E r msg rw)"
proof (cases rw)
  case (Pair room w)
  let ?u = "p_user_id (part w r)"
  obtain fl acts where req: "request default_floor_config ?u 0 (e_now_ms E) (r_floor room) = (fl, acts)" by fastforce
  obtain fl' acts' where rel: "release ?u (e_now_ms E) (r_floor room) = (fl', acts')" by fastforce
  have "rw_le (room, w) (fold (mbcp_action (e_instant E) r) acts (room\<lparr> r_floor := fl \<rparr>, w))"
    by (rule rw_le_floor_step [OF _ rw_le_folds(2)]) (use request_inv [of default_floor_config "r_floor room" ?u 0] req in \<open>metis fst_conv\<close>)
  moreover have "rw_le (room, w) (fold (mbcp_action (e_instant E) r) acts'
      (fold (clear_on_released (e_instant E)) acts' (room\<lparr> r_floor := fl' \<rparr>, w)))"
    by (rule rw_le_floor_step [OF _ rw_le_trans [OF rw_le_folds(4) rw_le_folds(2)]])
       (use release_inv [of default_floor_config "r_floor room" ?u] rel in \<open>metis fst_conv\<close>)
  moreover have "rw_le (room, w) (room\<lparr> r_floor := fst (ping ?u (e_now_ms E) (r_floor room)) \<rparr>, w)"
    by (rule rw_le_floor_step [OF _ rw_le_refl]) (rule ping_inv)
  ultimately show ?thesis by (simp add: Pair mbcp_message_step_def apply_mbcp_floor_actions_def req rel Let_def)
qed

lemma mbcp_room_ok: "room_ok (fst rw) \<Longrightarrow> room_ok (fst (fold (mbcp_message_step E r) blocks rw))"
proof (induction blocks arbitrary: rw)
  case (Cons msg blocks)
  obtain room w where rw: "rw = (room, w)" by fastforce
  let ?u = "p_user_id (part w r)"
  obtain fl acts where req: "request default_floor_config ?u 0 (e_now_ms E) (r_floor room) = (fl, acts)" by fastforce
  obtain fl' acts' where rel: "release ?u (e_now_ms E) (r_floor room) = (fl', acts')" by fastforce
  have ok: "room_ok room" using Cons.prems rw by simp
  have "room_ok (fst (mbcp_message_step E r msg (room, w)))"
    using floor_op_room_ok(2) [OF ok req, where now = "e_instant E" and r = r and w = w]
      floor_op_room_ok(4) [OF ok rel, where now = "e_instant E" and r = r and w = w]
      floor_op_room_ok(6) [OF ok, of ?u "e_now_ms E"] ok
    by (simp add: mbcp_message_step_def apply_mbcp_floor_actions_def req rel Let_def)
  then show ?case by (simp add: Cons.IH rw)
qed simp

lemma mbcp_server_inv:
  assumes "server_inv w" "dm_get (h_rooms (w_hub w)) rid = Some room"
  shows "server_inv (handle_mbcp_from_publish E blocks sender room w)"
proof -
  let ?s = "fold (mbcp_message_step E sender) blocks (room, w)"
  have "rw_le (room, w) (fst ?s, snd ?s)" unfolding prod.collapse by (rule rw_le_fold [OF rw_le_mbcp_step])
  then have "server_inv (put_room (fst ?s) (snd ?s))"
    by (intro server_inv_put [OF assms] mbcp_room_ok) simp_all
  then show ?thesis using assms by (simp add: handle_mbcp_from_publish_def case_prod_beta)
qed

section \<open>Properties\<close>

text \<open>
  C18: The rewriters follow the floor: when in every push-to-talk room the speaker of the audio and of
  the video rewriter is the floor holder, the same is true after a floor request, release or ping over
  WebSocket, after a pass of the floor timer over all rooms, and after the MBCP messages of one RTCP packet,
  whoever sends them and whether the operation fails, grants, preempts, queues, revokes or hands over
  to the next in the queue.
\<close>

theorem rewriters_follow_floor:
  assumes "world_in_step w"
  shows "world_in_step (snd (handle_floor_request E u pid req w)) \<and>
    world_in_step (snd (handle_floor_release E u pid rid w)) \<and>
    world_in_step (snd (handle_floor_ping E u pid rid w)) \<and>
    world_in_step (floor_timer_tick E w) \<and>
    (dm_get (h_rooms (w_hub w)) x = Some room \<longrightarrow> world_in_step (handle_mbcp_from_publish E blocks sender room w))"
  using assms by (simp add: request_in_step release_in_step ping_in_step timer_in_step mbcp_in_step)

definition demo_ptt_room :: room where
  "demo_ptt_room = (room_new ''p'' ''n'' None Ptt 0 False 1 2)\<lparr> r_participants := [(''u'', 0), (''v'', 1)] \<rparr>"

definition demo_v :: "unit participant" where
  "demo_v = participant_new ''v'' ''p'' ''vpu'' ''vpp'' ''vsu'' ''vsp'' 1 1000"

definition demo_world :: "room \<Rightarrow> unit world" where
  "demo_world room = \<lparr> w_heap = [demo_p, demo_v],
     w_hub = \<lparr> h_rooms = [(''p'', room)], h_ufrag_index = [], h_addr_index = [] \<rparr>,
     w_metrics = (\<lambda>_. 0), w_ws = [], w_udp = [], w_bursts = [] \<rparr>"

lemma room_new_is_in_step: "in_step (room_new rid name cap mode at sim a v)"
  by (simp add: in_step_def rw_speakers_def room_new_def Let_def new_audio_def new_video_def ptt_new_def floor_new_def
      current_speaker_def)

lemma demo_world_in_step: "world_in_step (demo_world demo_ptt_room)"
proof -
  have "r_id demo_ptt_room = ''p''" by (simp add: demo_ptt_room_def room_new_def Let_def)
  moreover have "in_step demo_ptt_room"
    using room_new_is_in_step [of "''p''" "''n''" None Ptt 0 False 1 2]
    by (simp add: demo_ptt_room_def in_step_def rw_speakers_def)
  ultimately show ?thesis by (simp add: world_in_step_def demo_world_def)
qed

theorem rewriters_follow_floor_witness:
  "world_in_step (demo_world demo_ptt_room) \<and>
   world_in_step (snd (handle_floor_request demo_env ''u'' 7 (Some \<lparr> frm_room_id = ''p'', frm_priority = None \<rparr>)
     (demo_world demo_ptt_room)))"
  using demo_world_in_step rewriters_follow_floor [OF demo_world_in_step] by simp

end
