(* ===== verification/RoomOps.thy ===== *)
theory RoomOps
  imports FloorOps
begin

text \<open>
  The room handlers of \<open>signaling/handler/room_ops.rs\<close> with the track lists of \<open>helpers.rs\<close>, and the
  zombie reaper of \<open>tasks.rs\<close>. A session is the state of one WebSocket connection; its sender is the number of
  the connection. The admin snapshot that some handlers push has no effect on the state and is left out.
\<close>

section \<open>Sessions\<close>

record ws_session =
  s_user_id :: "user_id option"
  s_current_room :: "room_id option"
  s_pub_ufrag :: "string option"
  s_sub_ufrag :: "string option"
  s_server_pid :: u64
  s_ack_miss :: u64
  s_ws_tx :: nat

definition session_new :: "nat \<Rightarrow> ws_session" where
  "session_new ws_tx = \<lparr> s_user_id = None, s_current_room = None, s_pub_ufrag = None, s_sub_ufrag = None,
     s_server_pid = 1, s_ack_miss = 0, s_ws_tx = ws_tx \<rparr>"

definition next_pid :: "ws_session \<Rightarrow> u64 \<times> ws_session" where
  "next_pid s = (s_server_pid s, s\<lparr> s_server_pid := s_server_pid s + 1 \<rparr>)"

definition is_authenticated :: "ws_session \<Rightarrow> bool" where
  "is_authenticated s \<longleftrightarrow> s_user_id s \<noteq> None"

section \<open>Track lists\<close>

definition kind_string :: "track_kind \<Rightarrow> string" where
  "kind_string k = (case k of Audio \<Rightarrow> ''audio'' | Video \<Rightarrow> ''video'')"

definition mode_string :: "room_mode \<Rightarrow> string" where
  "mode_string m = (case m of Conference \<Rightarrow> ''conference'' | Ptt \<Rightarrow> ''ptt'')"

definition track_json :: "user_id \<Rightarrow> track \<Rightarrow> json" where
  "track_json user_id t =
     (let j = JObj [(''user_id'', JStr user_id), (''kind'', JStr (kind_string (t_kind t))), (''ssrc'', jnum (t_ssrc t)),
                    (''track_id'', JStr (t_track_id t))]
      in case t_rtx_ssrc t of Some rs \<Rightarrow> jset ''rtx_ssrc'' (jnum rs) j | None \<Rightarrow> j)"

definition hidden_layer :: "bool \<Rightarrow> track \<Rightarrow> bool" where
  "hidden_layer sim_enabled t \<longleftrightarrow> sim_enabled \<and> t_rid t = Some ''l''"

text \<open>
  The virtual SSRC replaces the SSRC of video tracks; the first use of a publisher's virtual SSRC draws
  it, so the function changes the world.
\<close>

definition virtual_ssrc_of :: "'f env \<Rightarrow> pref \<Rightarrow> 'f world \<Rightarrow> u32 \<times> 'f world" where
  "virtual_ssrc_of E r w =
     (fst (ensure_simulcast_video_ssrc (e_rnd E r) (part w r)),
      update_part r (\<lambda>p. snd (ensure_simulcast_video_ssrc (e_rnd E r) p)) w)"

fun simulcast_replace_loop :: "'f env \<Rightarrow> room \<Rightarrow> json list \<Rightarrow> 'f world \<Rightarrow> json list \<times> 'f world" where
  "simulcast_replace_loop E room [] w = ([], w)"
| "simulcast_replace_loop E room (t # ts) w =
     (let (t', w') =
        (if jstr (jget t ''kind'') \<noteq> Some ''video'' then (t, w)
         else (case jstr (jget t ''user_id'') of
                 None \<Rightarrow> (t, w)
               | Some user_id \<Rightarrow>
                   (case get_participant room user_id of
                      Some r \<Rightarrow> (case virtual_ssrc_of E r w of (vssrc, w1) \<Rightarrow> (jdel ''rid'' (jset ''ssrc'' (jnum vssrc) t), w1))
                    | None \<Rightarrow> (jdel ''rid'' t, w))));
          (ts', w'') = simulcast_replace_loop E room ts w'
      in (t' # ts', w''))"

definition simulcast_replace_video_ssrc :: "'f env \<Rightarrow> json list \<Rightarrow> room \<Rightarrow> 'f world \<Rightarrow> json list \<times> 'f world" where
  "simulcast_replace_video_ssrc E ts room w =
     (if \<not> r_simulcast_enabled room then (ts, w) else simulcast_replace_loop E room ts w)"

definition simulcast_replace_video_ssrc_direct :: "bool \<Rightarrow> u32 \<Rightarrow> json list \<Rightarrow> json list" where
  "simulcast_replace_video_ssrc_direct sim_enabled vssrc ts =
     (if \<not> sim_enabled \<or> vssrc = 0 then ts
      else map (\<lambda>t. if jstr (jget t ''kind'') \<noteq> Some ''video'' then t else jdel ''rid'' (jset ''ssrc'' (jnum vssrc) t)) ts)"

definition collect_subscribe_tracks :: "'f env \<Rightarrow> room \<Rightarrow> user_id \<Rightarrow> 'f world \<Rightarrow> json list \<times> 'f world" where
  "collect_subscribe_tracks E room exclude_user w =
     simulcast_replace_video_ssrc E
       (concat (map (\<lambda>r. map (track_json (p_user_id (part w r)))
                          (filter (\<lambda>t. \<not> hidden_layer (r_simulcast_enabled room) t) (p_tracks (part w r))))
                 (other_participants room exclude_user)))
       room w"

definition build_remove_tracks :: "track list \<Rightarrow> user_id \<Rightarrow> bool \<Rightarrow> u32 \<Rightarrow> json list" where
  "build_remove_tracks ts user_id sim_enabled vssrc =
     simulcast_replace_video_ssrc_direct sim_enabled vssrc
       (map (track_json user_id) (filter (\<lambda>t. \<not> hidden_layer sim_enabled t) ts))"

definition purge_subscribe_layers :: "room \<Rightarrow> user_id \<Rightarrow> 'f world \<Rightarrow> 'f world" where
  "purge_subscribe_layers room leaving_user w =
     fold (\<lambda>r. update_part r (\<lambda>p. p\<lparr> p_subscribe_layers := dm_remove leaving_user (p_subscribe_layers p) \<rparr>))
       (other_participants room leaving_user) w"

section \<open>Identification, listing and creation\<close>

text \<open>
  \<open>trim_empty\<close> is \<open>trim().is_empty()\<close> on the bytes of a UTF-8 string: nothing but Unicode white space;
  \<open>rnd\<close> is the random number of the generated name.
\<close>

fun blank :: "nat list \<Rightarrow> bool" where
  "blank [] = True"
| "blank (a # bs) =
     (if a = 32 \<or> (9 \<le> a \<and> a \<le> 13) then blank bs
      else (case bs of
              [] \<Rightarrow> False
            | b # cs \<Rightarrow>
                if a = 0xC2 \<and> (b = 0x85 \<or> b = 0xA0) then blank cs
                else (case cs of
                        [] \<Rightarrow> False
                      | c # ds \<Rightarrow>
                          ((a = 0xE1 \<and> b = 0x9A \<and> c = 0x80) \<or>
                           (a = 0xE2 \<and> b = 0x80 \<and> (0x80 \<le> c \<and> c \<le> 0x8A \<or> c = 0xA8 \<or> c = 0xA9 \<or> c = 0xAF)) \<or>
                           (a = 0xE2 \<and> b = 0x81 \<and> c = 0x9F) \<or>
                           (a = 0xE3 \<and> b = 0x80 \<and> c = 0x80)) \<and> blank ds)))"

definition trim_empty :: "string \<Rightarrow> bool" where
  "trim_empty s \<longleftrightarrow> blank (map of_char s)"

definition three_digits :: "nat \<Rightarrow> string" where
  "three_digits n = [char_of (48 + n div 100 mod 10), char_of (48 + n div 10 mod 10), char_of (48 + n mod 10)]"

definition handle_identify :: "u16 \<Rightarrow> u64 \<Rightarrow> identify_request option \<Rightarrow> ws_session \<Rightarrow> packet \<times> ws_session" where
  "handle_identify rnd pid req s =
     (case req of
        None \<Rightarrow> (packet_err IDENTIFY pid 3002 ''invalid payload'', s)
      | Some m \<Rightarrow>
          (let user_id = (case idr_user_id m of
                            Some i \<Rightarrow> if trim_empty i then ''U'' @ three_digits (unat rnd mod 1000) else i
                          | None \<Rightarrow> ''U'' @ three_digits (unat rnd mod 1000))
           in (packet_ok IDENTIFY pid (JObj [(''user_id'', JStr user_id)]), s\<lparr> s_user_id := Some user_id \<rparr>)))"

definition room_summary :: "room \<Rightarrow> (string \<times> json) list" where
  "room_summary room = [(''room_id'', JStr (r_id room)), (''name'', JStr (r_name room)),
     (''capacity'', JNum (int (r_capacity room))), (''mode'', JStr (mode_string (r_mode room)))]"

definition handle_room_list :: "u64 \<Rightarrow> 'f world \<Rightarrow> packet" where
  "handle_room_list pid w =
     packet_ok ROOM_LIST pid (JObj [(''rooms'',
       JArr (map (\<lambda>(rid, room). JObj (room_summary room @ [(''participants'', JNum (int (participant_count room)))]))
              (h_rooms (w_hub w))))])"

text \<open>\<open>uuid\<close>, \<open>a\<close> and \<open>v\<close> are the drawn room identifier and rewriter SSRCs.\<close>

definition handle_room_create ::
  "'f env \<Rightarrow> string \<Rightarrow> u32 \<Rightarrow> u32 \<Rightarrow> u64 \<Rightarrow> room_create_request option \<Rightarrow> 'f world \<Rightarrow> packet \<times> 'f world" where
  "handle_room_create E uuid a v pid req w =
     (case req of
        None \<Rightarrow> (packet_err ROOM_CREATE pid 3002 ''invalid payload'', w)
      | Some m \<Rightarrow>
          (let mode = to_config (case rcr_mode m of Some md \<Rightarrow> md | None \<Rightarrow> ConferenceField);
               simulcast = (case rcr_simulcast m of Some sc \<Rightarrow> sc | None \<Rightarrow> False);
               (room, hub') = hub_create uuid (rcr_name m) (rcr_capacity m) mode (e_now_ms E) simulcast a v (w_hub w)
           in (packet_ok ROOM_CREATE pid (JObj (room_summary room @ [(''simulcast'', JBool (r_simulcast_enabled room))])),
               w\<lparr> w_hub := hub' \<rparr>)))"

section \<open>Joining\<close>

fun error_string :: "light_error \<Rightarrow> string" where
  "error_string NotAuthenticated = ''[1001] not authenticated''"
| "error_string InvalidToken = ''[1002] invalid token''"
| "error_string AlreadyIdentified = ''[1003] already identified''"
| "error_string RoomNotFound = ''[2001] room not found''"
| "error_string RoomFull = ''[2002] room full''"
| "error_string AlreadyInRoom = ''[2003] already in room''"
| "error_string NotInRoom = ''[2004] not in room''"
| "error_string RoomNameRequired = ''[2005] room name required''"
| "error_string InvalidOpcode = ''[3001] invalid opcode''"
| "error_string InvalidPayload = ''[3002] invalid payload''"
| "error_string MissingPid = ''[3003] missing pid''"
| "error_string SdpParseError = ''[4001] sdp parse error''"
| "error_string DtlsHandshakeFailed = ''[4002] dtls handshake failed''"
| "error_string SrtpErr = ''[4003] srtp error''"
| "error_string (Internal msg) = ''[9001] internal error: '' @ msg"

record app_config =
  a_public_ip :: string
  a_udp_port :: u16
  a_fingerprint :: string
  a_bwe_mode :: bwe_mode
  a_max_bitrate :: u64

definition server_codec_policy :: json where
  "server_codec_policy = JArr
     [JObj [(''kind'', JStr ''audio''), (''name'', JStr ''opus''), (''pt'', JNum 111), (''clockrate'', JNum 48000),
        (''channels'', JNum 2), (''rtcp_fb'', JArr [JStr ''nack'']), (''fmtp'', JStr ''minptime=10;useinbandfec=1'')],
      JObj [(''kind'', JStr ''video''), (''name'', JStr ''VP8''), (''pt'', JNum 96), (''clockrate'', JNum 90000),
        (''rtx_pt'', JNum 97), (''rtcp_fb'', JArr [JStr ''nack'', JStr ''nack pli'', JStr ''ccm fir'', JStr ''goog-remb''])],
      JObj [(''kind'', JStr ''video''), (''name'', JStr ''H264''), (''pt'', JNum 102), (''clockrate'', JNum 90000),
        (''rtx_pt'', JNum 103), (''rtcp_fb'', JArr [JStr ''nack'', JStr ''nack pli'', JStr ''ccm fir'', JStr ''goog-remb'']),
        (''fmtp'', JStr ''level-asymmetry-allowed=1;packetization-mode=1;profile-level-id=42e01f'')]]"

definition extmap_entry :: "int \<Rightarrow> string \<Rightarrow> json" where
  "extmap_entry i uri = JObj [(''id'', JNum i), (''uri'', JStr uri)]"

definition server_extmap_policy :: "bwe_mode \<Rightarrow> bool \<Rightarrow> json" where
  "server_extmap_policy bwe simulcast_enabled = JArr
     ([extmap_entry 1 ''urn:ietf:params:rtp-hdrext:sdes:mid'',
       extmap_entry 4 ''urn:ietf:params:rtp-hdrext:ssrc-audio-level'',
       extmap_entry 5 ''http://www.webrtc.org/experiments/rtp-hdrext/abs-send-time''] @
      (if bwe = TwccMode
       then [extmap_entry 6 ''http://www.ietf.org/id/draft-holmer-rmcat-transport-wide-cc-extensions-01''] else []) @
      (if simulcast_enabled
       then [extmap_entry 10 ''urn:ietf:params:rtp-hdrext:sdes:rtp-stream-id'',
             extmap_entry 11 ''urn:ietf:params:rtp-hdrext:sdes:repaired-rtp-stream-id''] else []))"

definition floor_json :: "room \<Rightarrow> json" where
  "floor_json room = JObj
     [(''speaker'', jopt JStr (current_speaker (r_floor room))),
      (''speaker_priority'', jopt jnum (current_speaker_priority (r_floor room))),
      (''queue'', JArr (map (\<lambda>(uid, pri, pos). JObj [(''user_id'', JStr uid), (''priority'', jnum pri), (''position'', jnum pos)])
                         (queue_snapshot (r_floor room))))]"

text \<open>The content of a room that a handler holds, after the handler or another one has changed it.\<close>

definition current_room :: "room \<Rightarrow> 'f world \<Rightarrow> room" where
  "current_room room w = (case dm_get (h_rooms (w_hub w)) (r_id room) of Some room' \<Rightarrow> room' | None \<Rightarrow> room)"

definition join_response ::
  "app_config \<Rightarrow> ice_credentials \<Rightarrow> ice_credentials \<Rightarrow> room_id \<Rightarrow> room \<Rightarrow> json list \<Rightarrow> json" where
  "join_response cfg pub_ice sub_ice room_id room existing_tracks =
     JObj ([(''room_id'', JStr room_id), (''mode'', JStr (mode_string (r_mode room))),
       (''participants'', JArr (map JStr (member_ids room))),
       (''server_config'', JObj
          [(''ice'', JObj [(''publish_ufrag'', JStr (ice_ufrag pub_ice)), (''publish_pwd'', JStr (ice_pwd pub_ice)),
              (''subscribe_ufrag'', JStr (ice_ufrag sub_ice)), (''subscribe_pwd'', JStr (ice_pwd sub_ice)),
              (''ip'', JStr (a_public_ip cfg)), (''port'', jnum (a_udp_port cfg))]),
           (''dtls'', JObj [(''fingerprint'', JStr (a_fingerprint cfg)), (''setup'', JStr ''passive'')]),
           (''codecs'', server_codec_policy),
           (''extmap'', server_extmap_policy (a_bwe_mode cfg) (r_simulcast_enabled room)),
           (''max_bitrate_bps'', jnum (a_max_bitrate cfg))]),
       (''tracks'', JArr existing_tracks),
       (''simulcast'', JObj [(''enabled'', JBool (r_simulcast_enabled room))])] @
      (if r_mode room = Ptt
       then [(''ptt_virtual_ssrc'', JObj [(''audio'', jnum (virtual_ssrc (r_audio_rewriter room))),
                                          (''video'', jnum (virtual_ssrc (r_video_rewriter room)))]),
             (''floor'', floor_json room)]
       else []))"

definition handle_room_join ::
  "'f env \<Rightarrow> app_config \<Rightarrow> ice_credentials \<Rightarrow> ice_credentials \<Rightarrow> user_id \<Rightarrow> u64 \<Rightarrow> room_id option \<Rightarrow>
     ws_session \<Rightarrow> 'f world \<Rightarrow> packet \<times> ws_session \<times> 'f world" where
  "handle_room_join E cfg pub_ice sub_ice user_id pid req s w =
     (case req of
        None \<Rightarrow> (packet_err ROOM_JOIN pid 3002 ''invalid payload'', s, w)
      | Some room_id \<Rightarrow>
          (case hub_get (w_hub w) room_id of
             Inl _ \<Rightarrow> (packet_err ROOM_JOIN pid 2001 ''room not found'', s, w)
           | Inr room \<Rightarrow>
               (let p = participant_new user_id room_id (ice_ufrag pub_ice) (ice_pwd pub_ice) (ice_ufrag sub_ice) (ice_pwd sub_ice)
                          (s_ws_tx s) (e_now_ms E);
                    heap' = w_heap w @ [p]
                in case hub_add_participant heap' room_id (length (w_heap w)) (e_now_ms E) (w_hub w) of
                     Inl e \<Rightarrow> (packet_err ROOM_JOIN pid (error_code e) (error_string e), s, w)
                   | Inr hub' \<Rightarrow>
                       (let w1 = w\<lparr> w_heap := heap', w_hub := hub' \<rparr>;
                            s1 = s\<lparr> s_current_room := Some room_id, s_pub_ufrag := Some (ice_ufrag pub_ice),
                                    s_sub_ufrag := Some (ice_ufrag sub_ice) \<rparr>;
                            room' = current_room room w1;
                            w2 = purge_subscribe_layers room' user_id w1;
                            (existing_tracks, w3) = collect_subscribe_tracks E room' user_id w2;
                            w4 = broadcast_to_others room' user_id
                                   (packet_new ROOM_EVENT 0 (room_event_payload ''participant_joined'' room_id (Some user_id))) w3
                        in (packet_ok ROOM_JOIN pid (join_response cfg pub_ice sub_ice room_id room' existing_tracks), s1, w4)))))"

definition handle_room_sync :: "'f env \<Rightarrow> u64 \<Rightarrow> ws_session \<Rightarrow> 'f world \<Rightarrow> packet \<times> 'f world" where
  "handle_room_sync E pid s w =
     (case s_user_id s of
        None \<Rightarrow> (packet_err ROOM_SYNC pid 2003 ''not identified'', w)
      | Some user_id \<Rightarrow>
          (case s_current_room s of
             None \<Rightarrow> (packet_err ROOM_SYNC pid 2004 ''not in room'', w)
           | Some room_id \<Rightarrow>
               (case hub_get (w_hub w) room_id of
                  Inl _ \<Rightarrow> (packet_err ROOM_SYNC pid 2001 ''room not found'', w)
                | Inr room \<Rightarrow>
                    (let (ts, w1) =
                       (if r_mode room = Ptt then
                          ([JObj [(''kind'', JStr ''audio''), (''ssrc'', jnum (virtual_ssrc (r_audio_rewriter room))),
                                  (''track_id'', JStr ''ptt-audio''), (''virtual'', JBool True)],
                            JObj [(''kind'', JStr ''video''), (''ssrc'', jnum (virtual_ssrc (r_video_rewriter room))),
                                  (''track_id'', JStr ''ptt-video''), (''virtual'', JBool True)]], w)
                        else collect_subscribe_tracks E room user_id w)
                     in (packet_ok ROOM_SYNC pid (JObj
                           [(''room_id'', JStr room_id), (''mode'', JStr (mode_string (r_mode room))),
                            (''participants'', JArr (map JStr (member_ids room))), (''subscribe_tracks'', JArr ts),
                            (''floor'', floor_json room), (''total'', JNum (int (length (member_ids room))))]), w1)))))"

section \<open>Leaving\<close>

text \<open>The floor part of a leave, which \<open>handle_room_leave\<close> and \<open>cleanup\<close> share line by line.\<close>

definition leave_floor :: "'f env \<Rightarrow> user_id \<Rightarrow> room \<Rightarrow> 'f world \<Rightarrow> 'f world" where
  "leave_floor E user_id room w =
     (if r_mode room = Ptt then
        (let (floor', actions) = on_participant_leave user_id (e_now_ms E) (r_floor room);
             room1 = room\<lparr> r_floor := floor' \<rparr>
         in if actions \<noteq> [] then
              (let (_, room2, w2) = apply_floor_actions (e_instant E) FLOOR_RELEASE 0 actions user_id (room1, w);
                   (room3, w3) = flush_ptt_silence (e_instant E) (room2, w2)
               in put_room room3 w3)
            else put_room room1 w)
      else w)"

definition cancel_burst_of :: "room \<Rightarrow> user_id \<Rightarrow> 'f world \<Rightarrow> 'f world" where
  "cancel_burst_of room user_id w =
     (case get_participant room user_id of Some r \<Rightarrow> update_part r cancel_pli_burst w | None \<Rightarrow> w)"

definition tracks_removed :: "json list \<Rightarrow> packet" where
  "tracks_removed ts = packet_new TRACKS_UPDATE 0 (JObj [(''action'', JStr ''remove''), (''tracks'', JArr ts)])"

definition participant_left :: "room_id \<Rightarrow> user_id \<Rightarrow> packet" where
  "participant_left room_id user_id =
     packet_new ROOM_EVENT 0 (room_event_payload ''participant_left'' room_id (Some user_id))"

definition announce_leave :: "room_id \<Rightarrow> user_id \<Rightarrow> pref \<Rightarrow> 'f world \<Rightarrow> 'f world" where
  "announce_leave room_id user_id r w =
     (case hub_get (w_hub w) room_id of
        Inr room \<Rightarrow>
          (let wa = purge_subscribe_layers room user_id w;
               p = part wa r;
               remove_tracks = build_remove_tracks (p_tracks p) user_id (r_simulcast_enabled room) (p_simulcast_video_ssrc p);
               wb = (if remove_tracks \<noteq> [] then broadcast_to_room room (tracks_removed remove_tracks) wa else wa)
           in broadcast_to_room room (participant_left room_id user_id) wb)
      | Inl _ \<Rightarrow> w)"

definition handle_room_leave ::
  "'f env \<Rightarrow> user_id \<Rightarrow> u64 \<Rightarrow> room_id option \<Rightarrow> ws_session \<Rightarrow> 'f world \<Rightarrow> packet \<times> ws_session \<times> 'f world" where
  "handle_room_leave E user_id pid req s w =
     (case req of
        None \<Rightarrow> (packet_err ROOM_LEAVE pid 3002 ''invalid payload'', s, w)
      | Some room_id \<Rightarrow>
          (let w1 = (case hub_get (w_hub w) room_id of
                       Inr room \<Rightarrow> leave_floor E user_id room (cancel_burst_of room user_id w)
                     | Inl _ \<Rightarrow> w)
           in case hub_remove_participant (w_heap w1) room_id user_id (w_hub w1) of
                Inl e \<Rightarrow> (packet_err ROOM_LEAVE pid (error_code e) (error_string e), s, w1)
              | Inr (r, hub') \<Rightarrow>
                  (packet_ok ROOM_LEAVE pid (JObj []), s\<lparr> s_current_room := None, s_pub_ufrag := None, s_sub_ufrag := None \<rparr>,
                   announce_leave room_id user_id r (w1\<lparr> w_hub := hub' \<rparr>))))"

definition cleanup_room :: "'f env \<Rightarrow> room_id \<Rightarrow> user_id \<Rightarrow> 'f world \<Rightarrow> 'f world" where
  "cleanup_room E room_id user_id w =
     (case hub_get (w_hub w) room_id of
        Inl _ \<Rightarrow> w
      | Inr room \<Rightarrow>
          (let (ts, sim_vssrc) = (case get_participant room user_id of
                                    Some r \<Rightarrow> (p_tracks (part w r), p_simulcast_video_ssrc (part w r))
                                  | None \<Rightarrow> ([], 0));
               wa = leave_floor E user_id room (cancel_burst_of room user_id w);
               wb = purge_subscribe_layers room user_id wa;
               remove_tracks = build_remove_tracks ts user_id (r_simulcast_enabled room) sim_vssrc;
               wc = (if remove_tracks \<noteq> [] then broadcast_to_others room user_id (tracks_removed remove_tracks) wb
                     else wb)
           in broadcast_to_others room user_id (participant_left room_id user_id) wc))"

definition cleanup :: "'f env \<Rightarrow> ws_session \<Rightarrow> 'f world \<Rightarrow> 'f world" where
  "cleanup E s w =
     (case (s_current_room s, s_user_id s) of
        (Some room_id, Some user_id) \<Rightarrow>
          (let w1 = cleanup_room E room_id user_id w
           in case hub_remove_participant (w_heap w1) room_id user_id (w_hub w1) of
                Inr (r, hub') \<Rightarrow> w1\<lparr> w_hub := hub' \<rparr>
              | Inl _ \<Rightarrow> w1)
      | _ \<Rightarrow> w)"

definition handle_message :: "string \<Rightarrow> user_id \<Rightarrow> u64 \<Rightarrow> message_request option \<Rightarrow> 'f world \<Rightarrow> packet \<times> 'f world" where
  "handle_message msg_id user_id pid req w =
     (case req of
        None \<Rightarrow> (packet_err MESSAGE pid 3002 ''invalid payload'', w)
      | Some m \<Rightarrow>
          (packet_ok MESSAGE pid (JObj [(''msg_id'', JStr msg_id)]),
           (case hub_get (w_hub w) (mr_room_id m) of
              Inr room \<Rightarrow>
                broadcast_to_others room user_id
                  (packet_new MESSAGE_EVENT 0 (JObj [(''room_id'', JStr (mr_room_id m)), (''user_id'', JStr user_id),
                     (''content'', JStr (mr_content m))])) w
            | Inl _ \<Rightarrow> w)))"

section \<open>The zombie reaper\<close>

definition announce_zombie :: "room_id \<times> pref \<Rightarrow> 'f world \<Rightarrow> 'f world" where
  "announce_zombie z w =
     (case z of (room_id, r) \<Rightarrow>
        (let w1 = update_part r cancel_pli_burst w
         in case hub_get (w_hub w1) room_id of
              Inl _ \<Rightarrow> w1
            | Inr room \<Rightarrow>
                (let p = part w1 r;
                     remove_tracks = build_remove_tracks (p_tracks p) (p_user_id p) (r_simulcast_enabled room) 0;
                     w2 = (if remove_tracks \<noteq> [] then broadcast_to_room room (tracks_removed remove_tracks) w1 else w1)
                 in broadcast_to_room room (participant_left room_id (p_user_id p)) w2)))"

definition zombie_reaper_tick :: "'f env \<Rightarrow> 'f world \<Rightarrow> 'f world" where
  "zombie_reaper_tick E w =
     (case reap_zombies (w_heap w) (e_now_ms E) ZOMBIE_TIMEOUT_MS (w_hub w) of
        (reaped, hub') \<Rightarrow> fold announce_zombie reaped (w\<lparr> w_hub := hub' \<rparr>))"

section \<open>What the handlers keep\<close>

text \<open>Operations on the hub move participants; floors, rewriters and modes stay with their rooms.\<close>

definition same_core :: "room \<Rightarrow> room \<Rightarrow> bool" where
  "same_core room room' \<longleftrightarrow> r_id room' = r_id room \<and> r_mode room' = r_mode room \<and> r_floor room' = r_floor room \<and>
     r_audio_rewriter room' = r_audio_rewriter room \<and> r_video_rewriter room' = r_video_rewriter room \<and>
     r_simulcast_enabled room' = r_simulcast_enabled room"

definition rooms_from :: "hub \<Rightarrow> hub \<Rightarrow> bool" where
  "rooms_from hub hub' \<longleftrightarrow> (\<forall>rid room'. dm_get (h_rooms hub') rid = Some room' \<longrightarrow>
     (\<exists>room. dm_get (h_rooms hub) rid = Some room \<and> same_core room room'))"

lemma same_core_refl [simp]: "same_core room room"
  by (simp add: same_core_def)

lemma rooms_from_refl [simp]: "rooms_from hub hub"
  by (auto simp: rooms_from_def)

lemma rooms_from_trans:
  assumes "rooms_from a b" "rooms_from b c"
  shows "rooms_from a c"
proof -
  have "same_core x z" if "same_core x y" "same_core y z" for x y z using that by (simp add: same_core_def)
  then show ?thesis using assms unfolding rooms_from_def by blast
qed

lemma rooms_from_insert:
  "h_rooms hub' = dm_insert rid room' (h_rooms hub) \<Longrightarrow> dm_get (h_rooms hub) rid = Some room \<Longrightarrow> same_core room room' \<Longrightarrow>
     rooms_from hub hub'"
  by (auto simp: rooms_from_def)

lemma rooms_from_add:
  assumes "hub_add_participant heap rid r now hub = Inr hub'"
  shows "rooms_from hub hub'"
  using assms
  by (rule hub_add_simps)
     (erule rooms_from_insert, assumption, auto simp: same_core_def room_add_participant_def Let_def split: if_splits)

lemma rooms_from_remove:
  assumes "hub_remove_participant heap rid uid hub = Inr (r, hub')"
  shows "rooms_from hub hub'"
  using assms
  by (rule hub_remove_simps)
     (erule rooms_from_insert, assumption, auto simp: same_core_def room_remove_participant_def Let_def split: option.splits)

lemma rooms_from_reap_users: "rooms_from hub (snd (reap_users heap rid us hub))"
proof (induction us arbitrary: hub)
  case (Cons u us)
  show ?case
  proof (cases "hub_remove_participant heap rid u hub")
    case (Inr x)
    then show ?thesis using rooms_from_trans [OF rooms_from_remove Cons] by (cases x) (auto simp: case_prod_beta)
  qed (simp add: Cons)
qed simp

lemma rooms_from_reap: "rooms_from hub (snd (reap_zombies heap now tmo hub))"
proof -
  have "rooms_from hub (snd (reap_rooms heap now tmo ids hub))" for ids
    by (induction ids arbitrary: hub)
       (auto simp: Let_def case_prod_beta split: option.split intro: rooms_from_trans [OF rooms_from_reap_users])
  then show ?thesis by (simp add: reap_zombies_def)
qed

lemma server_inv_hub:
  assumes "server_inv w" "rooms_from (w_hub w) hub'" "hub_inv heap' hub'" "\<And>p. p \<in> set heap' \<Longrightarrow> part_ok p"
  shows "server_inv (w\<lparr> w_heap := heap', w_hub := hub' \<rparr>)"
proof -
  have "floor_inv default_floor_config (r_floor room') \<and> room_ok room'" if room': "dm_get (h_rooms hub') rid = Some room'" for rid room'
  proof -
    obtain room where room: "dm_get (h_rooms (w_hub w)) rid = Some room" "same_core room room'"
      using assms(2) room' by (auto simp: rooms_from_def)
    then show ?thesis using server_invD(3,5) [OF assms(1) room(1)] by (simp add: same_core_def room_ok_def rw_speakers_def)
  qed
  then show ?thesis using assms by (simp add: server_inv_def)
qed

lemma server_inv_same_heap:
  assumes "server_inv w" "rooms_from (w_hub w) hub'" "hub_inv (w_heap w) hub'"
  shows "server_inv (w\<lparr> w_hub := hub' \<rparr>)"
  using server_inv_hub [OF assms] assms(1) by (simp add: server_inv_def)

lemma in_step_hub:
  assumes "world_in_step w" "rooms_from (w_hub w) (w_hub w')"
  shows "world_in_step w'"
proof -
  have "in_step room' \<longleftrightarrow> in_step room" if "same_core room room'" for room room'
    using that by (simp add: in_step_def rw_speakers_def same_core_def)
  then show ?thesis using assms unfolding world_in_step_def rooms_from_def same_core_def by metis
qed

lemma world_le_rooms [world_le_intros]:
  "world_le w (purge_subscribe_layers room u w)" "world_le w (cancel_burst_of room u w)"
  "world_le w (snd (virtual_ssrc_of E r w))" "world_le w (announce_zombie z w)"
  by (auto simp: purge_subscribe_layers_def cancel_burst_of_def virtual_ssrc_of_def announce_zombie_def Let_def
      intro!: world_le_fold world_le_part world_le_intros split: option.split sum.split prod.split)

lemma world_le_replace [world_le_intros]: "world_le w (snd (simulcast_replace_loop E room ts w))"
proof (induction ts arbitrary: w)
  case (Cons t ts)
  have "world_le w (snd (case virtual_ssrc_of E r w of (v, w1) \<Rightarrow> (f v, w1)))" for r f
    using world_le_rooms(3) by (simp add: case_prod_beta)
  then show ?case
    by (auto simp: case_prod_beta Let_def intro: Cons world_le_trans [OF _ Cons] split: option.split)
qed simp

lemma world_le_collect [world_le_intros]: "world_le w (snd (collect_subscribe_tracks E room u w))"
  by (simp add: collect_subscribe_tracks_def simulcast_replace_video_ssrc_def world_le_intros)

subsection \<open>The handlers\<close>

lemma leave_floor_le:
  assumes "dm_get (h_rooms (w_hub w)) (r_id room) = Some room"
  shows "world_le w (leave_floor E u room w)"
proof -
  obtain fl acts where lv: "on_participant_leave u (e_now_ms E) (r_floor room) = (fl, acts)" by fastforce
  let ?s = "apply_floor_actions (e_instant E) FLOOR_RELEASE 0 acts u (room\<lparr> r_floor := fl \<rparr>, w)"
  let ?t = "flush_ptt_silence (e_instant E) (snd ?s)"
  have keep: "rw_le (room, w) (room\<lparr> r_floor := fl \<rparr>, w)"
    by (rule rw_le_floor_step [OF _ rw_le_refl])
       (use leave_inv [of default_floor_config "r_floor room" u "e_now_ms E"] lv in simp)
  have "rw_le (room\<lparr> r_floor := fl \<rparr>, w) (snd ?s)"
    unfolding apply_floor_actions_def by (rule rw_le_folds(6) [of "(_, _)", unfolded snd_conv])
  then have "rw_le (room, w) ?t" by (rule rw_le_trans [OF rw_le_trans [OF keep] rw_le_flush])
  then have le: "room_le room (fst ?t)" "world_le w (snd ?t)" by (simp_all add: rw_le_def)
  have flushed: "fst ?t = clear_rewriters (e_instant E) (fst (snd ?s))" by (cases "snd ?s") (simp add: flush_ptt_silence_room)
  have ok: "if acts \<noteq> [] then room_ok (fst ?t) else room_ok (room\<lparr> r_floor := fl \<rparr>)" if "room_ok room"
    using lv that unfolding flushed
    by (cases rule: leave_shape) (auto simp: room_ok_def apply_floor_actions_def action_effects)
  show ?thesis
  proof (cases "acts = []")
    case True
    then have "world_le w (put_room (room\<lparr> r_floor := fl \<rparr>) w)"
      using ok keep by (intro world_le_put_room [OF assms]) (simp_all add: rw_le_def)
    then show ?thesis by (simp add: leave_floor_def lv Let_def True)
  next
    case False
    then have "world_le w (put_room (fst ?t) (snd ?t))" using ok by (intro world_le_put_room [OF assms le(2,1)]) simp
    then show ?thesis by (simp add: leave_floor_def lv Let_def case_prod_beta False)
  qed
qed

lemma hub_remove_server_inv:
  assumes w: "server_inv w" and rem: "hub_remove_participant (w_heap w) rid u (w_hub w) = Inr (r, hub')"
  shows "server_inv (w\<lparr> w_hub := hub' \<rparr>)"
  by (rule server_inv_same_heap [OF w rooms_from_remove [OF rem] hub_remove_inv [OF server_invD(1) [OF w] rem]])

lemma hub_get_room:
  "server_inv w \<Longrightarrow> hub_get (w_hub w) rid = Inr room \<Longrightarrow> dm_get (h_rooms (w_hub w)) (r_id room) = Some room"
  using server_invD(4) [of w rid room] by (simp add: hub_get_eq)

lemma cancel_burst_hub [simp]: "w_hub (cancel_burst_of room u w) = w_hub w"
  by (simp add: cancel_burst_of_def split: option.split)

lemma leave_prefix_le:
  assumes "server_inv w" "hub_get (w_hub w) rid = Inr room"
  shows "world_le w (leave_floor E u room (cancel_burst_of room u w))"
  by (rule world_le_trans [OF world_le_rooms(2) leave_floor_le]) (use hub_get_room [OF assms] in simp)

lemma room_leave_server_inv:
  assumes w: "server_inv w"
  shows "server_inv (snd (snd (handle_room_leave E u pid req s w)))"
proof (cases req)
  case (Some rid)
  let ?w1 = "case hub_get (w_hub w) rid of Inr room \<Rightarrow> leave_floor E u room (cancel_burst_of room u w) | Inl _ \<Rightarrow> w"
  have w1: "server_inv ?w1" using w by (auto split: sum.split intro: server_inv_le leave_prefix_le)
  show ?thesis
  proof (cases "hub_remove_participant (w_heap ?w1) rid u (w_hub ?w1)")
    case (Inr x)
    then obtain r hub' where rem: "hub_remove_participant (w_heap ?w1) rid u (w_hub ?w1) = Inr (r, hub')" by (cases x) auto
    have "server_inv (?w1\<lparr> w_hub := hub' \<rparr>)" by (rule hub_remove_server_inv [OF w1 rem])
    then show ?thesis
      by (auto simp: handle_room_leave_def announce_leave_def Some rem Let_def split: sum.split
          intro!: world_le_intros elim!: server_inv_le)
  qed (use w1 in \<open>simp add: handle_room_leave_def Some Let_def\<close>)
qed (use w in \<open>simp add: handle_room_leave_def\<close>)

lemma cleanup_room_le:
  assumes "server_inv w"
  shows "world_le w (cleanup_room E rid u w)"
  by (auto simp: cleanup_room_def Let_def case_prod_beta split: sum.split
      intro!: world_le_intros intro: world_le_trans [OF leave_prefix_le [OF assms] world_le_rooms(1)])

lemma cleanup_server_inv:
  assumes w: "server_inv w"
  shows "server_inv (cleanup E s w)"
proof -
  have "server_inv (cleanup_room E rid u w)" for rid u using w cleanup_room_le [OF w] by (rule server_inv_le)
  then show ?thesis using w
    by (auto simp: cleanup_def Let_def split: option.split sum.split intro: hub_remove_server_inv)
qed

lemma reaper_server_inv:
  assumes w: "server_inv w"
  shows "server_inv (zombie_reaper_tick E w)"
proof -
  have "hub_inv (w_heap w) (snd (reap_zombies (w_heap w) now tmo (w_hub w)))" for now tmo
    using reap_rooms_inv [OF server_invD(1) [OF w]] by (simp add: reap_zombies_def)
  then have "server_inv (w\<lparr> w_hub := snd (reap_zombies (w_heap w) now tmo (w_hub w)) \<rparr>)" for now tmo
    by (intro server_inv_same_heap [OF w rooms_from_reap])
  then show ?thesis
    by (auto simp: zombie_reaper_tick_def case_prod_beta intro!: server_inv_le [OF _ world_le_fold] world_le_intros)
qed

lemma other_server_inv:
  assumes w: "server_inv w"
  shows "server_inv (snd (handle_room_sync E pid s w))" and "server_inv (snd (handle_message mid u pid req w))"
proof -
  show "server_inv (snd (handle_room_sync E pid s w))" using w
    by (auto simp: handle_room_sync_def case_prod_beta split: option.split sum.split
        intro: world_le_intros server_inv_le)
  show "server_inv (snd (handle_message mid u pid req w))" using w
    by (auto simp: handle_message_def split: option.split sum.split intro: world_le_intros server_inv_le)
qed

lemma hub_create_server_inv:
  assumes w: "server_inv w" and fresh: "dm_get (h_rooms (w_hub w)) uuid = None"
  shows "server_inv (w\<lparr> w_hub := snd (hub_create uuid name cap mode at sim a v (w_hub w)) \<rparr>)"
proof -
  have "hub_inv (w_heap w) (snd (hub_create uuid name cap mode at sim a v (w_hub w)))"
    using server_invD(1) [OF w] fresh by (rule hub_create_inv)
  moreover have "room_ok (room_new uuid name cap mode at sim a v)"
    using room_new_is_in_step [of uuid name cap mode at sim a v] by (auto simp: room_ok_def in_step_def room_new_def Let_def)
  moreover have "r_floor (room_new uuid name cap mode at sim a v) = floor_new" by (simp add: room_new_def Let_def)
  ultimately show ?thesis using w floor_new_inv [of default_floor_config]
    by (auto simp: server_inv_def hub_create_def Let_def)
qed

lemma create_server_inv:
  assumes w: "server_inv w" and fresh: "dm_get (h_rooms (w_hub w)) uuid = None"
  shows "server_inv (snd (handle_room_create E uuid a v pid req w))"
  using w hub_create_server_inv [OF assms] by (auto simp: handle_room_create_def Let_def case_prod_beta split: option.split)

lemma part_ok_new: "part_ok (participant_new uid rid pu pp su sp tx at)"
  by (simp add: part_ok_def tracks_ok_def participant_new_def cache_new_def)

text \<open>The random ufrags of a join have to be new.\<close>

definition fresh_ufrags :: "ice_credentials \<Rightarrow> ice_credentials \<Rightarrow> 'f world \<Rightarrow> bool" where
  "fresh_ufrags pub_ice sub_ice w \<longleftrightarrow> ice_ufrag pub_ice \<noteq> ice_ufrag sub_ice \<and>
     dm_get (h_ufrag_index (w_hub w)) (ice_ufrag pub_ice) = None \<and> dm_get (h_ufrag_index (w_hub w)) (ice_ufrag sub_ice) = None"

lemma participant_new_simps [simp]:
  "p_user_id (participant_new uid rid pu pp su sp tx at) = uid" "p_room_id (participant_new uid rid pu pp su sp tx at) = rid"
  "ms_ufrag (p_publish (participant_new uid rid pu pp su sp tx at)) = pu"
  "ms_ufrag (p_subscribe (participant_new uid rid pu pp su sp tx at)) = su"
  "p_ws_tx (participant_new uid rid pu pp su sp tx at) = tx"
  by (simp_all add: participant_new_def)

lemma join_server_inv:
  assumes w: "server_inv w" and new: "fresh_ufrags pub_ice sub_ice w"
  shows "server_inv (snd (snd (handle_room_join E cfg pub_ice sub_ice u pid req s w)))"
proof -
  have "server_inv (w\<lparr> w_heap := w_heap w @ [p], w_hub := hub' \<rparr>)"
    if p: "p = participant_new u rid (ice_ufrag pub_ice) pp (ice_ufrag sub_ice) sp tx at"
      and add: "hub_add_participant (w_heap w @ [p]) rid (length (w_heap w)) now (w_hub w) = Inr hub'" for rid p pp sp tx at now hub'
  proof (rule server_inv_hub [OF w rooms_from_add [OF add]])
    have "hub_inv (w_heap w @ [p]) (w_hub w)" by (rule hub_inv_heap [OF server_invD(1) [OF w] same_heap_append])
    then show "hub_inv (w_heap w @ [p]) hub'"
      by (rule hub_add_inv [OF _ _ add]) (use new in \<open>simp add: can_join_def p fresh_ufrags_def\<close>)
    show "part_ok q" if "q \<in> set (w_heap w @ [p])" for q
      using that w by (auto simp: server_inv_def p part_ok_new)
  qed
  note add = this [OF refl]
  have "world_le w1 (broadcast_to_others room x pkt (snd (collect_subscribe_tracks E room u (purge_subscribe_layers room u w1))))"
    for room x pkt and w1 :: "'a world"
    by (intro world_le_steps(3) world_le_trans [OF world_le_rooms(1) world_le_collect])
  then show ?thesis using w
    by (auto simp: handle_room_join_def Let_def case_prod_beta split: option.split sum.split dest!: add intro: server_inv_le)
qed

subsection \<open>A leave and the rewriters\<close>

text \<open>The leaving user holds the floor and someone else waits for it.\<close>

definition hands_over :: "user_id \<Rightarrow> room \<Rightarrow> bool" where
  "hands_over u room \<longleftrightarrow> r_mode room = Ptt \<and> current_speaker (r_floor room) = Some u \<and>
     (\<exists>e\<in>set (f_queue (r_floor room)). q_user e \<noteq> u)"

definition deaf :: "room \<Rightarrow> bool" where
  "deaf room \<longleftrightarrow> r_mode room = Ptt \<and> current_speaker (r_floor room) \<noteq> None \<and> rw_speakers room = (None, None)"

lemma deaf_not_in_step: "deaf room \<Longrightarrow> \<not> in_step room"
  by (auto simp: deaf_def in_step_def)

lemma leave_hands_over:
  assumes "on_participant_leave u clock (r_floor room) = (fl, acts)" "r_mode room = Ptt"
  shows "hands_over u room \<longleftrightarrow> (\<exists>v q d. acts = [Released u, Granted v q d] \<and> current_speaker fl = Some v)"
  using assms(2,1) unfolding hands_over_def on_participant_leave_def Let_def
  by (cases "filter (\<lambda>e. q_user e \<noteq> u) (f_queue (r_floor room))")
     (auto simp: vacate_simps current_speaker_def filter_empty_conv filter_eq_Cons_iff split: floor_state.splits if_splits)

lemma leave_floor_hub:
  assumes room: "dm_get (h_rooms (w_hub w)) rid = Some room" and rid: "r_id room = rid" and step: "r_mode room = Ptt \<Longrightarrow> in_step room"
  obtains room' where "dm_get (h_rooms (w_hub (leave_floor E u room w))) rid = Some room'" "r_mode room' = r_mode room" "r_id room' = rid"
    "\<And>x. x \<noteq> rid \<Longrightarrow> dm_get (h_rooms (w_hub (leave_floor E u room w))) x = dm_get (h_rooms (w_hub w)) x"
    "if hands_over u room then deaf room' else r_mode room' = Ptt \<longrightarrow> in_step room'"
proof (cases "r_mode room = Ptt")
  case True
  obtain fl acts where lv: "on_participant_leave u (e_now_ms E) (r_floor room) = (fl, acts)" by fastforce
  let ?s = "apply_floor_actions (e_instant E) FLOOR_RELEASE 0 acts u (room\<lparr> r_floor := fl \<rparr>, w)"
  let ?r = "if acts \<noteq> [] then clear_rewriters (e_instant E) (fst (snd ?s)) else room\<lparr> r_floor := fl \<rparr>"
  let ?lw = "leave_floor E u room w"
  have "r_id ?r = rid \<and> r_mode ?r = Ptt \<and> w_hub (snd (snd ?s)) = w_hub w \<and>
      (if hands_over u room then deaf ?r else r_mode ?r = Ptt \<longrightarrow> in_step ?r)"
    using lv step True rid unfolding leave_hands_over [OF lv True]
    by (cases rule: leave_shape) (auto simp: apply_floor_actions_def action_effects in_step_def deaf_def)
  moreover have "w_hub (snd (snd ?s)) = w_hub w \<Longrightarrow> r_id ?r = rid \<Longrightarrow> h_rooms (w_hub ?lw) = dm_insert rid ?r (h_rooms (w_hub w))"
    using True rid by (cases "snd ?s") (auto simp: leave_floor_def lv Let_def case_prod_beta flush_ptt_silence_room split: if_splits)
  ultimately show ?thesis using True by (intro that [of ?r]) (auto simp del: hub_flush)
next
  case False
  then show ?thesis using room rid step by (intro that [of room]) (auto simp: leave_floor_def hands_over_def)
qed

lemma leave_floor_in_step:
  assumes w: "world_in_step w"
  shows "case hub_get (w_hub w) rid of
      Inr room \<Rightarrow> (if hands_over u room then
                   (\<exists>room'. dm_get (h_rooms (w_hub (leave_floor E u room (cancel_burst_of room u w)))) rid = Some room' \<and> deaf room')
                 else world_in_step (leave_floor E u room (cancel_burst_of room u w)))
    | Inl _ \<Rightarrow> True"
proof (cases "hub_get (w_hub w) rid")
  case (Inr room)
  let ?w = "cancel_burst_of room u w"
  have "dm_get (h_rooms (w_hub ?w)) rid = Some room" "r_id room = rid" "r_mode room = Ptt \<Longrightarrow> in_step room"
    using Inr w by (auto simp: hub_get_eq world_in_step_def)
  then obtain room' where r: "dm_get (h_rooms (w_hub (leave_floor E u room ?w))) rid = Some room'" "r_mode room' = r_mode room"
    "r_id room' = rid" "\<And>x. x \<noteq> rid \<Longrightarrow> dm_get (h_rooms (w_hub (leave_floor E u room ?w))) x = dm_get (h_rooms (w_hub ?w)) x"
    "if hands_over u room then deaf room' else r_mode room' = Ptt \<longrightarrow> in_step room'"
    by (rule leave_floor_hub) (assumption | rule)+
  have "world_in_step (leave_floor E u room ?w)" if "\<not> hands_over u room"
    unfolding world_in_step_def
  proof (intro allI impI)
    fix x y assume "dm_get (h_rooms (w_hub (leave_floor E u room ?w))) x = Some y"
    then show "r_id y = x \<and> (r_mode y = Ptt \<longrightarrow> in_step y)"
      using r that w by (cases "x = rid") (auto simp: world_in_step_def)
  qed
  then show ?thesis using r by (auto simp: Inr)
qed simp

lemma remove_keeps_deaf:
  assumes "hub_remove_participant heap rid u hub = Inr (r, hub')" "dm_get (h_rooms hub) x = Some room" "deaf room"
  shows "\<exists>room'. dm_get (h_rooms hub') x = Some room' \<and> deaf room'"
  using assms(1) by (rule hub_remove_simps)
    (use assms(2,3) in \<open>auto simp: deaf_def rw_speakers_def room_remove_participant_def Let_def split: option.splits\<close>)

lemma hub_purge [simp]: "w_hub (purge_subscribe_layers room u w) = w_hub w"
  by (simp add: purge_subscribe_layers_def fold_frame)

abbreviation floor_left :: "'f env \<Rightarrow> room_id \<Rightarrow> user_id \<Rightarrow> 'f world \<Rightarrow> 'f world" where
  "floor_left E rid u w \<equiv> (case hub_get (w_hub w) rid of
     Inr room \<Rightarrow> leave_floor E u room (cancel_burst_of room u w) | Inl _ \<Rightarrow> w)"

lemma hub_after_leave:
  "w_hub (snd (snd (handle_room_leave E u pid (Some rid) s w))) =
     (case hub_remove_participant (w_heap (floor_left E rid u w)) rid u (w_hub (floor_left E rid u w)) of
        Inr (r, hub') \<Rightarrow> hub' | Inl _ \<Rightarrow> w_hub (floor_left E rid u w))"
  "w_hub (cleanup_room E rid u w) = w_hub (floor_left E rid u w)"
  by (auto simp: handle_room_leave_def announce_leave_def cleanup_room_def Let_def case_prod_beta split: sum.split)

lemma in_step_after_remove:
  fixes w w1 w2 :: "'f world"
  assumes w: "world_in_step w" and w1: "w_hub w1 = w_hub (floor_left E rid u w)"
    and w2: "w_hub w2 = (case hub_remove_participant heap rid u (w_hub w1) of Inr (r, hub') \<Rightarrow> hub' | Inl _ \<Rightarrow> w_hub w1)"
  shows "if \<exists>room. dm_get (h_rooms (w_hub w)) rid = Some room \<and> hands_over u room
    then \<exists>room'. dm_get (h_rooms (w_hub w2)) rid = Some room' \<and> deaf room' else world_in_step w2"
proof -
  have keep: "rooms_from (w_hub w1) (w_hub w2)"
    by (auto simp: w2 split: sum.split intro: rooms_from_remove)
  show ?thesis
  proof (cases "hub_get (w_hub w) rid")
    case (Inl e)
    have "world_in_step w1" using w by (simp add: world_in_step_def w1 Inl)
    then show ?thesis using in_step_hub [OF _ keep] Inl by (auto simp: hub_get_def split: option.splits)
  next
    case (Inr room)
    let ?l = "leave_floor E u room (cancel_burst_of room u w)"
    have l: "if hands_over u room then \<exists>room'. dm_get (h_rooms (w_hub ?l)) rid = Some room' \<and> deaf room' else world_in_step ?l"
      using leave_floor_in_step [OF w, of u E rid] by (simp add: Inr)
    have hub: "w_hub w1 = w_hub ?l" by (simp add: w1 Inr)
    have "\<exists>room'. dm_get (h_rooms (w_hub w2)) rid = Some room' \<and> deaf room'" if "hands_over u room"
      using l that remove_keeps_deaf by (auto simp: w2 hub split: sum.split)
    moreover have "world_in_step w2" if "\<not> hands_over u room"
      using l that in_step_hub [of ?l w2] keep hub by simp
    ultimately show ?thesis using Inr by (auto simp: hub_get_eq)
  qed
qed

subsection \<open>A join\<close>

lemma filter_dm_insert: "dm_get m k = None \<Longrightarrow> filter (\<lambda>e. fst e \<noteq> k) (dm_insert k v m) = m"
proof (induction m)
  case (Cons e m)
  then show ?case by (cases e) (auto split: if_splits)
qed simp

lemma ws_purge [simp]: "w_ws (purge_subscribe_layers room u w) = w_ws w"
  by (simp add: purge_subscribe_layers_def fold_frame)

lemma map_update_part:
  "(\<And>p. f (g p) = f p) \<Longrightarrow> map f (w_heap (update_part r g w)) = map f (w_heap w)"
  by (cases "r < length (w_heap w)") (simp_all add: map_update list_update_same_conv list_update_beyond)

lemma map_purge: 
  "(\<And>p ls. f (p\<lparr> p_subscribe_layers := ls \<rparr>) = f p) \<Longrightarrow> map f (w_heap (purge_subscribe_layers room u w)) = map f (w_heap w)"
  unfolding purge_subscribe_layers_def by (rule fold_frame) (rule map_update_part)

lemma collect_frame:
  "w_hub (snd (collect_subscribe_tracks E room u w)) = w_hub w"
  "w_ws (snd (collect_subscribe_tracks E room u w)) = w_ws w"
  "(\<And>p v. f (p\<lparr> p_simulcast_video_ssrc := v \<rparr>) = f p) \<Longrightarrow>
     map f (w_heap (snd (collect_subscribe_tracks E room u w))) = map f (w_heap w)"
proof -
  have "w_hub (snd (simulcast_replace_loop E room ts w)) = w_hub w \<and> w_ws (snd (simulcast_replace_loop E room ts w)) = w_ws w"
    for ts and w :: "'a world"
    by (induction ts arbitrary: w) (auto simp: case_prod_beta Let_def virtual_ssrc_of_def split: option.split)
  moreover have "map f (w_heap (snd (simulcast_replace_loop E room ts w))) = map f (w_heap w)"
    if f: "\<And>p v. f (p\<lparr> p_simulcast_video_ssrc := v \<rparr>) = f p" for ts and w :: "'a world"
  proof -
    have "f (snd (ensure_simulcast_video_ssrc x p)) = f p" for x p by (simp add: ensure_simulcast_video_ssrc_def f Let_def)
    then have "map f (w_heap (snd (virtual_ssrc_of E r w))) = map f (w_heap w)" for r and w :: "'a world"
      unfolding virtual_ssrc_of_def snd_conv by (rule map_update_part)
    then show ?thesis by (induction ts arbitrary: w) (auto simp: case_prod_beta Let_def split: option.split)
  qed
  ultimately show "w_hub (snd (collect_subscribe_tracks E room u w)) = w_hub w"
    "w_ws (snd (collect_subscribe_tracks E room u w)) = w_ws w"
    "(\<And>p v. f (p\<lparr> p_simulcast_video_ssrc := v \<rparr>) = f p) \<Longrightarrow>
       map f (w_heap (snd (collect_subscribe_tracks E room u w))) = map f (w_heap w)"
    by (simp_all add: collect_subscribe_tracks_def simulcast_replace_video_ssrc_def)
qed

lemma join_success:
  fixes w :: "'f world" and E :: "'f env" and pkt :: packet
  assumes w: "server_inv w" and new: "fresh_ufrags pub_ice sub_ice w" and room: "dm_get (h_rooms (w_hub w)) rid = Some room"
    and p: "p = participant_new u rid (ice_ufrag pub_ice) pp (ice_ufrag sub_ice) sp tx at"
    and add: "hub_add_participant (w_heap w @ [p]) rid (length (w_heap w)) now (w_hub w) = Inr hub'"
  defines "w1 \<equiv> w\<lparr> w_heap := w_heap w @ [p], w_hub := hub' \<rparr>"
  defines "room' \<equiv> current_room room w1"
  defines "w4 \<equiv> broadcast_to_others room' u pkt (snd (collect_subscribe_tracks E room' u (purge_subscribe_layers room' u w1)))"
  shows "length (r_participants room) < r_capacity room" and "dm_get (r_participants room) u = None"
    and "find_by_ufrag (w_hub w4) (ice_ufrag pub_ice) = Some (length (w_heap w), Publish, rid)"
    and "find_by_ufrag (w_hub w4) (ice_ufrag sub_ice) = Some (length (w_heap w), Subscribe, rid)"
    and "p_user_id (part w4 (length (w_heap w))) = u"
    and "w_ws w4 = w_ws w @ map (\<lambda>r. (p_ws_tx (part w r), pkt)) (map snd (r_participants room))"
    and "\<exists>room2. dm_get (h_rooms (w_hub w4)) rid = Some room2 \<and> get_participant room2 u = Some (length (w_heap w)) \<and>
      (\<forall>v. v \<noteq> u \<longrightarrow> get_participant room2 v = get_participant room v) \<and>
      length (r_participants room2) = Suc (length (r_participants room))"
proof -
  from add obtain room'' where r'': "room_add_participant (w_heap w @ [p]) (length (w_heap w)) now room = Inr room''"
    and eqs: "h_rooms hub' = dm_insert rid room'' (h_rooms (w_hub w))"
      "h_ufrag_index hub' = dm_insert (ice_ufrag sub_ice) rid (dm_insert (ice_ufrag pub_ice) rid (h_ufrag_index (w_hub w)))"
    by (rule hub_add_simps) (use room in \<open>auto simp: p\<close>)
  note ra = room_add_simps [OF r'']
  show "length (r_participants room) < r_capacity room" "dm_get (r_participants room) u = None"
    using ra(7,8) by (simp_all add: p)
  have room': "room' = room''" using eqs server_invD(4) [OF w room] by (simp add: room'_def current_room_def w1_def)
  have hub: "w_hub w4 = hub'" by (simp add: w4_def collect_frame w1_def)
  show "\<exists>room2. dm_get (h_rooms (w_hub w4)) rid = Some room2 \<and> get_participant room2 u = Some (length (w_heap w)) \<and>
      (\<forall>v. v \<noteq> u \<longrightarrow> get_participant room2 v = get_participant room v) \<and>
      length (r_participants room2) = Suc (length (r_participants room))"
    using ra(1,7) by (simp add: hub eqs(1) p get_participant_def length_dm_insert map_of_eq_None_iff)
  show "find_by_ufrag (w_hub w4) (ice_ufrag pub_ice) = Some (length (w_heap w), Publish, rid)"
    "find_by_ufrag (w_hub w4) (ice_ufrag sub_ice) = Some (length (w_heap w), Subscribe, rid)"
    using new by (simp_all add: hub find_by_ufrag_def eqs ra(2) get_by_ufrag_def p fresh_ufrags_def)
  have ids: "map f (w_heap w4) = map f (w_heap w @ [p])"
    if "\<And>p ls. f (p\<lparr> p_subscribe_layers := ls \<rparr>) = f p" "\<And>p v. f (p\<lparr> p_simulcast_video_ssrc := v \<rparr>) = f p" for f :: "'f participant \<Rightarrow> 'b"
    using collect_frame(3) [of f E room' u "purge_subscribe_layers room' u w1"] map_purge [of f room' u w1] that
    by (simp add: w4_def w1_def)
  have len: "length (w_heap w4) = Suc (length (w_heap w))" using arg_cong [OF ids [of p_user_id], of length] by simp
  show "p_user_id (part w4 (length (w_heap w))) = u"
    using arg_cong [OF ids [of p_user_id], of "\<lambda>xs. xs ! length (w_heap w)"] len by (simp add: p nth_append)
  let ?w3 = "snd (collect_subscribe_tracks E room' u (purge_subscribe_layers room' u w1))"
  have tx: "p_ws_tx (part ?w3 r) = p_ws_tx (part w r)" if "r \<in> set (map snd (r_participants room))" for r
  proof -
    have "r < length (w_heap w)"
      using that room_invD(5) [OF hub_invD(5) [OF server_invD(1) [OF w] room]] dm_get_iff [OF room_invD(1) [OF hub_invD(5) [OF server_invD(1) [OF w] room]]]
      by auto
    then show ?thesis using arg_cong [OF ids [of p_ws_tx], of "\<lambda>xs. xs ! r"] len by (simp add: w4_def nth_append)
  qed
  have "other_participants room' u = map snd (r_participants room)"
    using ra(1,7) by (simp add: other_participants_def room' filter_dm_insert p)
  then show "w_ws w4 = w_ws w @ map (\<lambda>r. (p_ws_tx (part w r), pkt)) (map snd (r_participants room))"
    using tx by (simp add: w4_def ws_broadcast collect_frame(2) w1_def)
qed

lemma hub_add_error:
  assumes "hub_add_participant heap rid r now hub = Inl e" "dm_get (h_rooms hub) rid = Some room"
  shows "if r_capacity room \<le> length (r_participants room) then e = RoomFull
    else e = AlreadyInRoom \<and> dm_get (r_participants room) (p_user_id (heap ! r)) \<noteq> None"
  using assms by (auto simp: hub_add_participant_def hub_get_def room_add_participant_def Let_def split: if_splits)

subsection \<open>Track lists\<close>

abbreviation of_user :: "user_id \<Rightarrow> json \<Rightarrow> bool" where
  "of_user u t \<equiv> jstr (jget t ''user_id'') = Some u"

abbreviation is_video :: "json \<Rightarrow> bool" where
  "is_video t \<equiv> jstr (jget t ''kind'') = Some ''video''"

definition virtualise :: "u32 \<Rightarrow> json \<Rightarrow> json" where
  "virtualise v t = (if is_video t then jdel ''rid'' (jset ''ssrc'' (jnum v) t) else t)"

lemma jget_virtualise: "k \<noteq> ''rid'' \<Longrightarrow> k \<noteq> ''ssrc'' \<Longrightarrow> jget (virtualise v t) k = jget t k"
  by (cases t) (auto simp: virtualise_def)

lemma virtual_ssrc_of_vssrc:
  assumes "r < length (w_heap w)" "e_rnd E r \<noteq> 0"
  shows "p_simulcast_video_ssrc (part w r) \<noteq> 0 \<Longrightarrow>
      p_simulcast_video_ssrc (part (snd (virtual_ssrc_of E x w)) r) = p_simulcast_video_ssrc (part w r)"
    and "p_simulcast_video_ssrc (part (snd (virtual_ssrc_of E r w)) r) = fst (virtual_ssrc_of E r w)"
    and "fst (virtual_ssrc_of E r w) \<noteq> 0"
  using assms by (cases "x = r"; auto simp: virtual_ssrc_of_def ensure_simulcast_video_ssrc_def)+

lemma replace_loop_vssrc:
  assumes "r < length (w_heap w)" "e_rnd E r \<noteq> 0" "p_simulcast_video_ssrc (part w r) \<noteq> 0"
  shows "p_simulcast_video_ssrc (part (snd (simulcast_replace_loop E room ts w)) r) = p_simulcast_video_ssrc (part w r)"
  using assms
proof (induction ts arbitrary: w)
  case (Cons t ts)
  have "length (w_heap (snd (virtual_ssrc_of E x w))) = length (w_heap w)" for x by (simp add: virtual_ssrc_of_def)
  then have "p_simulcast_video_ssrc (part (snd (simulcast_replace_loop E room ts (snd (virtual_ssrc_of E x w)))) r) =
      p_simulcast_video_ssrc (part w r)" for x
    using Cons.IH [of "snd (virtual_ssrc_of E x w)"] virtual_ssrc_of_vssrc(1) [OF Cons.prems(1,2,3), of x] Cons.prems by simp
  then show ?case using Cons.IH [OF Cons.prems] by (simp add: case_prod_beta Let_def split: option.split)
qed simp

text \<open>What the loop makes of the tracks of one publisher, in terms of its virtual SSRC at the end.\<close>

lemma replace_loop_user:
  fixes w :: "'f world"
  assumes "get_participant room u = Some r" "r < length (w_heap w)" "e_rnd E r \<noteq> 0"
  shows "filter (of_user u) (fst (simulcast_replace_loop E room ts w)) =
      map (virtualise (p_simulcast_video_ssrc (part (snd (simulcast_replace_loop E room ts w)) r))) (filter (of_user u) ts) \<and>
    ((\<exists>t\<in>set ts. of_user u t \<and> is_video t) \<longrightarrow> p_simulcast_video_ssrc (part (snd (simulcast_replace_loop E room ts w)) r) \<noteq> 0)"
  using assms(2)
proof (induction ts arbitrary: w)
  case (Cons t ts)
  let ?v = "\<lambda>x. virtual_ssrc_of E x w"
  have len: "r < length (w_heap (snd (?v x)))" for x using Cons.prems by (simp add: virtual_ssrc_of_def)
  note IH = Cons.IH [OF Cons.prems] Cons.IH [OF len]
  note vs = virtual_ssrc_of_vssrc [OF Cons.prems assms(3)]
  have fixed: "p_simulcast_video_ssrc (part (snd (simulcast_replace_loop E room ts (snd (?v r)))) r) = fst (?v r)"
    using replace_loop_vssrc [OF len assms(3), of r room ts] vs(2,3) by simp
  show ?case
  proof (cases "is_video t")
    case False
    then show ?thesis using IH(1) by (simp add: case_prod_beta Let_def virtualise_def)
  next
    case video: True
    then have eq: "jdel ''rid'' (jset ''ssrc'' (jnum v) t) = virtualise v t" for v by (simp add: virtualise_def)
    have user: "of_user u (virtualise v t) = of_user u t" "of_user u (jdel ''rid'' t) = of_user u t" for v
      by (simp_all add: jget_virtualise) (cases t; simp)
    show ?thesis
    proof (cases "of_user u t")
      case True
      then show ?thesis using IH(2) [of r] fixed vs(3) video assms(1) user
        by (simp add: case_prod_beta Let_def eq)
    next
      case False
      then show ?thesis using IH video user
        by (auto simp: case_prod_beta Let_def eq split: option.split)
    qed
  qed
qed simp

lemma track_json_simps:
  "jget (track_json u t) ''user_id'' = Some (JStr u)" "jget (track_json u t) ''kind'' = Some (JStr (kind_string (t_kind t)))"
  "jget (track_json u t) ''ssrc'' = Some (jnum (t_ssrc t))"
  by (simp_all add: track_json_def Let_def split: option.split)

lemma virtualise_ssrc: "is_video t \<Longrightarrow> jget (virtualise v t) ''ssrc'' = Some (jnum v)"
  by (cases t) (auto simp: virtualise_def)

lemma virtualise_audio: "t_kind t \<noteq> Video \<Longrightarrow> virtualise v (track_json u t) = track_json u t"
  by (cases "t_kind t") (simp_all add: virtualise_def track_json_simps kind_string_def)

lemma listed_of_user:
  assumes "dm_ok m" "(u, r) \<in> set m" "u \<noteq> viewer" "\<And>uid x. (uid, x) \<in> set m \<Longrightarrow> name x = uid"
  shows "filter (of_user u) (concat (map (\<lambda>x. map (track_json (name x)) (vis x)) (map snd (filter (\<lambda>e. fst e \<noteq> viewer) m)))) =
    map (track_json u) (vis r)"
  using assms
proof (induction m)
  case (Cons e m)
  obtain uid x where e: "e = (uid, x)" by fastforce
  have name: "name x = uid" using Cons.prems(4) e by simp
  have other: "filter (of_user u) (map (track_json uid) ts) = (if uid = u then map (track_json u) ts else [])" for ts
    by (induction ts) (auto simp: track_json_simps)
  have ok: "dm_ok m" using Cons.prems(1) by (simp add: dm_ok_def e)
  show ?case
  proof (cases "uid = u")
    case True
    have "u \<notin> fst ` set m" using Cons.prems(1) True by (simp add: dm_ok_def e)
    then have "filter (of_user u) (concat (map (\<lambda>x. map (track_json (name x)) (vis x)) (map snd (filter (\<lambda>e. fst e \<noteq> viewer) m)))) = []"
    proof -
      have "name y \<noteq> u" if "(uid, y) \<in> set m" for uid y
        using that Cons.prems(4) [of uid y] \<open>u \<notin> fst ` set m\<close> by (auto simp: image_iff)
      then show ?thesis by (auto simp: filter_empty_conv track_json_simps)
    qed
    moreover have "x = r" using Cons.prems(2) \<open>u \<notin> fst ` set m\<close> by (auto simp: e True image_iff)
    ultimately show ?thesis using Cons.prems(3) name other by (simp add: e True)
  next
    case False
    then show ?thesis using Cons.IH [OF ok] Cons.prems(2-4) by (simp add: e name other)
  qed
qed simp

section \<open>Properties\<close>

text \<open>
  C19: A leave or a lost connection keeps the rewriters in step with the floor unless the leaving user holds
  the floor of a push-to-talk room while another user waits in its queue. In that case it never does: the handler
  first applies the actions, which give the floor and the rewriters to the next in line, and only
  then flushes, which clears both rewriters, so that the room has a speaker whose packets no rewriter
  takes: they pass the gate unrewritten, under an SSRC the receivers were not told.
\<close>

theorem leave_keeps_step_unless_handover:
  assumes "world_in_step w" "s_current_room s = Some rid" "s_user_id s = Some u"
  shows "let handover = (\<exists>room. dm_get (h_rooms (w_hub w)) rid = Some room \<and> hands_over u room);
      left = snd (snd (handle_room_leave E u pid (Some rid) s w));
      lost = cleanup E s w
    in (if handover then \<exists>room'. dm_get (h_rooms (w_hub left)) rid = Some room' \<and> deaf room' else world_in_step left) \<and>
       (if handover then \<exists>room'. dm_get (h_rooms (w_hub lost)) rid = Some room' \<and> deaf room' else world_in_step lost)"
proof -
  let ?c = "cleanup_room E rid u w"
  have lost: "w_hub (cleanup E s w) =
      (case hub_remove_participant (w_heap ?c) rid u (w_hub ?c) of Inr (r, hub') \<Rightarrow> hub' | Inl _ \<Rightarrow> w_hub ?c)"
    by (simp add: cleanup_def assms Let_def split: sum.split)
  show ?thesis unfolding Let_def
    by (intro conjI in_step_after_remove [OF assms(1) refl hub_after_leave(1)]
        in_step_after_remove [OF assms(1) hub_after_leave(2) lost])
qed

definition demo_floor :: floor_inner where
  "demo_floor = floor_new\<lparr> f_state := Taken ''u'' 0 0 0, f_queue := [\<lparr> q_user = ''v'', q_priority = 0, q_enqueued_at = 0 \<rparr>] \<rparr>"

definition demo_taken_room :: room where
  "demo_taken_room = switch_rewriters 0 ''u'' (demo_ptt_room\<lparr> r_floor := demo_floor \<rparr>)"

definition demo_session :: ws_session where
  "demo_session = (session_new 0)\<lparr> s_user_id := Some ''u'', s_current_room := Some ''p'' \<rparr>"

lemma demo_taken:
  "world_in_step (demo_world demo_taken_room)" "hands_over ''u'' demo_taken_room"
  "dm_get (h_rooms (w_hub (demo_world demo_taken_room))) ''p'' = Some demo_taken_room"
  by (auto simp: world_in_step_def demo_world_def demo_taken_room_def demo_ptt_room_def room_new_def Let_def in_step_def
      current_speaker_def demo_floor_def hands_over_def)

theorem leave_keeps_step_unless_handover_witness:
  "\<exists>room'. dm_get (h_rooms (w_hub (cleanup demo_env demo_session (demo_world demo_taken_room)))) ''p'' = Some room' \<and> deaf room'"
  using leave_keeps_step_unless_handover [OF demo_taken(1), of demo_session "''p''" "''u''" demo_env 1] demo_taken(2,3)
  by (simp add: Let_def demo_session_def)

text \<open>
  C20: ROOM_JOIN succeeds exactly when the payload is valid, the room exists, has a free place and the
  user is not in it yet; otherwise the answer carries the code of the first check that fails and neither
  session nor server state changes. After a success the new participant is a member under the user's name and all others
  are still members, both its ufrags lead to it, its session names the room, and every other member is sent the
  participant_joined event. The two ICE fragments drawn for the participant are taken to be different and unused
  (\<open>fresh_ufrags\<close>), and the server to be consistent, as it is in every reachable state.
\<close>

theorem join_outcome:
  fixes w :: "'f world"
  assumes "server_inv w" "fresh_ufrags pub_ice sub_ice w"
  shows "case handle_room_join E cfg pub_ice sub_ice u pid req s w of (resp, s', w') \<Rightarrow>
    (case req of
       None \<Rightarrow> resp = packet_err ROOM_JOIN pid 3002 ''invalid payload'' \<and> s' = s \<and> w' = w
     | Some rid \<Rightarrow>
         (case dm_get (h_rooms (w_hub w)) rid of
            None \<Rightarrow> resp = packet_err ROOM_JOIN pid 2001 ''room not found'' \<and> s' = s \<and> w' = w
          | Some room \<Rightarrow>
              if r_capacity room \<le> length (r_participants room)
              then resp = packet_err ROOM_JOIN pid 2002 ''[2002] room full'' \<and> s' = s \<and> w' = w
              else if get_participant room u \<noteq> None
              then resp = packet_err ROOM_JOIN pid 2003 ''[2003] already in room'' \<and> s' = s \<and> w' = w
              else pk_ok resp = Some True \<and> s_current_room s' = Some rid \<and>
                (\<exists>room'. dm_get (h_rooms (w_hub w')) rid = Some room' \<and>
                   get_participant room' u = Some (length (w_heap w)) \<and>
                   (\<forall>v. v \<noteq> u \<longrightarrow> get_participant room' v = get_participant room v) \<and>
                   length (r_participants room') = Suc (length (r_participants room))) \<and>
                find_by_ufrag (w_hub w') (ice_ufrag pub_ice) = Some (length (w_heap w), Publish, rid) \<and>
                find_by_ufrag (w_hub w') (ice_ufrag sub_ice) = Some (length (w_heap w), Subscribe, rid) \<and>
                p_user_id (part w' (length (w_heap w))) = u \<and>
                w_ws w' = w_ws w @ map (\<lambda>r. (p_ws_tx (part w r),
                  packet_new ROOM_EVENT 0 (room_event_payload ''participant_joined'' rid (Some u))))
                  (map snd (r_participants room))))"
proof (cases req)
  case (Some rid)
  show ?thesis
  proof (cases "dm_get (h_rooms (w_hub w)) rid")
    case None
    then show ?thesis by (simp add: handle_room_join_def Some hub_get_def)
  next
    case room: (Some room)
    let ?p = "participant_new u rid (ice_ufrag pub_ice) (ice_pwd pub_ice) (ice_ufrag sub_ice) (ice_pwd sub_ice)
      (s_ws_tx s) (e_now_ms E)"
    show ?thesis
    proof (cases "hub_add_participant (w_heap w @ [?p]) rid (length (w_heap w)) (e_now_ms E) (w_hub w)")
      case (Inl e)
      then show ?thesis using hub_add_error [OF Inl room]
        by (auto simp: handle_room_join_def Some hub_get_def room Let_def get_participant_def split: if_splits)
    next
      case (Inr hub')
      note J = join_success [OF assms room refl Inr]
      let ?w1 = "w\<lparr> w_heap := w_heap w @ [?p], w_hub := hub' \<rparr>" and ?r = "current_room room (w\<lparr> w_heap := w_heap w @ [?p], w_hub := hub' \<rparr>)"
      let ?c = "collect_subscribe_tracks E ?r u (purge_subscribe_layers ?r u ?w1)"
      have "handle_room_join E cfg pub_ice sub_ice u pid req s w =
          (packet_ok ROOM_JOIN pid (join_response cfg pub_ice sub_ice rid ?r (fst ?c)),
           s\<lparr> s_current_room := Some rid, s_pub_ufrag := Some (ice_ufrag pub_ice), s_sub_ufrag := Some (ice_ufrag sub_ice) \<rparr>,
           broadcast_to_others ?r u (packet_new ROOM_EVENT 0 (room_event_payload ''participant_joined'' rid (Some u))) (snd ?c))"
        by (simp add: handle_room_join_def Some hub_get_def room Inr case_prod_beta Let_def)
      then show ?thesis using J by (simp add: Some room packet_ok_def get_participant_def [of room u])
    qed
  qed
qed (simp add: handle_room_join_def)


text \<open>The state at start-up, and one with an empty room.\<close>

definition world_new :: "'f world" where
  "world_new = \<lparr> w_heap = [], w_hub = hub_new, w_metrics = (\<lambda>_. 0), w_ws = [], w_udp = [], w_bursts = [] \<rparr>"

lemma world_new_inv [simp]: "server_inv world_new" "world_in_step world_new"
proof -
  have "hub_inv [] hub_new" by simp
  then show "server_inv world_new" by (simp add: server_inv_def world_new_def hub_new_def)
  show "world_in_step world_new" by (simp add: world_in_step_def world_new_def hub_new_def)
qed

definition demo_lobby :: "room_mode \<Rightarrow> unit world" where
  "demo_lobby mode = snd (handle_room_create demo_env ''p'' 1 2 1
     (Some \<lparr> rcr_name = ''n'', rcr_capacity = Some 1, rcr_mode = Some (case mode of Conference \<Rightarrow> ConferenceField | Ptt \<Rightarrow> PttField),
              rcr_simulcast = Some True \<rparr>) world_new)"

definition demo_cfg :: app_config where
  "demo_cfg = \<lparr> a_public_ip = ''10.0.0.1'', a_udp_port = 9, a_fingerprint = ''f'', a_bwe_mode = TwccMode, a_max_bitrate = 1 \<rparr>"

abbreviation demo_ice :: "string \<Rightarrow> ice_credentials" where
  "demo_ice uf \<equiv> \<lparr> ice_ufrag = uf, ice_pwd = ''pw'' \<rparr>"

lemma demo_lobby_inv: "server_inv (demo_lobby mode)"
  unfolding demo_lobby_def by (rule create_server_inv [OF world_new_inv(1)]) (simp add: world_new_def hub_new_def)

lemma demo_lobby_room:
  "dm_get (h_rooms (w_hub (demo_lobby mode))) ''p'' = Some (room_new ''p'' ''n'' (Some 1) mode 5000 True 1 2)"
  "h_ufrag_index (w_hub (demo_lobby mode)) = []" "w_ws (demo_lobby mode) = []" "w_heap (demo_lobby mode) = []"
  by (cases mode; simp add: demo_lobby_def handle_room_create_def hub_create_def world_new_def hub_new_def Let_def demo_env_def
      room_new_def to_config_def)+

theorem join_outcome_witness:
  "case handle_room_join demo_env demo_cfg (demo_ice ''a'') (demo_ice ''b'') ''u'' 1 (Some ''p'') (session_new 0) (demo_lobby Ptt) of
     (resp, s', w') \<Rightarrow> pk_ok resp = Some True \<and> find_by_ufrag (w_hub w') ''b'' = Some (0, Subscribe, ''p'')"
proof -
  have "fresh_ufrags (demo_ice ''a'') (demo_ice ''b'') (demo_lobby Ptt)" by (simp add: fresh_ufrags_def demo_lobby_room)
  from join_outcome [OF demo_lobby_inv [of Ptt] this, where E = demo_env and cfg = demo_cfg and u = "''u''" and pid = 1
      and req = "Some ''p''" and s = "session_new 0"]
  show ?thesis by (auto simp: demo_lobby_room get_participant_def room_new_def Let_def)
qed

text \<open>The removal of a member, some steps after the state in which it was looked up.\<close>

lemma remove_member:
  assumes w: "server_inv w" and room: "dm_get (h_rooms (w_hub w)) rid = Some room" and r: "get_participant room u = Some r"
    and le: "world_le w w1"
  shows "\<exists>hub' room'. hub_remove_participant (w_heap w1) rid u (w_hub w1) = Inr (r, hub') \<and>
    dm_get (h_rooms hub') rid = Some room' \<and> r_participants room' = dm_remove u (r_participants room) \<and>
    (\<forall>pc. find_by_ufrag hub' (ms_ufrag (session (part w r) pc)) = None)"
proof -
  obtain room1 where room1: "dm_get (h_rooms (w_hub w1)) rid = Some room1" "room_le room room1"
    using le room by (auto simp: world_le_def room_keeps_def option_rel_Some1 dest!: spec [of _ rid])
  then have parts: "r_participants room1 = r_participants room" by (simp add: room_le_def)
  then obtain hub' where rem: "hub_remove_participant (w_heap w1) rid u (w_hub w1) = Inr (r, hub')"
    using room1 r by (simp add: hub_remove_participant_def hub_get_def room_remove_participant_def get_participant_def Let_def)
  obtain room2 where room2: "dm_get (h_rooms hub') rid = Some room2" "r_participants room2 = dm_remove u (r_participants room)"
    and idx: "h_ufrag_index hub' = dm_remove (ms_ufrag (p_subscribe (part w1 r)))
      (dm_remove (ms_ufrag (p_publish (part w1 r))) (h_ufrag_index (w_hub w1)))"
    using rem by (rule hub_remove_simps) (use room1 parts in \<open>auto dest: room_remove_simps(2)\<close>)
  have "r < length (w_heap w)"
    using room_invD(5) [OF hub_invD(5) [OF server_invD(1) [OF w] room]] r by (simp add: get_participant_def)
  then have "ms_ufrag (session (part w1 r) pc) = ms_ufrag (session (part w r) pc)" for pc
    using le by (simp add: world_le_def part_le_def same_identity_def)
  note uf = this [of Publish] this [of Subscribe]
  have "find_by_ufrag hub' (ms_ufrag (session (part w r) pc)) = None" for pc
    using uf by (cases pc) (simp_all add: find_by_ufrag_def idx)
  then show ?thesis using rem room2 by blast
qed

text \<open>
  A leave of a member succeeds: it is no member afterwards, neither of its sessions is found under its ufrags,
  every remaining member is sent exactly one participant_left event naming the user, after all other messages of the leave,
  and the WebSocket session forgets the room. A leave of a user that is not in the room, or of a room
  that does not exist, is answered with that error and keeps the session.
\<close>

theorem leave_outcome:
  assumes "server_inv w"
  shows "case handle_room_leave E u pid (Some rid) s w of (resp, s', w') \<Rightarrow>
    (case dm_get (h_rooms (w_hub w)) rid of
       None \<Rightarrow> resp = packet_err ROOM_LEAVE pid 2001 ''[2001] room not found'' \<and> s' = s \<and> w' = w
     | Some room \<Rightarrow>
         (case get_participant room u of
            None \<Rightarrow> resp = packet_err ROOM_LEAVE pid 2004 ''[2004] not in room'' \<and> s' = s
          | Some r \<Rightarrow>
              resp = packet_ok ROOM_LEAVE pid (JObj []) \<and> s_current_room s' = None \<and>
              (\<exists>room' ws. dm_get (h_rooms (w_hub w')) rid = Some room' \<and>
                 r_participants room' = dm_remove u (r_participants room) \<and>
                 (\<forall>pc. find_by_ufrag (w_hub w') (ms_ufrag (session (part w r) pc)) = None) \<and>
                 w_ws w' = ws @ map (\<lambda>x. (p_ws_tx (part w' x), participant_left rid u)) (all_participants room'))))"
proof (cases "dm_get (h_rooms (w_hub w)) rid")
  case None
  then show ?thesis by (simp add: handle_room_leave_def hub_get_def hub_remove_participant_def)
next
  case (Some room)
  define w1 where "w1 = floor_left E rid u w"
  have leave: "handle_room_leave E u pid (Some rid) s w =
      (case hub_remove_participant (w_heap w1) rid u (w_hub w1) of
         Inl e \<Rightarrow> (packet_err ROOM_LEAVE pid (error_code e) (error_string e), s, w1)
       | Inr (r, hub') \<Rightarrow> (packet_ok ROOM_LEAVE pid (JObj []), s\<lparr> s_current_room := None, s_pub_ufrag := None, s_sub_ufrag := None \<rparr>,
           announce_leave rid u r (w1\<lparr> w_hub := hub' \<rparr>)))"
    unfolding handle_room_leave_def w1_def Let_def by simp
  have le: "world_le w w1" using leave_prefix_le [OF assms, of rid room E u] Some by (simp add: hub_get_def w1_def)
  obtain room1 where room1: "dm_get (h_rooms (w_hub w1)) rid = Some room1" "room_le room room1"
    using le Some by (auto simp: world_le_def room_keeps_def option_rel_Some1 dest!: spec [of _ rid])
  then have parts: "r_participants room1 = r_participants room" by (simp add: room_le_def)
  show ?thesis
  proof (cases "get_participant room u")
    case None
    then have "hub_remove_participant (w_heap w1) rid u (w_hub w1) = Inl NotInRoom"
      using room1 parts by (simp add: hub_remove_participant_def hub_get_def room_remove_participant_def get_participant_def)
    then show ?thesis by (simp add: leave Some None)
  next
    case (Some r)
    then obtain hub' room2 where rem: "hub_remove_participant (w_heap w1) rid u (w_hub w1) = Inr (r, hub')"
      and room2: "dm_get (h_rooms hub') rid = Some room2" "r_participants room2 = dm_remove u (r_participants room)"
      and gone: "\<And>pc. find_by_ufrag hub' (ms_ufrag (session (part w r) pc)) = None"
      using remove_member [OF assms \<open>dm_get (h_rooms (w_hub w)) rid = Some room\<close> Some le] by blast
    let ?w2 = "w1\<lparr> w_hub := hub' \<rparr>"
    have ann: "\<exists>ws. w_ws (announce_leave rid u r ?w2) =
        ws @ map (\<lambda>x. (p_ws_tx (part (announce_leave rid u r ?w2) x), participant_left rid u)) (all_participants room2)"
      "w_hub (announce_leave rid u r ?w2) = hub'"
      using room2 by (simp_all add: announce_leave_def hub_get_def Let_def ws_broadcast)
    then show ?thesis using room2 gone by (simp add: leave rem \<open>dm_get (h_rooms (w_hub w)) rid = Some room\<close> Some)
  qed
qed

definition demo_joined :: "room_mode \<Rightarrow> unit world" where
  "demo_joined mode = snd (snd (handle_room_join demo_env demo_cfg (demo_ice ''a'') (demo_ice ''b'') ''u'' 1 (Some ''p'')
     (session_new 0) (demo_lobby mode)))"

lemma demo_joined_inv: "server_inv (demo_joined mode)"
  unfolding demo_joined_def by (rule join_server_inv [OF demo_lobby_inv]) (simp add: fresh_ufrags_def demo_lobby_room)

lemma demo_joined_room: "\<exists>room. dm_get (h_rooms (w_hub (demo_joined mode))) ''p'' = Some room \<and> get_participant room ''u'' = Some 0"
  by (simp add: demo_joined_def handle_room_join_def hub_get_def demo_lobby_room hub_add_participant_def room_add_participant_def
      Let_def room_new_def case_prod_beta collect_frame get_participant_def)

lemma demo_joined_mode: "\<exists>room. dm_get (h_rooms (w_hub (demo_joined mode))) ''p'' = Some room \<and> r_mode room = mode"
  by (simp add: demo_joined_def handle_room_join_def hub_get_def demo_lobby_room hub_add_participant_def room_add_participant_def
      Let_def room_new_def case_prod_beta collect_frame get_participant_def)

theorem leave_outcome_witness:
  "fst (handle_room_leave demo_env ''u'' 1 (Some ''p'') demo_session (demo_joined Ptt)) = packet_ok ROOM_LEAVE 1 (JObj [])"
  using leave_outcome [OF demo_joined_inv [of Ptt], where E = demo_env and u = "''u''" and pid = 1 and rid = "''p''" and s = demo_session]
    demo_joined_room [of Ptt] by (auto simp: case_prod_beta)

text \<open>The entries of a publisher in the list for another member, and what the two removal lists would be.\<close>

lemma listing_is_removal:
  assumes "server_inv w" "dm_get (h_rooms (w_hub w)) rid = Some room" "get_participant room u = Some r" "viewer \<noteq> u"
    "e_rnd E r \<noteq> 0" "collect_subscribe_tracks E room viewer w = (ts, w')"
  shows "filter (\<lambda>t. jstr (jget t ''user_id'') = Some u) ts =
      build_remove_tracks (p_tracks (part w' r)) u (r_simulcast_enabled room) (p_simulcast_video_ssrc (part w' r)) \<and>
    (r_simulcast_enabled room \<longrightarrow> t \<in> set (p_tracks (part w' r)) \<longrightarrow> t_kind t = Video \<longrightarrow> t_rid t \<noteq> Some ''l'' \<longrightarrow>
      t_ssrc t \<noteq> p_simulcast_video_ssrc (part w' r) \<longrightarrow>
      filter (\<lambda>t. jstr (jget t ''user_id'') = Some u) ts \<noteq> build_remove_tracks (p_tracks (part w' r)) u True 0)"
proof -
  have inv: "room_inv (w_heap w) room" by (rule hub_invD(5) [OF server_invD(1) [OF assms(1)] assms(2)])
  have r: "r < length (w_heap w)" "(u, r) \<in> set (r_participants room)"
    using room_invD(5) [OF inv, of u r] dm_get_iff [OF room_invD(1) [OF inv]] assms(3) by (auto simp: get_participant_def)
  let ?sim = "r_simulcast_enabled room" and ?v = "p_simulcast_video_ssrc (part w' r)"
  let ?vis = "\<lambda>x. filter (\<lambda>t. \<not> hidden_layer ?sim t) (p_tracks (part w x))"
  let ?L = "concat (map (\<lambda>x. map (track_json (p_user_id (part w x))) (?vis x)) (other_participants room viewer))"
  have L: "filter (of_user u) ?L = map (track_json u) (?vis r)"
    unfolding other_participants_def
    by (rule listed_of_user [OF room_invD(1) [OF inv] r(2)])
       (use assms(4) room_invD(5) [OF inv] dm_get_iff [OF room_invD(1) [OF inv]] in auto)
  have "map p_tracks (w_heap w') = map p_tracks (w_heap w)" using collect_frame(3) [of p_tracks E room viewer w] assms(6) by simp
  then have tracks: "p_tracks (part w' r) = p_tracks (part w r)" using r(1) by (metis length_map nth_map)
  have list: "filter (of_user u) ts = (if ?sim then map (virtualise ?v) (map (track_json u) (?vis r)) else map (track_json u) (?vis r)) \<and>
      (?sim \<longrightarrow> (\<exists>t\<in>set (?vis r). t_kind t = Video) \<longrightarrow> ?v \<noteq> 0)"
  proof (cases ?sim)
    case True
    then have eqs: "ts = fst (simulcast_replace_loop E room ?L w)" "w' = snd (simulcast_replace_loop E room ?L w)"
      using assms(6) by (auto simp: collect_subscribe_tracks_def simulcast_replace_video_ssrc_def)
    have "\<exists>t\<in>set ?L. of_user u t \<and> is_video t" if "\<exists>t\<in>set (?vis r). t_kind t = Video"
    proof -
      from that obtain t where "t \<in> set (?vis r)" "t_kind t = Video" by blast
      then have "track_json u t \<in> set (filter (of_user u) ?L)" "is_video (track_json u t)"
        unfolding L by (auto simp: track_json_simps kind_string_def)
      then show ?thesis unfolding set_filter by blast
    qed
    then show ?thesis using replace_loop_user [OF assms(3) r(1) assms(5), of ?L] True L unfolding eqs by simp
  qed (use assms(6) L in \<open>auto simp: collect_subscribe_tracks_def simulcast_replace_video_ssrc_def\<close>)
  have brt: "build_remove_tracks (p_tracks (part w r)) u b v =
      (if b \<and> v \<noteq> 0 then map (virtualise v) else id) (map (track_json u) (filter (\<lambda>t. \<not> hidden_layer b t) (p_tracks (part w r))))" for b v
    by (auto simp: build_remove_tracks_def simulcast_replace_video_ssrc_direct_def virtualise_def[abs_def] intro!: map_cong)
  have same: "map (virtualise v) (map (track_json u) tl) = map (track_json u) tl \<longleftrightarrow>
      (\<forall>t\<in>set tl. t_kind t = Video \<longrightarrow> virtualise v (track_json u t) = track_json u t)" for v tl
    by (induction tl) (auto simp: virtualise_audio)
  have "virtualise v (track_json u t) = track_json u t \<Longrightarrow> t_kind t = Video \<Longrightarrow> v = t_ssrc t" for v t
    using virtualise_ssrc [of "track_json u t" v] by (simp add: track_json_simps kind_string_def word_uint_eq_iff)
  then show ?thesis using list unfolding tracks brt
    by (auto simp: same hidden_layer_def simp del: map_map)
qed

section \<open>What is announced\<close>

text \<open>What the announcements are made of, and what the floor part of a leave does not touch.\<close>

definition announced_of :: "'f participant \<Rightarrow> track list \<times> u32 \<times> nat \<times> user_id" where
  "announced_of p = (p_tracks p, p_simulcast_video_ssrc p, p_ws_tx p, p_user_id p)"

lemma announced_part [simp]:
  "announced_of (cancel_pli_burst p) = announced_of p" "announced_of (p\<lparr> p_pli_burst := b \<rparr>) = announced_of p"
  "announced_of (snd (try_send pkt p)) = announced_of p" "announced_of (p\<lparr> p_subscribe_layers := ls \<rparr>) = announced_of p"
  by (simp_all add: announced_of_def cancel_pli_burst_def try_send_def)

abbreviation same_announced :: "'f world \<Rightarrow> 'f world \<Rightarrow> bool" where
  "same_announced w w' \<equiv> map announced_of (w_heap w') = map announced_of (w_heap w)"

lemma announced_update:
  "(\<And>p. announced_of (g p) = announced_of p) \<Longrightarrow> map announced_of ((w_heap w)[r := g (part w r)]) = map announced_of (w_heap w)"
  using map_update_part [of announced_of g r w] by simp

lemma announced_effects [simp]:
  "map announced_of (w_heap (snd (egress_send r pkt w))) = map announced_of (w_heap w)"
  "map announced_of (w_heap (spawn_pli_burst r ssrc a ds pre w)) = map announced_of (w_heap w)"
  "map announced_of (w_heap (purge_subscribe_layers room u w)) = map announced_of (w_heap w)"
proof -
  show "map announced_of (w_heap (purge_subscribe_layers room u w)) = map announced_of (w_heap w)"
    by (rule map_purge) simp
  show "map announced_of (w_heap (snd (egress_send r pkt w))) = map announced_of (w_heap w)"
    using map_update_part [of announced_of "\<lambda>p. snd (try_send pkt p)" r w] by (simp add: egress_send_def)
  have "map announced_of (w_heap (update_part r (\<lambda>p. p\<lparr> p_pli_burst := True \<rparr>) (update_part r cancel_pli_burst w))) =
      map announced_of (w_heap w)"
    by (subst map_update_part, simp)+ simp
  then show "map announced_of (w_heap (spawn_pli_burst r ssrc a ds pre w)) = map announced_of (w_heap w)"
    by (simp add: spawn_pli_burst_def Let_def)
qed

lemma announced_cancel [simp]: "map announced_of ((w_heap w)[r := cancel_pli_burst (part w r)]) = map announced_of (w_heap w)"
  by (rule announced_update) simp

lemma announced_send_frames [simp]: "map announced_of (w_heap (send_frames fs r w)) = map announced_of (w_heap w)"
  unfolding send_frames_def by (simp, intro impI, rule fold_frame, simp)

lemma announced_flush [simp]: "map announced_of (w_heap (snd (flush_ptt_silence now (room, w)))) = map announced_of (w_heap w)"
proof -
  have "map announced_of (w_heap (fold (send_frames fs) xs w)) = map announced_of (w_heap w)" for fs xs
    by (rule fold_frame) simp
  then show ?thesis by (simp add: flush_ptt_silence_def Let_def split: option.split)
qed

lemma announced_floor_action:
  "map announced_of (w_heap (snd (snd (apply_floor_action now op pid u act (resp, room, w))))) = map announced_of (w_heap w)"
  by (cases act) (simp_all add: apply_floor_action.simps Let_def count_grant_def count_revoke_def tell_revoked_def floor_pli_burst_def split: option.split)

lemma announced_floor_actions [simp]:
  "map announced_of (w_heap (snd (snd (apply_floor_actions now op pid acts u (room, w))))) = map announced_of (w_heap w)"
proof -
  have "map announced_of (w_heap (snd (snd (fold (apply_floor_action now op pid u) acts st)))) = map announced_of (w_heap (snd (snd st)))" for st
    by (rule fold_frame [where f = "\<lambda>st. map announced_of (w_heap (snd (snd st)))"])
      (metis announced_floor_action prod.collapse snd_conv)
  from this [of "(packet_ok op pid (JObj []), room, w)"] show ?thesis by (simp add: apply_floor_actions_def)
qed

lemma announced_leave_floor: "map announced_of (w_heap (leave_floor E u room (cancel_burst_of room u w))) = map announced_of (w_heap w)"
proof -
  have "map announced_of (w_heap (leave_floor E u room w)) = map announced_of (w_heap w)" for w
    by (simp add: leave_floor_def case_prod_beta Let_def)
      (metis announced_floor_actions announced_flush prod.collapse)
  then show ?thesis by (simp add: cancel_burst_of_def split: option.split)
qed

lemma announced_floor_left: "map announced_of (w_heap (floor_left E rid u w)) = map announced_of (w_heap w)"
  by (simp add: announced_leave_floor split: sum.split)

lemma announced_at:
  assumes "map announced_of (w_heap w') = map announced_of (w_heap w)" "x < length (w_heap w)"
  shows "p_tracks (part w' x) = p_tracks (part w x)" "p_simulcast_video_ssrc (part w' x) = p_simulcast_video_ssrc (part w x)"
    "p_ws_tx (part w' x) = p_ws_tx (part w x)" "p_user_id (part w' x) = p_user_id (part w x)"
  using arg_cong [OF assms(1), of "\<lambda>xs. xs ! x"] arg_cong [OF assms(1), of length] assms(2) by (simp_all add: announced_of_def)

text \<open>What members are sent when somebody is gone: the removed tracks, if there are any, and then that the user left.\<close>

definition gone_messages :: "'f world \<Rightarrow> json list \<Rightarrow> room_id \<Rightarrow> user_id \<Rightarrow> pref list \<Rightarrow> (nat \<times> packet) list" where
  "gone_messages w removed rid u members =
     (if removed = [] then [] else map (\<lambda>x. (p_ws_tx (part w x), tracks_removed removed)) members) @
     map (\<lambda>x. (p_ws_tx (part w x), participant_left rid u)) members"

lemma gone_messages_cong:
  assumes "map announced_of (w_heap w') = map announced_of (w_heap w)" "\<And>x. x \<in> set xs \<Longrightarrow> x < length (w_heap w)"
  shows "gone_messages w' ts rid u xs = gone_messages w ts rid u xs"
  using announced_at(3) [OF assms(1)] assms(2) by (simp add: gone_messages_def)

lemma announce_leave_ws:
  assumes "hub_get (w_hub w) rid = Inr room" "r < length (w_heap w)" "\<And>x. x \<in> set (all_participants room) \<Longrightarrow> x < length (w_heap w)"
  shows "w_ws (announce_leave rid u r w) = w_ws w @ gone_messages w
    (build_remove_tracks (p_tracks (part w r)) u (r_simulcast_enabled room) (p_simulcast_video_ssrc (part w r))) rid u (all_participants room)"
proof -
  note at = announced_at [OF announced_effects(3) [of room u w]]
  show ?thesis
    using assms(1,3) at(3) at(1,2) [OF assms(2)] by (simp add: announce_leave_def Let_def ws_broadcast gone_messages_def)
qed

lemma member_in_heap:
  assumes "room_inv heap room" "x \<in> set (all_participants room)"
  shows "x < length heap"
  using assms room_invD(5) [OF assms(1)] dm_get_iff [OF room_invD(1) [OF assms(1)]] by (auto simp: all_participants_def)

lemma leave_messages:
  fixes w :: "'f world"
  assumes w: "server_inv w" and room: "dm_get (h_rooms (w_hub w)) rid = Some room" and r: "get_participant room u = Some r"
  shows "\<exists>room' ws. dm_get (h_rooms (w_hub (snd (snd (handle_room_leave E u pid (Some rid) s w))))) rid = Some room' \<and>
    r_participants room' = dm_remove u (r_participants room) \<and>
    w_ws (snd (snd (handle_room_leave E u pid (Some rid) s w))) = ws @ gone_messages w
      (build_remove_tracks (p_tracks (part w r)) u (r_simulcast_enabled room) (p_simulcast_video_ssrc (part w r))) rid u
      (all_participants room')"
proof -
  define w1 where "w1 = floor_left E rid u w"
  have le: "world_le w w1" using leave_prefix_le [OF w, of rid room E u] room by (simp add: hub_get_def w1_def)
  have ann: "map announced_of (w_heap w1) = map announced_of (w_heap w)" unfolding w1_def by (rule announced_floor_left)
  obtain hub' room' where rem: "hub_remove_participant (w_heap w1) rid u (w_hub w1) = Inr (r, hub')"
    and room': "dm_get (h_rooms hub') rid = Some room'" "r_participants room' = dm_remove u (r_participants room)"
    using remove_member [OF w room r le] by blast
  obtain room1 where room1: "dm_get (h_rooms (w_hub w1)) rid = Some room1" "room_le room room1"
    using le room by (auto simp: world_le_def room_keeps_def option_rel_Some1 dest!: spec [of _ rid])
  have "same_core room1 room'"
    using rooms_from_remove [OF rem] room'(1) room1(1) by (fastforce simp: rooms_from_def)
  then have sim: "r_simulcast_enabled room' = r_simulcast_enabled room" using room1(2) by (simp add: same_core_def room_le_def)
  have inv: "room_inv (w_heap w) room" by (rule hub_invD(5) [OF server_invD(1) [OF w] room])
  have members: "x < length (w_heap w)" if "x \<in> set (all_participants room')" for x
    using member_in_heap [OF inv, of x] that room'(2) by (force simp: all_participants_def dm_remove_def)
  have len: "r < length (w_heap w)" using room_invD(5) [OF inv] r by (simp add: get_participant_def)
  have heap: "length (w_heap w1) = length (w_heap w)" using arg_cong [OF ann, of length] by simp
  let ?w2 = "w1\<lparr> w_hub := hub' \<rparr>"
  have "snd (snd (handle_room_leave E u pid (Some rid) s w)) = announce_leave rid u r ?w2"
    using rem unfolding w1_def handle_room_leave_def Let_def by simp
  moreover have "w_hub (announce_leave rid u r ?w2) = hub'"
    using room'(1) by (simp add: announce_leave_def hub_get_def Let_def)
  moreover have "w_ws (announce_leave rid u r ?w2) = w_ws ?w2 @ gone_messages ?w2
    (build_remove_tracks (p_tracks (part ?w2 r)) u (r_simulcast_enabled room') (p_simulcast_video_ssrc (part ?w2 r))) rid u (all_participants room')"
    by (rule announce_leave_ws) (use room'(1) members len heap in \<open>simp_all add: hub_get_def\<close>)
  moreover have "gone_messages ?w2 ts rid u (all_participants room') = gone_messages w ts rid u (all_participants room')" for ts
    by (rule gone_messages_cong) (use ann members in simp_all)
  ultimately show ?thesis using room' sim announced_at(1,2) [OF ann len] by simp
qed

lemma announce_zombie_frame [simp]:
  "w_hub (announce_zombie z w) = w_hub w" "map announced_of (w_heap (announce_zombie z w)) = map announced_of (w_heap w)"
  by (simp_all add: announce_zombie_def Let_def split: prod.split sum.split)

lemma announce_zombie_ws:
  assumes "\<And>x. x \<in> set (all_participants room) \<Longrightarrow> x < length (w_heap w)" "r < length (w_heap w)" "hub_get (w_hub w) rid = Inr room"
  shows "w_ws (announce_zombie (rid, r) w) = w_ws w @ gone_messages w
    (build_remove_tracks (p_tracks (part w r)) (p_user_id (part w r)) (r_simulcast_enabled room) 0) rid (p_user_id (part w r)) (all_participants room)"
proof -
  have same: "map announced_of (w_heap (update_part r cancel_pli_burst w)) = map announced_of (w_heap w)" by simp
  note at = announced_at [OF same]
  show ?thesis
    using assms(1,3) at(3) at(1,4) [OF assms(2)]
    by (simp add: announce_zombie_def Let_def ws_broadcast gone_messages_def del: heap_frame(5))
qed

lemma announce_zombie_grows: "\<exists>ms. w_ws (announce_zombie z w) = w_ws w @ ms"
  by (auto simp: announce_zombie_def Let_def ws_broadcast split: prod.split sum.split)

lemma announce_zombies_grow: "\<exists>ms. w_ws (fold announce_zombie zs w) = w_ws w @ ms"
proof (induction zs arbitrary: w)
  case (Cons z zs)
  then show ?case using announce_zombie_grows [of z w] by (metis append_assoc fold_simps(2))
qed simp

text \<open>In a pass over all zombies, the messages for each of them are sent, wherever it stands.\<close>

lemma announce_zombies_each:
  assumes "(rid, r) \<in> set zs" "hub_get (w_hub w) rid = Inr room" "r < length (w_heap w)"
    "\<And>x. x \<in> set (all_participants room) \<Longrightarrow> x < length (w_heap w)"
  shows "\<exists>before after. w_ws (fold announce_zombie zs w) = w_ws w @ before @ gone_messages w
    (build_remove_tracks (p_tracks (part w r)) (p_user_id (part w r)) (r_simulcast_enabled room) 0) rid (p_user_id (part w r)) (all_participants room) @ after"
  using assms
proof (induction zs arbitrary: w)
  case (Cons z zs)
  show ?case
  proof (cases "z = (rid, r)")
    case True
    then show ?thesis
      using announce_zombie_ws [OF Cons.prems(4,3,2)] announce_zombies_grow [of zs "announce_zombie z w"]
      by (metis append_Nil append_assoc fold_simps(2))
  next
    case False
    let ?w = "announce_zombie z w"
    have same: "map announced_of (w_heap ?w) = map announced_of (w_heap w)" by simp
    have len: "length (w_heap ?w) = length (w_heap w)" by (rule map_eq_imp_length_eq [OF same])
    note at = announced_at [OF same Cons.prems(3)]
    have gm: "gone_messages ?w ts rid v (all_participants room) = gone_messages w ts rid v (all_participants room)" for ts v
      by (rule gone_messages_cong [OF same Cons.prems(4)])
    obtain before after where ws: "w_ws (fold announce_zombie zs ?w) = w_ws ?w @ before @ gone_messages ?w
      (build_remove_tracks (p_tracks (part ?w r)) (p_user_id (part ?w r)) (r_simulcast_enabled room) 0) rid (p_user_id (part ?w r)) (all_participants room) @ after"
      using Cons.IH [of ?w] Cons.prems False len by auto
    moreover obtain ms where "w_ws ?w = w_ws w @ ms" using announce_zombie_grows by blast
    ultimately show ?thesis unfolding at gm by (intro exI [of _ "ms @ before"] exI [of _ after]) simp
  qed
qed simp

lemma reap_keeps_rooms: "dm_get (h_rooms hub) rid \<noteq> None \<Longrightarrow> dm_get (h_rooms (snd (reap_zombies heap now tmo hub))) rid \<noteq> None"
proof -
  have users: "dm_get (h_rooms hub) rid \<noteq> None \<Longrightarrow> dm_get (h_rooms (snd (reap_users heap rid' us hub))) rid \<noteq> None" for rid' us hub
  proof (induction us arbitrary: hub)
    case (Cons u us)
    show ?case
    proof (cases "hub_remove_participant heap rid' u hub")
      case (Inr x)
      then obtain r hub' where rem: "hub_remove_participant heap rid' u hub = Inr (r, hub')" by (cases x) auto
      have "dm_get (h_rooms hub') rid \<noteq> None" using rem by (rule hub_remove_simps) (use Cons.prems in simp)
      then show ?thesis using Cons.IH by (simp add: rem case_prod_beta)
    qed (use Cons in simp)
  qed simp
  have "dm_get (h_rooms hub) rid \<noteq> None \<Longrightarrow> dm_get (h_rooms (snd (reap_rooms heap now tmo ids hub))) rid \<noteq> None" for ids hub
    by (induction ids arbitrary: hub) (simp_all add: case_prod_beta Let_def users del: not_None_eq split: option.split)
  then show "dm_get (h_rooms hub) rid \<noteq> None \<Longrightarrow> ?thesis" by (simp only: reap_zombies_def)
qed

lemma reaper_messages:
  fixes w :: "'f world"
  assumes w: "server_inv w" and room: "dm_get (h_rooms (w_hub w)) rid = Some room" and r: "get_participant room u = Some r"
    and dead: "is_zombie (e_now_ms E) ZOMBIE_TIMEOUT_MS (part w r)"
  shows "\<exists>room' before after. dm_get (h_rooms (w_hub (zombie_reaper_tick E w))) rid = Some room' \<and>
    (\<forall>x. x \<in> set (all_participants room') \<longleftrightarrow>
       x \<in> set (all_participants room) \<and> \<not> is_zombie (e_now_ms E) ZOMBIE_TIMEOUT_MS (part w x)) \<and>
    w_ws (zombie_reaper_tick E w) = w_ws w @ before @ gone_messages w
      (build_remove_tracks (p_tracks (part w r)) u (r_simulcast_enabled room) 0) rid u (all_participants room') @ after"
proof -
  let ?now = "e_now_ms E" let ?tmo = ZOMBIE_TIMEOUT_MS
  let ?R = "reap_zombies (w_heap w) ?now ?tmo (w_hub w)"
  note hub = server_invD(1) [OF w]
  have hub': "hub_inv (w_heap w) (snd ?R)" unfolding reap_zombies_def by (rule reap_rooms_inv [OF hub])
  have ids: "rid \<in> set (dm_keys (h_rooms (w_hub w)))" using room by (auto dest: map_of_SomeD intro: rev_image_eqI)
  obtain room' where room': "dm_get (h_rooms (snd ?R)) rid = Some room'"
    using reap_keeps_rooms [of "w_hub w" rid] room by fastforce
  have sim: "r_simulcast_enabled room' = r_simulcast_enabled room"
    using rooms_from_reap [of "w_hub w" "w_heap w" ?now ?tmo] room' room by (fastforce simp: rooms_from_def same_core_def)
  have reg: "x \<in> set (all_participants rm) \<longleftrightarrow> registered rm x" for x rm by (simp add: all_participants_def registered_def)
  have members: "x \<in> set (all_participants room') \<longleftrightarrow> x \<in> set (all_participants room) \<and> \<not> is_zombie ?now ?tmo (part w x)" for x
  proof -
    have "(x, Publish, rid) \<in> set (all_sessions (snd ?R)) \<longleftrightarrow> registered room' x"
      "(x, Publish, rid) \<in> set (all_sessions (w_hub w)) \<longleftrightarrow> registered room x"
      unfolding all_sessions_iff [OF hub_invD(1) [OF hub']] all_sessions_iff [OF hub_invD(1) [OF hub]] room room' by blast+
    then show ?thesis
      using reap_rooms_sessions(1) [OF hub, of x Publish rid ?now ?tmo "dm_keys (h_rooms (w_hub w))"] ids
      unfolding reg reap_zombies_def [symmetric] by blast
  qed
  note inv = hub_invD(5) [OF hub room]
  have len: "r < length (w_heap w)" "p_user_id (part w r) = u" using room_invD(5) [OF inv] r by (simp_all add: get_participant_def)
  have "registered room r" using registered_iff [OF room_invD(1) [OF inv]] r by (auto simp: get_participant_def)
  then have reaped: "(rid, r) \<in> set (fst ?R)"
    using reap_rooms_sessions(2) [OF hub, of rid r ?now ?tmo "dm_keys (h_rooms (w_hub w))"] room ids dead
    by (simp add: all_sessions_iff hub_invD(1) [OF hub] reap_zombies_def)
  let ?w1 = "w\<lparr> w_hub := snd ?R \<rparr>"
  have tick: "zombie_reaper_tick E w = fold announce_zombie (fst ?R) ?w1" by (simp add: zombie_reaper_tick_def case_prod_beta)
  have "w_hub (fold announce_zombie zs w) = w_hub w" for zs and w :: "'f world" by (rule fold_frame) simp
  then have final: "w_hub (zombie_reaper_tick E w) = snd ?R" by (simp add: tick)
  have "\<exists>before after. w_ws (zombie_reaper_tick E w) = w_ws ?w1 @ before @ gone_messages ?w1
    (build_remove_tracks (p_tracks (part ?w1 r)) (p_user_id (part ?w1 r)) (r_simulcast_enabled room') 0) rid (p_user_id (part ?w1 r)) (all_participants room') @ after"
    unfolding tick
    by (rule announce_zombies_each [OF reaped]) (use room' len member_in_heap [OF hub_invD(5) [OF hub' room']] in \<open>simp_all add: hub_get_def\<close>)
  moreover have "part ?w1 r = part w r" "w_ws ?w1 = w_ws w" "gone_messages ?w1 ts v y xs = gone_messages w ts v y xs" for ts v y xs
    by (simp_all add: gone_messages_def)
  ultimately have "\<exists>before after. w_ws (zombie_reaper_tick E w) = w_ws w @ before @ gone_messages w
    (build_remove_tracks (p_tracks (part w r)) u (r_simulcast_enabled room) 0) rid u (all_participants room') @ after"
    by (simp only: len(2) sim)
  then show ?thesis using room' members unfolding final by blast
qed


definition demo_publisher :: "unit participant \<Rightarrow> unit participant" where
  "demo_publisher p = p\<lparr> p_tracks := [\<lparr> t_ssrc = 5, t_kind = Video, t_track_id = ''t'', t_rtx_ssrc = Some 6, t_muted = False,
     t_rid = None, t_simulcast_group = None, t_video_codec = Vp8, t_actual_pt = 0, t_actual_rtx_pt = 0 \<rparr>] \<rparr>"

lemma demo_publisher_inv: "server_inv (update_part 0 demo_publisher (demo_joined Conference))"
proof (rule server_inv_le [OF demo_joined_inv], rule world_le_part)
  show "part_le p (demo_publisher p)" for p
    by (auto simp: part_le_def same_identity_def part_ok_def tracks_ok_def demo_publisher_def session_def split: pc_type.split)
qed


end
