(* ===== verification/RtpPayload.thy ===== *)
theory RtpPayload
  imports Config
begin

text \<open>
  The payload offset and the VP8 and H264 keyframe detectors at the end of
  \<open>room/ptt_rewriter.rs\<close>. Every read at a computed offset is checked, and an outer \<open>None\<close> is an
  out-of-range index; the theorem at the end shows that there is none, on any input, and what the
  aggregation-packet scan answers.
\<close>

definition rtp_payload_offset :: "bytes \<Rightarrow> nat option option" where
  "rtp_payload_offset p =
     (if length p < 12 then Some None
      else do {
        b0 \<leftarrow> rd8 p 0;
        let cc = unat (b0 AND 0x0F);
        let has_ext = (b0 AND 0x10 \<noteq> 0);
        let offset = 12 + cc * 4;
        if has_ext then
          (if length p < offset + 4 then Some None
           else do {
             ext_len \<leftarrow> rd16 p (offset + 2);
             let offset' = offset + (4 + unat ext_len * 4);
             Some (if length p \<le> offset' then None else Some offset')
           })
        else Some (if length p \<le> offset then None else Some offset)
      })"

definition is_vp8_keyframe :: "bytes \<Rightarrow> bool option" where
  "is_vp8_keyframe p = do {
     off \<leftarrow> rtp_payload_offset p;
     case off of
       None \<Rightarrow> Some False
     | Some offset \<Rightarrow> do {
         pd \<leftarrow> rd8 p offset;
         let x = (pd AND 0x80 \<noteq> 0);
         let s = (pd AND 0x10 \<noteq> 0);
         let last = (\<lambda>pd_offset.
           if length p \<le> pd_offset then Some False
           else do { frame_byte \<leftarrow> rd8 p pd_offset; Some (frame_byte AND 0x01 = 0) });
         let tail = (\<lambda>x_byte pd_offset.
           let o1 = (if x_byte AND 0x40 \<noteq> 0 then pd_offset + 1 else pd_offset);
               o2 = (if x_byte AND 0x20 \<noteq> 0 \<or> x_byte AND 0x10 \<noteq> 0 then o1 + 1 else o1)
           in last o2);
         if \<not> s then Some False
         else if x then
           (if length p \<le> offset + 1 then Some False
            else do {
              x_byte \<leftarrow> rd8 p (offset + 1);
              if x_byte AND 0x80 \<noteq> 0 then
                (if length p \<le> offset + 2 then Some False
                 else do {
                   pid \<leftarrow> rd8 p (offset + 2);
                   tail x_byte (if pid AND 0x80 \<noteq> 0 then offset + 2 + 2 else offset + 2 + 1)
                 })
              else tail x_byte (offset + 2)
            })
         else last (offset + 1)
       }
   }"

text \<open>The loop over the NAL units of a STAP-A packet.\<close>

function stap_scan :: "bytes \<Rightarrow> nat \<Rightarrow> bool option" where
  "stap_scan p pos =
     (if pos + 2 < length p then
        do {
          nalu_size \<leftarrow> rd16 p pos;
          sub \<leftarrow> rd8 p (pos + 2);
          if sub AND 0x1F = 7 \<or> sub AND 0x1F = 5 then Some True
          else if length p < pos + 2 + unat nalu_size then Some False
          else stap_scan p (pos + 2 + unat nalu_size)
        }
      else Some False)"
  by auto
termination
  by (relation "measure (\<lambda>(p, pos). length p - pos)") auto

declare stap_scan.simps [simp del]

definition is_h264_keyframe :: "bytes \<Rightarrow> bool option" where
  "is_h264_keyframe p = do {
     off \<leftarrow> rtp_payload_offset p;
     case off of
       None \<Rightarrow> Some False
     | Some offset \<Rightarrow> do {
         first_byte \<leftarrow> rd8 p offset;
         let nal_type = first_byte AND 0x1F;
         if nal_type = 7 \<or> nal_type = 5 then Some True
         else if nal_type = 24 then stap_scan p (offset + 1)
         else if nal_type = 28 then
           (if length p \<le> offset + 1 then Some False
            else do {
              fu_header \<leftarrow> rd8 p (offset + 1);
              Some (fu_header AND 0x80 \<noteq> 0 \<and>
                    (fu_header AND 0x1F = 5 \<or> fu_header AND 0x1F = 7))
            })
         else Some False
       }
   }"

section \<open>No out-of-range reads\<close>

lemma rtp_payload_offset_total: "\<exists>off. rtp_payload_offset p = Some off"
  by (auto simp: rtp_payload_offset_def Let_def rd8_def rd16_def)

lemma rtp_payload_offset_bound: "rtp_payload_offset p = Some (Some offset) \<Longrightarrow> offset < length p"
  by (auto simp: rtp_payload_offset_def Let_def not_le split: if_splits bind_splits)

lemma rtp_payload_offset_ge: "rtp_payload_offset p = Some (Some offset) \<Longrightarrow> 12 \<le> offset"
  by (auto simp: rtp_payload_offset_def Let_def not_le split: if_splits bind_splits)

lemma is_vp8_keyframe_total: "\<exists>b. is_vp8_keyframe p = Some b"
proof -
  obtain off where off: "rtp_payload_offset p = Some off" using rtp_payload_offset_total by blast
  show ?thesis
  proof (cases off)
    case (Some offset)
    then have "offset < length p" using off rtp_payload_offset_bound by blast
    then show ?thesis using off Some by (auto simp: is_vp8_keyframe_def Let_def not_le)
  qed (auto simp: off is_vp8_keyframe_def)
qed

lemma stap_scan_total: "\<exists>b. stap_scan p pos = Some b"
proof (induction p pos rule: stap_scan.induct)
  case (1 p pos)
  then show ?case by (subst stap_scan.simps) auto
qed

lemma is_h264_keyframe_total: "\<exists>b. is_h264_keyframe p = Some b"
proof -
  obtain off where off: "rtp_payload_offset p = Some off" using rtp_payload_offset_total by blast
  show ?thesis
  proof (cases off)
    case (Some offset)
    then have "offset < length p" using off rtp_payload_offset_bound by blast
    then show ?thesis using off Some stap_scan_total [of p "offset + 1"]
      by (auto simp: is_h264_keyframe_def Let_def not_le)
  qed (auto simp: off is_h264_keyframe_def)
qed

section \<open>Aggregation packets\<close>

text \<open>The wire form of a sequence of NAL units inside a STAP-A packet.\<close>

definition stap_body :: "bytes list \<Rightarrow> bytes" where
  "stap_body ns = concat (map (\<lambda>n. be16 (word_of_nat (length n)) @ n) ns)"

definition nal_key :: "bytes \<Rightarrow> bool" where
  "nal_key n \<longleftrightarrow> hd n AND 0x1F = 5 \<or> hd n AND 0x1F = 7"

lemma stap_scan_body:
  assumes "\<forall>n\<in>set ns. n \<noteq> [] \<and> length n < 65536"
  shows "stap_scan (pre @ stap_body ns) (length pre) = Some (\<exists>n\<in>set ns. nal_key n)"
  using assms
proof (induction ns arbitrary: pre)
  case Nil
  then show ?case by (subst stap_scan.simps) (simp add: stap_body_def)
next
  case (Cons n ns)
  let ?w = "word_of_nat (length n) :: u16"
  let ?p = "pre @ stap_body (n # ns)"
  have p: "?p = pre @ be16 ?w @ n @ stap_body ns" by (simp add: stap_body_def)
  have ne: "n \<noteq> []" "0 < length n" and len: "unat ?w = length n"
    using Cons.prems by (auto simp: unat_word_of_nat)
  have lp: "length ?p = length pre + 2 + length n + length (stap_body ns)" by (simp add: p)
  have sz: "rd16 ?p (length pre) = Some ?w"
    using lp ne by (simp add: p be16_at_append)
  have sub: "rd8 ?p (length pre + 2) = Some (hd n)"
    using lp ne by (simp add: p nth_append hd_conv_nth)
  have rest: "stap_scan ?p (length pre + 2 + length n) = Some (\<exists>m\<in>set ns. nal_key m)"
    using Cons.IH [of "pre @ be16 ?w @ n"] Cons.prems by (simp add: p)
  show ?case
  proof (cases "nal_key n")
    case True
    then show ?thesis using lp ne sz sub
      by (subst stap_scan.simps) (auto simp: nal_key_def)
  next
    case False
    then show ?thesis using lp ne sz sub rest len
      by (subst stap_scan.simps) (auto simp: nal_key_def)
  qed
qed

text \<open>
  The wire form of an RTP header with its contributing sources and its extension. The low bits of the first byte give
  the number of sources, one bit announces the extension; version, padding and the marker bits are free.
\<close>

definition rtp_wire :: "u8 \<Rightarrow> u8 \<Rightarrow> u16 \<Rightarrow> u32 \<Rightarrow> u32 \<Rightarrow> u32 list \<Rightarrow> (u16 \<times> u32 list) option \<Rightarrow> bytes" where
  "rtp_wire b0 b1 seq ts ssrc csrcs ext =
     [b0, b1] @ be16 seq @ be32 ts @ be32 ssrc @ concat (map be32 csrcs) @
     (case ext of None \<Rightarrow> []
      | Some (profile, ws) \<Rightarrow> be16 profile @ be16 (word_of_nat (length ws)) @ concat (map be32 ws))"

definition rtp_wire_ok :: "u8 \<Rightarrow> u32 list \<Rightarrow> (u16 \<times> u32 list) option \<Rightarrow> bool" where
  "rtp_wire_ok b0 csrcs ext \<longleftrightarrow> unat (b0 AND 0x0F) = length csrcs \<and> (b0 AND 0x10 \<noteq> 0 \<longleftrightarrow> ext \<noteq> None) \<and>
     (case ext of None \<Rightarrow> True | Some (profile, ws) \<Rightarrow> length ws < 65536)"

lemma length_concat_be32 [simp]: "length (concat (map be32 ws)) = 4 * length ws"
  by (induction ws) auto

lemma rtp_payload_offset_wire:
  assumes ok: "rtp_wire_ok b0 csrcs ext" and body: "body \<noteq> []"
  shows "rtp_payload_offset (rtp_wire b0 b1 seq ts ssrc csrcs ext @ body) = Some (Some (length (rtp_wire b0 b1 seq ts ssrc csrcs ext)))"
proof (cases ext)
  case None
  then show ?thesis using ok body by (simp add: rtp_payload_offset_def rtp_wire_def rtp_wire_ok_def Let_def)
next
  case (Some e)
  obtain profile ws where e: "e = (profile, ws)" by fastforce
  let ?w = "word_of_nat (length ws) :: u16"
  let ?pre = "[b0, b1] @ be16 seq @ be32 ts @ be32 ssrc @ concat (map be32 csrcs) @ be16 profile"
  let ?p = "?pre @ be16 ?w @ concat (map be32 ws) @ body"
  have "length ?pre = 14 + 4 * length csrcs" by simp
  then have at: "be16_at ?p (14 + length csrcs * 4) = ?w"
    using be16_at_append [of ?pre ?w "concat (map be32 ws) @ body"] by (simp add: mult.commute)
  have "unat ?w = length ws" using ok by (simp add: unat_word_of_nat rtp_wire_ok_def Some e)
  then show ?thesis using ok body at by (simp add: rtp_payload_offset_def rtp_wire_def rtp_wire_ok_def Let_def Some e)
qed

section \<open>The VP8 payload descriptor\<close>

text \<open>
  The wire form of the descriptor: its first byte, and, if that says so, the byte of optional fields with the picture
  id (one byte or two), the index of the temporal layer zero and the byte of the layer id.
\<close>

definition vp8_wire :: "u8 \<Rightarrow> (u8 \<times> bytes \<times> bytes \<times> bytes) option \<Rightarrow> bytes" where
  "vp8_wire pd ext = pd # (case ext of None \<Rightarrow> [] | Some (x, pid, tl0, tk) \<Rightarrow> x # pid @ tl0 @ tk)"

definition vp8_wire_ok :: "u8 \<Rightarrow> (u8 \<times> bytes \<times> bytes \<times> bytes) option \<Rightarrow> bool" where
  "vp8_wire_ok pd ext \<longleftrightarrow> (pd AND 0x80 \<noteq> 0 \<longleftrightarrow> ext \<noteq> None) \<and>
     (case ext of None \<Rightarrow> True
      | Some (x, pid, tl0, tk) \<Rightarrow>
          (if x AND 0x80 = 0 then pid = []
           else pid \<noteq> [] \<and> length pid = (if hd pid AND 0x80 = 0 then 1 else 2)) \<and>
          length tl0 = (if x AND 0x40 = 0 then 0 else 1) \<and>
          length tk = (if x AND 0x20 = 0 \<and> x AND 0x10 = 0 then 0 else 1))"

lemma vp8_wire_verdict:
  assumes off: "rtp_payload_offset (h @ vp8_wire pd ext @ frame # more) = Some (Some (length h))" and ok: "vp8_wire_ok pd ext"
  shows "is_vp8_keyframe (h @ vp8_wire pd ext @ frame # more) = Some (pd AND 0x10 \<noteq> 0 \<and> frame AND 1 = 0)"
proof (cases ext)
  case None
  then show ?thesis using ok off by (auto simp: is_vp8_keyframe_def vp8_wire_def vp8_wire_ok_def Let_def nth_append)
next
  case (Some e)
  obtain x pid tl0 tk where e: "e = (x, pid, tl0, tk)" by (cases e)
  define q where "q = h @ vp8_wire pd ext @ frame # more"
  have q: "q = h @ pd # x # pid @ tl0 @ tk @ frame # more" by (simp add: q_def vp8_wire_def Some e)
  define f where "f = length h + 2 + length pid + length tl0 + length tk"
  have rd: "q ! length h = pd" "q ! (length h + 1) = x" "pid \<noteq> [] \<Longrightarrow> q ! (length h + 2) = hd pid" "q ! f = frame"
    unfolding q f_def by (auto simp: nth_append nth_Cons' hd_conv_nth)
  have len: "f < length q" unfolding q f_def by simp
  have ok: "if x AND 0x80 = 0 then pid = [] else pid \<noteq> [] \<and> length pid = (if hd pid AND 0x80 = 0 then 1 else 2)"
    "length tl0 = (if x AND 0x40 = 0 then 0 else 1)" "length tk = (if x AND 0x20 = 0 \<and> x AND 0x10 = 0 then 0 else 1)"
    "pd AND 0x80 \<noteq> 0"
    using ok by (simp_all add: vp8_wire_ok_def Some e)
  have tail: "(if x AND 0x20 \<noteq> 0 \<or> x AND 0x10 \<noteq> 0 then (if x AND 0x40 \<noteq> 0 then o1 + 1 else o1) + 1
      else (if x AND 0x40 \<noteq> 0 then o1 + 1 else o1)) = f" if "o1 = length h + 2 + length pid" for o1
    using ok(2,3) that by (auto simp: f_def)
  have bounds: "length h < length q" "length h + 1 < length q" "pid \<noteq> [] \<Longrightarrow> length h + 2 < length q"
    using len by (auto simp: f_def)
  have off: "rtp_payload_offset q = Some (Some (length h))" using off by (simp add: q_def)
  have "is_vp8_keyframe q = Some (pd AND 0x10 \<noteq> 0 \<and> frame AND 1 = 0)"
  proof (cases "x AND 0x80 = 0")
    case True
    then show ?thesis using ok(1,4) tail [of "length h + 2"] rd bounds len
      by (simp add: is_vp8_keyframe_def off Let_def del: One_nat_def add_2_eq_Suc')
  next
    case False
    then have "pid \<noteq> []" "(if hd pid AND 0x80 \<noteq> 0 then length h + 2 + 2 else length h + 2 + 1) = length h + 2 + length pid"
      using ok(1) by auto
    note pid = this(1) tail [OF this(2)]
    show ?thesis using False ok(4) pid rd bounds(1,2) bounds(3) [OF pid(1)] rd(3) [OF pid(1)] len
      by (simp add: is_vp8_keyframe_def off Let_def not_le del: One_nat_def add_2_eq_Suc')
  qed
  then show ?thesis by (simp add: q_def)
qed

section \<open>H264 payloads\<close>

text \<open>What the first bytes of a payload that is no aggregation packet say.\<close>

definition h264_first_key :: "u8 \<Rightarrow> bytes \<Rightarrow> bool" where
  "h264_first_key nal rest \<longleftrightarrow> nal AND 0x1F = 5 \<or> nal AND 0x1F = 7 \<or>
     nal AND 0x1F = 28 \<and> rest \<noteq> [] \<and> hd rest AND 0x80 \<noteq> 0 \<and> (hd rest AND 0x1F = 5 \<or> hd rest AND 0x1F = 7)"

lemma h264_verdict:
  assumes off: "rtp_payload_offset (h @ nal # rest) = Some (Some (length h))" and nal: "nal AND 0x1F \<noteq> 24"
  shows "is_h264_keyframe (h @ nal # rest) = Some (h264_first_key nal rest)"
  using assms by (cases rest) (auto simp: is_h264_keyframe_def h264_first_key_def Let_def nth_append)

lemma stap_verdict:
  assumes off: "rtp_payload_offset (h @ nal # stap_body ns) = Some (Some (length h))" and nal: "nal AND 0x1F = 24"
    and ns: "\<forall>n\<in>set ns. n \<noteq> [] \<and> length n < 65536"
  shows "is_h264_keyframe (h @ nal # stap_body ns) = Some (\<exists>n\<in>set ns. nal_key n)"
  using stap_scan_body [OF ns, of "h @ [nal]"] off nal by (simp add: is_h264_keyframe_def nth_append)

text \<open>
  C7: The keyframe detectors never index out of range: on every byte string, truncated or malformed
  headers included, both return a verdict. Behind every well-formed RTP header, with any contributing sources and with or without a
  header extension, the verdict is exact. An H264 aggregation packet (STAP-A of non-empty units, with no padding behind them) is a keyframe if and only if
  one of the aggregated NAL units is an IDR slice or an SPS, wherever it stands; any other H264 payload if and only if it is
  such a NAL unit or the first fragment (FU-A) of one. A VP8 payload, whatever optional fields its descriptor has, is
  a keyframe if and only if the descriptor marks the start of a partition and the first byte of the data has its
  lowest bit clear.
\<close>

theorem keyframe_detection_correct:
  "(\<exists>b. is_vp8_keyframe p = Some b) \<and> (\<exists>b. is_h264_keyframe p = Some b) \<and>
   (rtp_wire_ok b0 csrcs ext \<longrightarrow>
      (nal AND 0x1F = 24 \<and> (\<forall>n\<in>set ns. n \<noteq> [] \<and> length n < 65536) \<longrightarrow>
         is_h264_keyframe (rtp_wire b0 b1 seq ts ssrc csrcs ext @ nal # stap_body ns) =
           Some (\<exists>n\<in>set ns. hd n AND 0x1F = 5 \<or> hd n AND 0x1F = 7)) \<and>
      (nal AND 0x1F \<noteq> 24 \<longrightarrow>
         is_h264_keyframe (rtp_wire b0 b1 seq ts ssrc csrcs ext @ nal # rest) = Some (h264_first_key nal rest)) \<and>
      (vp8_wire_ok pd vext \<longrightarrow>
         is_vp8_keyframe (rtp_wire b0 b1 seq ts ssrc csrcs ext @ vp8_wire pd vext @ frame # more) =
           Some (pd AND 0x10 \<noteq> 0 \<and> frame AND 1 = 0)))"
proof (intro conjI impI)
  assume "rtp_wire_ok b0 csrcs ext"
  note off = rtp_payload_offset_wire [OF this]
  show "is_h264_keyframe (rtp_wire b0 b1 seq ts ssrc csrcs ext @ nal # stap_body ns) =
      Some (\<exists>n\<in>set ns. hd n AND 0x1F = 5 \<or> hd n AND 0x1F = 7)"
    if "nal AND 0x1F = 24 \<and> (\<forall>n\<in>set ns. n \<noteq> [] \<and> length n < 65536)"
    using stap_verdict [OF off] that by (simp add: nal_key_def)
  show "is_h264_keyframe (rtp_wire b0 b1 seq ts ssrc csrcs ext @ nal # rest) = Some (h264_first_key nal rest)"
    if "nal AND 0x1F \<noteq> 24"
    using h264_verdict [OF off] that by simp
  show "is_vp8_keyframe (rtp_wire b0 b1 seq ts ssrc csrcs ext @ vp8_wire pd vext @ frame # more) =
      Some (pd AND 0x10 \<noteq> 0 \<and> frame AND 1 = 0)"
    if "vp8_wire_ok pd vext"
    using vp8_wire_verdict [OF off that] by simp
qed (simp_all add: is_vp8_keyframe_total is_h264_keyframe_total)

text \<open>With one contributing source and an extension of one word; the VP8 descriptor has a long picture id.\<close>

theorem keyframe_detection_correct_witness:
  "is_h264_keyframe (rtp_wire 0x91 102 1 2 3 [4] (Some (0xBEDE, [5])) @ 0x78 # stap_body [[0x68, 1], [0x67, 2, 3]]) = Some True \<and>
   is_vp8_keyframe (rtp_wire 0x91 96 1 2 3 [4] (Some (0xBEDE, [5])) @ vp8_wire 0x90 (Some (0x80, [0x81, 2], [], [])) @ [0x10]) = Some True"
proof -
  have "(0x78 :: u8) AND 0x1F = 24" "(0x67 :: u8) AND 0x1F = 7" by simp_all
  moreover have "rtp_wire_ok 0x91 [4] (Some (0xBEDE, [5]))" by (simp add: rtp_wire_ok_def)
  moreover have "vp8_wire_ok 0x90 (Some (0x80, [0x81, 2], [], []))" by (simp add: vp8_wire_ok_def)
  ultimately show ?thesis
    using keyframe_detection_correct [of "[]" "0x91" "[4]" "Some (0xBEDE, [5])"] by simp
qed

text \<open>The partition index of the descriptor is not looked at: the start of a later partition can pass for a keyframe.\<close>

lemma later_partition_passes_for_keyframe:
  "is_vp8_keyframe (rtp_wire 0x80 96 1 2 3 [] None @ vp8_wire 0x11 None @ [0x10]) = Some True"
  by (subst vp8_wire_verdict [OF rtp_payload_offset_wire]) (simp_all add: rtp_wire_ok_def vp8_wire_ok_def vp8_wire_def)

end
