(* ===== verification/Ingress.thy ===== *)
theory Ingress
  imports RoomOps RtpPayload
begin

text \<open>
  The receive path of \<open>transport/udp/ingress.rs\<close>: from an SRTP or SRTCP datagram to the egress queues
  of the subscribers. A handler returns the world after the call, or \<open>None\<close> where an index of the code
  would be out of range. The room value a handler works on is written back when the handler changes it.
  Timing statistics and log output are left out.
\<close>

section \<open>Helpers\<close>

fun fold_opt :: "('a \<Rightarrow> 's \<Rightarrow> 's option) \<Rightarrow> 'a list \<Rightarrow> 's \<Rightarrow> 's option" where
  "fold_opt f [] s = Some s"
| "fold_opt f (x # xs) s = do { s' \<leftarrow> f x s; fold_opt f xs s' }"

fun slices :: "bytes \<Rightarrow> rtcp_block_ref list \<Rightarrow> bytes list option" where
  "slices buf [] = Some []"
| "slices buf (b # bs) = do { x \<leftarrow> slice buf (br_offset b) (br_offset b + br_length b); xs \<leftarrow> slices buf bs; Some (x # xs) }"

text \<open>\<open>buf.get(i).copied().unwrap_or(0)\<close>.\<close>

definition byte_or_0 :: "bytes \<Rightarrow> nat \<Rightarrow> u8" where
  "byte_or_0 buf i = (if i < length buf then buf ! i else 0)"

definition is_rtcp :: "bytes \<Rightarrow> bool" where
  "is_rtcp buf \<longleftrightarrow> 1 < length buf \<and> 72 \<le> buf ! 1 AND 0x7F \<and> buf ! 1 AND 0x7F \<le> 79"

definition is_keyframe :: "u8 \<Rightarrow> bytes \<Rightarrow> bool option" where
  "is_keyframe pt buf = (if pt = H264_PAYLOAD_TYPE then is_h264_keyframe buf else is_vp8_keyframe buf)"

abbreviation count :: "(pipeline_stats \<Rightarrow> pipeline_stats) \<Rightarrow> pref \<Rightarrow> 'f world \<Rightarrow> 'f world" where
  "count f r w \<equiv> update_part r (count_pipeline f) w"

section \<open>Publish RTP\<close>

text \<open>The payload type of the client is replaced by the standard one of the codec of the track.\<close>

definition set_pt :: "u8 \<Rightarrow> bytes \<Rightarrow> rtp_header \<Rightarrow> (bytes \<times> rtp_header \<times> bool) option" where
  "set_pt std_pt buf h =
     (if 1 < length buf then Some (buf[1 := (buf ! 1 AND 0x80) OR std_pt], h\<lparr> rh_pt := std_pt \<rparr>, True) else None)"

definition normalise_pt :: "track list \<Rightarrow> bytes \<Rightarrow> rtp_header \<Rightarrow> (bytes \<times> rtp_header \<times> bool) option" where
  "normalise_pt ts buf h =
     (case find (\<lambda>t. t_actual_pt t \<noteq> 0 \<and> t_actual_pt t = rh_pt h) ts of
        Some t \<Rightarrow> set_pt (standard_pt (t_video_codec t)) buf h
      | None \<Rightarrow>
          (case find (\<lambda>t. t_actual_rtx_pt t \<noteq> 0 \<and> t_actual_rtx_pt t = rh_pt h) ts of
             Some t \<Rightarrow> set_pt (standard_rtx_pt (t_video_codec t)) buf h
           | None \<Rightarrow> Some (buf, h, False)))"

definition update_recv_stats :: "'f env \<Rightarrow> rtp_header \<Rightarrow> 'f participant \<Rightarrow> 'f participant" where
  "update_recv_stats E h p =
     (let clock_rate = (if is_audio_pt (rh_pt h) then CLOCK_RATE_AUDIO else CLOCK_RATE_VIDEO);
          stats = (case dm_get (p_recv_stats p) (rh_ssrc h) of
                     Some s \<Rightarrow> s | None \<Rightarrow> recv_new (e_f64 E) (rh_ssrc h) clock_rate)
      in p\<lparr> p_recv_stats := dm_insert (rh_ssrc h) (recv_update (e_f64 E) (rh_seq h) (rh_timestamp h) (e_now_ms E) stats)
                             (p_recv_stats p) \<rparr>)"

definition collect_rtp_stats :: "'f env \<Rightarrow> bytes \<Rightarrow> rtp_header \<Rightarrow> pref \<Rightarrow> 'f world \<Rightarrow> 'f world option" where
  "collect_rtp_stats E plaintext h r w =
     (let w1 = (if is_audio_pt (rh_pt h) then update_part r (\<lambda>p. p\<lparr> p_last_audio_arrival_us := e_now_us E \<rparr>) w else w);
          w2 = (if \<not> is_rtx_pt (rh_pt h) then update_part r (update_recv_stats E h) w1 else w1);
          w3 = (if is_video_pt (rh_pt h)
                then bump ''rtp_cache_stored'' 1
                       (update_part r (\<lambda>p. p\<lparr> p_rtp_cache := cache_store (rh_seq h) plaintext (p_rtp_cache p) \<rparr>) w2)
                else w2);
          cid = p_twcc_extmap_id (part w3 r);
          twcc_id = (if cid \<noteq> 0 then cid else TWCC_EXTMAP_ID)
      in do { twcc_seq \<leftarrow> parse_twcc_seq plaintext twcc_id;
              Some (case twcc_seq of
                      Some s \<Rightarrow> bump ''twcc_recorded'' 1
                        (update_part r (\<lambda>p. p\<lparr> p_twcc_recorder := tw_record s (e_instant E) (p_twcc_recorder p) \<rparr>) w3)
                    | None \<Rightarrow> w3) })"

definition detect_gap :: "rtp_header \<Rightarrow> pref \<Rightarrow> 'f world \<Rightarrow> 'f world" where
  "detect_gap h r w =
     (if is_video_pt (rh_pt h) then
        (let now_ms = p_last_seen (part w r);
             prev_ms = p_last_video_rtp_ms (part w r);
             w1 = update_part r (\<lambda>p. p\<lparr> p_last_video_rtp_ms := now_ms \<rparr>) w
         in if 0 < prev_ms \<and> 3000 < sat_sub now_ms prev_ms then
              (let w2 = update_part r (\<lambda>p. p\<lparr> p_rtp_gap_suppress_until_ms := now_ms + 5000 \<rparr>) (bump ''rtp_gap_detected'' 1 w1)
               in case ms_address (p_publish (part w2 r)) of
                    Some pub_addr \<Rightarrow>
                      if is_publish_ready (part w2 r)
                      then spawn_pli_burst r (rh_ssrc h) pub_addr [0, 500, 1500] ''RTP_GAP'' w2 else w2
                  | None \<Rightarrow> w2)
            else w1)
      else w)"

section \<open>Push-to-talk gate and rewriting\<close>

definition ptt_rewrite ::
  "'f env \<Rightarrow> bytes \<Rightarrow> rtp_header \<Rightarrow> user_id \<Rightarrow> room \<Rightarrow> 'f world \<Rightarrow> (rewrite_result \<times> bytes \<times> room \<times> 'f world) option" where
  "ptt_rewrite E plaintext h user_id room w =
     (if is_audio_pt (rh_pt h) then
        (case rewrite (r_audio_rewriter room) (e_instant E) plaintext user_id False of
           (result, rewritten, rw) \<Rightarrow> Some (result, rewritten, room\<lparr> r_audio_rewriter := rw \<rparr>, w))
      else if is_video_pt (rh_pt h) then
        do { keyframe \<leftarrow> is_keyframe (rh_pt h) plaintext;
             (case rewrite (r_video_rewriter room) (e_instant E) plaintext user_id keyframe of
                (result, rewritten, rw) \<Rightarrow>
                  Some (result, rewritten, room\<lparr> r_video_rewriter := rw \<rparr>,
                        if keyframe then bump ''ptt_keyframe_arrived'' 1 w else w)) }
      else Some (Skip, plaintext, room, w))"

definition prepare_fanout_payload ::
  "'f env \<Rightarrow> bytes \<Rightarrow> rtp_header \<Rightarrow> pref \<Rightarrow> room \<Rightarrow> 'f world \<Rightarrow> (bytes option \<times> room \<times> 'f world) option" where
  "prepare_fanout_payload E plaintext h r room w =
     (if r_mode room = Ptt then
        (if current_speaker (r_floor room) \<noteq> Some (p_user_id (part w r)) then
           Some (None, room, count (\<lambda>s. s\<lparr> pub_rtp_gated := pub_rtp_gated s + 1 \<rparr>) r (bump ''ptt_rtp_gated'' 1 w))
         else
           do { (result, rewritten, room', w1) \<leftarrow> ptt_rewrite E plaintext h (p_user_id (part w r)) room w;
                Some (case result of
                        RwOk \<Rightarrow>
                          (let w2 = count (\<lambda>s. s\<lparr> pub_rtp_rewritten := pub_rtp_rewritten s + 1 \<rparr>) r (bump ''ptt_rtp_rewritten'' 1 w1)
                           in (Some rewritten, room',
                               if is_audio_pt (rh_pt h) then bump ''ptt_audio_rewritten'' 1 w2
                               else if is_video_pt (rh_pt h) then bump ''ptt_video_rewritten'' 1 w2 else w2))
                      | PendingKeyframe \<Rightarrow>
                          (None, room', count (\<lambda>s. s\<lparr> pub_video_pending := pub_video_pending s + 1 \<rparr>) r
                                          (bump ''ptt_video_pending_drop'' 1 w1))
                      | Skip \<Rightarrow>
                          (Some plaintext, room', if is_video_pt (rh_pt h) then bump ''ptt_video_skip'' 1 w1 else w1)) })
      else Some (Some plaintext, room, w))"

section \<open>Fan-out\<close>

definition relay_rtp :: "bytes \<Rightarrow> pref \<Rightarrow> 'f world \<Rightarrow> 'f world" where
  "relay_rtp pkt r w =
     (case egress_send r (EgRtp pkt) w of (sent, w1) \<Rightarrow>
        if sent then count (\<lambda>s. s\<lparr> sub_rtp_relayed := sub_rtp_relayed s + 1 \<rparr>) r (bump ''egress_rtp_relayed'' 1 w1)
        else count (\<lambda>s. s\<lparr> sub_rtp_dropped := sub_rtp_dropped s + 1 \<rparr>) r (bump ''egress_drop'' 1 w1))"

definition relay_if_ready :: "bytes \<Rightarrow> pref \<Rightarrow> 'f world \<Rightarrow> 'f world" where
  "relay_if_ready pkt r w = (if is_subscribe_ready (part w r) then relay_rtp pkt r w else w)"

text \<open>What one subscriber gets of a simulcast packet: the rewritten packet, whether a keyframe is needed, its layer entry.\<close>

definition select_layer ::
  "instant \<Rightarrow> bytes \<Rightarrow> string \<Rightarrow> bool \<Rightarrow> u32 \<Rightarrow> subscribe_layer_entry option \<Rightarrow> bytes option \<times> bool \<times> subscribe_layer_entry" where
  "select_layer now payload sender_rid keyframe vssrc entry =
     (let created = (entry = None);
          sub = (case entry of Some e \<Rightarrow> e | None \<Rightarrow> \<lparr> sl_rid = ''h'', sl_rewriter = simulcast_new vssrc \<rparr>)
      in if sl_rid sub = ''pause'' \<or> sender_rid \<noteq> sl_rid sub then (None, created, sub)
         else (case simulcast_rewrite (sl_rewriter sub) payload keyframe of
                 (ok, video_buf, rw) \<Rightarrow>
                   (let retry_pli = (\<not> ok \<and> needs_pli_retry now rw);
                        rw' = (if created \<or> retry_pli then mark_pli_sent now rw else rw)
                    in (if ok then Some video_buf else None, created \<or> retry_pli, sub\<lparr> sl_rewriter := rw' \<rparr>))))"

definition simulcast_pli :: "pref \<Rightarrow> 'f world \<Rightarrow> 'f world" where
  "simulcast_pli r w =
     (case (find (\<lambda>t. t_kind t = Video \<and> t_rid t = Some ''h'') (p_tracks (part w r)), ms_address (p_publish (part w r))) of
        (Some t, Some pub_addr) \<Rightarrow>
          if is_publish_ready (part w r) then spawn_pli_burst r (t_ssrc t) pub_addr [0, 200, 500, 1500] ''SIM:PLI'' w else w
      | _ \<Rightarrow> w)"

definition simulcast_target ::
  "'f env \<Rightarrow> bytes \<Rightarrow> pref \<Rightarrow> string \<Rightarrow> bool \<Rightarrow> u32 \<Rightarrow> pref \<Rightarrow> bool \<times> 'f world \<Rightarrow> bool \<times> 'f world" where
  "simulcast_target E payload r sender_rid keyframe vssrc x s =
     (let pli_sent = fst s; w = snd s; user_id = p_user_id (part w r)
      in if \<not> is_subscribe_ready (part w x) then s
         else (case select_layer (e_instant E) payload sender_rid keyframe vssrc (dm_get (p_subscribe_layers (part w x)) user_id) of
                 (forwarded, need_pli, sub) \<Rightarrow>
                   (let w1 = update_part x (\<lambda>p. p\<lparr> p_subscribe_layers := dm_insert user_id sub (p_subscribe_layers p) \<rparr>) w;
                        w2 = (if need_pli \<and> \<not> pli_sent then simulcast_pli r w1 else w1)
                    in (pli_sent \<or> need_pli,
                        case forwarded of Some pkt \<Rightarrow> relay_rtp pkt x w2 | None \<Rightarrow> w2))))"

definition fanout_simulcast_video :: "'f env \<Rightarrow> bytes \<Rightarrow> rtp_header \<Rightarrow> pref \<Rightarrow> room \<Rightarrow> 'f world \<Rightarrow> 'f world option" where
  "fanout_simulcast_video E payload h r room w =
     (case Option.bind (find (\<lambda>t. t_ssrc t = rh_ssrc h) (p_tracks (part w r))) t_rid of
        None \<Rightarrow> Some w
      | Some sender_rid \<Rightarrow>
          do { keyframe \<leftarrow> is_keyframe (rh_pt h) payload;
               (case virtual_ssrc_of E r w of
                  (vssrc, w1) \<Rightarrow>
                    Some (snd (fold (simulcast_target E payload r sender_rid keyframe vssrc)
                                 (other_participants room (p_user_id (part w r))) (False, w1)))) })"

definition fanout :: "'f env \<Rightarrow> bytes \<Rightarrow> rtp_header \<Rightarrow> pref \<Rightarrow> room \<Rightarrow> 'f world \<Rightarrow> 'f world option" where
  "fanout E payload h r room w =
     (if r_simulcast_enabled room \<and> is_video_pt (rh_pt h) then fanout_simulcast_video E payload h r room w
      else Some (fold (relay_if_ready payload) (other_participants room (p_user_id (part w r))) w))"

definition handle_publish_rtp :: "'f env \<Rightarrow> bytes \<Rightarrow> pref \<Rightarrow> room \<Rightarrow> 'f world \<Rightarrow> 'f world option" where
  "handle_publish_rtp E buf r room w =
     (case e_decrypt_rtp E r Publish buf of
        None \<Rightarrow> Some (bump ''decrypt_fail'' 1 w)
      | Some plaintext \<Rightarrow>
          (let w1 = count (\<lambda>s. s\<lparr> pub_rtp_in := pub_rtp_in s + 1 \<rparr>) r (bump ''ingress_rtp_received'' 1 w)
           in do { (pkt, h, normalised) \<leftarrow> normalise_pt (p_tracks (part w1 r)) plaintext (parse_rtp_header plaintext);
                   w2 \<leftarrow> collect_rtp_stats E pkt h r (if normalised then bump ''pt_normalized'' 1 w1 else w1);
                   (payload, room', w3) \<leftarrow> prepare_fanout_payload E pkt h r room (detect_gap h r w2);
                   (case payload of
                      None \<Rightarrow> Some (put_room room' w3)
                    | Some out \<Rightarrow> fanout E out h r room' (put_room room' w3)) }))"

section \<open>Publish RTCP\<close>

definition consume_sr :: "instant \<Rightarrow> pref \<Rightarrow> bytes \<Rightarrow> 'f world \<Rightarrow> 'f world" where
  "consume_sr now r sr w =
     (case parse_sr_ntp sr of
        None \<Rightarrow> w
      | Some (ssrc, ntp_hi, ntp_lo) \<Rightarrow>
          update_part r (\<lambda>p. case dm_get (p_recv_stats p) ssrc of
              Some s \<Rightarrow> p\<lparr> p_recv_stats := dm_insert ssrc (on_sr_received now ntp_hi ntp_lo s) (p_recv_stats p) \<rparr>
            | None \<Rightarrow> p) w)"

definition sent_counts :: "'f participant \<Rightarrow> u32 \<Rightarrow> u32 \<times> u32" where
  "sent_counts p ssrc =
     (case dm_get (p_send_stats p) ssrc of Some s \<Rightarrow> (ss_packets_sent s, ss_bytes_sent s) | None \<Rightarrow> (0, 0))"

definition has_track :: "u32 \<Rightarrow> track_kind \<Rightarrow> 'f participant \<Rightarrow> bool" where
  "has_track ssrc kind p \<longleftrightarrow> list_ex (\<lambda>t. t_ssrc t = ssrc \<and> t_kind t = kind) (p_tracks p)"

definition build_sr_translation :: "'f env \<Rightarrow> bytes \<Rightarrow> pref \<Rightarrow> pref \<Rightarrow> room \<Rightarrow> 'f world \<Rightarrow> sr_translation \<times> 'f world" where
  "build_sr_translation E sr_block r x room w =
     (let pub_ssrc = (if 8 \<le> length sr_block then be32_at sr_block 4 else 0);
          original_rtp_ts = (if 20 \<le> length sr_block then be32_at sr_block 16 else 0)
      in if r_mode room = Ptt then
           (let rw = (if has_track pub_ssrc Audio (part w r) then r_audio_rewriter room else r_video_rewriter room);
                (pkt, oct) = sent_counts (part w x) (virtual_ssrc rw)
            in (\<lparr> tr_ssrc = Some (virtual_ssrc rw), tr_rtp_ts = translate_rtp_ts rw original_rtp_ts,
                  tr_packet_count = pkt, tr_octet_count = oct \<rparr>, w))
         else if r_simulcast_enabled room \<and> has_track pub_ssrc Video (part w r) then
           (let (vssrc, w1) = virtual_ssrc_of E r w;
                (pkt, oct) = sent_counts (part w1 x) vssrc
            in (\<lparr> tr_ssrc = Some vssrc, tr_rtp_ts = None, tr_packet_count = pkt, tr_octet_count = oct \<rparr>, w1))
         else
           (let (pkt, oct) = sent_counts (part w x) pub_ssrc
            in (\<lparr> tr_ssrc = None, tr_rtp_ts = None, tr_packet_count = pkt, tr_octet_count = oct \<rparr>, w)))"

fun translate_srs :: "'f env \<Rightarrow> bytes list \<Rightarrow> pref \<Rightarrow> pref \<Rightarrow> room \<Rightarrow> 'f world \<Rightarrow> bytes list \<times> 'f world" where
  "translate_srs E [] r x room w = ([], w)"
| "translate_srs E (sr # srs) r x room w =
     (let (tr, w1) = build_sr_translation E sr r x room w;
          out = (case translate_sr sr tr of Some t \<Rightarrow> t | None \<Rightarrow> sr);
          (outs, w2) = translate_srs E srs r x room w1
      in (out # outs, w2))"

definition relay_reports :: "'f env \<Rightarrow> bytes list \<Rightarrow> bytes list \<Rightarrow> pref \<Rightarrow> room \<Rightarrow> pref \<Rightarrow> 'f world \<Rightarrow> 'f world" where
  "relay_reports E srs relays r room x w =
     (if \<not> is_subscribe_ready (part w x) then w
      else
        (let (outs, w1) = (if r_mode room \<noteq> Ptt then translate_srs E srs r x room w else ([], w))
         in if outs @ relays = [] then w1
            else (case egress_send x (EgRtcp (assemble_compound (outs @ relays))) (bump ''sr_relayed'' 1 w1) of
                    (sent, w2) \<Rightarrow>
                      if sent then count (\<lambda>s. s\<lparr> sub_sr_relayed := sub_sr_relayed s + 1 \<rparr>) x (bump ''egress_rtcp_relayed'' 1 w2)
                      else bump ''egress_drop'' 1 w2)))"

definition relay_publish_rtcp_translated :: "'f env \<Rightarrow> bytes list \<Rightarrow> bytes list \<Rightarrow> pref \<Rightarrow> room \<Rightarrow> 'f world \<Rightarrow> 'f world" where
  "relay_publish_rtcp_translated E srs relays r room w =
     (if r_mode room = Ptt \<and> current_speaker (r_floor room) \<noteq> Some (p_user_id (part w r)) then w
      else fold (relay_reports E srs relays r room) (other_participants room (p_user_id (part w r))) w)"

definition process_publish_rtcp :: "'f env \<Rightarrow> bytes \<Rightarrow> pref \<Rightarrow> room \<Rightarrow> 'f world \<Rightarrow> 'f world option" where
  "process_publish_rtcp E buf r room w =
     (case e_decrypt_rtcp E r Publish buf of
        None \<Rightarrow> Some (bump ''decrypt_fail'' 1 w)
      | Some plaintext \<Rightarrow>
          do { parsed \<leftarrow> split_compound_rtcp plaintext;
               srs \<leftarrow> slices plaintext (sr_blocks parsed);
               relays \<leftarrow> slices plaintext (relay_blocks parsed);
               (let w1 = (if mbcp_blocks parsed \<noteq> [] then handle_mbcp_from_publish E (mbcp_blocks parsed) r room w else w);
                    w2 = fold (consume_sr (e_instant E) r) srs w1
                in Some (if srs \<noteq> [] \<or> relays \<noteq> []
                         then relay_publish_rtcp_translated E srs relays r (current_room room w2) w2 else w2)) })"

section \<open>Subscribe RTCP: relay to publishers\<close>

text \<open>The track of the floor holder, or of the last one, of the given kind.\<close>

definition speaker_ssrc :: "room \<Rightarrow> track_kind \<Rightarrow> 'f world \<Rightarrow> u32 option" where
  "speaker_ssrc room kind w =
     do { uid \<leftarrow> (case current_speaker (r_floor room) of Some u \<Rightarrow> Some u | None \<Rightarrow> last_speaker (r_floor room));
          q \<leftarrow> get_participant room uid;
          t \<leftarrow> find (\<lambda>t. t_kind t = kind) (p_tracks (part w q));
          Some (t_ssrc t) }"

text \<open>The video track of a publisher on the layer that a subscriber has chosen.\<close>

definition layer_ssrc :: "pref \<Rightarrow> string \<Rightarrow> 'f world \<Rightarrow> u32 option" where
  "layer_ssrc q rid w = map_option t_ssrc (find (\<lambda>t. t_kind t = Video \<and> t_rid t = Some rid) (p_tracks (part w q)))"

definition effective_ssrc :: "room \<Rightarrow> pref \<Rightarrow> u32 \<Rightarrow> 'f world \<Rightarrow> u32" where
  "effective_ssrc room r media_ssrc w =
     (if r_simulcast_enabled room then
        (case find_publisher_by_vssrc (w_heap w) room media_ssrc of
           Some q \<Rightarrow>
             (case do { e \<leftarrow> dm_get (p_subscribe_layers (part w r)) (p_user_id (part w q)); layer_ssrc q (sl_rid e) w } of
                Some ssrc \<Rightarrow> ssrc | None \<Rightarrow> media_ssrc)
         | None \<Rightarrow> media_ssrc)
      else if r_mode room = Ptt \<and>
              (virtual_ssrc (r_audio_rewriter room) = media_ssrc \<or> virtual_ssrc (r_video_rewriter room) = media_ssrc) then
        (case speaker_ssrc room (if virtual_ssrc (r_video_rewriter room) = media_ssrc then Video else Audio) w of
           Some ssrc \<Rightarrow> ssrc | None \<Rightarrow> media_ssrc)
      else media_ssrc)"

text \<open>The blocks by publisher track, with the number of PSFB blocks of each.\<close>

type_synonym rtcp_groups = "(u32, bytes list) dmap \<times> (u32, u64) dmap"

definition group_block :: "room \<Rightarrow> pref \<Rightarrow> 'f world \<Rightarrow> (u32 \<times> u8) \<times> bytes \<Rightarrow> rtcp_groups \<Rightarrow> rtcp_groups" where
  "group_block room r w blk groups =
     (let media_ssrc = fst (fst blk); pt = snd (fst blk); data = snd blk; by_ssrc = fst groups; plis = snd groups
      in if media_ssrc = 0 then groups
         else
           (let ssrc = effective_ssrc room r media_ssrc w;
                old = (case dm_get by_ssrc ssrc of Some bs \<Rightarrow> bs | None \<Rightarrow> []);
                n = (case dm_get plis ssrc of Some n \<Rightarrow> n | None \<Rightarrow> 0)
            in (dm_insert ssrc (old @ [data]) by_ssrc,
                if pt = RTCP_PT_PSFB then dm_insert ssrc (n + 1) plis else plis)))"

text \<open>The throttle: whether the PLIs are held back, and the state after the check.\<close>

definition pli_throttle :: "u64 \<Rightarrow> u64 \<Rightarrow> pref \<Rightarrow> 'f world \<Rightarrow> bool \<times> 'f world" where
  "pli_throttle now_ms pli_count q w =
     (if 0 < pli_count then
        (if sat_sub now_ms (p_last_pli_relay_ms (part w q)) < 3000 then (True, bump ''pli_throttled'' pli_count w)
         else (False, update_part q (\<lambda>p. p\<lparr> p_last_pli_relay_ms := now_ms \<rparr>) w))
      else (False, w))"

definition throttled_blocks :: "bool \<Rightarrow> bytes list \<Rightarrow> bytes list" where
  "throttled_blocks throttled blocks =
     (if throttled then filter (\<lambda>b. byte_or_0 b 1 AND 0x7F \<noteq> RTCP_PT_PSFB) blocks else blocks)"

definition relay_group :: "'f env \<Rightarrow> room \<Rightarrow> (u32, u64) dmap \<Rightarrow> u32 \<times> bytes list \<Rightarrow> 'f world \<Rightarrow> 'f world" where
  "relay_group E room plis grp w =
     (case find_by_track_ssrc (w_heap w) room (fst grp) of
        None \<Rightarrow> w
      | Some q \<Rightarrow>
          if \<not> is_publish_ready (part w q) then w
          else (case ms_address (p_publish (part w q)) of
                  None \<Rightarrow> w
                | Some pub_addr \<Rightarrow>
                    (let pli_count = (case dm_get plis (fst grp) of Some n \<Rightarrow> n | None \<Rightarrow> 0);
                         (throttled, w1) = pli_throttle (e_now_ms E) pli_count q w;
                         send_blocks = throttled_blocks throttled (snd grp)
                     in if throttled \<and> send_blocks = [] then w1
                        else (case e_encrypt_rtcp E q Publish (assemble_compound send_blocks) of
                                None \<Rightarrow> w1
                              | Some encrypted \<Rightarrow>
                                  if \<not> e_send_ok E encrypted pub_addr then w1
                                  else
                                    (let w2 = udp_send encrypted pub_addr w1;
                                         effective_pli = (if throttled then 0 else pli_count)
                                     in if 0 < effective_pli
                                        then count (\<lambda>s. s\<lparr> pub_pli_received := pub_pli_received s + effective_pli \<rparr>) q
                                               (bump ''pli_sent'' effective_pli w2)
                                        else w2)))))"

definition relay_subscribe_rtcp_blocks :: "'f env \<Rightarrow> bytes \<Rightarrow> rtcp_block_ref list \<Rightarrow> pref \<Rightarrow> room \<Rightarrow> 'f world \<Rightarrow> 'f world option" where
  "relay_subscribe_rtcp_blocks E plaintext blocks r room w =
     (let heads = map (\<lambda>b. (br_media_ssrc b, byte_or_0 plaintext (br_offset b + 1))) blocks;
          w1 = fold (\<lambda>e. if snd e = RTCP_PT_RR then bump ''rr_relayed'' 1 else id) heads w
      in do { datas \<leftarrow> slices plaintext blocks;
              (case fold (group_block room r w1) (zip heads datas) ([], []) of
                 (by_ssrc, plis) \<Rightarrow> Some (fold (relay_group E room plis) by_ssrc w1)) })"

section \<open>Subscribe RTCP: retransmission\<close>

text \<open>The track and the sequence numbers of the publisher that a NACK of a subscriber stands for.\<close>

definition nack_target :: "room \<Rightarrow> pref \<Rightarrow> u32 \<Rightarrow> u16 list \<Rightarrow> 'f world \<Rightarrow> u32 \<times> u16 list \<times> 'f world" where
  "nack_target room r media_ssrc lost_seqs w =
     (if r_simulcast_enabled room then
        (case find_publisher_by_vssrc (w_heap w) room media_ssrc of
           Some q \<Rightarrow>
             (case dm_get (p_subscribe_layers (part w r)) (p_user_id (part w q)) of
                Some e \<Rightarrow>
                  (case layer_ssrc q (sl_rid e) w of Some ssrc \<Rightarrow> ssrc | None \<Rightarrow> media_ssrc,
                   map (simulcast_reverse_seq (sl_rewriter e)) lost_seqs, w)
              | None \<Rightarrow> (media_ssrc, lost_seqs, w))
         | None \<Rightarrow> (media_ssrc, lost_seqs, w))
      else if r_mode room = Ptt \<and> virtual_ssrc (r_video_rewriter room) = media_ssrc then
        (case speaker_ssrc room Video w of Some ssrc \<Rightarrow> ssrc | None \<Rightarrow> media_ssrc,
         map (reverse_seq (r_video_rewriter room)) lost_seqs, bump ''ptt_nack_remapped'' 1 w)
      else (media_ssrc, lost_seqs, w))"

fun collect_rtx :: "pref \<Rightarrow> u32 \<Rightarrow> u16 list \<Rightarrow> 'f world \<Rightarrow> bytes list \<times> 'f world" where
  "collect_rtx q rtx_ssrc [] w = ([], w)"
| "collect_rtx q rtx_ssrc (lost_seq # seqs) w =
     (case cache_get (p_rtp_cache (part w q)) lost_seq of
        None \<Rightarrow> collect_rtx q rtx_ssrc seqs w
      | Some original \<Rightarrow>
          (let rtx_pkt = build_rtx_packet original rtx_ssrc (fst (next_rtx_seq (part w q)));
               (pkts, w') = collect_rtx q rtx_ssrc seqs (update_part q (\<lambda>p. snd (next_rtx_seq p)) w)
           in (rtx_pkt # pkts, w')))"

definition send_rtx :: "pref \<Rightarrow> bytes \<Rightarrow> 'f world \<Rightarrow> 'f world" where
  "send_rtx r rtx_pkt w =
     (let used = p_rtx_budget_used (part w r);
          w1 = update_part r (\<lambda>p. p\<lparr> p_rtx_budget_used := used + 1 \<rparr>) w
      in if RTX_BUDGET_PER_3S \<le> used then bump ''rtx_budget_exceeded'' 1 w1
         else (case egress_send r (EgRtp rtx_pkt) (bump ''rtx_sent'' 1 w1) of (sent, w2) \<Rightarrow>
                 if sent then count (\<lambda>s. s\<lparr> sub_rtx_received := sub_rtx_received s + 1 \<rparr>) r w2
                 else bump ''egress_drop'' 1 w2))"

definition escalate :: "'f env \<Rightarrow> pref \<Rightarrow> pref \<Rightarrow> u32 \<Rightarrow> 'f world \<Rightarrow> 'f world" where
  "escalate E r q lookup_ssrc w =
     (let w1 = update_part r (\<lambda>p. p\<lparr> p_nack_suppress_until_ms := e_now_ms E + 5000 \<rparr>) w
      in case ms_address (p_publish (part w1 q)) of
           Some pub_addr \<Rightarrow>
             if is_publish_ready (part w1 q) then spawn_pli_burst q lookup_ssrc pub_addr [0] ''NACK_ESC'' w1 else w1
         | None \<Rightarrow> w1)"

definition retransmit :: "'f env \<Rightarrow> pref \<Rightarrow> pref \<Rightarrow> u32 \<Rightarrow> u32 \<Rightarrow> u16 list \<Rightarrow> 'f world \<Rightarrow> 'f world" where
  "retransmit E r q lookup_ssrc rtx_ssrc cache_seqs w =
     (let (pkts, w1) = collect_rtx q rtx_ssrc cache_seqs w;
          cache_miss = length cache_seqs - length pkts;
          w2 = (if 0 < cache_miss then bump ''rtx_cache_miss'' (word_of_nat cache_miss) w1 else w1);
          w3 = (if 0 < cache_miss \<and> length cache_seqs \<le> cache_miss * 2 then escalate E r q lookup_ssrc w2 else w2)
      in fold (send_rtx r) pkts w3)"

definition nack_item_step :: "'f env \<Rightarrow> pref \<Rightarrow> room \<Rightarrow> nack_item \<Rightarrow> 'f world \<Rightarrow> 'f world" where
  "nack_item_step E r room item w =
     (let lost_seqs = expand_nack (ni_pid item) (ni_blp item);
          w1 = bump ''nack_seqs_requested'' (word_of_nat (length lost_seqs)) w;
          (lookup_ssrc, cache_seqs, w2) = nack_target room r (ni_media_ssrc item) lost_seqs w1
      in case find_by_track_ssrc (w_heap w2) room lookup_ssrc of
           None \<Rightarrow> bump ''nack_publisher_not_found'' 1 w2
         | Some q \<Rightarrow>
             (let until = p_rtp_gap_suppress_until_ms (part w2 q);
                  track = find (\<lambda>t. t_ssrc t = lookup_ssrc) (p_tracks (part w2 q))
              in if 0 < until \<and> e_now_ms E < until then bump ''nack_suppressed'' 1 w2
                 else (case Option.bind track t_rtx_ssrc of
                         None \<Rightarrow> if (case track of Some t \<Rightarrow> t_kind t = Audio | None \<Rightarrow> False) then w2
                                 else bump ''nack_no_rtx_ssrc'' 1 w2
                       | Some rtx_ssrc \<Rightarrow> retransmit E r q lookup_ssrc rtx_ssrc cache_seqs w2)))"

definition handle_nack_block :: "'f env \<Rightarrow> pref \<Rightarrow> room \<Rightarrow> bytes \<Rightarrow> 'f world \<Rightarrow> 'f world option" where
  "handle_nack_block E r room nack_data w =
     do { items \<leftarrow> parse_rtcp_nack nack_data;
          (let until = p_nack_suppress_until_ms (part w r)
           in Some (if 0 < until \<and> e_now_ms E < until then bump ''nack_suppressed'' 1 w
                    else fold (nack_item_step E r room) items w)) }"

text \<open>The parts (2) to (4) of \<open>handle_subscribe_rtcp\<close>: receiver reports, relay, MBCP.\<close>

definition after_nacks :: "'f env \<Rightarrow> bytes \<Rightarrow> compound_rtcp_parsed \<Rightarrow> pref \<Rightarrow> room \<Rightarrow> 'f world \<Rightarrow> 'f world option" where
  "after_nacks E plaintext parsed r room w =
     (let w1 = (if rr_blocks parsed \<noteq> [] then bump ''rr_consumed'' (word_of_nat (length (rr_blocks parsed))) w else w)
      in do { w2 \<leftarrow> (if relay_blocks parsed \<noteq> []
                     then relay_subscribe_rtcp_blocks E plaintext (relay_blocks parsed) r room w1 else Some w1);
              Some (if mbcp_blocks parsed \<noteq> [] then handle_mbcp_from_publish E (mbcp_blocks parsed) r room w2 else w2) })"

definition count_nacks :: "compound_rtcp_parsed \<Rightarrow> pref \<Rightarrow> 'f world \<Rightarrow> 'f world" where
  "count_nacks parsed r w =
     (let n = word_of_nat (length (nack_blocks parsed))
      in count (\<lambda>s. s\<lparr> sub_nack_sent := sub_nack_sent s + n \<rparr>) r (bump ''nack_received'' n w))"

definition handle_subscribe_rtcp :: "'f env \<Rightarrow> bytes \<Rightarrow> pref \<Rightarrow> room \<Rightarrow> 'f world \<Rightarrow> 'f world option" where
  "handle_subscribe_rtcp E buf r room w =
     (let w0 = bump ''sub_rtcp_received'' 1 w
      in if \<not> is_rtcp buf then Some (bump ''sub_rtcp_not_rtcp'' 1 w0)
         else (case e_decrypt_rtcp E r Subscribe buf of
                 None \<Rightarrow> Some (bump ''decrypt_fail'' 1 w0)
               | Some plaintext \<Rightarrow>
                   do { parsed \<leftarrow> split_compound_rtcp plaintext;
                        w1 \<leftarrow> fold_opt (handle_nack_block E r room) (nack_blocks parsed)
                               (count_nacks parsed r (bump ''sub_rtcp_decrypted'' 1 w0));
                        after_nacks E plaintext parsed r room w1 }))"

section \<open>The entry\<close>

definition handle_srtp :: "'f env \<Rightarrow> bytes \<Rightarrow> socket_addr \<Rightarrow> 'f world \<Rightarrow> 'f world option" where
  "handle_srtp E buf remote w =
     (case find_by_addr (w_hub w) remote of
        None \<Rightarrow> Some w
      | Some (r, pc, rid) \<Rightarrow>
          (case hub_get (w_hub w) rid of
             Inl _ \<Rightarrow> Some w
           | Inr room \<Rightarrow>
               (let w1 = update_part r (touch (e_now_ms E)) w
                in if pc \<noteq> Publish then handle_subscribe_rtcp E buf r room w1
                   else if \<not> is_media_ready (p_publish (part w1 r)) then Some w1
                   else if is_rtcp buf then process_publish_rtcp E buf r room w1
                   else handle_publish_rtp E buf r room w1)))"

section \<open>No index is out of range\<close>

definition refs_ok :: "bytes \<Rightarrow> compound_rtcp_parsed \<Rightarrow> bool" where
  "refs_ok buf res \<longleftrightarrow> (\<forall>b \<in> set (sr_blocks res) \<union> set (relay_blocks res). br_offset b + br_length b \<le> length buf)"

lemma classify_refs_ok:
  "refs_ok buf res \<Longrightarrow> br_offset ref + br_length ref \<le> length buf \<Longrightarrow> refs_ok buf (classify_block fmt pt block ref res)"
  by (auto simp: refs_ok_def classify_block_def split: option.split)

lemma split_loop_refs_ok: "refs_ok buf res \<Longrightarrow> split_loop buf off res = Some res' \<Longrightarrow> refs_ok buf res'"
proof (induction buf off res rule: split_loop.induct)
  case (1 buf off res)
  show ?case
  proof (cases "off + 4 \<le> length buf \<and> off + (unat (be16_at buf (off + 2)) + 1) * 4 \<le> length buf")
    case True
    let ?len = "(unat (be16_at buf (off + 2)) + 1) * 4"
    let ?ssrc = "if off + 12 \<le> length buf then be32_at buf (off + 8) else 0"
    let ?ref = "\<lparr> br_offset = off, br_length = ?len, br_media_ssrc = ?ssrc \<rparr>"
    let ?res = "classify_block (buf ! off AND 0x1F) (buf ! (off + 1)) (take ?len (drop off buf)) ?ref res"
    have "split_loop buf (off + ?len) ?res = Some res'"
      using 1(3) True by (auto simp: split_loop.simps [of buf off] rd8_def rd16_def rd32_def slice_def Let_def split: if_splits)
    moreover have "refs_ok buf ?res" by (rule classify_refs_ok [OF 1(2)]) (use True in simp)
    ultimately show ?thesis
      using True by (intro 1(1) [of "buf ! off" "buf ! (off + 1)" "be16_at buf (off + 2)" ?len ?ssrc "take ?len (drop off buf)"])
        (auto simp: rd8_def rd16_def rd32_def slice_def)
  next
    case False
    then show ?thesis using 1(2,3)
      by (auto simp: split_loop.simps [of buf off] rd8_def rd16_def Let_def split: if_splits)
  qed
qed

lemma slices_total: "\<forall>b\<in>set bs. br_offset b + br_length b \<le> length buf \<Longrightarrow> \<exists>xs. slices buf bs = Some xs \<and> length xs = length bs"
  by (induction bs) (auto simp: slice_def)

lemma split_compound_total:
  obtains parsed srs relays where "split_compound_rtcp buf = Some parsed" "slices buf (sr_blocks parsed) = Some srs"
    "slices buf (relay_blocks parsed) = Some relays"
proof -
  obtain parsed where p: "split_compound_rtcp buf = Some parsed"
    using split_loop_total [of buf 0 empty_compound] by (auto simp: split_compound_rtcp_def)
  have "refs_ok buf empty_compound" by (simp add: refs_ok_def empty_compound_def)
  then have "refs_ok buf parsed" using split_loop_refs_ok p unfolding split_compound_rtcp_def by blast
  then have "\<exists>xs. slices buf (sr_blocks parsed) = Some xs" "\<exists>xs. slices buf (relay_blocks parsed) = Some xs"
    using slices_total [of "sr_blocks parsed" buf] slices_total [of "relay_blocks parsed" buf] by (auto simp: refs_ok_def)
  then show ?thesis using p that by blast
qed

lemma is_keyframe_total [simp]: "is_keyframe pt buf \<noteq> None"
  using is_vp8_keyframe_total [of buf] is_h264_keyframe_total [of buf] by (auto simp: is_keyframe_def)

lemma parse_short: "rh_pt (parse_rtp_header buf) \<noteq> 0 \<Longrightarrow> 12 \<le> length buf"
  by (auto simp: parse_rtp_header_def split: if_splits)

lemma normalise_pt_total: "normalise_pt ts buf (parse_rtp_header buf) \<noteq> None"
proof (cases "rh_pt (parse_rtp_header buf) = 0")
  case True
  then have "find (\<lambda>t. t_actual_pt t \<noteq> 0 \<and> t_actual_pt t = rh_pt (parse_rtp_header buf)) ts = None"
    "find (\<lambda>t. t_actual_rtx_pt t \<noteq> 0 \<and> t_actual_rtx_pt t = rh_pt (parse_rtp_header buf)) ts = None"
    by (auto simp: find_None_iff)
  then show ?thesis by (simp add: normalise_pt_def)
next
  case False
  then show ?thesis using parse_short [of buf] by (auto simp: normalise_pt_def set_pt_def split: option.split)
qed

lemma collect_total: "collect_rtp_stats E pkt h r w \<noteq> None"
  using parse_twcc_seq_total [of pkt] by (auto simp: collect_rtp_stats_def Let_def bind_eq_None_conv)

lemma prepare_total: "prepare_fanout_payload E pkt h r room w \<noteq> None"
proof -
  have "ptt_rewrite E pkt h u room w \<noteq> None" for u
    by (auto simp: ptt_rewrite_def case_prod_beta bind_eq_None_conv simp del: not_None_eq)
  then show ?thesis by (auto simp: prepare_fanout_payload_def bind_eq_None_conv case_prod_beta simp del: not_None_eq)
qed

lemma fanout_total: "fanout E pkt h r room w \<noteq> None"
  by (auto simp: fanout_def fanout_simulcast_video_def case_prod_beta bind_eq_None_conv simp del: not_None_eq split: option.split)

lemma publish_rtp_total: "handle_publish_rtp E buf r room w \<noteq> None"
  by (auto simp: handle_publish_rtp_def Let_def bind_eq_None_conv case_prod_beta collect_total prepare_total fanout_total
      normalise_pt_total simp del: not_None_eq split: option.split)

lemma fold_opt_total: "(\<And>x s. f x s \<noteq> None) \<Longrightarrow> fold_opt f xs s \<noteq> None"
  by (induction xs arbitrary: s) (auto simp: bind_eq_None_conv simp del: not_None_eq)

lemma nack_total: "handle_nack_block E r room data w \<noteq> None"
  using nack_loop_total [of data 0] by (auto simp: handle_nack_block_def parse_rtcp_nack_def Let_def bind_eq_None_conv)

lemma publish_rtcp_total: "process_publish_rtcp E buf r room w \<noteq> None"
proof (cases "e_decrypt_rtcp E r Publish buf")
  case (Some plain)
  obtain parsed srs relays where "split_compound_rtcp plain = Some parsed" "slices plain (sr_blocks parsed) = Some srs"
    "slices plain (relay_blocks parsed) = Some relays" by (rule split_compound_total)
  then show ?thesis by (simp add: process_publish_rtcp_def Some Let_def)
qed (simp add: process_publish_rtcp_def)

lemma subscribe_rtcp_total: "handle_subscribe_rtcp E buf r room w \<noteq> None"
proof (cases "e_decrypt_rtcp E r Subscribe buf")
  case (Some plain)
  obtain parsed srs relays where "split_compound_rtcp plain = Some parsed" "slices plain (relay_blocks parsed) = Some relays"
    by (rule split_compound_total)
  then show ?thesis
    by (auto simp: handle_subscribe_rtcp_def after_nacks_def Some Let_def bind_eq_None_conv relay_subscribe_rtcp_blocks_def case_prod_beta
        fold_opt_total nack_total simp del: not_None_eq)
qed (simp add: handle_subscribe_rtcp_def Let_def)

lemma handle_srtp_total: "handle_srtp E buf remote w \<noteq> None"
  by (simp add: handle_srtp_def Let_def subscribe_rtcp_total publish_rtcp_total publish_rtp_total del: not_None_eq split: option.split sum.split)

section \<open>The receive path keeps the server invariant\<close>

lemma part_le_ingress [simp]:
  "part_le p (p\<lparr> p_last_audio_arrival_us := t \<rparr>)" "part_le p (update_recv_stats E h p)"
  "part_le p (p\<lparr> p_rtp_cache := cache_store seq pkt (p_rtp_cache p) \<rparr>)" "part_le p (p\<lparr> p_twcc_recorder := rec \<rparr>)"
  "part_le p (p\<lparr> p_last_video_rtp_ms := t \<rparr>)" "part_le p (p\<lparr> p_rtp_gap_suppress_until_ms := t \<rparr>)"
  "part_le p (p\<lparr> p_recv_stats := st \<rparr>)" "part_le p (p\<lparr> p_last_pli_relay_ms := t \<rparr>)"
  "part_le p (snd (next_rtx_seq p))" "part_le p (p\<lparr> p_rtx_budget_used := b \<rparr>)" "part_le p (p\<lparr> p_nack_suppress_until_ms := t \<rparr>)"
  by (auto simp: part_le_def same_identity_def part_ok_def tracks_ok_def session_def update_recv_stats_def Let_def
      cache_store_def next_rtx_seq_def split: pc_type.split)

lemma world_le_collect_stats: "collect_rtp_stats E pkt h r w = Some w' \<Longrightarrow> world_le w w'"
  by (auto simp: collect_rtp_stats_def Let_def bind_eq_Some_conv split: option.splits
      intro!: world_le_steps(1) world_le_part_step)

lemma world_le_gap: "world_le w (detect_gap h r w)"
  by (auto simp: detect_gap_def Let_def split: option.split
      intro!: world_le_trans [OF _ world_le_burst] world_le_part_step world_le_steps(1))

lemma prepare_le:
  assumes "prepare_fanout_payload E pkt h r room w = Some (payload, room', w')"
  shows "room_le room room'" "world_le w w'"
proof -
  have step: "room_le room room1 \<and> world_le w w1" if "ptt_rewrite E pkt h u room w = Some (res, buf, room1, w1)" for u res buf room1 w1
    using that by (auto simp: ptt_rewrite_def case_prod_beta bind_eq_Some_conv room_le_def world_le_effects split: if_splits)
  have "room_le room room' \<and> world_le w w'"
    using assms
    by (auto simp: prepare_fanout_payload_def bind_eq_Some_conv case_prod_beta Let_def
        split: if_splits rewrite_result.splits dest!: step intro!: world_le_part_step world_le_steps(1))
  then show "room_le room room'" "world_le w w'" by simp_all
qed

lemma rewrite_keeps_speaker: "speaker (rw_state (snd (snd (rewrite rw now p u k)))) = speaker (rw_state rw)"
  by (rule rewrite_cases [of rw now p u k]) (use rewrite_state(1,2) in fastforce)+

lemma prepare_room_ok:
  assumes "prepare_fanout_payload E pkt h r room w = Some (payload, room', w')" "room_ok room"
  shows "room_ok room'"
proof -
  have step: "r_mode room1 = r_mode room \<and> r_simulcast_enabled room1 = r_simulcast_enabled room \<and>
      r_floor room1 = r_floor room \<and> rw_speakers room1 = rw_speakers room"
    if "ptt_rewrite E pkt h u room w = Some (res, buf, room1, w1)" for u res buf room1 w1
    using that by (auto simp: ptt_rewrite_def case_prod_beta bind_eq_Some_conv rw_speakers_def rewrite_keeps_speaker split: if_splits)
  show ?thesis
    using assms
    by (auto simp: prepare_fanout_payload_def bind_eq_Some_conv case_prod_beta Let_def room_ok_def
        split: if_splits rewrite_result.splits dest!: step)
qed

lemma world_le_relay_rtp [world_le_intros]:
  "world_le w (relay_rtp pkt r w)" "world_le w (relay_if_ready pkt r w)"
proof -
  have "world_le w (snd (egress_send r (EgRtp pkt) w))" by (rule world_le_intros)
  then show relay: "world_le w (relay_rtp pkt r w)"
    by (auto simp: relay_rtp_def case_prod_beta intro!: world_le_part_step world_le_steps(1))
  then show "world_le w (relay_if_ready pkt r w)" by (simp add: relay_if_ready_def)
qed

lemma world_le_simulcast_pli: "world_le w (simulcast_pli r w)"
  by (auto simp: simulcast_pli_def intro: world_le_burst split: option.split)

lemma world_le_simulcast_target: "world_le (snd s) (snd (simulcast_target E pl r rid k v x s))"
proof -
  have fw: "world_le w (case fw of Some pkt \<Rightarrow> relay_rtp pkt x w2 | None \<Rightarrow> w2)" if "world_le w w2" for w w2 :: "'a world" and fw
    using that world_le_trans [OF that world_le_relay_rtp(1)] by (auto split: option.split)
  show ?thesis
    by (auto simp: simulcast_target_def Let_def case_prod_beta
        intro!: fw world_le_trans [OF _ world_le_simulcast_pli] world_le_part_step)
qed

lemma world_le_fanout: "fanout E pkt h r room w = Some w' \<Longrightarrow> world_le w w'"
proof -
  have sim: "world_le (snd s) (snd (fold (simulcast_target E pkt r rid k v) xs s))" for rid k v xs s
  proof (induction xs arbitrary: s)
    case (Cons x xs)
    show ?case using world_le_trans [OF world_le_simulcast_target Cons] by simp
  qed simp
  have "world_le w (snd (fold (simulcast_target E pkt r rid k v) xs (False, snd (virtual_ssrc_of E r w))))" for rid k v xs
    using world_le_trans [OF world_le_rooms(3) sim [of "(False, _)", unfolded snd_conv]] .
  then show "fanout E pkt h r room w = Some w' \<Longrightarrow> world_le w w'"
    by (auto simp: fanout_def fanout_simulcast_video_def case_prod_beta bind_eq_Some_conv split: if_splits option.splits
        intro!: world_le_fold world_le_intros)
qed

lemma world_le_reports [world_le_intros]:
  "world_le w (consume_sr now r sr w)" "world_le w (relay_reports E srs relays r room x w)"
  "world_le w (relay_publish_rtcp_translated E srs relays r room w)"
proof -
  show "world_le w (consume_sr now r sr w)"
    by (auto simp: consume_sr_def split: option.split intro!: world_le_part)
  have tr: "world_le w (snd (build_sr_translation E sr r x room w))" for sr x and w :: "'a world"
    using world_le_rooms(3) [of w E r] by (auto simp: build_sr_translation_def Let_def case_prod_beta)
  have srs: "world_le w (snd (translate_srs E srs r x room w))" for x and w :: "'a world"
  proof (induction srs arbitrary: w)
    case (Cons sr srs)
    show ?case using world_le_trans [OF tr Cons] by (simp add: Let_def case_prod_beta)
  qed simp
  have send: "world_le w (snd (egress_send x e w1))" if "world_le w w1" for x e and w w1 :: "'a world"
    using that world_le_effects(6) by (rule world_le_trans)
  show relay: "world_le w (relay_reports E srs relays r room x w)" for x and w :: "'a world"
    by (auto simp: relay_reports_def Let_def case_prod_beta
        intro!: srs send world_le_part_step world_le_steps(1))
  show "world_le w (relay_publish_rtcp_translated E srs relays r room w)"
    by (auto simp: relay_publish_rtcp_translated_def intro!: world_le_fold relay)
qed

lemma world_le_mbcp_publish:
  assumes "dm_get (h_rooms (w_hub w)) (r_id room) = Some room" "world_le w w'"
  shows "world_le w (handle_mbcp_from_publish E blocks r room w')"
proof -
  let ?s = "fold (mbcp_message_step E r) blocks (room, w')"
  have "rw_le (room, w') ?s" by (rule rw_le_fold [OF rw_le_mbcp_step])
  then have "world_le w (put_room (fst ?s) (snd ?s))"
    using mbcp_room_ok [of "(room, w')"]
    by (intro world_le_put_room [OF assms(1)]) (auto simp: rw_le_def intro: world_le_trans [OF assms(2)])
  then show ?thesis using assms(2) by (simp add: handle_mbcp_from_publish_def case_prod_beta)
qed

lemma world_le_relay_group [world_le_intros]: "world_le w (relay_group E room plis grp w)"
proof -
  have "world_le w (snd (pli_throttle now n q w))" for now n q
    by (auto simp: pli_throttle_def intro!: world_le_part world_le_effects(1))
  then show ?thesis
    by (auto simp: relay_group_def Let_def case_prod_beta split: option.split
        intro!: world_le_part_step world_le_steps(1) intro: world_le_trans [OF _ world_le_effects(3)])
qed

lemma world_le_relay_blocks: "relay_subscribe_rtcp_blocks E pl blocks r room w = Some w' \<Longrightarrow> world_le w w'"
proof -
  have "world_le w (fold (\<lambda>e. if snd e = RTCP_PT_RR then bump ''rr_relayed'' 1 else id) (heads :: (u32 \<times> u8) list) w)" for heads
    by (rule world_le_fold) (simp add: world_le_effects)
  then show "relay_subscribe_rtcp_blocks E pl blocks r room w = Some w' \<Longrightarrow> world_le w w'"
    by (auto simp: relay_subscribe_rtcp_blocks_def Let_def bind_eq_Some_conv case_prod_beta
        intro: world_le_trans [OF _ world_le_fold] world_le_relay_group)
qed

lemma world_le_nack_target: "world_le w (snd (snd (nack_target room r ssrc lost w)))"
  by (auto simp: nack_target_def split: option.split intro: world_le_effects)

lemma world_le_collect_rtx: "world_le w (snd (collect_rtx q rtx seqs w))"
proof (induction seqs arbitrary: w)
  case (Cons s seqs)
  have "world_le w (update_part q (\<lambda>p. snd (next_rtx_seq p)) w)" by (rule world_le_part) simp
  then show ?case using Cons by (auto simp: Let_def case_prod_beta split: option.split intro: world_le_trans)
qed simp

lemma world_le_send_rtx: "world_le w (send_rtx r pkt w)"
proof -
  have send: "world_le w (snd (egress_send r e w1))" if "world_le w w1" for e w1
    using that world_le_effects(6) by (rule world_le_trans)
  show ?thesis
    by (auto simp: send_rtx_def Let_def case_prod_beta intro!: send world_le_part_step world_le_steps(1))
qed

lemma world_le_retransmit: "world_le w (retransmit E r q ls rtx seqs w)"
proof -
  have esc: "world_le w (escalate E r q ls w1)" if "world_le w w1" for w1
    using that by (auto simp: escalate_def Let_def split: option.split
        intro!: world_le_trans [OF _ world_le_burst] world_le_part_step)
  show ?thesis
    by (auto simp: retransmit_def Let_def case_prod_beta
        intro!: esc world_le_trans [OF _ world_le_fold] world_le_steps(1) world_le_collect_rtx world_le_send_rtx)
qed

lemma world_le_nack_item: "world_le w (nack_item_step E r room item w)"
proof -
  let ?lost = "expand_nack (ni_pid item) (ni_blp item)"
  have "world_le w (snd (snd (nack_target room r (ni_media_ssrc item) ?lost (bump ''nack_seqs_requested'' n w))))" for n
    by (rule world_le_trans [OF world_le_effects(1) world_le_nack_target])
  then show ?thesis
    by (auto simp: nack_item_step_def Let_def case_prod_beta split: option.split
        intro!: world_le_steps(1) intro: world_le_trans [OF _ world_le_retransmit])
qed

lemma world_le_nack: "handle_nack_block E r room data w = Some w' \<Longrightarrow> world_le w w'"
  by (auto simp: handle_nack_block_def Let_def bind_eq_Some_conv world_le_effects intro!: world_le_fold world_le_nack_item)

lemma world_le_fold_opt:
  assumes "\<And>x w w'. f x w = Some w' \<Longrightarrow> world_le w w'"
  shows "fold_opt f xs w = Some w' \<Longrightarrow> world_le w w'"
proof (induction xs arbitrary: w)
  case (Cons x xs)
  then obtain w1 where "f x w = Some w1" "fold_opt f xs w1 = Some w'" by (auto simp: bind_eq_Some_conv)
  then show ?case using world_le_trans [OF assms Cons.IH] by blast
qed simp

lemma world_le_after_nacks:
  assumes room: "dm_get (h_rooms (w_hub w)) (r_id room) = Some room"
    and le: "world_le w w1" and run: "after_nacks E plain parsed r room w1 = Some w'"
  shows "world_le w w'"
proof -
  let ?w = "if rr_blocks parsed \<noteq> [] then bump ''rr_consumed'' (word_of_nat (length (rr_blocks parsed))) w1 else w1"
  have "world_le w ?w" using le by (simp add: world_le_steps(1))
  moreover obtain w2 where "(if relay_blocks parsed \<noteq> [] then relay_subscribe_rtcp_blocks E plain (relay_blocks parsed) r room ?w
      else Some ?w) = Some w2"
    and w': "w' = (if mbcp_blocks parsed \<noteq> [] then handle_mbcp_from_publish E (mbcp_blocks parsed) r room w2 else w2)"
    using run unfolding after_nacks_def Let_def by (simp only: bind_eq_Some_conv option.inject) blast
  ultimately have "world_le w w2" using world_le_trans [OF _ world_le_relay_blocks] by (auto split: if_splits)
  then show ?thesis by (simp add: w' world_le_mbcp_publish [OF room])
qed

lemma world_le_subscribe_rtcp:
  assumes room: "dm_get (h_rooms (w_hub w)) (r_id room) = Some room"
    and le: "world_le w w1" and run: "handle_subscribe_rtcp E buf r room w1 = Some w'"
  shows "world_le w w'"
proof (cases "is_rtcp buf \<and> e_decrypt_rtcp E r Subscribe buf \<noteq> None")
  case True
  then obtain plain where plain: "e_decrypt_rtcp E r Subscribe buf = Some plain" by auto
  from run True obtain parsed w2 where
    nacks: "fold_opt (handle_nack_block E r room) (nack_blocks parsed)
      (count_nacks parsed r (bump ''sub_rtcp_decrypted'' 1 (bump ''sub_rtcp_received'' 1 w1))) = Some w2"
    and rest: "after_nacks E plain parsed r room w2 = Some w'"
    by (auto simp: handle_subscribe_rtcp_def Let_def plain bind_eq_Some_conv)
  have "world_le w w2"
    by (rule world_le_trans [OF _ world_le_fold_opt [OF world_le_nack nacks]])
       (auto simp: count_nacks_def Let_def intro!: le world_le_part_step world_le_steps(1))
  then show ?thesis by (rule world_le_after_nacks [OF room _ rest])
qed (use run le in \<open>auto simp: handle_subscribe_rtcp_def Let_def intro!: world_le_steps(1) split: if_splits\<close>)

lemma world_le_publish_rtcp:
  assumes room: "dm_get (h_rooms (w_hub w)) (r_id room) = Some room"
    and le: "world_le w w1" and run: "process_publish_rtcp E buf r room w1 = Some w'"
  shows "world_le w w'"
proof (cases "e_decrypt_rtcp E r Publish buf")
  case (Some plain)
  obtain parsed srs relays where "split_compound_rtcp plain = Some parsed" "slices plain (sr_blocks parsed) = Some srs"
    "slices plain (relay_blocks parsed) = Some relays" by (rule split_compound_total)
  then have w': "w' = (let wa = (if mbcp_blocks parsed \<noteq> []
       then handle_mbcp_from_publish E (mbcp_blocks parsed) r room w1 else w1);
       wb = fold (consume_sr (e_instant E) r) srs wa
     in if srs \<noteq> [] \<or> relays \<noteq> [] then relay_publish_rtcp_translated E srs relays r (current_room room wb) wb else wb)"
    using run Some by (simp add: process_publish_rtcp_def Let_def)
  have "world_le w (if b then handle_mbcp_from_publish E bl r room w1 else w1)" for b bl
    using le world_le_mbcp_publish [OF room le] by simp
  then have le2: "world_le w (fold (consume_sr (e_instant E) r) srs (if b then handle_mbcp_from_publish E bl r room w1 else w1))" for b bl
    by (rule world_le_trans) (rule world_le_fold [OF world_le_reports(1)])
  have relay: "world_le w (if c then relay_publish_rtcp_translated E srs relays r rm x else x)" if "world_le w x" for c rm x
    using that world_le_trans [OF that world_le_reports(3)] by simp
  show ?thesis unfolding w' Let_def by (rule relay [OF le2])
qed (use run le in \<open>auto simp: process_publish_rtcp_def intro!: world_le_steps(1)\<close>)

lemma world_le_publish_rtp:
  assumes room: "dm_get (h_rooms (w_hub w)) (r_id room) = Some room"
    and le: "world_le w w1" and run: "handle_publish_rtp E buf r room w1 = Some w'"
  shows "world_le w w'"
proof (cases "e_decrypt_rtp E r Publish buf")
  case (Some plain)
  let ?w1 = "count (\<lambda>s. s\<lparr> pub_rtp_in := pub_rtp_in s + 1 \<rparr>) r (bump ''ingress_rtp_received'' 1 w1)"
  from run Some obtain pkt h n w2 payload room' w3 where parts:
    "collect_rtp_stats E pkt h r (if n then bump ''pt_normalized'' 1 ?w1 else ?w1) = Some w2"
    "prepare_fanout_payload E pkt h r room (detect_gap h r w2) = Some (payload, room', w3)"
    "(case payload of None \<Rightarrow> Some (put_room room' w3) | Some out \<Rightarrow> fanout E out h r room' (put_room room' w3)) = Some w'"
    by (auto simp: handle_publish_rtp_def Let_def bind_eq_Some_conv split: prod.splits)
  have "world_le w (if n then bump ''pt_normalized'' 1 ?w1 else ?w1)"
    using le by (auto intro!: world_le_part_step world_le_steps(1))
  then have "world_le w w2" by (rule world_le_trans) (rule world_le_collect_stats [OF parts(1)])
  then have "world_le w w3" by (rule world_le_trans [OF _ world_le_trans [OF world_le_gap prepare_le(2) [OF parts(2)]]])
  then have "world_le w (put_room room' w3)" by (rule world_le_put_room [OF room _ prepare_le(1) [OF parts(2)] prepare_room_ok [OF parts(2)]])
  then show ?thesis using parts(3) world_le_trans [OF _ world_le_fanout] by (auto split: option.splits)
qed (use run le in \<open>auto simp: handle_publish_rtp_def intro!: world_le_steps(1)\<close>)

lemma world_le_srtp:
  assumes w: "server_inv w" and run: "handle_srtp E buf remote w = Some w'"
  shows "world_le w w'"
proof -
  have touch: "world_le w (update_part r (touch t) w)" for r t by (rule world_le_part) simp
  note steps = world_le_subscribe_rtcp [OF _ touch] world_le_publish_rtcp [OF _ touch] world_le_publish_rtp [OF _ touch]
  show ?thesis using run
    by (auto simp: handle_srtp_def Let_def touch split: option.splits sum.splits if_splits
        dest!: hub_get_room [OF w] intro: steps)
qed

lemma srtp_server_inv: "server_inv w \<Longrightarrow> handle_srtp E buf remote w = Some w' \<Longrightarrow> server_inv w'"
  by (blast intro: server_inv_le world_le_srtp)

section \<open>What reaches the egress queues\<close>

text \<open>The part of a participant that the fan-out looks at; every step before the fan-out leaves it alone.\<close>

definition view :: "'f participant \<Rightarrow> user_id \<times> media_session \<times> egress_packet list" where
  "view p = (p_user_id p, p_subscribe p, p_egress p)"

lemma view_update_part: "(\<And>p. view (f p) = view p) \<Longrightarrow> map view (w_heap (update_part r f w)) = map view (w_heap w)"
  by (rule map_update_part)

lemma view_simps [simp]:
  "view (count_pipeline f p) = view p" "view (touch t p) = view p" "view (cancel_pli_burst p) = view p"
  "view (p\<lparr> p_pli_burst := b \<rparr>) = view p" "view (p\<lparr> p_last_audio_arrival_us := t \<rparr>) = view p"
  "view (update_recv_stats E h p) = view p" "view (p\<lparr> p_rtp_cache := c \<rparr>) = view p" "view (p\<lparr> p_twcc_recorder := rec \<rparr>) = view p"
  "view (p\<lparr> p_last_video_rtp_ms := t \<rparr>) = view p" "view (p\<lparr> p_rtp_gap_suppress_until_ms := t \<rparr>) = view p"
  by (simp_all add: view_def count_pipeline_def touch_def cancel_pli_burst_def update_recv_stats_def Let_def)

lemma view_frame [simp]:
  "map view (w_heap (count f r w)) = map view (w_heap w)" "map view (w_heap (update_part r (touch t) w)) = map view (w_heap w)"
  "map view (w_heap (spawn_pli_burst r ssrc a ds p w)) = map view (w_heap w)"
proof -
  show "map view (w_heap (count f r w)) = map view (w_heap w)" "map view (w_heap (update_part r (touch t) w)) = map view (w_heap w)"
    by (rule view_update_part, simp)+
  have "map view (w_heap (update_part r (\<lambda>p. p\<lparr> p_pli_burst := True \<rparr>) (update_part r cancel_pli_burst w))) = map view (w_heap w)"
    by (subst view_update_part, simp, rule view_update_part, simp)
  then show "map view (w_heap (spawn_pli_burst r ssrc a ds p w)) = map view (w_heap w)"
    by (simp add: spawn_pli_burst_def Let_def)
qed

lemma view_collect_stats:
  assumes "collect_rtp_stats E pkt h r w = Some w'"
  shows "map view (w_heap w') = map view (w_heap w)"
proof -
  note steps = view_update_part [of "\<lambda>p. p\<lparr> p_last_audio_arrival_us := e_now_us E \<rparr>"] view_update_part [of "update_recv_stats E h"]
    view_update_part [of "\<lambda>p. p\<lparr> p_rtp_cache := cache_store (rh_seq h) pkt (p_rtp_cache p) \<rparr>"]
    view_update_part [of "\<lambda>p. p\<lparr> p_twcc_recorder := tw_record s (e_instant E) (p_twcc_recorder p) \<rparr>" for s]
  show ?thesis using assms
    by (auto simp: collect_rtp_stats_def Let_def bind_eq_Some_conv steps simp del: heap_frame(5) split: option.splits)
qed

lemma view_gap: "map view (w_heap (detect_gap h r w)) = map view (w_heap w)"
proof -
  note steps = view_update_part [of "\<lambda>p. p\<lparr> p_last_video_rtp_ms := t \<rparr>" for t]
    view_update_part [of "\<lambda>p. p\<lparr> p_rtp_gap_suppress_until_ms := t \<rparr>" for t]
  show ?thesis
    by (auto simp: detect_gap_def Let_def steps simp del: heap_frame(5) split: option.split)
qed

lemma view_prepare:
  assumes "prepare_fanout_payload E pkt h r room w = Some (payload, room', w')"
  shows "map view (w_heap w') = map view (w_heap w)"
proof -
  have step: "w_heap w1 = w_heap w" if "ptt_rewrite E pkt h u room w = Some (res, buf, room1, w1)" for u res buf room1 w1
    using that by (auto simp: ptt_rewrite_def case_prod_beta bind_eq_Some_conv split: if_splits)
  show ?thesis using assms
    by (auto simp: prepare_fanout_payload_def bind_eq_Some_conv case_prod_beta Let_def simp del: heap_frame(5)
        split: if_splits rewrite_result.splits dest!: step)
qed

lemma relay_if_ready_view:
  "view (part (relay_if_ready pkt r w) x) =
     (if x = r \<and> r < length (w_heap w) \<and> is_subscribe_ready (part w r) \<and> length (p_egress (part w r)) < EGRESS_QUEUE_SIZE
      then (p_user_id (part w x), p_subscribe (part w x), p_egress (part w x) @ [EgRtp pkt]) else view (part w x))"
  "length (w_heap (relay_if_ready pkt r w)) = length (w_heap w)"
  by (cases "x = r"; cases "r < length (w_heap w)";
      auto simp: relay_if_ready_def relay_rtp_def egress_send_def case_prod_beta view_def try_send_def count_pipeline_def
        list_update_beyond)+

lemma relay_fold_egress:
  assumes "distinct rs" "\<And>r. r \<in> set rs \<Longrightarrow> r < length (w_heap w)"
  shows "p_egress (part (fold (relay_if_ready pkt) rs w) x) = p_egress (part w x) @
    (if x \<in> set rs \<and> is_subscribe_ready (part w x) \<and> length (p_egress (part w x)) < EGRESS_QUEUE_SIZE then [EgRtp pkt] else [])"
  using assms
proof (induction rs arbitrary: w)
  case (Cons r rs)
  let ?w = "relay_if_ready pkt r w"
  have same: "p_egress (part ?w y) = p_egress (part w y)" "is_subscribe_ready (part ?w y) = is_subscribe_ready (part w y)" if "y \<noteq> r" for y
    using relay_if_ready_view(1) [of pkt r w y] that by (auto simp: view_def is_subscribe_ready_def)
  have here: "p_egress (part ?w r) = p_egress (part w r) @
      (if is_subscribe_ready (part w r) \<and> length (p_egress (part w r)) < EGRESS_QUEUE_SIZE then [EgRtp pkt] else [])"
    using relay_if_ready_view(1) [of pkt r w r] Cons.prems(2) by (auto simp: view_def split: if_splits)
  show ?case using Cons.IH [of ?w] Cons.prems same here relay_if_ready_view(2) [of pkt r w] by (cases "x = r") auto
qed simp

lemma other_participants_refs:
  assumes inv: "room_inv heap room" and u: "dm_get (r_participants room) u = Some r"
  shows "distinct (other_participants room u)" "x \<in> set (other_participants room u) \<longleftrightarrow> registered room x \<and> x \<noteq> r"
    "registered room x \<Longrightarrow> x < length heap"
proof -
  note ok = room_invD(1) [OF inv]
  have id: "p_user_id (heap ! y) = v \<and> y < length heap" if "(v, y) \<in> set (r_participants room)" for v y
    using that room_invD(5) [OF inv] dm_get_iff [OF ok] by blast
  have ur: "(u, r) \<in> set (r_participants room)" using u dm_get_iff [OF ok] by blast
  have "fst e = p_user_id (heap ! snd e)" if "e \<in> set (r_participants room)" for e using id [of "fst e" "snd e"] that by simp
  then have "inj_on snd (set (r_participants room))" by (intro inj_onI) (metis prod_eqI)
  then have "inj_on snd (set (filter (\<lambda>e. fst e \<noteq> u) (r_participants room)))" by (rule inj_on_subset) auto
  moreover have "distinct (r_participants room)" using ok by (simp add: dm_ok_def distinct_map)
  ultimately show "distinct (other_participants room u)" by (simp add: other_participants_def distinct_map)
  have "v \<noteq> u \<longleftrightarrow> y \<noteq> r" if vy: "(v, y) \<in> set (r_participants room)" for v y
  proof
    assume "y \<noteq> r"
    moreover have "dm_get (r_participants room) v = Some y" using vy by (rule dm_get_iff [OF ok, THEN iffD2])
    ultimately show "v \<noteq> u" using u by auto
  next
    assume "v \<noteq> u"
    then show "y \<noteq> r" using id [OF vy] id [OF ur] by auto
  qed
  moreover have "x \<in> set (other_participants room u) \<longleftrightarrow> (\<exists>v. (v, x) \<in> set (r_participants room) \<and> v \<noteq> u)"
    "registered room x \<longleftrightarrow> (\<exists>v. (v, x) \<in> set (r_participants room))"
    unfolding other_participants_def registered_def by force+
  ultimately show "x \<in> set (other_participants room u) \<longleftrightarrow> registered room x \<and> x \<noteq> r" by blast
  show "registered room x \<Longrightarrow> x < length heap" using id by (auto simp: registered_def)
qed

lemma publish_rtp_egress:
  assumes room: "room_inv (w_heap w) room" "dm_get (r_participants room) (p_user_id (part w r)) = Some r"
    and dec: "e_decrypt_rtp E r Publish buf = Some plain"
    and norm: "normalise_pt (p_tracks (part w r)) plain (parse_rtp_header plain) = Some (pkt, h, n)"
    and nosim: "\<not> r_simulcast_enabled room \<or> \<not> is_video_pt (rh_pt h)" and x: "x < length (w_heap w)"
  obtains w' payload room1 w1 w2 where "handle_publish_rtp E buf r room w = Some w'"
    "prepare_fanout_payload E pkt h r room w1 = Some (payload, room1, w2)" "map view (w_heap w1) = map view (w_heap w)"
    "p_egress (part w' x) = p_egress (part w x) @ (case payload of None \<Rightarrow> [] | Some out \<Rightarrow>
      if registered room x \<and> x \<noteq> r \<and> is_subscribe_ready (part w x) \<and> length (p_egress (part w x)) < EGRESS_QUEUE_SIZE
      then [EgRtp out] else [])"
proof -
  let ?w1 = "count (\<lambda>s. s\<lparr> pub_rtp_in := pub_rtp_in s + 1 \<rparr>) r (bump ''ingress_rtp_received'' 1 w)"
  let ?w2 = "if n then bump ''pt_normalized'' 1 ?w1 else ?w1"
  have tracks: "p_tracks (part ?w1 r) = p_tracks (part w r)"
    by (cases "r < length (w_heap w)") (simp_all add: count_pipeline_def list_update_beyond)
  obtain w2 where c: "collect_rtp_stats E pkt h r ?w2 = Some w2" using collect_total [of E pkt h r ?w2] by blast
  let ?g = "detect_gap h r w2"
  obtain payload room1 w3 where p: "prepare_fanout_payload E pkt h r room ?g = Some (payload, room1, w3)"
    using prepare_total [of E pkt h r room ?g] by (cases "prepare_fanout_payload E pkt h r room ?g") auto
  have v2: "map view (w_heap w2) = map view (w_heap w)" using view_collect_stats [OF c] by (simp del: heap_frame(5))
  have vg: "map view (w_heap ?g) = map view (w_heap w)" using view_gap [of h r w2] v2 by simp
  have v3: "map view (w_heap w3) = map view (w_heap w)" using view_prepare [OF p] vg by simp
  have len: "length (w_heap w3) = length (w_heap w)" using arg_cong [OF v3, of length] by simp
  have same: "view (part w3 y) = view (part w y)" if "y < length (w_heap w)" for y
    using arg_cong [OF v3, of "\<lambda>vs. vs ! y"] that len by simp
  have r: "r < length (w_heap w)" using other_participants_refs(3) [OF room, of r] room(2)
    registered_iff [OF room_invD(1) [OF room(1)]] by blast
  note le = prepare_le(1) [OF p]
  let ?others = "other_participants room1 (p_user_id (part w3 r))"
  have others: "?others = other_participants room (p_user_id (part w r))"
    using le same [OF r] by (simp add: other_participants_def room_le_def view_def)
  note refs = other_participants_refs [OF room]
  have run: "handle_publish_rtp E buf r room w = (case payload of None \<Rightarrow> Some (put_room room1 w3)
      | Some out \<Rightarrow> Some (fold (relay_if_ready out) ?others (put_room room1 w3)))"
    using le nosim unfolding handle_publish_rtp_def Let_def dec option.case tracks norm bind.bind_lunit prod.case c p
    by (auto simp: fanout_def room_le_def split: option.split)
  have eg: "p_egress (part (fold (relay_if_ready out) ?others (put_room room1 w3)) x) = p_egress (part w x) @
      (if registered room x \<and> x \<noteq> r \<and> is_subscribe_ready (part w x) \<and> length (p_egress (part w x)) < EGRESS_QUEUE_SIZE
       then [EgRtp out] else [])" for out
    using relay_fold_egress [of ?others "put_room room1 w3" out x] refs len same [OF x]
    by (auto simp: others view_def is_subscribe_ready_def)
  show ?thesis
  proof (cases payload)
    case None
    show ?thesis by (rule that [of "put_room room1 w3", OF _ p vg]) (use run same [OF x] None in \<open>simp_all add: view_def\<close>)
  next
    case (Some out)
    show ?thesis
      by (rule that [of "fold (relay_if_ready out) ?others (put_room room1 w3)", OF _ p vg]) (use run eg [of out] Some in simp_all)
  qed
qed

lemma prepare_holder:
  assumes "prepare_fanout_payload E pkt h r room w = Some (payload, room1, w2)" "r_mode room = Ptt"
    "current_speaker (r_floor room) = Some (p_user_id (part w r))"
  obtains res buf room2 wx where "ptt_rewrite E pkt h (p_user_id (part w r)) room w = Some (res, buf, room2, wx)"
    "payload = (case res of RwOk \<Rightarrow> Some buf | PendingKeyframe \<Rightarrow> None | Skip \<Rightarrow> Some pkt)"
proof -
  from assms obtain q where q: "ptt_rewrite E pkt h (p_user_id (part w r)) room w = Some q"
    by (auto simp: prepare_fanout_payload_def bind_eq_Some_conv)
  obtain res buf room2 wx where "q = (res, buf, room2, wx)" by (cases q) auto
  then show thesis using assms q by (intro that [of res buf room2 wx]) (cases res; simp add: prepare_fanout_payload_def Let_def)+
qed

lemma ptt_rewrite_medium:
  assumes "ptt_rewrite E pkt h u room w = Some (res, buf, room2, wx)" "is_audio_pt (rh_pt h) \<or> is_video_pt (rh_pt h)"
  obtains k where
    "res = fst (rewrite (if is_audio_pt (rh_pt h) then r_audio_rewriter room else r_video_rewriter room) (e_instant E) pkt u k)"
    "buf = fst (snd (rewrite (if is_audio_pt (rh_pt h) then r_audio_rewriter room else r_video_rewriter room) (e_instant E) pkt u k))"
proof (cases "is_audio_pt (rh_pt h)")
  case True
  then show thesis using assms(1) by (intro that [of False]) (auto simp: ptt_rewrite_def case_prod_beta)
next
  case False
  then obtain k where "is_keyframe (rh_pt h) pkt = Some k" using assms by (auto simp: ptt_rewrite_def bind_eq_Some_conv)
  then show thesis using assms False by (intro that [of k]) (auto simp: ptt_rewrite_def case_prod_beta)
qed

lemma ptt_payload:
  assumes prep: "prepare_fanout_payload E pkt h r room w = Some (payload, room1, w2)" and mode: "r_mode room = Ptt"
  shows "payload \<noteq> None \<Longrightarrow> current_speaker (r_floor room) = Some (p_user_id (part w r))"
    and "in_step room \<Longrightarrow> 12 \<le> length pkt \<Longrightarrow> is_audio_pt (rh_pt h) \<or> is_video_pt (rh_pt h) \<Longrightarrow> payload = Some out \<Longrightarrow>
      drop 12 out = drop 12 pkt \<and>
      be32_at out 8 = virtual_ssrc (if is_audio_pt (rh_pt h) then r_audio_rewriter room else r_video_rewriter room)"
    and "deaf room \<Longrightarrow> current_speaker (r_floor room) = Some (p_user_id (part w r)) \<Longrightarrow> payload = Some pkt"
proof -
  let ?u = "p_user_id (part w r)"
  show holder: "current_speaker (r_floor room) = Some ?u" if "payload \<noteq> None"
  proof (rule ccontr)
    assume "current_speaker (r_floor room) \<noteq> Some ?u"
    then have "payload = None" using prep mode unfolding prepare_fanout_payload_def by simp
    then show False using that by simp
  qed
  have skip: "fst (rewrite rw now pkt ?u k) = Skip \<longleftrightarrow> length pkt < 12 \<or> speaker (rw_state rw) \<noteq> Some ?u" for rw now k
    by (auto simp: rewrite_def Let_def)
  show "drop 12 out = drop 12 pkt \<and>
      be32_at out 8 = virtual_ssrc (if is_audio_pt (rh_pt h) then r_audio_rewriter room else r_video_rewriter room)"
    if "in_step room" "12 \<le> length pkt" "is_audio_pt (rh_pt h) \<or> is_video_pt (rh_pt h)" "payload = Some out"
  proof -
    have "speaker (rw_state (r_audio_rewriter room)) = Some ?u" "speaker (rw_state (r_video_rewriter room)) = Some ?u"
      using holder that(1,4) by (simp_all add: in_step_def rw_speakers_def)
    then have ok: "fst (rewrite (if is_audio_pt (rh_pt h) then r_audio_rewriter room else r_video_rewriter room) now pkt ?u k) \<noteq> Skip" for now k
      using that(2) by (simp add: skip)
    let ?rw = "if is_audio_pt (rh_pt h) then r_audio_rewriter room else r_video_rewriter room"
    have "current_speaker (r_floor room) = Some ?u" using holder that(4) by simp
    note medium = that(3)
    note now_holder = \<open>current_speaker (r_floor room) = Some ?u\<close>
    obtain res buf room2 wx where pr: "ptt_rewrite E pkt h ?u room w = Some (res, buf, room2, wx)"
      and pay: "payload = (case res of RwOk \<Rightarrow> Some buf | PendingKeyframe \<Rightarrow> None | Skip \<Rightarrow> Some pkt)"
      by (rule prepare_holder [OF prep mode now_holder])
    obtain k where k: "res = fst (rewrite ?rw (e_instant E) pkt ?u k)" "buf = fst (snd (rewrite ?rw (e_instant E) pkt ?u k))"
      by (rule ptt_rewrite_medium [OF pr medium])
    have "res \<noteq> Skip" using ok [of "e_instant E" k] unfolding k(1) .
    then have "res = RwOk" "buf = out" using that(4) pay by (simp_all split: rewrite_result.splits)
    then have "fst (rewrite ?rw (e_instant E) pkt ?u k) = RwOk" "out = fst (snd (rewrite ?rw (e_instant E) pkt ?u k))"
      using k by (simp_all only:)
    then have "rewrite ?rw (e_instant E) pkt ?u k = (RwOk, out, snd (snd (rewrite ?rw (e_instant E) pkt ?u k)))"
      by (metis prod.collapse)
    from rewrite_packet(3,5) [OF this] show ?thesis by simp
  qed
  show "payload = Some pkt" if "deaf room" "current_speaker (r_floor room) = Some ?u"
  proof -
    have "fst (rewrite (r_audio_rewriter room) now pkt ?u k) = Skip" "fst (rewrite (r_video_rewriter room) now pkt ?u k) = Skip" for now k
      using that(1) by (simp_all add: skip deaf_def rw_speakers_def)
    moreover note now_holder = that(2)
    obtain res buf room2 wx where pr: "ptt_rewrite E pkt h ?u room w = Some (res, buf, room2, wx)"
      and pay: "payload = (case res of RwOk \<Rightarrow> Some buf | PendingKeyframe \<Rightarrow> None | Skip \<Rightarrow> Some pkt)"
      by (rule prepare_holder [OF prep mode now_holder])
    ultimately have "res = Skip"
      using pr unfolding ptt_rewrite_def
      by (auto simp: case_prod_beta bind_eq_Some_conv simp del: fst_conv split: if_splits)
    then show ?thesis using pay by simp
  qed
qed

lemma srtp_publish:
  assumes w: "server_inv w" and addr: "find_by_addr (w_hub w) remote = Some (r, Publish, rid)"
    and room: "dm_get (h_rooms (w_hub w)) rid = Some room" and ready: "is_publish_ready (part w r)" and rtp: "\<not> is_rtcp buf"
  shows "handle_srtp E buf remote w = handle_publish_rtp E buf r room (update_part r (touch (e_now_ms E)) w)"
    and "dm_get (r_participants room) (p_user_id (part w r)) = Some r" "r < length (w_heap w)"
proof -
  have inv: "room_inv (w_heap w) room" by (rule hub_invD(5) [OF server_invD(1) [OF w] room])
  have "(r, Publish) \<in> Map.ran (dm_get (r_by_addr room))"
    using addr room by (auto simp: find_by_addr_def get_by_addr_def bind_eq_Some_conv ran_def)
  then have "registered room r" using room_invD(7) [OF inv] by (auto simp: ran_def)
  then show u: "dm_get (r_participants room) (p_user_id (part w r)) = Some r" "r < length (w_heap w)"
    using room_invD(5) [OF inv] registered_iff [OF room_invD(1) [OF inv]] by auto
  show "handle_srtp E buf remote w = handle_publish_rtp E buf r room (update_part r (touch (e_now_ms E)) w)"
    using room ready rtp u(2) by (simp add: handle_srtp_def addr hub_get_def is_publish_ready_def touch_def)
qed

lemma srtp_publish_egress:
  assumes w: "server_inv w" and addr: "find_by_addr (w_hub w) remote = Some (r, Publish, rid)"
    and room: "dm_get (h_rooms (w_hub w)) rid = Some room" and ready: "is_publish_ready (part w r)" and rtp: "\<not> is_rtcp buf"
    and dec: "e_decrypt_rtp E r Publish buf = Some plain" and nosim: "\<not> r_simulcast_enabled room"
    and norm: "normalise_pt (p_tracks (part w r)) plain (parse_rtp_header plain) = Some (pkt, h, n)" and x: "x < length (w_heap w)"
  obtains w' payload room1 w1 w2 where "handle_srtp E buf remote w = Some w'"
    "prepare_fanout_payload E pkt h r room w1 = Some (payload, room1, w2)" "p_user_id (part w1 r) = p_user_id (part w r)"
    "p_egress (part w' x) = p_egress (part w x) @ (case payload of None \<Rightarrow> [] | Some out \<Rightarrow>
      if registered room x \<and> x \<noteq> r \<and> is_subscribe_ready (part w x) \<and> length (p_egress (part w x)) < EGRESS_QUEUE_SIZE
      then [EgRtp out] else [])"
proof -
  let ?w = "update_part r (touch (e_now_ms E)) w"
  note pub = srtp_publish [OF w addr room ready rtp]
  have le: "world_le w ?w" by (rule world_le_part) simp
  have inv: "room_inv (w_heap ?w) room"
    using hub_invD(5) [OF server_invD(1) [OF server_inv_le [OF w le]]] room by simp
  have same: "p_user_id (part ?w y) = p_user_id (part w y)" "p_tracks (part ?w y) = p_tracks (part w y)"
    "p_subscribe (part ?w y) = p_subscribe (part w y)" "p_egress (part ?w y) = p_egress (part w y)" for y
    using pub(3) by (cases "y = r"; simp add: touch_def)+
  show ?thesis
  proof (rule publish_rtp_egress [OF inv _ dec, of pkt h n x])
    fix w' payload room1 w1 w2
    assume run: "handle_publish_rtp E buf r room ?w = Some w'" "prepare_fanout_payload E pkt h r room w1 = Some (payload, room1, w2)"
      "map view (w_heap w1) = map view (w_heap ?w)"
      "p_egress (part w' x) = p_egress (part ?w x) @ (case payload of None \<Rightarrow> [] | Some out \<Rightarrow>
        if registered room x \<and> x \<noteq> r \<and> is_subscribe_ready (part ?w x) \<and> length (p_egress (part ?w x)) < EGRESS_QUEUE_SIZE
        then [EgRtp out] else [])"
    have "length (w_heap w1) = length (w_heap ?w)" using arg_cong [OF run(3), of length] by simp
    then have "view (part w1 r) = view (part ?w r)" using arg_cong [OF run(3), of "\<lambda>vs. vs ! r"] pub(3) by simp
    then have "p_user_id (part w1 r) = p_user_id (part w r)" using same(1) [of r] by (simp add: view_def)
    moreover have "is_subscribe_ready (part ?w y) = is_subscribe_ready (part w y)" for y
      unfolding is_subscribe_ready_def same ..
    ultimately have eg: "p_egress (part w' x) = p_egress (part w x) @ (case payload of None \<Rightarrow> [] | Some out \<Rightarrow>
        if registered room x \<and> x \<noteq> r \<and> is_subscribe_ready (part w x) \<and> length (p_egress (part w x)) < EGRESS_QUEUE_SIZE
        then [EgRtp out] else [])" "p_user_id (part w1 r) = p_user_id (part w r)"
      using run(4) by (simp_all only: same)
    show thesis by (rule that [OF _ run(2) eg(2) eg(1)]) (simp only: pub(1) run(1))
  qed (unfold same, rule pub(2), rule norm, use nosim x in \<open>simp_all add: update_part_def\<close>)
qed

section \<open>Properties\<close>

text \<open>A call of two: \<open>u\<close> has the floor and publishes from an address, \<open>v\<close> listens.\<close>

definition call_addr :: socket_addr where
  "call_addr = V4 [10, 0, 0, 1] 5000"

definition demo_pub :: "unit participant" where
  "demo_pub = (participant_new ''u'' ''p'' ''a'' ''x'' ''b'' ''x'' 0 1000)
     \<lparr> p_publish := (media_session_new ''a'' ''x'')\<lparr> ms_address := Some call_addr, ms_inbound_ready := True \<rparr> \<rparr>"

definition demo_sub :: "unit participant" where
  "demo_sub = (participant_new ''v'' ''p'' ''c'' ''x'' ''d'' ''x'' 1 1000)
     \<lparr> p_subscribe := (media_session_new ''d'' ''x'')\<lparr> ms_address := Some (V4 [10, 0, 0, 2] 5000), ms_inbound_ready := True \<rparr> \<rparr>"

definition demo_call_room :: "room_mode \<Rightarrow> room" where
  "demo_call_room mode = switch_rewriters 0 ''u'' ((room_new ''p'' ''n'' (Some 5) mode 0 False 1 2)
     \<lparr> r_participants := [(''u'', 0), (''v'', 1)],
       r_by_ufrag := [(''a'', (0, Publish)), (''b'', (0, Subscribe)), (''c'', (1, Publish)), (''d'', (1, Subscribe))],
       r_by_addr := [(call_addr, (0, Publish))], r_floor := floor_new\<lparr> f_state := Taken ''u'' 0 0 0 \<rparr> \<rparr>)"

definition demo_call :: "room_mode \<Rightarrow> unit world" where
  "demo_call mode = \<lparr> w_heap = [demo_pub, demo_sub],
     w_hub = \<lparr> h_rooms = [(''p'', demo_call_room mode)],
               h_ufrag_index = [(''a'', ''p''), (''b'', ''p''), (''c'', ''p''), (''d'', ''p'')], h_addr_index = [(call_addr, ''p'')] \<rparr>,
     w_metrics = (\<lambda>_. 0), w_ws = [], w_udp = [], w_bursts = [] \<rparr>"

lemma demo_call_room_simps:
  "r_id (demo_call_room mode) = ''p''" "r_mode (demo_call_room mode) = mode" "r_capacity (demo_call_room mode) = 5"
  "\<not> r_simulcast_enabled (demo_call_room mode)" "r_participants (demo_call_room mode) = [(''u'', 0), (''v'', 1)]"
  "r_by_ufrag (demo_call_room mode) = [(''a'', (0, Publish)), (''b'', (0, Subscribe)), (''c'', (1, Publish)), (''d'', (1, Subscribe))]"
  "r_by_addr (demo_call_room mode) = [(call_addr, (0, Publish))]"
  "r_floor (demo_call_room mode) = floor_new\<lparr> f_state := Taken ''u'' 0 0 0 \<rparr>"
  by (simp_all add: demo_call_room_def switch_rewriters_def room_new_def Let_def)

lemma demo_call_registered: "registered (demo_call_room mode) r \<longleftrightarrow> r = 0 \<or> r = 1"
  by (auto simp: registered_def demo_call_room_simps)

lemma demo_call_inv: "server_inv (demo_call mode)"
proof -
  have "room_inv [demo_pub, demo_sub] (demo_call_room mode)"
    by (auto simp: room_inv_def demo_call_registered demo_call_room_simps dm_ok_def demo_pub_def demo_sub_def participant_new_def
        session_def media_session_new_def nth_Cons' split: if_splits pc_type.splits)
  moreover have "part_ok demo_pub" "part_ok demo_sub"
    by (auto simp: part_ok_def tracks_ok_def demo_pub_def demo_sub_def participant_new_def cache_new_def)
  moreover have "room_ok (demo_call_room mode)"
    by (simp add: room_ok_def rw_speakers_def demo_call_room_def switch_rewriters_def switch_speaker_def room_new_def Let_def
        current_speaker_def)
  ultimately show ?thesis
    by (auto simp: server_inv_def hub_inv_def demo_call_def dm_ok_def demo_call_room_simps floor_inv_def floor_new_def
        split: if_splits)
qed

text \<open>
  C22: The receive path never reads out of range: for every datagram, from every address, whatever the SRTP
  library makes of it, the handler returns, and it leaves a consistent server: all indices agree, every
  floor is legal, in a PTT room (never a simulcast one) no rewriter passes on anyone but the floor holder,
  the SSRCs of a participant are distinct and no egress queue exceeds its capacity.
\<close>

theorem srtp_never_panics:
  "\<exists>w'. handle_srtp E buf remote w = Some w' \<and> (server_inv w \<longrightarrow> server_inv w')"
  using handle_srtp_total [of E buf remote w] srtp_server_inv by blast

theorem srtp_never_panics_witness:
  "\<exists>w'. handle_srtp demo_env [0x80, 200] call_addr (demo_call Ptt) = Some w' \<and> server_inv w'"
  using srtp_never_panics [of demo_env "[0x80, 200]" call_addr "demo_call Ptt"] demo_call_inv [of Ptt] by blast

text \<open>
  C24: In a conference without simulcast an RTP packet of a publisher is put once, with its payload type
  normalised and otherwise unchanged, on the egress queue of every other member of the room whose subscribe
  session is ready and whose queue has a place, and on no other queue of the server.
\<close>

theorem conference_fanout_exact:
  assumes "server_inv w" "find_by_addr (w_hub w) remote = Some (r, Publish, rid)" "dm_get (h_rooms (w_hub w)) rid = Some room"
    "is_publish_ready (part w r)" "\<not> is_rtcp buf" "e_decrypt_rtp E r Publish buf = Some plain"
    "r_mode room = Conference" "\<not> r_simulcast_enabled room"
    "normalise_pt (p_tracks (part w r)) plain (parse_rtp_header plain) = Some (pkt, h, n)" "x < length (w_heap w)"
  shows "\<exists>w'. handle_srtp E buf remote w = Some w' \<and> p_egress (part w' x) = p_egress (part w x) @
    (if registered room x \<and> x \<noteq> r \<and> is_subscribe_ready (part w x) \<and> length (p_egress (part w x)) < EGRESS_QUEUE_SIZE
     then [EgRtp pkt] else [])"
proof -
  obtain w' payload room1 w1 w2 where run: "handle_srtp E buf remote w = Some w'"
    "prepare_fanout_payload E pkt h r room w1 = Some (payload, room1, w2)"
    "p_egress (part w' x) = p_egress (part w x) @ (case payload of None \<Rightarrow> [] | Some out \<Rightarrow>
      if registered room x \<and> x \<noteq> r \<and> is_subscribe_ready (part w x) \<and> length (p_egress (part w x)) < EGRESS_QUEUE_SIZE
      then [EgRtp out] else [])"
    by (rule srtp_publish_egress [OF assms(1-6,8-10)])
  have "payload = Some pkt" using run(2) assms(7) by (simp add: prepare_fanout_payload_def)
  then show ?thesis using run by simp
qed

lemma demo_call_simps:
  "find_by_addr (w_hub (demo_call mode)) call_addr = Some (0, Publish, ''p'')"
  "dm_get (h_rooms (w_hub (demo_call mode))) ''p'' = Some (demo_call_room mode)"
  "is_publish_ready (part (demo_call mode) 0)" "is_subscribe_ready (part (demo_call mode) 1)"
  "p_tracks (part (demo_call mode) 0) = []" "p_egress (part (demo_call mode) 1) = []" "1 < length (w_heap (demo_call mode))"
  "p_user_id (part (demo_call mode) 0) = ''u''"
  by (simp_all add: find_by_addr_def get_by_addr_def demo_call_def demo_call_room_simps is_publish_ready_def is_subscribe_ready_def
      is_media_ready_def demo_pub_def demo_sub_def participant_new_def media_session_new_def)

text \<open>An audio packet of thirteen bytes.\<close>

abbreviation demo_rtp :: bytes where
  "demo_rtp \<equiv> [0x80, 111, 0, 1, 0, 0, 0, 9, 0, 0, 0, 7, 42]"

lemma demo_env_decrypt: "e_decrypt_rtp demo_env r pc buf = Some buf" "e_decrypt_rtcp demo_env r pc buf = Some buf"
  by (simp_all add: demo_env_def)

lemma demo_rtp_simps: "\<not> is_rtcp demo_rtp" "rh_pt (parse_rtp_header demo_rtp) = 111"
  by (simp_all add: is_rtcp_def parse_rtp_header_def)

theorem conference_fanout_exact_witness:
  "\<exists>w'. handle_srtp demo_env demo_rtp call_addr (demo_call Conference) = Some w' \<and>
     p_egress (part w' 1) = [EgRtp demo_rtp]"
  using conference_fanout_exact [OF demo_call_inv [of Conference] demo_call_simps(1-3) demo_rtp_simps(1), where E = demo_env and plain = demo_rtp
      and pkt = demo_rtp and h = "parse_rtp_header demo_rtp" and n = False and x = 1] demo_call_simps(4-7) [of Conference]
  by (simp add: demo_env_def demo_call_room_simps demo_call_registered normalise_pt_def)

text \<open>
  C23: The gate of a push-to-talk room: a packet of anyone but the floor holder reaches no queue. What the
  holder's audio and video packets put on a queue, when the rewriters are in step with the floor, carries the virtual SSRC of
  that medium and the holder's payload, so that receivers see one stream per medium whoever speaks. The only other case
  is a room whose rewriters were cleared under a speaker: it passes the speaker's packets on unchanged,
  under an SSRC that no receiver was told.
\<close>

theorem ptt_gate:
  assumes "server_inv w" "find_by_addr (w_hub w) remote = Some (r, Publish, rid)" "dm_get (h_rooms (w_hub w)) rid = Some room"
    "is_publish_ready (part w r)" "\<not> is_rtcp buf" "e_decrypt_rtp E r Publish buf = Some plain"
    "r_mode room = Ptt"
    "normalise_pt (p_tracks (part w r)) plain (parse_rtp_header plain) = Some (pkt, h, n)" "x < length (w_heap w)"
  shows "\<exists>w' fw. handle_srtp E buf remote w = Some w' \<and>
    p_egress (part w' x) = p_egress (part w x) @ (case fw of None \<Rightarrow> [] | Some out \<Rightarrow>
      if registered room x \<and> x \<noteq> r \<and> is_subscribe_ready (part w x) \<and> length (p_egress (part w x)) < EGRESS_QUEUE_SIZE
      then [EgRtp out] else []) \<and>
    (fw \<noteq> None \<longrightarrow> current_speaker (r_floor room) = Some (p_user_id (part w r)) \<and> (in_step room \<or> deaf room)) \<and>
    (in_step room \<longrightarrow> 12 \<le> length pkt \<longrightarrow> is_audio_pt (rh_pt h) \<or> is_video_pt (rh_pt h) \<longrightarrow>
      (\<forall>out. fw = Some out \<longrightarrow> drop 12 out = drop 12 pkt \<and>
        be32_at out 8 = virtual_ssrc (if is_audio_pt (rh_pt h) then r_audio_rewriter room else r_video_rewriter room))) \<and>
    (deaf room \<longrightarrow> current_speaker (r_floor room) = Some (p_user_id (part w r)) \<longrightarrow> fw = Some pkt)"
proof -
  have ok: "room_ok room" using assms(1,3) by (rule server_invD(5))
  then have "\<not> r_simulcast_enabled room" using assms(7) by (simp add: room_ok_def)
  note run_rules = assms(1-6) this assms(8,9)
  obtain w' payload room1 w1 w2 where run: "handle_srtp E buf remote w = Some w'"
    "prepare_fanout_payload E pkt h r room w1 = Some (payload, room1, w2)" "p_user_id (part w1 r) = p_user_id (part w r)"
    "p_egress (part w' x) = p_egress (part w x) @ (case payload of None \<Rightarrow> [] | Some out \<Rightarrow>
      if registered room x \<and> x \<noteq> r \<and> is_subscribe_ready (part w x) \<and> length (p_egress (part w x)) < EGRESS_QUEUE_SIZE
      then [EgRtp out] else [])"
    by (rule srtp_publish_egress [OF run_rules])
  have speaks: "in_step room \<or> deaf room" if "current_speaker (r_floor room) = Some v" for v
    using ok that assms(7) by (auto simp: room_ok_def in_step_def deaf_def)
  note gate = ptt_payload [OF run(2) assms(7), unfolded run(3)]
  have holder: "payload \<noteq> None \<longrightarrow> current_speaker (r_floor room) = Some (p_user_id (part w r)) \<and> (in_step room \<or> deaf room)"
    using gate(1) speaks by blast
  show ?thesis
    by (intro exI [of _ w'] exI [of _ payload] conjI run(1,4) holder impI allI) (use gate(2,3) in blast)+
qed

theorem ptt_gate_witness:
  "\<exists>w' out. handle_srtp demo_env demo_rtp call_addr (demo_call Ptt) = Some w' \<and>
     (p_egress (part w' 1) = [] \<or> p_egress (part w' 1) = [EgRtp out] \<and> drop 12 out = [42] \<and> be32_at out 8 = 1)"
proof -
  have "in_step (demo_call_room Ptt)"
    by (simp add: in_step_def rw_speakers_def demo_call_room_def switch_rewriters_def switch_speaker_def room_new_def Let_def
        current_speaker_def)
  moreover have "virtual_ssrc (r_audio_rewriter (demo_call_room Ptt)) = 1"
    by (simp add: demo_call_room_def switch_rewriters_def switch_speaker_def room_new_def new_audio_def ptt_new_def Let_def)
  ultimately show ?thesis
    using ptt_gate [OF demo_call_inv [of Ptt] demo_call_simps(1-3) demo_rtp_simps(1), where E = demo_env and plain = demo_rtp
      and pkt = demo_rtp and h = "parse_rtp_header demo_rtp" and n = False and x = 1] demo_call_simps(4-7) [of Ptt]
    by (auto simp: demo_env_decrypt demo_call_room_simps demo_call_registered normalise_pt_def demo_rtp_simps is_audio_pt_def
        simp del: One_nat_def split: option.splits if_splits)
qed

end
