(* ===== verification/Retransmit.thy ===== *)
theory Retransmit
  imports Ingress
begin

text \<open>
  What the feedback of a subscriber does (\<open>handle_nack_block\<close> and \<open>relay_subscribe_rtcp_blocks\<close> in
  \<open>transport/udp/ingress.rs\<close>): the retransmissions a NACK costs, and the datagrams that go on to a publisher.
\<close>

section \<open>How many sequence numbers a NACK asks for\<close>

lemma fci_loop_length: "fci_loop buf ssrc off e = Some items \<Longrightarrow> 4 * length items \<le> e - off"
proof (induction buf ssrc off e arbitrary: items rule: fci_loop.induct)
  case (1 buf ssrc off e)
  show ?case
  proof (cases "off + 4 \<le> e")
    case True
    with "1.prems" obtain pid blp rest where "rd16 buf off = Some pid" "rd16 buf (off + 2) = Some blp"
      "fci_loop buf ssrc (off + 4) e = Some rest" "items = \<lparr> ni_media_ssrc = ssrc, ni_pid = pid, ni_blp = blp \<rparr> # rest"
      by (subst (asm) fci_loop.simps) (auto simp: bind_eq_Some_conv)
    then show ?thesis using "1.IH" [OF True] True by fastforce
  qed (use "1.prems" in \<open>subst (asm) fci_loop.simps, simp\<close>)
qed

lemma nack_loop_length: "nack_loop buf off = Some items \<Longrightarrow> 4 * length items \<le> length buf - off"
proof (induction buf off arbitrary: items rule: nack_loop.induct)
  case (1 buf off)
  show ?case
  proof (cases "off + 4 \<le> length buf")
    case True
    note run = "1.prems" [unfolded nack_loop.simps [of buf off] if_P [OF True] Let_def bind_eq_Some_conv]
    then obtain b0 pt words as bs where head: "rd8 buf off = Some b0" "rd8 buf (off + 1) = Some pt"
      "rd16 buf (off + 2) = Some words" and rest: "nack_loop buf (off + (unat words + 1) * 4) = Some bs"
      and block: "(if pt = RTCP_PT_NACK \<and> b0 AND 0x1F = RTCP_FMT_NACK \<and> off + 12 \<le> length buf
        then rd32 buf (off + 8) \<bind> (\<lambda>s. fci_loop buf s (off + 12) (min (off + (unat words + 1) * 4) (length buf)))
        else Some []) = Some as" and "Some (as @ bs) = Some items"
      by blast
    then have here: "as = [] \<or> (\<exists>s. fci_loop buf s (off + 12) (min (off + (unat words + 1) * 4) (length buf)) = Some as)"
      "items = as @ bs"
      by (auto simp: bind_eq_Some_conv split: if_splits)
    from "1.IH" [OF True head refl refl block rest]
    have "4 * length bs \<le> length buf - (off + (unat words + 1) * 4)" .
    moreover have "4 * length as \<le> min (off + (unat words + 1) * 4) (length buf) - off"
      using here(1) by (auto dest!: fci_loop_length)
    ultimately show ?thesis using here(2) by simp
  qed (use "1.prems" in \<open>subst (asm) nack_loop.simps, simp\<close>)
qed

lemma expand_nack_length: "length (expand_nack pid blp) \<le> 17"
  using length_filter_le [of "\<lambda>i. blp AND push_bit i 1 \<noteq> 0" "[0..<16]"] by (simp add: expand_nack_def)

section \<open>The retransmission budget\<close>

text \<open>The part of a participant that retransmission is about.\<close>

definition rtx_view :: "'f participant \<Rightarrow> egress_packet list \<times> u64 \<times> rtp_cache" where
  "rtx_view p = (p_egress p, p_rtx_budget_used p, p_rtp_cache p)"

lemma rtx_view_simps [simp]:
  "rtx_view (count_pipeline f p) = rtx_view p" "rtx_view (snd (next_rtx_seq p)) = rtx_view p" "rtx_view (cancel_pli_burst p) = rtx_view p"
  "rtx_view (p\<lparr> p_pli_burst := b \<rparr>) = rtx_view p" "rtx_view (p\<lparr> p_nack_suppress_until_ms := t \<rparr>) = rtx_view p"
  by (simp_all add: rtx_view_def count_pipeline_def next_rtx_seq_def cancel_pli_burst_def)

text \<open>
  Packets \<open>ps\<close>, out of \<open>n\<close> that were tried, went to the queue of \<open>r\<close>; nothing else that
  retransmission looks at has changed.
\<close>

definition sent_rtx :: "pref \<Rightarrow> nat \<Rightarrow> bytes list \<Rightarrow> 'f world \<Rightarrow> 'f world \<Rightarrow> bool" where
  "sent_rtx r n ps w w' \<longleftrightarrow>
     length (w_heap w') = length (w_heap w) \<and>
     (\<forall>x < length (w_heap w). x \<noteq> r \<longrightarrow> rtx_view (part w' x) = rtx_view (part w x)) \<and>
     p_rtp_cache (part w' r) = p_rtp_cache (part w r) \<and>
     p_egress (part w' r) = p_egress (part w r) @ map EgRtp ps \<and>
     p_rtx_budget_used (part w' r) = p_rtx_budget_used (part w r) + word_of_nat n \<and> length ps \<le> n \<and>
     (unat (p_rtx_budget_used (part w r)) + n < 2 ^ 64 \<longrightarrow> length ps \<le> 200 - unat (p_rtx_budget_used (part w r)))"

lemma sent_rtx_same: "map rtx_view (w_heap w') = map rtx_view (w_heap w) \<Longrightarrow> r < length (w_heap w) \<Longrightarrow> sent_rtx r 0 [] w w'"
proof -
  assume same: "map rtx_view (w_heap w') = map rtx_view (w_heap w)" and r: "r < length (w_heap w)"
  have len: "length (w_heap w') = length (w_heap w)" using arg_cong [OF same, of length] by simp
  have "rtx_view (part w' x) = rtx_view (part w x)" if "x < length (w_heap w)" for x
    using arg_cong [OF same, of "\<lambda>vs. vs ! x"] len that by simp
  then show ?thesis using len r by (simp add: sent_rtx_def) (simp add: rtx_view_def)
qed

lemma sent_rtx_trans:
  assumes ab: "sent_rtx r n ps w w1" and bc: "sent_rtx r m qs w1 w2"
  shows "sent_rtx r (n + m) (ps @ qs) w w2"
proof -
  have bound: "length ps + length qs \<le> 200 - unat (p_rtx_budget_used (part w r))"
    if small: "unat (p_rtx_budget_used (part w r)) + (n + m) < 2 ^ 64"
  proof -
    have "unat (p_rtx_budget_used (part w1 r)) = unat (p_rtx_budget_used (part w r)) + n"
      using ab small by (simp add: sent_rtx_def unat_word_ariths unat_of_nat)
    then have "length ps \<le> 200 - unat (p_rtx_budget_used (part w r))" "length qs \<le> 200 - (unat (p_rtx_budget_used (part w r)) + n)"
      "length ps \<le> n"
      using ab bc small by (auto simp: sent_rtx_def)
    then show ?thesis by linarith
  qed
  show ?thesis using ab bc bound by (auto simp: sent_rtx_def)
qed

lemma sent_rtx_send:
  assumes r: "r < length (w_heap w)"
  shows "\<exists>ps. set ps \<subseteq> {pkt} \<and> sent_rtx r 1 ps w (send_rtx r pkt w)"
proof -
  let ?b = "p_rtx_budget_used (part w r)"
  let ?room = "?b < RTX_BUDGET_PER_3S \<and> length (p_egress (part w r)) < EGRESS_QUEUE_SIZE"
  have "sent_rtx r 1 (if ?room then [pkt] else []) w (send_rtx r pkt w)"
    using r by (auto simp: sent_rtx_def send_rtx_def Let_def egress_send_def try_send_def count_pipeline_def word_less_nat_alt
        word_le_nat_alt rtx_view_def nth_list_update not_le split: prod.split)
  then show ?thesis by (intro exI [of _ "if ?room then [pkt] else []"]) auto
qed

lemma sent_rtx_fold:
  "r < length (w_heap w) \<Longrightarrow> \<exists>ps. set ps \<subseteq> set pkts \<and> sent_rtx r (length pkts) ps w (fold (send_rtx r) pkts w)"
proof (induction pkts arbitrary: w)
  case Nil
  then show ?case using sent_rtx_same [of w w r] by (intro exI [of _ "[]"]) simp
next
  case (Cons pkt pkts)
  obtain ps where ps: "set ps \<subseteq> {pkt}" "sent_rtx r 1 ps w (send_rtx r pkt w)" using sent_rtx_send [OF Cons.prems] by blast
  then have "r < length (w_heap (send_rtx r pkt w))" using Cons.prems by (simp add: sent_rtx_def)
  then obtain qs where qs: "set qs \<subseteq> set pkts" "sent_rtx r (length pkts) qs (send_rtx r pkt w) (fold (send_rtx r) pkts (send_rtx r pkt w))"
    using Cons.IH by blast
  show ?case using sent_rtx_trans [OF ps(2) qs(2)] ps(1) qs(1) by (intro exI [of _ "ps @ qs"]) auto
qed


lemma collect_rtx_packets:
  "map rtx_view (w_heap (snd (collect_rtx q ssrc seqs w))) = map rtx_view (w_heap w) \<and>
   length (fst (collect_rtx q ssrc seqs w)) \<le> length seqs \<and>
   (\<forall>pkt\<in>set (fst (collect_rtx q ssrc seqs w)). \<exists>lost orig seq.
     cache_get (p_rtp_cache (part w q)) lost = Some orig \<and> pkt = build_rtx_packet orig ssrc seq)"
proof (induction seqs arbitrary: w)
  case (Cons s seqs)
  show ?case
  proof (cases "cache_get (p_rtp_cache (part w q)) s")
    case None
    then show ?thesis using Cons [of w] by auto
  next
    case (Some orig)
    let ?w = "update_part q (\<lambda>p. snd (next_rtx_seq p)) w"
    have same: "map rtx_view (w_heap ?w) = map rtx_view (w_heap w)" by (rule map_update_part) simp
    have "p_rtp_cache (part ?w q) = p_rtp_cache (part w q)"
      by (cases "q < length (w_heap w)") (simp_all add: next_rtx_seq_def list_update_beyond)
    then show ?thesis using Cons [of ?w] same Some by (auto simp: Let_def case_prod_beta simp del: heap_frame(5))
  qed
qed simp

lemma burst_rtx_view: "map rtx_view (w_heap (spawn_pli_burst q ssrc a ds p w)) = map rtx_view (w_heap w)"
proof -
  have "map rtx_view (w_heap (update_part q (\<lambda>p. p\<lparr> p_pli_burst := True \<rparr>) (update_part q cancel_pli_burst w))) =
      map rtx_view (w_heap w)"
    by (subst map_update_part, simp, rule map_update_part, simp)
  then show ?thesis by (simp add: spawn_pli_burst_def Let_def)
qed

lemma escalate_rtx_view: "map rtx_view (w_heap (escalate E r q ssrc w)) = map rtx_view (w_heap w)"
  using map_update_part [where g = "\<lambda>p. p\<lparr> p_nack_suppress_until_ms := e_now_ms E + 5000 \<rparr>" and f = rtx_view and w = w and r = r]
  by (simp add: escalate_def Let_def burst_rtx_view split: option.split del: heap_frame(5))

text \<open>A packet that a NACK may retransmit: one of a publisher's cache, wrapped.\<close>

definition cached_rtx :: "room \<Rightarrow> 'f world \<Rightarrow> bytes \<Rightarrow> bool" where
  "cached_rtx room w pkt \<longleftrightarrow> (\<exists>q lost orig ssrc seq. registered room q \<and>
     cache_get (p_rtp_cache (part w q)) lost = Some orig \<and> pkt = build_rtx_packet orig ssrc seq)"

lemma retransmit_sent:
  assumes "r < length (w_heap w)" "registered room q"
  shows "\<exists>n ps. n \<le> length seqs \<and> (\<forall>pkt\<in>set ps. cached_rtx room w pkt) \<and> sent_rtx r n ps w (retransmit E r q ls ssrc seqs w)"
proof -
  let ?c = "collect_rtx q ssrc seqs w" and ?miss = "length seqs - length (fst (collect_rtx q ssrc seqs w))"
  let ?w2 = "if 0 < ?miss then bump ''rtx_cache_miss'' (word_of_nat ?miss) (snd ?c) else snd ?c"
  let ?w3 = "if 0 < ?miss \<and> length seqs \<le> ?miss * 2 then escalate E r q ls ?w2 else ?w2"
  note c = collect_rtx_packets [of q ssrc seqs w]
  have "map rtx_view (w_heap ?w3) = map rtx_view (w_heap w)" using c by (simp add: escalate_rtx_view)
  then have s: "sent_rtx r 0 [] w ?w3" using assms(1) by (rule sent_rtx_same)
  then have "r < length (w_heap ?w3)" using assms(1) unfolding sent_rtx_def by simp
  then obtain ps where ps: "set ps \<subseteq> set (fst ?c)" "sent_rtx r (length (fst ?c)) ps ?w3 (fold (send_rtx r) (fst ?c) ?w3)"
    using sent_rtx_fold by blast
  have "retransmit E r q ls ssrc seqs w = fold (send_rtx r) (fst ?c) ?w3" by (simp add: retransmit_def Let_def case_prod_beta)
  moreover have "cached_rtx room w pkt" if "pkt \<in> set ps" for pkt
    using that ps(1) c assms(2) unfolding cached_rtx_def by blast
  moreover have "sent_rtx r (length (fst ?c)) ps w (fold (send_rtx r) (fst ?c) ?w3)" using sent_rtx_trans [OF s ps(2)] by simp
  ultimately show ?thesis using c by (intro exI [of _ "length (fst ?c)"] exI [of _ ps]) simp
qed


lemma find_by_track_registered: "find_by_track_ssrc heap room ssrc = Some q \<Longrightarrow> registered room q"
  unfolding find_by_track_ssrc_def registered_def map_option_eq_Some find_Some_iff by (metis image_eqI nth_mem)

lemma nack_target_view: "map rtx_view (w_heap (snd (snd (nack_target room r ssrc lost w)))) = map rtx_view (w_heap w)"
  "length (fst (snd (nack_target room r ssrc lost w))) = length lost"
  by (auto simp: nack_target_def split: option.split)

lemma cached_rtx_cong:
  assumes "sent_rtx r n ps w w'" "\<forall>q. registered room q \<longrightarrow> q < length (w_heap w)"
  shows "cached_rtx room w' = cached_rtx room w"
proof -
  have "p_rtp_cache (part w' q) = p_rtp_cache (part w q)" if "registered room q" for q
    using assms that by (cases "q = r") (auto simp: sent_rtx_def rtx_view_def)
  then show ?thesis unfolding cached_rtx_def fun_eq_iff by metis
qed

lemma nack_item_sent:
  assumes r: "r < length (w_heap w)" and reg: "\<forall>q. registered room q \<longrightarrow> q < length (w_heap w)"
  shows "\<exists>n ps. n \<le> 17 \<and> (\<forall>pkt\<in>set ps. cached_rtx room w pkt) \<and> sent_rtx r n ps w (nack_item_step E r room item w)"
proof -
  let ?lost = "expand_nack (ni_pid item) (ni_blp item)"
  let ?w1 = "bump ''nack_seqs_requested'' (word_of_nat (length ?lost)) w"
  let ?t = "nack_target room r (ni_media_ssrc item) ?lost ?w1"
  let ?w2 = "snd (snd ?t)"
  have "map rtx_view (w_heap ?w2) = map rtx_view (w_heap w)" by (simp add: nack_target_view)
  then have s: "sent_rtx r 0 [] w ?w2" using r by (rule sent_rtx_same)
  then have r2: "r < length (w_heap ?w2)" using r unfolding sent_rtx_def by simp
  note none = sent_rtx_trans [OF s sent_rtx_same [OF _ r2], simplified]
  have stop: "\<exists>n ps. n \<le> 17 \<and> (\<forall>pkt\<in>set ps. cached_rtx room w pkt) \<and> sent_rtx r n ps w w'"
    if "w_heap w' = w_heap ?w2" for w'
    using none [of w'] that by (intro exI [of _ 0] exI [of _ "[]"]) simp
  have go: "\<exists>n ps. n \<le> 17 \<and> (\<forall>pkt\<in>set ps. cached_rtx room w pkt) \<and>
      sent_rtx r n ps w (retransmit E r q (fst ?t) rtx (fst (snd ?t)) ?w2)" if q: "registered room q" for q rtx
  proof -
    obtain n ps where ps: "n \<le> length (fst (snd ?t))" "\<forall>pkt\<in>set ps. cached_rtx room ?w2 pkt"
      "sent_rtx r n ps ?w2 (retransmit E r q (fst ?t) rtx (fst (snd ?t)) ?w2)"
      using retransmit_sent [OF r2 q] by blast
    have "n \<le> 17" using ps(1) expand_nack_length [of "ni_pid item" "ni_blp item"] by (simp add: nack_target_view)
    then show ?thesis using sent_rtx_trans [OF s ps(3)] ps(2) unfolding cached_rtx_cong [OF s reg] by auto
  qed
  show ?thesis
  proof (cases "find_by_track_ssrc (w_heap ?w2) room (fst ?t)")
    case None
    then show ?thesis by (intro stop) (simp add: nack_item_step_def Let_def case_prod_beta)
  next
    case (Some q)
    let ?track = "find (\<lambda>t. t_ssrc t = fst ?t) (p_tracks (part ?w2 q))" and ?until = "p_rtp_gap_suppress_until_ms (part ?w2 q)"
    show ?thesis
    proof (cases "0 < ?until \<and> e_now_ms E < ?until \<or> Option.bind ?track t_rtx_ssrc = None")
      case True
      then show ?thesis
        by (intro stop) (auto simp: nack_item_step_def Let_def case_prod_beta Some split: option.split)
    next
      case False
      then obtain rtx where rtx: "Option.bind ?track t_rtx_ssrc = Some rtx" by auto
      have nt: "\<not> (0 < ?until \<and> e_now_ms E < ?until)" using False by blast
      have "nack_item_step E r room item w = retransmit E r q (fst ?t) rtx (fst (snd ?t)) ?w2"
        unfolding nack_item_step_def Let_def case_prod_beta Some option.case if_not_P [OF nt] rtx ..
      then show ?thesis using go [OF find_by_track_registered [OF Some]] by simp
    qed
  qed
qed

lemma nack_items_sent:
  "r < length (w_heap w) \<Longrightarrow> \<forall>q. registered room q \<longrightarrow> q < length (w_heap w) \<Longrightarrow>
   \<exists>n ps. n \<le> 17 * length items \<and> (\<forall>pkt\<in>set ps. cached_rtx room w pkt) \<and>
     sent_rtx r n ps w (fold (nack_item_step E r room) items w)"
proof (induction items arbitrary: w)
  case Nil
  then show ?case using sent_rtx_same [of w w r] by (intro exI [of _ 0] exI [of _ "[]"]) simp
next
  case (Cons item items)
  obtain n ps where ps: "n \<le> 17" "\<forall>pkt\<in>set ps. cached_rtx room w pkt" "sent_rtx r n ps w (nack_item_step E r room item w)"
    using nack_item_sent [OF Cons.prems] by blast
  let ?w = "nack_item_step E r room item w"
  have len: "length (w_heap ?w) = length (w_heap w)" using ps(3) by (simp add: sent_rtx_def)
  obtain m qs where qs: "m \<le> 17 * length items" "\<forall>pkt\<in>set qs. cached_rtx room ?w pkt"
    "sent_rtx r m qs ?w (fold (nack_item_step E r room) items ?w)"
    using Cons.IH [of ?w] Cons.prems unfolding len by blast
  have "sent_rtx r (n + m) (ps @ qs) w (fold (nack_item_step E r room) (item # items) w)"
    using sent_rtx_trans [OF ps(3) qs(3)] by simp
  moreover have "\<forall>pkt\<in>set (ps @ qs). cached_rtx room w pkt"
    using ps(2) qs(2) unfolding cached_rtx_cong [OF ps(3) Cons.prems(2)] by auto
  ultimately show ?case using ps(1) qs(1) by (intro exI [of _ "n + m"] exI [of _ "ps @ qs"]) simp
qed


section \<open>Properties\<close>

text \<open>
  C25: A NACK costs at most what is left of the budget: it adds to the queue of the subscriber that sent it
  at most 200 packets less those already counted in this window, whatever sequence numbers it lists and however often; each of them
  wraps a packet found in the cache of a member of the room, and no other queue changes.
\<close>

theorem rtx_budget_respected:
  assumes "server_inv w" "dm_get (h_rooms (w_hub w)) rid = Some room" "registered room r"
    "unat (p_rtx_budget_used (part w r)) + 5 * length data < 2 ^ 64"
  shows "\<exists>w' ps. handle_nack_block E r room data w = Some w' \<and>
    p_egress (part w' r) = p_egress (part w r) @ map EgRtp ps \<and>
    length ps \<le> 200 - unat (p_rtx_budget_used (part w r)) \<and>
    (\<forall>pkt\<in>set ps. cached_rtx room w pkt) \<and>
    (\<forall>x < length (w_heap w). x \<noteq> r \<longrightarrow> p_egress (part w' x) = p_egress (part w x))"
proof -
  have inv: "room_inv (w_heap w) room" by (rule hub_invD(5) [OF server_invD(1) [OF assms(1)] assms(2)])
  have reg: "\<forall>q. registered room q \<longrightarrow> q < length (w_heap w)"
    using room_invD(5) [OF inv] registered_iff [OF room_invD(1) [OF inv]] by auto
  obtain w' where w': "handle_nack_block E r room data w = Some w'" using nack_total [of E r room data w] by auto
  then obtain items where items: "parse_rtcp_nack data = Some items" and
    run: "w' = bump ''nack_suppressed'' 1 w \<or> w' = fold (nack_item_step E r room) items w"
    by (auto simp: handle_nack_block_def bind_eq_Some_conv Let_def split: if_splits)
  have len: "4 * length items \<le> length data" using nack_loop_length [of data 0 items] items by (simp add: parse_rtcp_nack_def)
  have "\<exists>n ps. n \<le> 17 * length items \<and> (\<forall>pkt\<in>set ps. cached_rtx room w pkt) \<and> sent_rtx r n ps w w'"
    using run
  proof
    assume "w' = bump ''nack_suppressed'' 1 w"
    then show ?thesis using sent_rtx_same [of w' w r] reg assms(3) by (intro exI [of _ 0] exI [of _ "[]"]) simp
  next
    assume "w' = fold (nack_item_step E r room) items w"
    then show ?thesis using nack_items_sent [of r w room items E] reg assms(3) by blast
  qed
  then obtain n ps where ps: "n \<le> 17 * length items" "\<forall>pkt\<in>set ps. cached_rtx room w pkt" "sent_rtx r n ps w w'" by blast
  have "unat (p_rtx_budget_used (part w r)) + n < 2 ^ 64" using ps(1) len assms(4) by linarith
  then show ?thesis using w' ps(2,3) unfolding sent_rtx_def rtx_view_def by blast
qed

theorem rtx_budget_respected_witness:
  "\<exists>w' ps. handle_nack_block demo_env 1 (demo_call_room Conference) [0x81, 205, 0, 3, 0, 0, 0, 1, 0, 0, 0, 7, 0, 1, 0, 0]
     (demo_call Conference) = Some w' \<and> p_egress (part w' 1) = map EgRtp ps \<and> length ps \<le> 200"
  using rtx_budget_respected [OF demo_call_inv [of Conference] demo_call_simps(2), of 1 "[0x81, 205, 0, 3, 0, 0, 0, 1, 0, 0, 0, 7, 0, 1, 0, 0]"
      demo_env] demo_call_simps(6) [of Conference]
  by (auto simp: demo_call_registered demo_call_def demo_sub_def participant_new_def)

lemma psfb_high_bit: "RTCP_PT_PSFB AND 0x80 \<noteq> 0"
  by simp

text \<open>
  C26: The PLI throttle holds nothing back. What goes to a publisher for a group of blocks is the whole
  group, in one datagram, whether or not a PLI was relayed less than three seconds ago: the test that should
  take the PLI blocks out compares a number below 128 with 206. The throttle changes the accounts: the PLIs of a
  throttled group are counted as throttled, and though they go out they are counted neither as sent nor for the
  publisher, and the time of the last relay stays; the PLIs of a group that is not throttled set that time and, if the
  datagram went out, are counted in both places. Channels, rooms and bursts stay as they are.
\<close>

theorem throttled_pli_still_sent:
  assumes "blocks \<noteq> []"
  shows "w_udp (relay_group E room plis (ssrc, blocks) w) = w_udp w @
    (case find_by_track_ssrc (w_heap w) room ssrc of None \<Rightarrow> [] | Some q \<Rightarrow>
      if \<not> is_publish_ready (part w q) then []
      else (case ms_address (p_publish (part w q)) of None \<Rightarrow> [] | Some addr \<Rightarrow>
        (case e_encrypt_rtcp E q Publish (assemble_compound blocks) of None \<Rightarrow> []
         | Some enc \<Rightarrow> if e_send_ok E enc addr then [(enc, addr)] else []))) \<and>
    (find_by_track_ssrc (w_heap w) room ssrc = Some q \<longrightarrow> is_publish_ready (part w q) \<longrightarrow> ms_address (p_publish (part w q)) \<noteq> None \<longrightarrow>
     dm_get plis ssrc = Some n \<longrightarrow> 0 < n \<longrightarrow> q < length (w_heap w) \<longrightarrow>
      (let w' = relay_group E room plis (ssrc, blocks) w;
           throttled = sat_sub (e_now_ms E) (p_last_pli_relay_ms (part w q)) < 3000;
           credited = (if \<not> throttled \<and> w_udp w' \<noteq> w_udp w then n else 0)
       in w_metrics w' ''pli_throttled'' = w_metrics w ''pli_throttled'' + (if throttled then n else 0) \<and>
          w_metrics w' ''pli_sent'' = w_metrics w ''pli_sent'' + credited \<and>
          pub_pli_received (p_pipeline (part w' q)) = pub_pli_received (p_pipeline (part w q)) + credited \<and>
          p_last_pli_relay_ms (part w' q) = (if throttled then p_last_pli_relay_ms (part w q) else e_now_ms E))) \<and>
    w_ws (relay_group E room plis (ssrc, blocks) w) = w_ws w \<and> w_hub (relay_group E room plis (ssrc, blocks) w) = w_hub w \<and>
    w_bursts (relay_group E room plis (ssrc, blocks) w) = w_bursts w"
proof -
  have "(b AND 0x7F) AND 0x80 = 0" for b :: u8 by (simp add: and.assoc)
  then have "b AND 0x7F \<noteq> RTCP_PT_PSFB" for b :: u8 by (metis (no_types, lifting) psfb_high_bit)
  then have all: "throttled_blocks t blocks = blocks" for t by (simp add: throttled_blocks_def)
  have udp: "w_udp (snd (pli_throttle now n q w)) = w_udp w" for now n q by (simp add: pli_throttle_def)
  note step = relay_group_def Let_def all udp
  show ?thesis using assms
    by (intro conjI) (simp_all add: step case_prod_beta split: option.split,
      auto simp: step pli_throttle_def bump_def udp_send_def update_part_def count_pipeline_def split: option.split)
qed

theorem throttled_pli_still_sent_witness:
  "let w = update_part 0 (\<lambda>p. demo_publisher p\<lparr> p_last_pli_relay_ms := 5000 \<rparr>) (demo_call Conference);
       w' = relay_group demo_env (demo_call_room Conference) [(5, 1)] (5, [build_pli 5]) w
   in w_udp w' = [(assemble_compound [build_pli 5], call_addr)] \<and>
      w_metrics w' ''pli_throttled'' = w_metrics w ''pli_throttled'' + 1 \<and> w_metrics w' ''pli_sent'' = w_metrics w ''pli_sent''"
proof -
  let ?w = "update_part 0 (\<lambda>p. demo_publisher p\<lparr> p_last_pli_relay_ms := 5000 \<rparr>) (demo_call Conference)"
  have "part ?w 0 = demo_publisher demo_pub\<lparr> p_last_pli_relay_ms := 5000 \<rparr>" "w_udp ?w = []" "0 < length (w_heap ?w)"
    by (simp_all add: demo_call_def)
  moreover from this(1) have "find_by_track_ssrc (w_heap ?w) (demo_call_room Conference) 5 = Some 0"
    by (simp add: find_by_track_ssrc_def demo_call_room_simps demo_publisher_def del: heap_frame(5))
  moreover have "is_publish_ready (demo_publisher demo_pub\<lparr> p_last_pli_relay_ms := 5000 \<rparr>)"
    "ms_address (p_publish (demo_publisher demo_pub\<lparr> p_last_pli_relay_ms := 5000 \<rparr>)) = Some call_addr"
    by (simp_all add: demo_publisher_def demo_pub_def is_publish_ready_def is_media_ready_def)
  moreover have "e_encrypt_rtcp demo_env r pc b = Some b" "e_send_ok demo_env b a" "e_now_ms demo_env = 5000" for r pc b a
    by (simp_all add: demo_env_def)
  moreover have "sat_sub 5000 (5000 :: u64) < 3000" by (simp add: sat_sub_def)
  ultimately show ?thesis
    using throttled_pli_still_sent [of "[build_pli 5]" demo_env "demo_call_room Conference" "[(5, 1)]" 5 ?w 0 1]
    by (simp add: Let_def del: heap_frame(5))
qed

end
