(* ===== verification/TrackOps.thy ===== *)
theory TrackOps
  imports RoomOps
begin

text \<open>
  The track handlers of \<open>signaling/handler/track_ops.rs\<close>: PUBLISH_TRACKS, TRACKS_ACK, MUTE_UPDATE,
  CAMERA_READY and SUBSCRIBE_LAYER. A handler gets the user of the session, the identifier of the packet and the parsed
  payload, or \<open>None\<close> where the payload does not parse, and returns the answer with the world after the call.
\<close>

section \<open>Publishing\<close>

definition track_kind_of :: "string \<Rightarrow> track_kind option" where
  "track_kind_of kind = (if kind = ''audio'' then Some Audio else if kind = ''video'' then Some Video else None)"

definition new_track_json :: "user_id \<Rightarrow> publish_track_item \<Rightarrow> string \<Rightarrow> u32 option \<Rightarrow> json" where
  "new_track_json user_id t tid rtx_ssrc =
     (let j = JObj [(''user_id'', JStr user_id), (''kind'', JStr (pti_kind t)), (''ssrc'', jnum (pti_ssrc t)),
                    (''track_id'', JStr tid)];
          j1 = (case rtx_ssrc of Some rs \<Rightarrow> jset ''rtx_ssrc'' (jnum rs) j | None \<Rightarrow> j)
      in case pti_rid t of Some rid \<Rightarrow> jset ''rid'' (JStr rid) j1 | None \<Rightarrow> j1)"

text \<open>One track of the request; the state holds the two counters, the entries made so far and the world.\<close>

definition publish_item ::
  "user_id \<Rightarrow> pref \<Rightarrow> publish_track_item \<Rightarrow> nat \<times> u32 \<times> json list \<times> 'f world \<Rightarrow> nat \<times> u32 \<times> json list \<times> 'f world" where
  "publish_item user_id r t s =
     (case s of (track_id_counter, grp, new_tracks, w) \<Rightarrow>
        (case track_kind_of (pti_kind t) of
           None \<Rightarrow> s
         | Some kind \<Rightarrow>
             (let tid = user_id @ ''_'' @ decimal track_id_counter;
                  actual_pt = (case pti_pt t of Some pt \<Rightarrow> pt | None \<Rightarrow> 0);
                  actual_rtx_pt = (case pti_rtx_pt t of Some pt \<Rightarrow> pt | None \<Rightarrow> 0);
                  sim_group = (if pti_rid t = None then None else Some grp);
                  grp' = (if pti_rid t = Some ''l'' then grp + 1 else grp);
                  w1 = update_part r (add_track_full (pti_ssrc t) kind tid (pti_rid t) sim_group
                                        (from_str_or_default (pti_codec t)) actual_pt actual_rtx_pt) w;
                  rtx_ssrc = Option.bind (find (\<lambda>tr. t_ssrc tr = pti_ssrc t) (p_tracks (part w1 r))) t_rtx_ssrc
              in (Suc track_id_counter, grp', new_tracks @ [new_track_json user_id t tid rtx_ssrc], w1))))"

definition tracks_added :: "json list \<Rightarrow> packet" where
  "tracks_added ts = packet_new TRACKS_UPDATE 0 (JObj [(''action'', JStr ''add''), (''tracks'', JArr ts)])"

definition announce_tracks :: "'f env \<Rightarrow> room \<Rightarrow> user_id \<Rightarrow> json list \<Rightarrow> 'f world \<Rightarrow> 'f world" where
  "announce_tracks E room user_id new_tracks w =
     (if new_tracks = [] then w
      else (let visible = (if r_simulcast_enabled room then filter (\<lambda>j. jstr (jget j ''rid'') \<noteq> Some ''l'') new_tracks
                           else new_tracks)
            in case simulcast_replace_video_ssrc E visible room w of
                 (broadcast_tracks, w1) \<Rightarrow>
                   if broadcast_tracks = [] then w1 else broadcast_to_others room user_id (tracks_added broadcast_tracks) w1))"

text \<open>The room of the session and the participant in it, or the error code that the handlers answer with.\<close>

definition session_room :: "ws_session \<Rightarrow> 'f world \<Rightarrow> (u16 \<times> string) + (room_id \<times> room)" where
  "session_room s w =
     (case s_current_room s of
        None \<Rightarrow> Inl (2004, ''not in room'')
      | Some room_id \<Rightarrow>
          (case hub_get (w_hub w) room_id of
             Inl _ \<Rightarrow> Inl (2001, ''room not found'')
           | Inr room \<Rightarrow> Inr (room_id, room)))"

definition session_participant :: "user_id \<Rightarrow> ws_session \<Rightarrow> 'f world \<Rightarrow> (u16 \<times> string) + (room_id \<times> room \<times> pref)" where
  "session_participant user_id s w =
     (case session_room s w of
        Inl e \<Rightarrow> Inl e
      | Inr (room_id, room) \<Rightarrow>
          (case get_participant room user_id of
             None \<Rightarrow> Inl (2004, ''not in room'')
           | Some r \<Rightarrow> Inr (room_id, room, r)))"

definition handle_publish_tracks ::
  "'f env \<Rightarrow> user_id \<Rightarrow> u64 \<Rightarrow> publish_tracks_request option \<Rightarrow> ws_session \<Rightarrow> 'f world \<Rightarrow> packet \<times> 'f world" where
  "handle_publish_tracks E user_id pid req s w =
     (case req of
        None \<Rightarrow> (packet_err PUBLISH_TRACKS pid 3002 ''invalid payload'', w)
      | Some m \<Rightarrow>
          (case session_participant user_id s w of
             Inl (code, msg) \<Rightarrow> (packet_err PUBLISH_TRACKS pid code msg, w)
           | Inr (room_id, room, r) \<Rightarrow>
               (let w1 = (case ptr_twcc_extmap_id m of
                            Some i \<Rightarrow> update_part r (\<lambda>p. p\<lparr> p_twcc_extmap_id := i \<rparr>) w | None \<Rightarrow> w)
                in case fold (publish_item user_id r) (ptr_tracks m) (length (p_tracks (part w1 r)), 0, [], w1) of
                     (_, _, new_tracks, w2) \<Rightarrow>
                       (packet_ok PUBLISH_TRACKS pid (JObj [(''registered'', JNum (int (length new_tracks)))]),
                        announce_tracks E room user_id new_tracks w2))))"

section \<open>Acknowledging\<close>

text \<open>The SSRCs that a client in a conference should have: the visible tracks of the others.\<close>

definition shown_ssrc :: "bool \<Rightarrow> u32 \<Rightarrow> track \<Rightarrow> u32" where
  "shown_ssrc sim vssrc t = (if sim \<and> t_kind t = Video then vssrc else t_ssrc t)"

fun expected_loop :: "'f env \<Rightarrow> bool \<Rightarrow> pref list \<Rightarrow> 'f world \<Rightarrow> u32 list \<times> 'f world" where
  "expected_loop E sim [] w = ([], w)"
| "expected_loop E sim (r # rs) w =
     (let (vssrc, w1) = (if sim then virtual_ssrc_of E r w else (0, w));
          here = map (shown_ssrc sim vssrc) (filter (\<lambda>t. \<not> hidden_layer sim t) (p_tracks (part w1 r)));
          (rest, w2) = expected_loop E sim rs w1
      in (here @ rest, w2))"

definition expected_ssrcs :: "'f env \<Rightarrow> room \<Rightarrow> user_id \<Rightarrow> 'f world \<Rightarrow> u32 list \<times> 'f world" where
  "expected_ssrcs E room user_id w =
     (if r_mode room = Ptt then ([virtual_ssrc (r_audio_rewriter room), virtual_ssrc (r_video_rewriter room)], w)
      else expected_loop E (r_simulcast_enabled room) (other_participants room user_id) w)"

definition virtual_track_json :: "string \<Rightarrow> u32 \<Rightarrow> string \<Rightarrow> json" where
  "virtual_track_json kind ssrc tid =
     JObj [(''user_id'', JStr ''__virtual__''), (''kind'', JStr kind), (''ssrc'', jnum ssrc), (''track_id'', JStr tid)]"

definition resync_tracks :: "'f env \<Rightarrow> room \<Rightarrow> user_id \<Rightarrow> 'f world \<Rightarrow> json list \<times> 'f world" where
  "resync_tracks E room user_id w =
     (if r_mode room = Ptt
      then ([virtual_track_json ''audio'' (virtual_ssrc (r_audio_rewriter room)) ''virtual_audio'',
             virtual_track_json ''video'' (virtual_ssrc (r_video_rewriter room)) ''virtual_video''], w)
      else collect_subscribe_tracks E room user_id w)"

definition ws_send_tx :: "nat \<Rightarrow> packet \<Rightarrow> 'f world \<Rightarrow> 'f world" where
  "ws_send_tx tx pkt w = w\<lparr> w_ws := w_ws w @ [(tx, pkt)] \<rparr>"

definition handle_tracks_ack ::
  "'f env \<Rightarrow> user_id \<Rightarrow> u64 \<Rightarrow> u32 list option \<Rightarrow> ws_session \<Rightarrow> 'f world \<Rightarrow> packet \<times> 'f world" where
  "handle_tracks_ack E user_id pid req s w =
     (case req of
        None \<Rightarrow> (packet_err TRACKS_ACK pid 3002 ''invalid payload'', w)
      | Some ssrcs \<Rightarrow>
          (case session_room s w of
             Inl (code, msg) \<Rightarrow> (packet_err TRACKS_ACK pid code msg, w)
           | Inr (room_id, room) \<Rightarrow>
               (case expected_ssrcs E room user_id w of
                  (expected, w1) \<Rightarrow>
                    if set ssrcs = set expected
                    then (packet_ok TRACKS_ACK pid (JObj [(''synced'', JBool True)]), w1)
                    else (case resync_tracks E room user_id (bump ''tracks_ack_mismatch'' 1 w1) of
                            (ts, w2) \<Rightarrow>
                              (packet_ok TRACKS_ACK pid (JObj [(''synced'', JBool False), (''resync_sent'', JBool True)]),
                               bump ''tracks_resync_sent'' 1
                                 (ws_send_tx (s_ws_tx s)
                                    (packet_new TRACKS_RESYNC 0 (JObj [(''tracks'', JArr ts)])) w2))))))"

section \<open>Muting and the camera\<close>

definition track_state :: "user_id \<Rightarrow> mute_update_request \<Rightarrow> track_kind \<Rightarrow> packet" where
  "track_state user_id m kind = packet_new TRACK_STATE 0
     (JObj [(''user_id'', JStr user_id), (''ssrc'', jnum (mur_ssrc m)), (''kind'', JStr (kind_string kind)),
            (''muted'', JBool (mur_muted m))])"

definition video_event :: "u16 \<Rightarrow> user_id \<Rightarrow> room_id \<Rightarrow> packet" where
  "video_event op user_id room_id = packet_new op 0 (JObj [(''user_id'', JStr user_id), (''room_id'', JStr room_id)])"

text \<open>The single PLI after the unmute of a video track.\<close>

definition unmute_pli :: "'f env \<Rightarrow> u32 \<Rightarrow> pref \<Rightarrow> 'f world \<Rightarrow> 'f world" where
  "unmute_pli E ssrc r w =
     (case ms_address (p_publish (part w r)) of
        None \<Rightarrow> w
      | Some pub_addr \<Rightarrow>
          (case e_encrypt_rtcp E r Publish (build_pli ssrc) of
             Some enc \<Rightarrow> if e_send_ok E enc pub_addr then udp_send enc pub_addr w else w
           | None \<Rightarrow> w))"

definition handle_mute_update ::
  "'f env \<Rightarrow> user_id \<Rightarrow> u64 \<Rightarrow> mute_update_request option \<Rightarrow> ws_session \<Rightarrow> 'f world \<Rightarrow> packet \<times> 'f world" where
  "handle_mute_update E user_id pid req s w =
     (case req of
        None \<Rightarrow> (packet_err MUTE_UPDATE pid 3002 ''invalid payload'', w)
      | Some m \<Rightarrow>
          (case session_participant user_id s w of
             Inl (code, msg) \<Rightarrow> (packet_err MUTE_UPDATE pid code msg, w)
           | Inr (room_id, room, r) \<Rightarrow>
               (case fst (set_track_muted (mur_ssrc m) (mur_muted m) (part w r)) of
                  None \<Rightarrow> (packet_err MUTE_UPDATE pid 2005 ''track not found'', w)
                | Some kind \<Rightarrow>
                    (let w1 = update_part r (\<lambda>p. snd (set_track_muted (mur_ssrc m) (mur_muted m) p)) w;
                         w2 = broadcast_to_others room user_id (track_state user_id m kind) w1;
                         w3 = (if mur_muted m \<and> kind = Video
                               then broadcast_to_others room user_id (video_event VIDEO_SUSPENDED user_id room_id) w2 else w2);
                         w4 = (if \<not> mur_muted m \<and> kind = Video \<and> is_publish_ready (part w3 r)
                               then unmute_pli E (mur_ssrc m) r w3 else w3)
                     in (packet_ok MUTE_UPDATE pid (JObj [(''ssrc'', jnum (mur_ssrc m)), (''muted'', JBool (mur_muted m))]), w4)))))"

definition camera_pli :: "u32 \<Rightarrow> pref \<Rightarrow> 'f world \<Rightarrow> 'f world" where
  "camera_pli ssrc r w =
     (if is_publish_ready (part w r) then
        (case ms_address (p_publish (part w r)) of
           Some pub_addr \<Rightarrow> spawn_pli_burst r ssrc pub_addr [0, 150] ''CAMERA_READY'' w
         | None \<Rightarrow> w)
      else w)"

definition handle_camera_ready ::
  "user_id \<Rightarrow> u64 \<Rightarrow> camera_ready_request option \<Rightarrow> ws_session \<Rightarrow> 'f world \<Rightarrow> packet \<times> 'f world" where
  "handle_camera_ready user_id pid req s w =
     (case req of
        None \<Rightarrow> (packet_err CAMERA_READY pid 3002 ''invalid payload'', w)
      | Some _ \<Rightarrow>
          (case session_participant user_id s w of
             Inl (code, msg) \<Rightarrow> (packet_err CAMERA_READY pid code msg, w)
           | Inr (room_id, room, r) \<Rightarrow>
               (case first_video_ssrc (part w r) of
                  None \<Rightarrow> (packet_ok CAMERA_READY pid (JObj []), w)
                | Some ssrc \<Rightarrow>
                    (packet_ok CAMERA_READY pid (JObj []),
                     broadcast_to_others room user_id (video_event VIDEO_RESUMED user_id room_id) (camera_pli ssrc r w)))))"

section \<open>Layers\<close>

text \<open>The entry after a target has been applied, and whether a keyframe is needed.\<close>

definition choose_layer :: "instant \<Rightarrow> string \<Rightarrow> u32 \<Rightarrow> subscribe_layer_entry option \<Rightarrow> bool \<times> subscribe_layer_entry" where
  "choose_layer now rid vssrc old =
     (let old_rid = map_option sl_rid old;
          old_initialized = (case old of Some e \<Rightarrow> sr_initialized (sl_rewriter e) | None \<Rightarrow> False);
          entry = (case old of Some e \<Rightarrow> e | None \<Rightarrow> \<lparr> sl_rid = rid, sl_rewriter = simulcast_new vssrc \<rparr>);
          (pli, entry') =
            (if old_rid = Some rid then (\<not> old_initialized \<and> rid \<noteq> ''pause'', entry)
             else if rid \<noteq> ''pause'' then (True, entry\<lparr> sl_rid := rid, sl_rewriter := switch_layer (sl_rewriter entry) \<rparr>)
             else (False, entry\<lparr> sl_rid := rid \<rparr>))
      in (pli, if pli then entry'\<lparr> sl_rewriter := mark_pli_sent now (sl_rewriter entry') \<rparr> else entry'))"

definition layer_pli :: "pref \<Rightarrow> string \<Rightarrow> 'f world \<Rightarrow> 'f world" where
  "layer_pli q rid w =
     (case (find (\<lambda>t. t_kind t = Video \<and> t_rid t = Some rid) (p_tracks (part w q)), ms_address (p_publish (part w q))) of
        (Some t, Some pub_addr) \<Rightarrow>
          if is_publish_ready (part w q) then spawn_pli_burst q (t_ssrc t) pub_addr [0, 200, 500, 1500] ''SIM:PLI'' w else w
      | _ \<Rightarrow> w)"

definition layer_target :: "'f env \<Rightarrow> room \<Rightarrow> pref \<Rightarrow> subscribe_layer_target \<Rightarrow> 'f world \<Rightarrow> 'f world" where
  "layer_target E room r target w =
     (case get_participant room (slt_user_id target) of
        None \<Rightarrow> w
      | Some q \<Rightarrow>
          (case virtual_ssrc_of E q w of
             (vssrc, w1) \<Rightarrow>
               (case choose_layer (e_instant E) (slt_rid target) vssrc (dm_get (p_subscribe_layers (part w1 r)) (slt_user_id target)) of
                  (need_pli, entry) \<Rightarrow>
                    (let w2 = update_part r (\<lambda>p. p\<lparr> p_subscribe_layers := dm_insert (slt_user_id target) entry (p_subscribe_layers p) \<rparr>) w1
                     in if need_pli then layer_pli q (slt_rid target) w2 else w2))))"

definition handle_subscribe_layer ::
  "'f env \<Rightarrow> user_id \<Rightarrow> u64 \<Rightarrow> subscribe_layer_target list option \<Rightarrow> ws_session \<Rightarrow> 'f world \<Rightarrow> packet \<times> 'f world" where
  "handle_subscribe_layer E user_id pid req s w =
     (case req of
        None \<Rightarrow> (packet_err SUBSCRIBE_LAYER pid 3002 ''invalid payload'', w)
      | Some targets \<Rightarrow>
          (case session_room s w of
             Inl (code, msg) \<Rightarrow> (packet_err SUBSCRIBE_LAYER pid code msg, w)
           | Inr (room_id, room) \<Rightarrow>
               if \<not> r_simulcast_enabled room then (packet_err SUBSCRIBE_LAYER pid 2030 ''simulcast not enabled'', w)
               else (case get_participant room user_id of
                       None \<Rightarrow> (packet_err SUBSCRIBE_LAYER pid 2004 ''not in room'', w)
                     | Some r \<Rightarrow> (packet_ok SUBSCRIBE_LAYER pid (JObj []), fold (layer_target E room r) targets w))))"


section \<open>The handlers keep the server invariant\<close>

lemma part_le_tracks [simp]:
  "part_le p (add_track_full ssrc k tid rid g c apt arpt p)" "part_le p (snd (set_track_muted ssrc m p))"
  "part_le p (p\<lparr> p_twcc_extmap_id := i \<rparr>)"
proof -
  have same_identity_refl: "same_identity p p" by (simp add: same_identity_def)
  have same: "same_identity p (p\<lparr> p_rtx_ssrc_counter := n, p_tracks := ts \<rparr>)" "same_identity p (p\<lparr> p_tracks := ts \<rparr>)" for n ts
    by (auto simp: same_identity_def session_def split: pc_type.split)
  show "part_le p (add_track_full ssrc k tid rid g c apt arpt p)"
    using tracks_ok_add [of p ssrc k tid rid g c apt arpt]
    by (cases k) (auto simp: part_le_def part_ok_def add_track_full_def alloc_rtx_ssrc_def Let_def same_identity_refl intro: same)
  show "part_le p (snd (set_track_muted ssrc m p))"
    using tracks_ok_mute [of p ssrc m]
    by (auto simp: part_le_def part_ok_def set_track_muted_def Let_def same same_identity_refl split: option.split)
qed (auto simp: part_le_def part_ok_def same_identity_def tracks_ok_def session_def split: pc_type.split)

lemma world_le_publish_items: "world_le w (snd (snd (snd (fold (publish_item u r) items (c, g, js, w)))))"
proof (induction items arbitrary: c g js w)
  case (Cons t items)
  have "world_le w (update_part r (add_track_full ssrc k tid rid sg cd apt arpt) w)" for ssrc k tid rid sg cd apt arpt
    by (rule world_le_part) simp
  from world_le_trans [OF this Cons.IH] show ?case using Cons.IH by (simp add: publish_item_def Let_def split: option.split)
qed simp

lemma world_le_announce: "world_le w (announce_tracks E room u js w)"
proof -
  have le: "world_le w (snd (simulcast_replace_video_ssrc E ts room w))" for ts
    by (simp add: simulcast_replace_video_ssrc_def world_le_replace)
  show ?thesis
    by (auto simp: announce_tracks_def Let_def case_prod_beta intro!: le world_le_trans [OF le world_le_effects(4)])
qed

lemma world_le_expected: "world_le w (snd (expected_ssrcs E room u w))"
proof -
  have "world_le w (snd (expected_loop E sim rs w))" for sim rs
  proof (induction rs arbitrary: w)
    case (Cons r rs)
    from world_le_trans [OF world_le_rooms(3) Cons] show ?case
      using Cons by (cases sim) (simp_all add: Let_def case_prod_beta)
  qed simp
  then show ?thesis by (simp add: expected_ssrcs_def)
qed

lemma world_le_layer: "world_le w (layer_target E room r t w)"
proof -
  have pli: "world_le w (layer_pli q rid w)" for q rid and w :: "'a world"
    by (auto simp: layer_pli_def intro: world_le_burst split: option.split)
  show ?thesis
    using world_le_rooms(3) [of w E]
    by (auto simp: layer_target_def Let_def case_prod_beta intro!: world_le_trans [OF _ pli] world_le_part_step split: option.split)
qed


lemma track_ops_world_le:
  "world_le w (snd (handle_publish_tracks E u pid ptr s w))" "world_le w (snd (handle_tracks_ack E u pid ssrcs s w))"
  "world_le w (snd (handle_mute_update E u pid mur s w))" "world_le w (snd (handle_camera_ready u pid cr s w))"
  "world_le w (snd (handle_subscribe_layer E u pid targets s w))"
proof -
  have twcc: "world_le w (update_part r (\<lambda>p. p\<lparr> p_twcc_extmap_id := i \<rparr>) w)" for r i by (rule world_le_part) simp
  have items: "world_le w (announce_tracks E room u js (snd (snd (snd (fold (publish_item u r) items (c, g, l, w1))))))"
    if "world_le w w1" for room js r items c g l w1
    by (rule world_le_trans [OF world_le_trans [OF that world_le_publish_items] world_le_announce])
  show "world_le w (snd (handle_publish_tracks E u pid ptr s w))"
    by (auto simp: handle_publish_tracks_def Let_def case_prod_beta intro!: items twcc split: option.split sum.split)
  have resync: "world_le w (snd (resync_tracks E room u w))" for room and w :: "'a world"
    by (simp add: resync_tracks_def collect_subscribe_tracks_def simulcast_replace_video_ssrc_def world_le_replace)
  have tx: "world_le w (ws_send_tx t p w1)" if "world_le w w1" for t p w1
    using that by (rule world_le_trans) (simp add: ws_send_tx_def world_le_frame)
  show "world_le w (snd (handle_tracks_ack E u pid ssrcs s w))"
    by (auto simp: handle_tracks_ack_def case_prod_beta split: option.split sum.split
        intro!: world_le_steps(1) tx world_le_expected world_le_trans [OF _ resync])
  have pli: "world_le w (unmute_pli E ssrc r w)" for ssrc r and w :: "'a world"
    by (auto simp: unmute_pli_def split: option.split intro: world_le_effects)
  have mute: "world_le w (update_part r (\<lambda>p. snd (set_track_muted ssrc m p)) w)" for r ssrc m by (rule world_le_part) simp
  have send: "world_le w (broadcast_to_others room u p w1)" if "world_le w w1" for room p w1
    using that world_le_effects(4) by (rule world_le_trans)
  show "world_le w (snd (handle_mute_update E u pid mur s w))"
    by (auto simp: handle_mute_update_def Let_def case_prod_beta split: option.split sum.split
        intro!: send mute world_le_trans [OF _ pli])
  have cam: "world_le w (camera_pli ssrc r w)" for ssrc r
    by (auto simp: camera_pli_def split: option.split intro: world_le_burst)
  show "world_le w (snd (handle_camera_ready u pid cr s w))"
    by (auto simp: handle_camera_ready_def split: option.split sum.split intro!: send cam)
  show "world_le w (snd (handle_subscribe_layer E u pid targets s w))"
    by (auto simp: handle_subscribe_layer_def split: option.split sum.split intro!: world_le_fold world_le_layer)
qed

section \<open>Listing and acknowledging agree\<close>

text \<open>
  A publisher whose virtual SSRC is drawn is settled: drawing it again changes nothing. The loop over the expected
  SSRCs settles every other member, and in a settled world the listing and the expected SSRCs name the same.
\<close>

abbreviation settled :: "'f world \<Rightarrow> pref \<Rightarrow> bool" where
  "settled w r \<equiv> p_simulcast_video_ssrc (part w r) \<noteq> 0"

abbreviation vssrc :: "'f world \<Rightarrow> pref \<Rightarrow> u32" where
  "vssrc w r \<equiv> p_simulcast_video_ssrc (part w r)"

definition json_ssrc :: "json \<Rightarrow> u32" where
  "json_ssrc j = (case jget j ''ssrc'' of Some (JNum n) \<Rightarrow> word_of_int n | _ \<Rightarrow> 0)"

lemma virtual_ssrc_settled: "settled w r \<Longrightarrow> virtual_ssrc_of E r w = (vssrc w r, w)"
  by (simp add: virtual_ssrc_of_def ensure_simulcast_video_ssrc_def update_part_def)

lemma expected_settled:
  "(\<And>r. r \<in> set rs \<Longrightarrow> sim \<Longrightarrow> settled w r) \<Longrightarrow>
   expected_loop E sim rs w =
     (concat (map (\<lambda>r. map (shown_ssrc sim (vssrc w r)) (filter (\<lambda>t. \<not> hidden_layer sim t) (p_tracks (part w r)))) rs), w)"
proof (induction rs)
  case (Cons r rs)
  have IH: "expected_loop E sim rs w =
     (concat (map (\<lambda>r. map (shown_ssrc sim (vssrc w r)) (filter (\<lambda>t. \<not> hidden_layer sim t) (p_tracks (part w r)))) rs), w)"
    using Cons.prems by (intro Cons.IH) simp
  have "shown_ssrc False v = shown_ssrc False v'" for v v' by (simp add: shown_ssrc_def [abs_def])
  then have "shown_ssrc False 0 = shown_ssrc False (vssrc w r)" .
  then show ?case using Cons.prems [of r] IH by (cases sim) (simp_all add: virtual_ssrc_settled)
qed simp

lemma expected_settles:
  assumes "\<And>r. e_rnd E r \<noteq> 0" "r < length (w_heap w)"
  shows "settled w r \<or> r \<in> set rs \<Longrightarrow> settled (snd (expected_loop E True rs w)) r"
  using assms(2)
proof (induction rs arbitrary: w)
  case (Cons x rs)
  let ?w = "snd (virtual_ssrc_of E x w)"
  have len: "r < length (w_heap ?w)" using Cons.prems(2) by (simp add: virtual_ssrc_of_def)
  have "settled ?w r \<or> r \<in> set rs"
    using Cons.prems(1) virtual_ssrc_of_vssrc [OF Cons.prems(2) assms(1)] by (metis set_ConsD)
  from Cons.IH [OF this len] show ?case by (simp add: Let_def case_prod_beta)
qed simp

lemma replace_settled:
  assumes "\<And>r t. (r, t) \<in> set ps \<Longrightarrow> get_participant room (p_user_id (part w r)) = Some r \<and> settled w r"
  shows "\<exists>ts. simulcast_replace_loop E room (map (\<lambda>(r, t). track_json (p_user_id (part w r)) t) ps) w = (ts, w) \<and>
    map json_ssrc ts = map (\<lambda>(r, t). shown_ssrc True (vssrc w r) t) ps"
  using assms
proof (induction ps)
  case (Cons q ps)
  obtain r t where q: "q = (r, t)" by fastforce
  let ?j = "track_json (p_user_id (part w r)) t"
  from Cons obtain ts where ts: "simulcast_replace_loop E room (map (\<lambda>(r, t). track_json (p_user_id (part w r)) t) ps) w = (ts, w)"
    "map json_ssrc ts = map (\<lambda>(r, t). shown_ssrc True (vssrc w r) t) ps" by fastforce
  have r: "get_participant room (p_user_id (part w r)) = Some r" "virtual_ssrc_of E r w = (vssrc w r, w)"
    using Cons.prems [of r t] by (simp_all add: q virtual_ssrc_settled)
  have "t_kind t = Video \<Longrightarrow> jget (jdel ''rid'' (jset ''ssrc'' (jnum v) ?j)) ''ssrc'' = Some (jnum v)" for v :: u32
    using virtualise_ssrc [of ?j v] by (simp add: virtualise_def track_json_simps kind_string_def)
  then have video: "t_kind t = Video \<Longrightarrow> json_ssrc (jdel ''rid'' (jset ''ssrc'' (jnum v) ?j)) = v" for v by (simp add: json_ssrc_def)
  have audio: "json_ssrc ?j = t_ssrc t" by (simp add: json_ssrc_def track_json_simps)
  have shown: "shown_ssrc True v t = (if t_kind t = Video then v else t_ssrc t)" for v by (simp add: shown_ssrc_def)
  show ?case using ts r video audio shown
    by (cases "t_kind t") (simp_all add: q track_json_simps kind_string_def)
qed simp

lemma collect_settled:
  assumes inv: "room_inv (w_heap w) room"
    and set: "\<And>r. r \<in> set (other_participants room u) \<Longrightarrow> r_simulcast_enabled room \<Longrightarrow> settled w r"
  shows "\<exists>ts. collect_subscribe_tracks E room u w = (ts, w) \<and>
    map json_ssrc ts = fst (expected_loop E' (r_simulcast_enabled room) (other_participants room u) w)"
proof -
  let ?sim = "r_simulcast_enabled room" and ?rs = "other_participants room u"
  let ?ps = "concat (map (\<lambda>r. map (Pair r) (filter (\<lambda>t. \<not> hidden_layer ?sim t) (p_tracks (part w r)))) ?rs)"
  have list: "concat (map (\<lambda>r. map (track_json (p_user_id (part w r))) (filter (\<lambda>t. \<not> hidden_layer ?sim t) (p_tracks (part w r)))) ?rs) =
      map (\<lambda>(r, t). track_json (p_user_id (part w r)) t) ?ps"
    by (simp add: map_concat comp_def)
  have exp: "fst (expected_loop E' ?sim ?rs w) = map (\<lambda>(r, t). shown_ssrc ?sim (vssrc w r) t) ?ps"
    using set by (simp add: expected_settled map_concat comp_def)
  have member: "get_participant room (p_user_id (part w r)) = Some r" if "r \<in> set ?rs" for r
    using that registeredD [OF inv, of r] by (auto simp: other_participants_def registered_def get_participant_def)
  show ?thesis
  proof (cases ?sim)
    case True
    have "\<exists>ts. simulcast_replace_loop E room (map (\<lambda>(r, t). track_json (p_user_id (part w r)) t) ?ps) w = (ts, w) \<and>
        map json_ssrc ts = map (\<lambda>(r, t). shown_ssrc True (vssrc w r) t) ?ps"
      by (rule replace_settled) (use member set True in auto)
    then show ?thesis unfolding collect_subscribe_tracks_def simulcast_replace_video_ssrc_def list exp using True by simp
  next
    case False
    have "json_ssrc (track_json v t) = t_ssrc t" for v t by (simp add: json_ssrc_def track_json_simps)
    then show ?thesis unfolding collect_subscribe_tracks_def simulcast_replace_video_ssrc_def list exp
      using False by (auto simp: shown_ssrc_def)
  qed
qed

lemma expected_frame:
  "w_hub (snd (expected_ssrcs E room u w)) = w_hub w" "w_ws (snd (expected_ssrcs E room u w)) = w_ws w"
proof -
  have "w_hub (snd (expected_loop E sim rs w)) = w_hub w \<and> w_ws (snd (expected_loop E sim rs w)) = w_ws w" for sim rs
    by (induction rs arbitrary: w) (auto simp: case_prod_beta Let_def virtual_ssrc_of_def)
  then show "w_hub (snd (expected_ssrcs E room u w)) = w_hub w" "w_ws (snd (expected_ssrcs E room u w)) = w_ws w"
    by (simp_all add: expected_ssrcs_def)
qed

text \<open>The list that a resynchronisation sends names what the next acknowledgement expects, in every world with the same participants.\<close>

lemma resync_list:
  assumes w: "server_inv w" and room: "dm_get (h_rooms (w_hub w)) rid = Some room" and rnd: "\<And>r. e_rnd E r \<noteq> 0"
    and w1: "w1 = bump ''tracks_ack_mismatch'' 1 (snd (expected_ssrcs E room u w))"
  obtains ts where "resync_tracks E room u w1 = (ts, w1)"
    "\<And>w2. w_heap w2 = w_heap w1 \<Longrightarrow> set (map json_ssrc ts) = set (fst (expected_ssrcs E' room u w2))"
proof (cases "r_mode room = Ptt")
  case True
  have "json_ssrc (virtual_track_json k v i) = v" for k v i by (simp add: json_ssrc_def virtual_track_json_def)
  then show thesis using True
    by (intro that [of "[virtual_track_json ''audio'' (virtual_ssrc (r_audio_rewriter room)) ''virtual_audio'',
        virtual_track_json ''video'' (virtual_ssrc (r_video_rewriter room)) ''virtual_video'']"])
      (simp_all add: resync_tracks_def expected_ssrcs_def)
next
  case False
  have le: "world_le w w1" unfolding w1 by (rule world_le_steps(1) [OF world_le_expected])
  have inv: "room_inv (w_heap w1) room"
    by (rule hub_invD(5) [OF server_invD(1) [OF server_inv_le [OF w le]]], simp add: w1 expected_frame, rule room)
  have all_settled: "settled w1 r" if "r \<in> set (other_participants room u)" "r_simulcast_enabled room" for r
  proof -
    have "registered room r" using that(1) by (auto simp: other_participants_def registered_def)
    then have "r < length (w_heap w)" using registeredD [OF hub_invD(5) [OF server_invD(1) [OF w] room]] by simp
    from expected_settles [OF rnd this, of "other_participants room u"] show ?thesis
      using that False by (simp add: w1 expected_ssrcs_def bump_def)
  qed
  from collect_settled [OF inv all_settled] obtain ts where list: "collect_subscribe_tracks E room u w1 = (ts, w1)"
    "map json_ssrc ts = fst (expected_loop E' (r_simulcast_enabled room) (other_participants room u) w1)" by blast
  have "fst (expected_loop E' (r_simulcast_enabled room) (other_participants room u) w2) = map json_ssrc ts"
    if "w_heap w2 = w_heap w1" for w2 :: "'a world"
  proof -
    have "settled w2 r" if "r \<in> set (other_participants room u)" "r_simulcast_enabled room" for r
      using all_settled [OF that] \<open>w_heap w2 = w_heap w1\<close> by simp
    then show ?thesis using all_settled unfolding list(2) by (simp add: expected_settled that)
  qed
  then show thesis using False list(1) by (intro that) (simp_all add: resync_tracks_def expected_ssrcs_def)
qed

text \<open>
  C38: A resynchronised client is in sync: when TRACKS_ACK names other SSRCs than the room has for the client,
  the client gets a TRACKS_RESYNC on its own channel, and acknowledging exactly the SSRCs of that list, virtual ones
  included, is answered with synced. This holds in conferences, simulcast rooms and push-to-talk rooms alike, provided
  that no drawn SSRC is 0.
\<close>

theorem resync_converges:
  assumes "server_inv w" "session_room s w = Inr (rid, room)" "\<And>r. e_rnd E r \<noteq> 0"
    and "set ssrcs \<noteq> set (fst (expected_ssrcs E room u w))" "handle_tracks_ack E u pid (Some ssrcs) s w = (resp, w1)"
  shows "\<exists>ts. w_ws w1 = w_ws w @ [(s_ws_tx s, packet_new TRACKS_RESYNC 0 (JObj [(''tracks'', JArr ts)]))] \<and>
    fst (handle_tracks_ack E' u pid' (Some (map json_ssrc ts)) s w1) = packet_ok TRACKS_ACK pid' (JObj [(''synced'', JBool True)])"
proof -
  have room: "dm_get (h_rooms (w_hub w)) rid = Some room"
    using assms(2) by (auto simp: session_room_def hub_get_def split: option.splits sum.splits)
  let ?w = "bump ''tracks_ack_mismatch'' 1 (snd (expected_ssrcs E room u w))"
  obtain ts where ts: "resync_tracks E room u ?w = (ts, ?w)"
    "\<And>w2. w_heap w2 = w_heap ?w \<Longrightarrow> set (map json_ssrc ts) = set (fst (expected_ssrcs E' room u w2))"
    using resync_list [OF assms(1) room assms(3) refl] by metis
  let ?pkt = "packet_new TRACKS_RESYNC 0 (JObj [(''tracks'', JArr ts)])"
  have w1: "w1 = bump ''tracks_resync_sent'' 1 (ws_send_tx (s_ws_tx s) ?pkt ?w)"
    using assms(2,4,5) ts(1) by (auto simp: handle_tracks_ack_def case_prod_beta)
  have same: "w_heap w1 = w_heap ?w" "w_hub w1 = w_hub w" "w_ws w1 = w_ws w @ [(s_ws_tx s, ?pkt)]"
    by (simp_all add: w1 bump_def ws_send_tx_def expected_frame)
  have "session_room s w1 = Inr (rid, room)" using assms(2) unfolding session_room_def same(2) .
  then show ?thesis using ts(2) [of w1] same
    by (intro exI [of _ ts]) (simp add: handle_tracks_ack_def case_prod_beta)
qed

text \<open>A push-to-talk client that acknowledges nothing.\<close>

theorem resync_converges_witness:
  "\<exists>ts. fst (handle_tracks_ack demo_env ''u'' 2 (Some (map json_ssrc ts)) demo_session
      (snd (handle_tracks_ack demo_env ''u'' 1 (Some []) demo_session (demo_joined Ptt)))) =
      packet_ok TRACKS_ACK 2 (JObj [(''synced'', JBool True)])"
proof -
  obtain room where room: "dm_get (h_rooms (w_hub (demo_joined Ptt))) ''p'' = Some room" "r_mode room = Ptt"
    using demo_joined_mode by blast
  then have "session_room demo_session (demo_joined Ptt) = Inr (''p'', room)"
    by (simp add: session_room_def demo_session_def session_new_def hub_get_def)
  moreover have "set [] \<noteq> set (fst (expected_ssrcs demo_env room ''u'' (demo_joined Ptt)))"
    using room(2) by (simp add: expected_ssrcs_def)
  moreover have "e_rnd demo_env r \<noteq> 0" for r by (simp add: demo_env_def)
  ultimately show ?thesis
    using resync_converges [OF demo_joined_inv, where s = demo_session and E = demo_env and ssrcs = "[]" and u = "''u''" and pid = 1]
    by (metis prod.collapse)
qed

end
