(* ===== verification/Signaling.thy ===== *)
theory Signaling
  imports TrackOps
begin

text \<open>
  The WebSocket side of \<open>signaling/handler/mod.rs\<close>: the dispatch of a packet to its handler, and the
  connection with its heartbeat. The parsers of the payloads are those that serde derives; they are arguments,
  one for each request type.
\<close>

section \<open>Dispatch\<close>

record parsers =
  ps_identify :: "json \<Rightarrow> identify_request option"
  ps_room_create :: "json \<Rightarrow> room_create_request option"
  ps_room_id :: "u16 \<Rightarrow> json \<Rightarrow> room_id option"
  ps_publish_tracks :: "json \<Rightarrow> publish_tracks_request option"
  ps_tracks_ack :: "json \<Rightarrow> tracks_ack_request option"
  ps_mute_update :: "json \<Rightarrow> mute_update_request option"
  ps_camera_ready :: "json \<Rightarrow> camera_ready_request option"
  ps_message :: "json \<Rightarrow> message_request option"
  ps_floor_request :: "json \<Rightarrow> floor_request_msg option"
  ps_subscribe_layer :: "json \<Rightarrow> subscribe_layer_request option"

text \<open>
  What one call draws at random: the number of an anonymous user, the identifiers of a room and of a message,
  the SSRCs of a room and the credentials of a participant.
\<close>

record draws =
  dr_user :: u16
  dr_room_uuid :: string
  dr_msg_uuid :: string
  dr_audio_ssrc :: u32
  dr_video_ssrc :: u32
  dr_pub_ice :: ice_credentials
  dr_sub_ice :: ice_credentials

record 'f gateway =
  g_env :: "'f env"
  g_config :: app_config
  g_parsers :: parsers
  g_draws :: draws

definition handle_heartbeat :: "'f env \<Rightarrow> ws_session \<Rightarrow> 'f world \<Rightarrow> 'f world" where
  "handle_heartbeat E s w =
     (case (s_current_room s, s_user_id s) of
        (Some room_id, Some user_id) \<Rightarrow>
          (case hub_get (w_hub w) room_id of
             Inl _ \<Rightarrow> w
           | Inr room \<Rightarrow>
               (case get_participant room user_id of
                  Some r \<Rightarrow> update_part r (touch (e_now_ms E)) w
                | None \<Rightarrow> w))
      | _ \<Rightarrow> w)"

text \<open>The handlers of an identified user. \<open>None\<close> in the first component means that nothing is answered.\<close>

definition dispatch_user ::
  "'f gateway \<Rightarrow> user_id \<Rightarrow> packet \<Rightarrow> ws_session \<Rightarrow> 'f world \<Rightarrow> packet option \<times> ws_session \<times> 'f world" where
  "dispatch_user G user_id pk s w =
     (let E = g_env G; P = g_parsers G; D = g_draws G; op = pk_op pk; pid = pk_pid pk; d = pk_d pk;
          keep = (\<lambda>(resp, w'). (Some resp, s, w'));
          full = (\<lambda>(resp, s', w'). (Some resp, s', w'))
      in if op = ROOM_LIST then (Some (handle_room_list pid w), s, w)
         else if op = ROOM_CREATE then
           keep (handle_room_create E (dr_room_uuid D) (dr_audio_ssrc D) (dr_video_ssrc D) pid (ps_room_create P d) w)
         else if op = ROOM_JOIN then
           full (handle_room_join E (g_config G) (dr_pub_ice D) (dr_sub_ice D) user_id pid (ps_room_id P op d) s w)
         else if op = ROOM_LEAVE then full (handle_room_leave E user_id pid (ps_room_id P op d) s w)
         else if op = PUBLISH_TRACKS then keep (handle_publish_tracks E user_id pid (ps_publish_tracks P d) s w)
         else if op = TRACKS_ACK then keep (handle_tracks_ack E user_id pid (ps_tracks_ack P d) s w)
         else if op = MUTE_UPDATE then keep (handle_mute_update E user_id pid (ps_mute_update P d) s w)
         else if op = CAMERA_READY then keep (handle_camera_ready user_id pid (ps_camera_ready P d) s w)
         else if op = MESSAGE then keep (handle_message (dr_msg_uuid D) user_id pid (ps_message P d) w)
         else if op = TELEMETRY then (None, s, w)
         else if op = ROOM_SYNC then keep (handle_room_sync E pid s w)
         else if op = FLOOR_REQUEST then keep (handle_floor_request E user_id pid (ps_floor_request P d) w)
         else if op = FLOOR_RELEASE then keep (handle_floor_release E user_id pid (ps_room_id P op d) w)
         else if op = FLOOR_PING then keep (handle_floor_ping E user_id pid (ps_room_id P op d) w)
         else if op = FLOOR_QUEUE_POS then (Some (handle_floor_queue_pos user_id pid (ps_room_id P op d) w), s, w)
         else if op = SUBSCRIBE_LAYER then keep (handle_subscribe_layer E user_id pid (ps_subscribe_layer P d) s w)
         else (Some (packet_err op pid 3001 ''invalid opcode''), s, w))"

definition dispatch :: "'f gateway \<Rightarrow> packet \<Rightarrow> ws_session \<Rightarrow> 'f world \<Rightarrow> packet option \<times> ws_session \<times> 'f world" where
  "dispatch G pk s w =
     (if is_response pk then (None, s\<lparr> s_ack_miss := 0 \<rparr>, w)
      else if pk_op pk = HEARTBEAT then
        (Some (packet_ok HEARTBEAT (pk_pid pk) (JObj [])), s, handle_heartbeat (g_env G) s w)
      else if pk_op pk = IDENTIFY then
        (case handle_identify (dr_user (g_draws G)) (pk_pid pk) (ps_identify (g_parsers G) (pk_d pk)) s of
           (resp, s') \<Rightarrow> (Some resp, s', w))
      else (case s_user_id s of
              None \<Rightarrow> (Some (packet_err (pk_op pk) (pk_pid pk) 1001 ''not authenticated''), s, w)
            | Some user_id \<Rightarrow> dispatch_user G user_id pk s w))"

section \<open>A connection\<close>

text \<open>
  The events of the loop: a packet of the session's own channel to be sent, what arrives from the socket, and
  the heartbeat timer. A text is the packet it parses to, or \<open>None\<close>; the flag tells whether sending succeeds.
  \<open>None\<close> as the next connection means that the loop has ended.
\<close>

record connection =
  c_session :: ws_session
  c_last_activity :: instant

datatype conn_event = Channel_out bool | Text_in "packet option" bool | Other_in | Closed_in | Error_in | Heartbeat_tick

definition HELLO :: u16 where "HELLO = 0"

definition hello_packet :: "u64 \<Rightarrow> packet" where
  "hello_packet pid = packet_new HELLO pid (hello_event HEARTBEAT_INTERVAL_MS)"

definition connect :: "nat \<Rightarrow> instant \<Rightarrow> bool \<Rightarrow> packet \<times> connection option" where
  "connect ws_tx now send_ok =
     (case next_pid (session_new ws_tx) of
        (pid, s) \<Rightarrow> (hello_packet pid, if send_ok then Some \<lparr> c_session = s, c_last_activity = now \<rparr> else None))"

definition heartbeat_expired :: "instant \<Rightarrow> connection \<Rightarrow> bool" where
  "heartbeat_expired now c \<longleftrightarrow> unat HEARTBEAT_TIMEOUT_MS * 1000000 < now - c_last_activity c"

text \<open>One turn: the connection after it, the answer given to the socket and the world. The end of the loop runs the cleanup.\<close>

definition conn_step ::
  "'f gateway \<Rightarrow> conn_event \<Rightarrow> connection \<Rightarrow> 'f world \<Rightarrow> connection option \<times> packet option \<times> 'f world" where
  "conn_step G ev c w =
     (let now = e_instant (g_env G); stop = (\<lambda>s w'. (None, None, cleanup (g_env G) s w')); alive = c\<lparr> c_last_activity := now \<rparr>
      in case ev of
           Channel_out ok \<Rightarrow> if ok then (Some c, None, w) else stop (c_session c) w
         | Text_in None ok \<Rightarrow> (Some alive, None, w)
         | Text_in (Some pk) ok \<Rightarrow>
             (case dispatch G pk (c_session c) w of
                (None, s', w') \<Rightarrow> (Some (alive\<lparr> c_session := s' \<rparr>), None, w')
              | (Some resp, s', w') \<Rightarrow>
                  if ok then (Some (alive\<lparr> c_session := s' \<rparr>), Some resp, w') else stop s' w')
         | Other_in \<Rightarrow> (Some alive, None, w)
         | Closed_in \<Rightarrow> stop (c_session c) w
         | Error_in \<Rightarrow> stop (c_session c) w
         | Heartbeat_tick \<Rightarrow> if heartbeat_expired now c then stop (c_session c) w else (Some c, None, w))"

section \<open>Answers\<close>

text \<open>A packet answers a request: the operation and the identifier are those of the request, and it has a verdict.\<close>

definition answers :: "u16 \<Rightarrow> u64 \<Rightarrow> packet \<Rightarrow> bool" where
  "answers op pid p \<longleftrightarrow> pk_op p = op \<and> pk_pid p = pid \<and> is_response p"

named_theorems answering

lemma answers_packets [answering]: "answers op pid (packet_ok op pid d)" "answers op pid (packet_err op pid c m)"
  by (simp_all add: answers_def)

lemma answers_request_fold:
  "answers FLOOR_REQUEST pid (fst st) \<Longrightarrow> answers FLOOR_REQUEST pid (fst (fold (request_action now u pid) acts st))"
proof (induction acts arbitrary: st)
  case (Cons a acts)
  have "answers FLOOR_REQUEST pid (fst (request_action now u pid a st))"
    using Cons.prems by (cases st; cases a) (auto simp: request_action.simps apply_floor_action.simps Let_def answering)
  then show ?case by (simp add: Cons.IH)
qed simp

lemma answers_apply_fold:
  "answers op pid (fst st) \<Longrightarrow> answers op pid (fst (fold (apply_floor_action now op pid u) acts st))"
proof (induction acts arbitrary: st)
  case (Cons a acts)
  have "answers op pid (fst (apply_floor_action now op pid u a st))"
    using Cons.prems by (cases st; cases a) (auto simp: request_action.simps apply_floor_action.simps Let_def answering)
  then show ?case by (simp add: Cons.IH)
qed simp

lemma answers_floor [answering]:
  "answers FLOOR_REQUEST pid (fst (handle_floor_request E u pid frm w))"
  "answers FLOOR_RELEASE pid (fst (handle_floor_release E u pid rid w))"
  "answers FLOOR_PING pid (fst (handle_floor_ping E u pid rid w))"
  "answers FLOOR_QUEUE_POS pid (handle_floor_queue_pos u pid rid w)"
proof -
  show "answers FLOOR_REQUEST pid (fst (handle_floor_request E u pid frm w))"
    by (auto simp: handle_floor_request_def Let_def case_prod_beta answering intro!: answers_request_fold split: option.split sum.split)
  show "answers FLOOR_RELEASE pid (fst (handle_floor_release E u pid rid w))"
    by (auto simp: handle_floor_release_def apply_floor_actions_def Let_def case_prod_beta answering intro!: answers_apply_fold
        split: option.split sum.split)
qed (auto simp: handle_floor_ping_def handle_floor_queue_pos_def Let_def case_prod_beta answering
    split: option.split sum.split floor_action.split)

lemma answers_room [answering]:
  "answers IDENTIFY pid (fst (handle_identify rnd pid idr s))"
  "answers ROOM_LIST pid (handle_room_list pid w)"
  "answers ROOM_CREATE pid (fst (handle_room_create E uuid a v pid rcr w))"
  "answers ROOM_JOIN pid (fst (handle_room_join E cfg pub_ice sub_ice u pid rid s w))"
  "answers ROOM_LEAVE pid (fst (handle_room_leave E u pid rid s w))"
  "answers ROOM_SYNC pid (fst (handle_room_sync E pid s w))"
  "answers MESSAGE pid (fst (handle_message mid u pid mr w))"
  by (auto simp: handle_identify_def handle_room_list_def handle_room_create_def handle_room_join_def handle_room_leave_def
      handle_room_sync_def handle_message_def Let_def case_prod_beta answering split: option.split sum.split)

lemma answers_track [answering]:
  "answers PUBLISH_TRACKS pid (fst (handle_publish_tracks E u pid ptr s w))"
  "answers TRACKS_ACK pid (fst (handle_tracks_ack E u pid ssrcs s w))"
  "answers MUTE_UPDATE pid (fst (handle_mute_update E u pid mur s w))"
  "answers CAMERA_READY pid (fst (handle_camera_ready u pid cr s w))"
  "answers SUBSCRIBE_LAYER pid (fst (handle_subscribe_layer E u pid targets s w))"
  by (auto simp: handle_publish_tracks_def handle_tracks_ack_def handle_mute_update_def handle_camera_ready_def
      handle_subscribe_layer_def Let_def case_prod_beta answering split: option.split sum.split)

lemma dispatch_user_answers:
  "case fst (dispatch_user G u pk s w) of None \<Rightarrow> pk_op pk = TELEMETRY | Some p \<Rightarrow> answers (pk_op pk) (pk_pid pk) p"
  by (simp add: dispatch_user_def Let_def case_prod_beta answering)

section \<open>The dispatch keeps the server invariant\<close>

definition fresh_draws :: "draws \<Rightarrow> 'f world \<Rightarrow> bool" where
  "fresh_draws D w \<longleftrightarrow> dm_get (h_rooms (w_hub w)) (dr_room_uuid D) = None \<and> fresh_ufrags (dr_pub_ice D) (dr_sub_ice D) w"

lemma heartbeat_le: "world_le w (handle_heartbeat E s w)"
  by (auto simp: handle_heartbeat_def world_le_part split: option.split sum.split)

lemma dispatch_server_inv:
  assumes w: "server_inv w" and fresh: "fresh_draws (g_draws G) w"
  shows "server_inv (snd (snd (dispatch G pk s w)))"
proof -
  have ok: "server_inv w'" if "world_le w w'" for w' using w that by (rule server_inv_le)
  have "server_inv (snd (snd (dispatch_user G u pk s w)))" for u
    using fresh unfolding dispatch_user_def Let_def fresh_draws_def
    by (simp add: case_prod_beta w create_server_inv join_server_inv room_leave_server_inv other_server_inv
        request_server_inv release_server_inv ping_server_inv track_ops_world_le [THEN ok])
  then show ?thesis
    by (simp add: dispatch_def case_prod_beta w ok [OF heartbeat_le] split: option.split)
qed

lemma conn_step_server_inv:
  assumes "server_inv w" "fresh_draws (g_draws G) w"
  shows "server_inv (snd (snd (conn_step G ev c w)))"
proof (cases ev)
  case (Text_in pk ok)
  then show ?thesis
    using assms dispatch_server_inv [OF assms, of _ "c_session c"]
    by (auto simp: conn_step_def Let_def case_prod_beta split: option.split intro: cleanup_server_inv)
qed (use assms(1) in \<open>simp_all add: conn_step_def Let_def cleanup_server_inv\<close>)

section \<open>Properties\<close>

text \<open>
  C33: The dispatch answers every request exactly once, with its operation and identifier and a verdict; only
  telemetry of an identified user is not answered, and a response of the client is not answered but clears the
  count of missed acknowledgements. Before IDENTIFY nothing a client sends changes the rooms or the participants,
  and nothing but IDENTIFY and a response changes its session.
\<close>

theorem dispatch_answers_once:
  "case dispatch G pk s w of (resp, s', w') \<Rightarrow>
     (if is_response pk then resp = None \<and> s' = s\<lparr> s_ack_miss := 0 \<rparr> \<and> w' = w
      else if resp = None then is_authenticated s \<and> pk_op pk = TELEMETRY \<and> s' = s \<and> w' = w
      else answers (pk_op pk) (pk_pid pk) (the resp)) \<and>
     (is_authenticated s \<or> w' = w \<and> (s' = s \<or> is_response pk \<or> pk_op pk = IDENTIFY))"
proof -
  have opcodes: "HEARTBEAT \<noteq> IDENTIFY" "TELEMETRY \<noteq> HEARTBEAT" "TELEMETRY \<noteq> IDENTIFY" by (simp_all add: opcode_defs)
  show ?thesis
  proof (cases "is_response pk \<or> pk_op pk = HEARTBEAT \<or> pk_op pk = IDENTIFY \<or> s_user_id s = None")
    case True
    then show ?thesis
      using answers_room(1) [of "pk_pid pk"] opcodes
      by (auto simp: dispatch_def is_authenticated_def handle_heartbeat_def case_prod_beta answering
          split: option.split sum.split)
  next
    case False
    then obtain u where u: "s_user_id s = Some u" by auto
    have "dispatch G pk s w = dispatch_user G u pk s w" using False u by (simp add: dispatch_def)
    moreover have "dispatch_user G u pk s w = (None, s, w)" if "pk_op pk = TELEMETRY"
      using that by (simp add: dispatch_user_def opcode_defs)
    ultimately show ?thesis
      using False u dispatch_user_answers [where G = G and u = u and pk = pk and s = s and w = w]
      by (auto simp: is_authenticated_def split: option.splits)
  qed
qed

text \<open>
  C34: A connection that ends leaves the room: when the socket is closed or fails, a packet of the
  channel cannot be sent, or the heartbeat timer finds the client silent for more than 90 seconds, the loop ends, the
  member is no longer in the room, and neither of its sessions is found under its ufrags. A client heard within the 90
  seconds stays connected and its tick changes nothing.
\<close>

theorem ended_connection_leaves:
  assumes w: "server_inv w" and s: "s_current_room (c_session c) = Some rid" "s_user_id (c_session c) = Some u"
    and room: "dm_get (h_rooms (w_hub w)) rid = Some room" and r: "get_participant room u = Some r"
    and ev: "ev \<in> {Closed_in, Error_in, Channel_out False, Heartbeat_tick}"
  shows "if ev = Heartbeat_tick \<and> e_instant (g_env G) \<le> c_last_activity c + 90000000000
    then conn_step G ev c w = (Some c, None, w)
    else \<exists>w' room'. conn_step G ev c w = (None, None, w') \<and> dm_get (h_rooms (w_hub w')) rid = Some room' \<and>
      r_participants room' = dm_remove u (r_participants room) \<and>
      (\<forall>pc. find_by_ufrag (w_hub w') (ms_ufrag (session (part w r) pc)) = None)"
proof -
  let ?w1 = "cleanup_room (g_env G) rid u w"
  obtain hub' room' where rem: "hub_remove_participant (w_heap ?w1) rid u (w_hub ?w1) = Inr (r, hub')"
    and gone: "dm_get (h_rooms hub') rid = Some room'" "r_participants room' = dm_remove u (r_participants room)"
      "\<forall>pc. find_by_ufrag hub' (ms_ufrag (session (part w r) pc)) = None"
    using remove_member [OF w room r cleanup_room_le [OF w]] by blast
  have clean: "cleanup (g_env G) (c_session c) w = ?w1\<lparr> w_hub := hub' \<rparr>" by (simp add: cleanup_def s rem)
  have expired: "heartbeat_expired (e_instant (g_env G)) c \<longleftrightarrow> \<not> e_instant (g_env G) \<le> c_last_activity c + 90000000000"
    by (auto simp: heartbeat_expired_def)
  show ?thesis
    using ev gone by (auto simp: conn_step_def Let_def clean expired simp del: find_by_ufrag_def)
qed

definition demo_gateway :: "instant \<Rightarrow> unit gateway" where
  "demo_gateway now = \<lparr> g_env = demo_env\<lparr> e_instant := now \<rparr>, g_config = demo_cfg,
     g_parsers = \<lparr> ps_identify = \<lambda>d. None, ps_room_create = \<lambda>d. None, ps_room_id = \<lambda>op d. None, ps_publish_tracks = \<lambda>d. None,
       ps_tracks_ack = \<lambda>d. None, ps_mute_update = \<lambda>d. None, ps_camera_ready = \<lambda>d. None, ps_message = \<lambda>d. None,
       ps_floor_request = \<lambda>d. None, ps_subscribe_layer = \<lambda>d. None \<rparr>,
     g_draws = \<lparr> dr_user = 0, dr_room_uuid = ''q'', dr_msg_uuid = ''m'', dr_audio_ssrc = 1, dr_video_ssrc = 2,
       dr_pub_ice = demo_ice ''c'', dr_sub_ice = demo_ice ''d'' \<rparr> \<rparr>"

theorem ended_connection_leaves_witness:
  "\<exists>w' room'. conn_step (demo_gateway 90000000006) Heartbeat_tick
       \<lparr> c_session = demo_session\<lparr> s_user_id := Some ''u'', s_current_room := Some ''p'' \<rparr>, c_last_activity = 5 \<rparr> (demo_joined Ptt) =
       (None, None, w') \<and> dm_get (h_rooms (w_hub w')) ''p'' = Some room' \<and> get_participant room' ''u'' = None"
proof -
  obtain room where room: "dm_get (h_rooms (w_hub (demo_joined Ptt))) ''p'' = Some room" "get_participant room ''u'' = Some 0"
    using demo_joined_room by blast
  from ended_connection_leaves [OF demo_joined_inv _ _ room, where ev = Heartbeat_tick and G = "demo_gateway 90000000006"
      and c = "\<lparr> c_session = demo_session\<lparr> s_user_id := Some ''u'', s_current_room := Some ''p'' \<rparr>, c_last_activity = 5 \<rparr>"]
  show ?thesis by (fastforce simp: demo_gateway_def get_participant_def)
qed

end
