(* ===== verification/Egress.thy ===== *)
theory Egress
  imports Ingress
begin

text \<open>
  The send path of \<open>transport/udp/egress.rs\<close>: the egress task of a subscriber, the periodic feedback to
  publishers (TWCC, REMB, receiver reports), and the PLIs that a new subscriber causes. The iterations over the rooms and their
  participants visit the entries in the order of the lists. Log lines, the encryption timer and the
  diagnostic copy of the report blocks are left out.
\<close>

section \<open>Feedback to publishers\<close>

definition for_participants :: "(pref \<Rightarrow> 'f world \<Rightarrow> 'f world) \<Rightarrow> 'f world \<Rightarrow> 'f world" where
  "for_participants f w = fold (\<lambda>e. fold f (all_participants (snd e))) (h_rooms (w_hub w)) w"

text \<open>The address and the video SSRC of a publisher, when it can be sent to.\<close>

definition publisher_target :: "'f participant \<Rightarrow> (socket_addr \<times> u32) option" where
  "publisher_target p =
     (if \<not> is_publish_ready p then None
      else do { addr \<leftarrow> ms_address (p_publish p); ssrc \<leftarrow> first_video_ssrc p; Some (addr, ssrc) })"

text \<open>Encrypt for the publish session and send: whether the datagram went out.\<close>

definition send_to_publisher :: "'f env \<Rightarrow> pref \<Rightarrow> bytes \<Rightarrow> socket_addr \<Rightarrow> 'f world \<Rightarrow> bool \<times> 'f world" where
  "send_to_publisher E r plain addr w =
     (case e_encrypt_rtcp E r Publish plain of
        Some encrypted \<Rightarrow> if e_send_ok E encrypted addr then (True, udp_send encrypted addr w) else (False, w)
      | None \<Rightarrow> (False, w))"

definition twcc_to_publisher :: "'f env \<Rightarrow> pref \<Rightarrow> 'f world \<Rightarrow> 'f world" where
  "twcc_to_publisher E r w =
     (case publisher_target (part w r) of
        None \<Rightarrow> w
      | Some (addr, ssrc) \<Rightarrow>
          (case build_twcc_feedback (p_twcc_recorder (part w r)) ssrc of
             (feedback, rec) \<Rightarrow>
               (let w1 = update_part r (\<lambda>p. p\<lparr> p_twcc_recorder := rec \<rparr>) w
                in case feedback of
                     None \<Rightarrow> w1
                   | Some plain \<Rightarrow> (case send_to_publisher E r plain addr w1 of
                       (sent, w2) \<Rightarrow> if sent then bump ''twcc_sent'' 1 w2 else w2))))"

definition send_twcc_to_publishers :: "'f env \<Rightarrow> 'f world \<Rightarrow> 'f world" where
  "send_twcc_to_publishers E w = for_participants (twcc_to_publisher E) w"

definition remb_to_publisher :: "'f env \<Rightarrow> u64 \<Rightarrow> pref \<Rightarrow> 'f world \<Rightarrow> 'f world" where
  "remb_to_publisher E remb_bitrate r w =
     (case publisher_target (part w r) of
        None \<Rightarrow> w
      | Some (addr, ssrc) \<Rightarrow>
          (case send_to_publisher E r (build_remb remb_bitrate ssrc) addr w of
             (sent, w1) \<Rightarrow> if sent then bump ''remb_sent'' 1 w1 else w1))"

definition send_remb_to_publishers :: "'f env \<Rightarrow> u64 \<Rightarrow> 'f world \<Rightarrow> 'f world" where
  "send_remb_to_publishers E remb_bitrate w = for_participants (remb_to_publisher E remb_bitrate) w"

section \<open>Receiver reports\<close>

definition SERVER_SSRC :: u32 where
  "SERVER_SSRC = 1"

definition report_blocks :: "'f env \<Rightarrow> (u32, 'f recv_stats) dmap \<Rightarrow> rr_report_block list \<times> (u32, 'f recv_stats) dmap" where
  "report_blocks E m =
     (map (\<lambda>e. fst (build_rr_block (e_f64 E) (e_instant E) (snd e))) m,
      map (\<lambda>e. (fst e, snd (build_rr_block (e_f64 E) (e_instant E) (snd e)))) m)"

definition report_to_publisher :: "'f env \<Rightarrow> pref \<Rightarrow> 'f world \<Rightarrow> 'f world" where
  "report_to_publisher E r w =
     (if \<not> is_publish_ready (part w r) then w
      else (case ms_address (p_publish (part w r)) of
              None \<Rightarrow> w
            | Some addr \<Rightarrow>
                (case report_blocks E (p_recv_stats (part w r)) of
                   (blocks, stats) \<Rightarrow>
                     (let w1 = update_part r (\<lambda>p. p\<lparr> p_recv_stats := stats \<rparr>) w
                      in if blocks = [] then w1
                         else (case send_to_publisher E r (build_receiver_report SERVER_SSRC blocks) addr w1 of
                                 (sent, w2) \<Rightarrow>
                                   if sent then bump ''rr_generated'' (word_of_nat (length blocks)) w2 else w2)))))"

definition send_rtcp_reports :: "'f env \<Rightarrow> 'f world \<Rightarrow> 'f world" where
  "send_rtcp_reports E w = for_participants (report_to_publisher E) w"

section \<open>Keyframes for a new subscriber\<close>

definition pli_to_publisher :: "'f env \<Rightarrow> user_id \<Rightarrow> pref \<Rightarrow> 'f world \<Rightarrow> 'f world" where
  "pli_to_publisher E exclude_user r w =
     (if p_user_id (part w r) = exclude_user then w
      else (case publisher_target (part w r) of
              None \<Rightarrow> w
            | Some (addr, ssrc) \<Rightarrow>
                (case send_to_publisher E r (build_pli ssrc) addr w of
                   (sent, w1) \<Rightarrow> if sent then count (\<lambda>s. s\<lparr> pub_pli_received := pub_pli_received s + 1 \<rparr>) r w1 else w1)))"

definition send_pli_to_publishers :: "'f env \<Rightarrow> room \<Rightarrow> user_id \<Rightarrow> 'f world \<Rightarrow> 'f world" where
  "send_pli_to_publishers E room exclude_user w = fold (pli_to_publisher E exclude_user) (all_participants room) w"

section \<open>The egress task\<close>

text \<open>Header length with the CSRC list and the extension.\<close>

definition sent_header_len :: "bytes \<Rightarrow> nat" where
  "sent_header_len plaintext =
     (let cc = unat (plaintext ! 0 AND 0x0F);
          has_ext = (plaintext ! 0 AND 0x10 \<noteq> 0);
          hdr_len = 12 + cc * 4
      in if has_ext \<and> hdr_len + 4 \<le> length plaintext
         then hdr_len + (4 + unat (be16_at plaintext (hdr_len + 2)) * 4) else hdr_len)"

definition count_sent :: "instant \<Rightarrow> bytes \<Rightarrow> 'f participant \<Rightarrow> 'f participant" where
  "count_sent now plaintext p =
     (if 12 \<le> length plaintext \<and> \<not> is_rtx_pt (plaintext ! 1 AND 0x7F) then
        (let pt = plaintext ! 1 AND 0x7F;
             ssrc = be32_at plaintext 8;
             rtp_ts = be32_at plaintext 4;
             payload_len = length plaintext - sent_header_len plaintext;
             clock_rate = (if is_audio_pt pt then CLOCK_RATE_AUDIO else CLOCK_RATE_VIDEO);
             stats = (case dm_get (p_send_stats p) ssrc of Some s \<Rightarrow> s | None \<Rightarrow> send_new ssrc clock_rate)
         in p\<lparr> p_send_stats := dm_insert ssrc (on_rtp_sent now rtp_ts payload_len stats) (p_send_stats p) \<rparr>)
      else p)"

text \<open>One turn of the loop: the packet at the front of the queue.\<close>

definition egress_step :: "'f env \<Rightarrow> pref \<Rightarrow> 'f world \<Rightarrow> 'f world" where
  "egress_step E r w =
     (case p_egress (part w r) of
        [] \<Rightarrow> w
      | pkt # rest \<Rightarrow>
          (let w1 = update_part r (\<lambda>p. p\<lparr> p_egress := rest \<rparr>) w
           in case ms_address (p_subscribe (part w1 r)) of
                None \<Rightarrow> w1
              | Some addr \<Rightarrow>
                  (case (case pkt of
                           EgRtp plaintext \<Rightarrow>
                             (update_part r (count_sent (e_instant E) plaintext) w1, e_encrypt_rtp E r Subscribe plaintext)
                         | EgRtcp plaintext \<Rightarrow> (w1, e_encrypt_rtcp E r Subscribe plaintext)) of
                     (w2, None) \<Rightarrow> w2
                   | (w2, Some encrypted) \<Rightarrow> if e_send_ok E encrypted addr then udp_send encrypted addr w2 else w2)))"

text \<open>The task until the queue it finds is empty.\<close>

definition run_egress_task :: "'f env \<Rightarrow> pref \<Rightarrow> 'f world \<Rightarrow> 'f world" where
  "run_egress_task E r w = (egress_step E r ^^ length (p_egress (part w r))) w"


section \<open>The send path keeps the server invariant\<close>

lemma part_le_egress [simp]:
  "part_le p (count_sent now plain p)" "p_egress p = pkt # rest \<Longrightarrow> part_le p (p\<lparr> p_egress := rest \<rparr>)"
  by (auto simp: part_le_def same_identity_def part_ok_def tracks_ok_def session_def count_sent_def Let_def split: pc_type.split)

lemma world_le_for_participants: "(\<And>r w. world_le w (f r w)) \<Longrightarrow> world_le w (for_participants f w)"
  unfolding for_participants_def by (intro world_le_fold)

lemma world_le_send_to_publisher: "world_le w (snd (send_to_publisher E r plain addr w))"
  by (auto simp: send_to_publisher_def world_le_effects split: option.split)

lemma world_le_feedback [world_le_intros]:
  "world_le w (send_twcc_to_publishers E w)" "world_le w (send_remb_to_publishers E b w)"
  "world_le w (send_rtcp_reports E w)" "world_le w (send_pli_to_publishers E room u w)"
proof -
  have send: "world_le w (snd (send_to_publisher E r plain addr w1))" if "world_le w w1" for r plain addr and w w1 :: "'a world"
    using that world_le_send_to_publisher by (rule world_le_trans)
  have rec: "world_le w (update_part r (\<lambda>p. p\<lparr> p_twcc_recorder := rec \<rparr>) w)" for r rec and w :: "'a world"
    by (rule world_le_part) simp
  show "world_le w (send_twcc_to_publishers E w)" unfolding send_twcc_to_publishers_def
    by (rule world_le_for_participants)
       (auto simp: twcc_to_publisher_def Let_def case_prod_beta intro!: world_le_steps(1) send rec split: option.split)
  show "world_le w (send_remb_to_publishers E b w)" unfolding send_remb_to_publishers_def
    by (rule world_le_for_participants)
       (auto simp: remb_to_publisher_def Let_def case_prod_beta intro!: world_le_steps(1) send split: option.split)
  have st: "world_le w (update_part r (\<lambda>p. p\<lparr> p_recv_stats := m \<rparr>) w)" for r m and w :: "'a world"
    by (rule world_le_part) simp
  show "world_le w (send_rtcp_reports E w)" unfolding send_rtcp_reports_def
    by (rule world_le_for_participants)
       (auto simp: report_to_publisher_def Let_def case_prod_beta intro!: world_le_steps(1) send st split: option.split)
  show "world_le w (send_pli_to_publishers E room u w)" unfolding send_pli_to_publishers_def
    by (rule world_le_fold)
       (auto simp: pli_to_publisher_def case_prod_beta intro!: world_le_part_step send split: option.split)
qed

text \<open>What one turn of the egress task does.\<close>

definition egress_out :: "'f env \<Rightarrow> pref \<Rightarrow> socket_addr \<Rightarrow> egress_packet \<Rightarrow> (bytes \<times> socket_addr) list" where
  "egress_out E r addr pkt =
     (case (case pkt of EgRtp plain \<Rightarrow> e_encrypt_rtp E r Subscribe plain | EgRtcp plain \<Rightarrow> e_encrypt_rtcp E r Subscribe plain) of
        None \<Rightarrow> [] | Some enc \<Rightarrow> if e_send_ok E enc addr then [(enc, addr)] else [])"

definition counted :: "u32 \<Rightarrow> egress_packet \<Rightarrow> bool" where
  "counted ssrc pkt \<longleftrightarrow> (case pkt of
     EgRtp plain \<Rightarrow> 12 \<le> length plain \<and> \<not> is_rtx_pt (plain ! 1 AND 0x7F) \<and> be32_at plain 8 = ssrc | EgRtcp _ \<Rightarrow> False)"

lemma count_sent_counts:
  "fst (sent_counts (count_sent now plain p) ssrc) = fst (sent_counts p ssrc) + (if counted ssrc (EgRtp plain) then 1 else 0)"
  "p_egress (count_sent now plain p) = p_egress p" "p_subscribe (count_sent now plain p) = p_subscribe p"
  by (auto simp: sent_counts_def count_sent_def counted_def on_rtp_sent_def send_new_def Let_def dm.get_put split: option.split)

lemma sent_counts_egress: "sent_counts (p\<lparr> p_egress := q \<rparr>) ssrc = sent_counts p ssrc"
  by (simp add: sent_counts_def)

lemma counted_rtcp: "\<not> counted ssrc (EgRtcp plain)"
  by (simp add: counted_def)

lemma egress_step_cons:
  assumes r: "r < length (w_heap w)" and q: "p_egress (part w r) = pkt # rest"
  shows "p_egress (part (egress_step E r w) r) = rest" "p_subscribe (part (egress_step E r w) r) = p_subscribe (part w r)"
    "length (w_heap (egress_step E r w)) = length (w_heap w)"
    "w_udp (egress_step E r w) = w_udp w @ (case ms_address (p_subscribe (part w r)) of None \<Rightarrow> [] | Some addr \<Rightarrow> egress_out E r addr pkt)"
    "ms_address (p_subscribe (part w r)) \<noteq> None \<Longrightarrow> fst (sent_counts (part (egress_step E r w) r) ssrc) =
       fst (sent_counts (part w r) ssrc) + (if counted ssrc pkt then 1 else 0)"
  using r q
  by (auto simp: egress_step_def Let_def egress_out_def count_sent_counts counted_rtcp sent_counts_egress
      split: option.split egress_packet.split)

lemma world_le_egress_step: "world_le w (egress_step E r w)"
proof (cases "p_egress (part w r)")
  case (Cons pkt rest)
  let ?w1 = "update_part r (\<lambda>p. p\<lparr> p_egress := rest \<rparr>) w"
  have "world_le w ?w1"
    using Cons by (cases "r < length (w_heap w)")
      (auto simp: world_le_def nth_list_update update_part_def intro: option.rel_refl)
  then show ?thesis
    by (auto simp: egress_step_def Let_def Cons intro!: world_le_part_step split: option.split egress_packet.split
        intro: world_le_trans [OF _ world_le_effects(3)])
qed (simp add: egress_step_def)


lemma egress_steps:
  "r < length (w_heap w) \<Longrightarrow> p_egress (part w r) = q \<Longrightarrow>
   p_egress (part ((egress_step E r ^^ length q) w) r) = [] \<and>
   w_udp ((egress_step E r ^^ length q) w) = w_udp w @
     (case ms_address (p_subscribe (part w r)) of None \<Rightarrow> [] | Some addr \<Rightarrow> concat (map (egress_out E r addr) q)) \<and>
   (ms_address (p_subscribe (part w r)) \<noteq> None \<longrightarrow> fst (sent_counts (part ((egress_step E r ^^ length q) w) r) ssrc) =
     fst (sent_counts (part w r) ssrc) + word_of_nat (length (filter (counted ssrc) q)))"
proof (induction q arbitrary: w)
  case (Cons pkt q)
  note step = egress_step_cons [OF Cons.prems, of E]
  have r: "r < length (w_heap (egress_step E r w))" using Cons.prems(1) step(3) by simp
  have run: "(egress_step E r ^^ length (pkt # q)) w = (egress_step E r ^^ length q) (egress_step E r w)"
    by (simp add: funpow_swap1)
  note IH = Cons.IH [OF r step(1)]
  show ?case
  proof (cases "ms_address (p_subscribe (part w r))")
    case None
    then show ?thesis using IH step(2,4) unfolding run by simp
  next
    case (Some addr)
    then show ?thesis using IH step(2,4,5) unfolding run by simp
  qed
qed (simp split: option.split)

section \<open>Properties\<close>

text \<open>
  C27: The egress task empties the queue of a subscriber and sends its packets in the order they were put
  there, each encrypted once, to the address of the subscribe session; only packets that the SRTP library or the socket
  refuses are missing. The send statistics that sender reports are built from grow by
  exactly the RTP packets of each SSRC, retransmissions left out. While the session has no address the
  queue is emptied and nothing is sent.
\<close>

theorem egress_task_sends_in_order:
  assumes "r < length (w_heap w)"
  shows "p_egress (part (run_egress_task E r w) r) = [] \<and>
    w_udp (run_egress_task E r w) = w_udp w @
      (case ms_address (p_subscribe (part w r)) of None \<Rightarrow> []
       | Some addr \<Rightarrow> concat (map (egress_out E r addr) (p_egress (part w r)))) \<and>
    (ms_address (p_subscribe (part w r)) \<noteq> None \<longrightarrow>
      fst (sent_counts (part (run_egress_task E r w) r) ssrc) =
        fst (sent_counts (part w r) ssrc) + word_of_nat (length (filter (counted ssrc) (p_egress (part w r)))))"
  unfolding run_egress_task_def by (rule egress_steps [OF assms refl])

definition demo_queue :: "unit participant \<Rightarrow> unit participant" where
  "demo_queue p = p\<lparr> p_egress := [EgRtp demo_rtp, EgRtcp (build_pli 7)],
     p_subscribe := (p_subscribe p)\<lparr> ms_address := Some (V4 [10, 0, 0, 2] 5000) \<rparr> \<rparr>"

lemma demo_counted: "counted 7 (EgRtp demo_rtp)"
proof -
  have "be32_at demo_rtp 8 = 7" by code_simp
  then show ?thesis by (simp add: counted_def is_rtx_pt_def)
qed

theorem egress_task_sends_in_order_witness:
  "w_udp (run_egress_task demo_env 1 (update_part 1 demo_queue (demo_call Conference))) =
     [(demo_rtp, V4 [10, 0, 0, 2] 5000), (build_pli 7, V4 [10, 0, 0, 2] 5000)] \<and>
   fst (sent_counts (part (run_egress_task demo_env 1 (update_part 1 demo_queue (demo_call Conference))) 1) 7) = 1"
  using egress_task_sends_in_order [of 1 "update_part 1 demo_queue (demo_call Conference)" demo_env 7]
  by (simp add: demo_counted counted_rtcp demo_call_def demo_queue_def demo_sub_def participant_new_def egress_out_def demo_env_def
      sent_counts_def)

end
