(* ===== verification/Metrics.thy ===== *)
theory Metrics
  imports World
begin

text \<open>
  The metric store of \<open>metrics/\<close>: the lock-free accumulators of \<open>AtomicTimingStat\<close> and of the fan-out
  statistics, the counters of \<open>GlobalMetrics\<close> by field name, the runtime snapshot, and the flush that
  reads and clears them all. A \<open>record\<close> call is given twice: as the sequence of atomic memory operations
  the code performs, any number of which interleave, and as the single step they amount to.
\<close>

section \<open>Accumulators\<close>

text \<open>
  \<open>AtomicTimingStat\<close> is the instance at 64 bits; the four fan-out atomics, which the code updates with the
  same four operations, are the instance at 32 bits. Both sums are 64 bits wide.
\<close>

record 'c stat =
  st_sum :: u64
  st_count :: u64
  st_min :: 'c
  st_max :: 'c

definition stat_new :: "'w::len word stat" where
  "stat_new = \<lparr> st_sum = 0, st_count = 0, st_min = - 1, st_max = 0 \<rparr>"

text \<open>What one call amounts to when no other call runs.\<close>

definition stat_record :: "'w::len word \<Rightarrow> 'w word stat \<Rightarrow> 'w word stat" where
  "stat_record us s =
     \<lparr> st_sum = st_sum s + ucast us, st_count = st_count s + 1, st_min = min us (st_min s), st_max = max us (st_max s) \<rparr>"

text \<open>
  The atomic operations of a call. A call waits at \<open>Cas_max cur\<close> with the value it last saw in the maximum;
  the step tests the loop condition and, when it holds, performs one \<open>compare_exchange_weak\<close>, which may fail
  although the cell holds \<open>cur\<close> (\<open>spurious\<close>).
\<close>

datatype 'w rec_pc = Add_sum | Add_count | Load_max | Cas_max 'w | Load_min | Cas_min 'w | Recorded

fun rec_step :: "bool \<Rightarrow> 'w::len word \<Rightarrow> 'w word rec_pc \<Rightarrow> 'w word stat \<Rightarrow> 'w word rec_pc \<times> 'w word stat" where
  "rec_step spurious us Add_sum s = (Add_count, s\<lparr> st_sum := st_sum s + ucast us \<rparr>)"
| "rec_step spurious us Add_count s = (Load_max, s\<lparr> st_count := st_count s + 1 \<rparr>)"
| "rec_step spurious us Load_max s = (Cas_max (st_max s), s)"
| "rec_step spurious us (Cas_max cur) s =
     (if us > cur then
        if st_max s = cur \<and> \<not> spurious then (Load_min, s\<lparr> st_max := us \<rparr>) else (Cas_max (st_max s), s)
      else (Load_min, s))"
| "rec_step spurious us Load_min s = (Cas_min (st_min s), s)"
| "rec_step spurious us (Cas_min cur) s =
     (if us < cur then
        if st_min s = cur \<and> \<not> spurious then (Recorded, s\<lparr> st_min := us \<rparr>) else (Cas_min (st_min s), s)
      else (Recorded, s))"
| "rec_step spurious us Recorded s = (Recorded, s)"

text \<open>Calls in flight, each with its argument and its position; one of them makes its next step.\<close>

type_synonym 'w calls = "('w word \<times> 'w word rec_pc) list"

inductive calls_step :: "bool \<Rightarrow> 'w::len calls \<times> 'w word stat \<Rightarrow> 'w calls \<times> 'w word stat \<Rightarrow> bool" for spurious where
  step: "i < length cs \<Longrightarrow> cs ! i = (us, pc) \<Longrightarrow> pc \<noteq> Recorded \<Longrightarrow> rec_step spurious us pc s = (pc', s') \<Longrightarrow>
     calls_step spurious (cs, s) (cs[i := (us, pc')], s')"

inductive_cases calls_stepE: "calls_step b (cs, s) c"

definition start_calls :: "'w::len word list \<Rightarrow> 'w calls" where
  "start_calls uss = map (\<lambda>us. (us, Add_sum)) uss"

definition all_recorded :: "'w::len calls \<Rightarrow> bool" where
  "all_recorded cs = list_all (\<lambda>c. snd c = Recorded) cs"

text \<open>The flush of one accumulator; \<open>null\<close> when nothing was recorded.\<close>

definition stat_flush :: "u64 stat \<Rightarrow> json \<times> u64 stat" where
  "stat_flush s =
     (if st_count s = 0 then JNull
      else JObj [(''avg_us'', jnum (st_sum s div st_count s)),
                 (''min_us'', jnum (if st_min s = - 1 then 0 else st_min s)),
                 (''max_us'', jnum (st_max s)), (''count'', jnum (st_count s))], stat_new)"

section \<open>Environment and runtime snapshot\<close>

record environment_meta =
  em_build_mode :: string
  em_log_level :: string
  em_worker_count :: nat
  em_bwe_mode :: string
  em_version :: string

text \<open>\<open>capture\<close>, given whether debug assertions are on, the two variables of the environment and the version.\<close>

definition env_capture :: "bool \<Rightarrow> string option \<Rightarrow> string option \<Rightarrow> string \<Rightarrow> nat \<Rightarrow> bwe_mode \<Rightarrow> environment_meta" where
  "env_capture debug rust_log log_level version workers mode =
     \<lparr> em_build_mode = (if debug then ''debug'' else ''release''),
       em_log_level = (case rust_log of Some l \<Rightarrow> l | None \<Rightarrow> (case log_level of Some l \<Rightarrow> l | None \<Rightarrow> ''info'')),
       em_worker_count = workers, em_bwe_mode = bwe_mode_string mode, em_version = version \<rparr>"

definition env_json :: "environment_meta \<Rightarrow> json" where
  "env_json m = JObj [(''build_mode'', JStr (em_build_mode m)), (''log_level'', JStr (em_log_level m)),
     (''worker_count'', JNum (int (em_worker_count m))), (''bwe_mode'', JStr (em_bwe_mode m)),
     (''version'', JStr (em_version m))]"

text \<open>
  What the tokio runtime reports is an argument. The counters of a worker are read by its number; reading or
  writing a previous value past the end of its vector panics. The two formats of an \<open>f64\<close> quotient are
  functions of the integers they are computed from.
\<close>

record runtime_metrics =
  rm_workers :: nat
  rm_busy :: "nat \<Rightarrow> nat"
  rm_polls :: "nat \<Rightarrow> u64"
  rm_steals :: "nat \<Rightarrow> u64"
  rm_noops :: "nat \<Rightarrow> u64"
  rm_budget_yield :: u64
  rm_io_ready :: u64
  rm_alive_tasks :: nat
  rm_global_queue :: nat
  rm_blocking_threads :: nat

record tokio_snapshot =
  prev_busy :: "nat list"
  prev_poll_count :: "u64 list"
  prev_steal_count :: "u64 list"
  prev_noop_count :: "u64 list"
  prev_budget_yield :: u64
  prev_io_ready :: u64
  last_sampled :: instant

record ratio_formats =
  rf_worker :: "nat \<Rightarrow> nat \<Rightarrow> string"
  rf_overall :: "u64 \<Rightarrow> nat \<Rightarrow> nat \<Rightarrow> string"

definition tokio_new :: "instant \<Rightarrow> tokio_snapshot" where
  "tokio_new now = \<lparr> prev_busy = [], prev_poll_count = [], prev_steal_count = [], prev_noop_count = [],
     prev_budget_yield = 0, prev_io_ready = 0, last_sampled = now \<rparr>"

definition prev_delta :: "u64 list \<Rightarrow> nat \<Rightarrow> u64 \<Rightarrow> (u64 \<times> u64 list) option" where
  "prev_delta prev i v =
     (if i < length prev then Some (sat_sub v (prev ! i), prev[i := v]) else None)"

definition sample_worker ::
  "ratio_formats \<Rightarrow> runtime_metrics \<Rightarrow> nat \<Rightarrow> nat \<Rightarrow> tokio_snapshot \<times> u64 \<times> json list
     \<Rightarrow> (tokio_snapshot \<times> u64 \<times> json list) option" where
  "sample_worker F m elapsed_us i st = (case st of (s, busy_sum, js) \<Rightarrow>
     if i < length (prev_busy s) then
       do {
         let busy = (rm_busy m i - prev_busy s ! i) div 1000;
         (polls, pp) \<leftarrow> prev_delta (prev_poll_count s) i (rm_polls m i);
         (steals, ps) \<leftarrow> prev_delta (prev_steal_count s) i (rm_steals m i);
         (noops, pn) \<leftarrow> prev_delta (prev_noop_count s) i (rm_noops m i);
         Some (s\<lparr> prev_busy := (prev_busy s)[i := rm_busy m i], prev_poll_count := pp, prev_steal_count := ps,
                 prev_noop_count := pn \<rparr>, busy_sum + of_nat busy,
               js @ [JObj [(''busy_ratio'', JStr (rf_worker F busy elapsed_us)), (''polls'', jnum polls),
                           (''steals'', jnum steals), (''noops'', jnum noops)]]) }
     else None)"

fun sample_workers ::
  "ratio_formats \<Rightarrow> runtime_metrics \<Rightarrow> nat \<Rightarrow> nat list \<Rightarrow> tokio_snapshot \<times> u64 \<times> json list
     \<Rightarrow> (tokio_snapshot \<times> u64 \<times> json list) option" where
  "sample_workers F m elapsed_us [] st = Some st"
| "sample_workers F m elapsed_us (i # is) st =
     Option.bind (sample_worker F m elapsed_us i st) (sample_workers F m elapsed_us is)"

definition sample_init :: "runtime_metrics \<Rightarrow> tokio_snapshot \<Rightarrow> tokio_snapshot" where
  "sample_init m s =
     (if prev_busy s = [] then
        let resize = (\<lambda>xs. take (rm_workers m) xs @ replicate (rm_workers m - length xs) 0)
        in s\<lparr> prev_busy := replicate (rm_workers m) 0, prev_poll_count := resize (prev_poll_count s),
              prev_steal_count := resize (prev_steal_count s), prev_noop_count := resize (prev_noop_count s) \<rparr>
      else s)"

definition tokio_sample ::
  "ratio_formats \<Rightarrow> runtime_metrics \<Rightarrow> instant \<Rightarrow> tokio_snapshot \<Rightarrow> (json \<times> tokio_snapshot) option" where
  "tokio_sample F m now s =
     (let elapsed_us = max 1 ((now - last_sampled s) div 1000)
      in case sample_workers F m elapsed_us [0..<rm_workers m] (sample_init m s, 0, []) of
           None \<Rightarrow> None
         | Some (s1, busy_sum, workers) \<Rightarrow>
             Some (JObj [(''busy_ratio'', JStr (rf_overall F busy_sum elapsed_us (rm_workers m))),
                    (''alive_tasks'', JNum (int (rm_alive_tasks m))), (''global_queue'', JNum (int (rm_global_queue m))),
                    (''blocking_threads'', JNum (int (rm_blocking_threads m))),
                    (''budget_yield'', jnum (sat_sub (rm_budget_yield m) (prev_budget_yield s1))),
                    (''io_ready'', jnum (sat_sub (rm_io_ready m) (prev_io_ready s1))), (''workers'', JArr workers)],
                  s1\<lparr> prev_budget_yield := rm_budget_yield m, prev_io_ready := rm_io_ready m, last_sampled := now \<rparr>))"

section \<open>The store and its flush\<close>

text \<open>
  The counters, all of them \<open>AtomicU64\<close>, are kept by field name. The local variable that takes the value of
  each when it is swapped out, and the JSON keys under which the locals are reported, are tables in the order
  of the code.
\<close>

record global_metrics =
  gm_decrypt :: "u64 stat"
  gm_lock_wait :: "u64 stat"
  gm_egress_encrypt :: "u64 stat"
  gm_fan_out :: "u32 stat"
  gm_counters :: "string \<Rightarrow> u64"
  gm_rr_diag :: "json list"
  gm_tokio :: tokio_snapshot
  gm_env :: environment_meta

definition COUNTER_FIELDS :: "string list" where
  "COUNTER_FIELDS = [
     ''encrypt_fail'', ''decrypt_fail'', ''nack_received'', ''nack_seqs_requested'', ''rtx_sent'',
     ''rtx_cache_miss'', ''pli_sent'', ''sr_relayed'', ''rr_relayed'', ''rr_consumed'', ''rr_generated'',
     ''sr_generated'', ''twcc_sent'', ''twcc_recorded'', ''remb_sent'', ''sub_rtcp_received'',
     ''sub_rtcp_not_rtcp'', ''sub_rtcp_decrypted'', ''rtp_cache_stored'', ''nack_publisher_not_found'',
     ''nack_no_rtx_ssrc'', ''rtp_cache_lock_fail'', ''egress_drop'', ''ingress_rtp_received'',
     ''egress_rtp_relayed'', ''egress_rtcp_relayed'', ''rtx_budget_exceeded'', ''tracks_ack_mismatch'',
     ''tracks_resync_sent'', ''spawn_rtp_relayed'', ''spawn_sr_relayed'', ''spawn_encrypt_fail'',
     ''ptt_rtp_gated'', ''ptt_rtp_rewritten'', ''ptt_video_pending_drop'', ''ptt_keyframe_arrived'',
     ''ptt_floor_granted'', ''ptt_floor_revoked'', ''ptt_nack_remapped'', ''ptt_floor_released'',
     ''ptt_speaker_switches'', ''ptt_floor_queued'', ''ptt_floor_preempted'', ''ptt_floor_queue_pop'',
     ''ptt_audio_rewritten'', ''ptt_video_rewritten'', ''ptt_video_skip'', ''pt_normalized'',
     ''nack_suppressed'', ''pli_throttled'', ''rtp_gap_detected'']"

definition SWAPPED :: "(string \<times> string) list" where
  "SWAPPED = [
     (''encrypt_fail'', ''encrypt_fail''), (''decrypt_fail'', ''decrypt_fail''),
     (''nack_received'', ''nack_received''), (''nack_seqs_requested'', ''nack_seqs_requested''),
     (''rtx_sent'', ''rtx_sent''), (''rtx_cache_miss'', ''rtx_cache_miss''), (''pli_sent'', ''pli_sent''),
     (''sr_relayed'', ''sr_relayed''), (''rr_relayed'', ''rr_relayed''), (''twcc_sent'', ''twcc_sent''),
     (''twcc_recorded'', ''twcc_recorded''), (''remb_sent'', ''remb_sent''),
     (''rr_consumed'', ''rr_consumed''), (''rr_generated'', ''rr_generated''),
     (''sr_generated'', ''sr_generated''), (''sub_rtcp_received'', ''sub_rtcp_received''),
     (''sub_rtcp_not_rtcp'', ''sub_rtcp_not_rtcp''), (''sub_rtcp_decrypted'', ''sub_rtcp_decrypted''),
     (''rtp_cache_stored'', ''rtp_cache_stored''), (''nack_pub_not_found'', ''nack_publisher_not_found''),
     (''nack_no_rtx'', ''nack_no_rtx_ssrc''), (''cache_lock_fail'', ''rtp_cache_lock_fail''),
     (''egress_drop'', ''egress_drop''), (''ingress_rtp_received'', ''ingress_rtp_received''),
     (''egress_rtp_relayed'', ''egress_rtp_relayed''), (''egress_rtcp_relayed'', ''egress_rtcp_relayed''),
     (''rtx_budget_exceeded'', ''rtx_budget_exceeded''), (''tracks_ack_mismatch'', ''tracks_ack_mismatch''),
     (''tracks_resync_sent'', ''tracks_resync_sent''), (''spawn_rtp_relayed'', ''spawn_rtp_relayed''),
     (''spawn_sr_relayed'', ''spawn_sr_relayed''), (''spawn_encrypt_fail'', ''spawn_encrypt_fail''),
     (''ptt_rtp_gated'', ''ptt_rtp_gated''), (''ptt_rtp_rewritten'', ''ptt_rtp_rewritten''),
     (''ptt_video_pending'', ''ptt_video_pending_drop''), (''ptt_keyframe'', ''ptt_keyframe_arrived''),
     (''ptt_granted'', ''ptt_floor_granted''), (''ptt_revoked'', ''ptt_floor_revoked''),
     (''ptt_nack_remap'', ''ptt_nack_remapped''), (''ptt_released'', ''ptt_floor_released''),
     (''ptt_switches'', ''ptt_speaker_switches''), (''ptt_queued'', ''ptt_floor_queued''),
     (''ptt_preempted'', ''ptt_floor_preempted''), (''ptt_queue_pop'', ''ptt_floor_queue_pop''),
     (''ptt_audio_rw'', ''ptt_audio_rewritten''), (''ptt_video_rw'', ''ptt_video_rewritten''),
     (''ptt_video_skip'', ''ptt_video_skip''), (''pt_normalized'', ''pt_normalized''),
     (''nack_suppressed'', ''nack_suppressed''), (''pli_throttled'', ''pli_throttled''),
     (''rtp_gap_detected'', ''rtp_gap_detected'')]"

definition COUNTER_KEYS :: "(string \<times> string) list" where
  "COUNTER_KEYS = [
     (''encrypt_fail'', ''encrypt_fail''), (''decrypt_fail'', ''decrypt_fail''),
     (''nack_received'', ''nack_received''), (''nack_seqs_requested'', ''nack_seqs_requested''),
     (''rtx_sent'', ''rtx_sent''), (''rtx_cache_miss'', ''rtx_cache_miss''), (''pli_sent'', ''pli_sent''),
     (''sr_relayed'', ''sr_relayed''), (''rr_relayed'', ''rr_relayed''), (''rr_consumed'', ''rr_consumed''),
     (''rr_generated'', ''rr_generated''), (''sr_generated'', ''sr_generated''),
     (''twcc_sent'', ''twcc_sent''), (''twcc_recorded'', ''twcc_recorded''), (''remb_sent'', ''remb_sent''),
     (''sub_rtcp_received'', ''sub_rtcp_received''), (''sub_rtcp_not_rtcp'', ''sub_rtcp_not_rtcp''),
     (''sub_rtcp_decrypted'', ''sub_rtcp_decrypted''), (''rtp_cache_stored'', ''rtp_cache_stored''),
     (''nack_pub_not_found'', ''nack_pub_not_found''), (''nack_no_rtx'', ''nack_no_rtx''),
     (''cache_lock_fail'', ''cache_lock_fail''), (''egress_drop'', ''egress_drop''),
     (''ingress_rtp_received'', ''ingress_rtp_received''), (''egress_rtp_relayed'', ''egress_rtp_relayed''),
     (''egress_rtcp_relayed'', ''egress_rtcp_relayed''), (''rtx_budget_exceeded'', ''rtx_budget_exceeded''),
     (''tracks_ack_mismatch'', ''tracks_ack_mismatch''), (''tracks_resync_sent'', ''tracks_resync_sent''),
     (''spawn_rtp_relayed'', ''spawn_rtp_relayed''), (''spawn_sr_relayed'', ''spawn_sr_relayed''),
     (''spawn_encrypt_fail'', ''spawn_encrypt_fail''), (''pt_normalized'', ''pt_normalized''),
     (''nack_suppressed'', ''nack_suppressed''), (''pli_throttled'', ''pli_throttled''),
     (''rtp_gap_detected'', ''rtp_gap_detected'')]"

definition PTT_KEYS :: "(string \<times> string) list" where
  "PTT_KEYS = [
     (''rtp_gated'', ''ptt_rtp_gated''), (''rtp_rewritten'', ''ptt_rtp_rewritten''),
     (''audio_rewritten'', ''ptt_audio_rw''), (''video_rewritten'', ''ptt_video_rw''),
     (''video_skip'', ''ptt_video_skip''), (''video_pending_drop'', ''ptt_video_pending''),
     (''keyframe_arrived'', ''ptt_keyframe''), (''floor_granted'', ''ptt_granted''),
     (''floor_released'', ''ptt_released''), (''floor_revoked'', ''ptt_revoked''),
     (''speaker_switches'', ''ptt_switches''), (''nack_remapped'', ''ptt_nack_remap''),
     (''floor_queued'', ''ptt_queued''), (''floor_preempted'', ''ptt_preempted''),
     (''floor_queue_pop'', ''ptt_queue_pop'')]"

definition gm_new :: "instant \<Rightarrow> environment_meta \<Rightarrow> global_metrics" where
  "gm_new now meta =
     \<lparr> gm_decrypt = stat_new, gm_lock_wait = stat_new, gm_egress_encrypt = stat_new, gm_fan_out = stat_new,
       gm_counters = (\<lambda>f. 0), gm_rr_diag = [], gm_tokio = tokio_new now, gm_env = meta \<rparr>"

definition gm_count :: "string \<Rightarrow> u64 \<Rightarrow> global_metrics \<Rightarrow> global_metrics" where
  "gm_count f n m = m\<lparr> gm_counters := (gm_counters m)(f := gm_counters m f + n) \<rparr>"

definition record_fan_out :: "u32 \<Rightarrow> global_metrics \<Rightarrow> global_metrics" where
  "record_fan_out n m = m\<lparr> gm_fan_out := stat_record n (gm_fan_out m) \<rparr>"

text \<open>Swapping the counters out: the values by local variable, and the counters left behind.\<close>

definition swap_counters :: "(string \<Rightarrow> u64) \<Rightarrow> (string \<times> u64) list \<times> (string \<Rightarrow> u64)" where
  "swap_counters c =
     fold (\<lambda>(l, f) (vals, c). (vals @ [(l, c f)], c(f := 0))) SWAPPED ([], c)"

definition keyed_json :: "(string \<times> string) list \<Rightarrow> (string \<times> u64) list \<Rightarrow> (string \<times> json) list" where
  "keyed_json keys vals = map (\<lambda>(k, l). (k, jnum (the (map_of vals l)))) keys"

definition fan_out_json :: "(u64 \<Rightarrow> u64 \<Rightarrow> string) \<Rightarrow> u32 stat \<Rightarrow> json" where
  "fan_out_json avg s =
     JObj [(''avg'', JStr (avg (st_sum s) (st_count s))),
           (''min'', jnum (if st_min s = - 1 then 0 else st_min s)), (''max'', jnum (st_max s))]"

text \<open>
  The flush. \<open>F\<close> and \<open>avg\<close> are the formats of quotients of floats and \<open>ts\<close> is the wall clock. The counters
  are merged into the root object, overwriting a key already there.
\<close>

text \<open>The report put together: the counters are merged into the root, and the diagnostic records come last.\<close>

definition report_root :: "u64 \<Rightarrow> json \<Rightarrow> json \<Rightarrow> json \<Rightarrow> json \<Rightarrow> (string \<times> u64) list \<Rightarrow> json \<Rightarrow> json \<Rightarrow> json list \<Rightarrow> json" where
  [simp]: "report_root ts decrypt_json lock_wait_json egress_enc_json fan_out vals env_j tokio_json rr_diag = (
     let root = JObj [(''type'', JStr ''server_metrics''), (''ts'', jnum ts), (''decrypt'', decrypt_json),
           (''lock_wait'', lock_wait_json), (''egress_encrypt'', egress_enc_json), (''fan_out'', fan_out),
           (''ptt'', JObj (keyed_json PTT_KEYS vals)), (''env'', env_j), (''tokio_runtime'', tokio_json)];
         root = fold (\<lambda>(k, v). jset k v) (keyed_json COUNTER_KEYS vals) root
     in if rr_diag = [] then root else jset ''rr_diag'' (JArr rr_diag) root)"

definition metrics_flush ::
  "ratio_formats \<Rightarrow> (u64 \<Rightarrow> u64 \<Rightarrow> string) \<Rightarrow> runtime_metrics \<Rightarrow> instant \<Rightarrow> u64 \<Rightarrow> global_metrics
     \<Rightarrow> (json \<times> global_metrics) option" where
  "metrics_flush F avg rt now ts m = do {
     let (decrypt_json, decrypt) = stat_flush (gm_decrypt m);
     let (lock_wait_json, lock_wait) = stat_flush (gm_lock_wait m);
     let (egress_enc_json, egress_encrypt) = stat_flush (gm_egress_encrypt m);
     let (vals, counters) = swap_counters (gm_counters m);
     (tokio_json, tokio) \<leftarrow> tokio_sample F rt now (gm_tokio m);
     let root = report_root ts decrypt_json lock_wait_json egress_enc_json (fan_out_json avg (gm_fan_out m)) vals
       (env_json (gm_env m)) tokio_json (gm_rr_diag m);
     Some (root, m\<lparr> gm_decrypt := decrypt, gm_lock_wait := lock_wait, gm_egress_encrypt := egress_encrypt,
                   gm_fan_out := stat_new, gm_counters := counters, gm_rr_diag := [], gm_tokio := tokio \<rparr>) }"

section \<open>Interleaved calls\<close>

text \<open>
  The invariant of calls in flight: which of the two additions each has made, that what a call has seen of an
  extremum is an older value of it, and that an extremum is the initial one or an argument.
\<close>

definition past_sum :: "'w rec_pc \<Rightarrow> bool" where "past_sum pc \<longleftrightarrow> pc \<noteq> Add_sum"
definition past_count :: "'w rec_pc \<Rightarrow> bool" where "past_count pc \<longleftrightarrow> pc \<noteq> Add_sum \<and> pc \<noteq> Add_count"
definition past_max :: "'w rec_pc \<Rightarrow> bool" where
  "past_max pc \<longleftrightarrow> pc = Load_min \<or> pc = Recorded \<or> (\<exists>cur. pc = Cas_min cur)"

definition sums_inv :: "'w::len word stat \<Rightarrow> 'w calls \<times> 'w word stat \<Rightarrow> bool" where
  "sums_inv s0 = (\<lambda>(cs, s).
     st_sum s = st_sum s0 + (\<Sum>(us, pc)\<leftarrow>cs. if past_sum pc then ucast us else 0) \<and>
     st_count s = st_count s0 + (\<Sum>(us, pc)\<leftarrow>cs. if past_count pc then 1 else 0))"

definition max_inv :: "'w::len word stat \<Rightarrow> 'w calls \<times> 'w word stat \<Rightarrow> bool" where
  "max_inv s0 = (\<lambda>(cs, s).
     st_max s0 \<le> st_max s \<and> st_max s \<in> insert (st_max s0) (fst ` set cs) \<and>
     (\<forall>(us, pc)\<in>set cs. (past_max pc \<longrightarrow> us \<le> st_max s) \<and> (\<forall>cur. pc = Cas_max cur \<longrightarrow> cur \<le> st_max s)))"

definition min_inv :: "'w::len word stat \<Rightarrow> 'w calls \<times> 'w word stat \<Rightarrow> bool" where
  "min_inv s0 = (\<lambda>(cs, s).
     st_min s \<le> st_min s0 \<and> st_min s \<in> insert (st_min s0) (fst ` set cs) \<and>
     (\<forall>(us, pc)\<in>set cs. (pc = Recorded \<longrightarrow> st_min s \<le> us) \<and> (\<forall>cur. pc = Cas_min cur \<longrightarrow> st_min s \<le> cur)))"

lemmas rec_past = past_sum_def past_count_def past_max_def

lemma sum_list_upd:
  fixes g :: "'a \<Rightarrow> 'b::ab_group_add"
  assumes "i < length cs"
  shows "(\<Sum>c\<leftarrow>cs[i := x]. g c) = (\<Sum>c\<leftarrow>cs. g c) - g (cs ! i) + g x"
  using assms by (induction cs arbitrary: i) (auto split: nat.split simp: algebra_simps)

lemma calls_step_fst: "calls_step b (cs, s) (cs', s') \<Longrightarrow> map fst cs' = map fst cs"
  by (erule calls_stepE) (auto simp: map_update list_update_same_conv)

lemma calls_step_cases:
  assumes "calls_step b (cs, s) (cs', s')"
  obtains i us pc pc' where "i < length cs" "cs ! i = (us, pc)" "pc \<noteq> Recorded" "rec_step b us pc s = (pc', s')"
    "cs' = cs[i := (us, pc')]"
  using assms by (elim calls_stepE) auto

lemma sums_inv_step:
  assumes "calls_step b (cs, s) (cs', s')" "sums_inv s0 (cs, s)"
  shows "sums_inv s0 (cs', s')"
  using assms(1)
proof (cases rule: calls_step_cases)
  case (1 i us pc pc')
  then show ?thesis
    using assms(2) by (cases pc) (auto simp: sums_inv_def sum_list_upd rec_past split: if_splits)
qed

lemma set_upd_cases: "c \<in> set (cs[i := x]) \<Longrightarrow> c = x \<or> c \<in> set cs"
  by (meson insertE set_update_subset_insert subsetD)

lemma max_inv_step:
  assumes "calls_step b (cs, s) (cs', s')" "max_inv s0 (cs, s)"
  shows "max_inv s0 (cs', s')"
  using assms(1)
proof (cases rule: calls_step_cases)
  case (1 i us pc pc')
  have fst: "fst ` set cs' = fst ` set cs" using calls_step_fst [OF assms(1)] by (metis set_map)
  have us: "us \<in> fst ` set cs" using 1 by (metis fst_conv imageI nth_mem)
  have here: "(us, pc) \<in> set cs" using 1 by (metis nth_mem)
  have cell: "st_max s' = st_max s \<or> st_max s < us \<and> st_max s' = us" using 1 by (cases pc) (auto split: if_splits)
  then have mono: "st_max s \<le> st_max s'" by auto
  have inv: "st_max s0 \<le> st_max s" "st_max s \<in> insert (st_max s0) (fst ` set cs)" using assms(2) by (simp_all add: max_inv_def)
  have bounds: "st_max s0 \<le> st_max s'" "st_max s' \<in> insert (st_max s0) (fst ` set cs')"
    using cell inv us mono unfolding fst by (fastforce, metis insertCI)
  have "(past_max pd \<longrightarrow> u \<le> st_max s') \<and> (\<forall>cur. pd = Cas_max cur \<longrightarrow> cur \<le> st_max s')" if "(u, pd) \<in> set cs'" for u pd
  proof (cases "(u, pd) = (us, pc')")
    case True
    then show ?thesis using 1 assms(2) here
      by (cases pc) (auto simp: max_inv_def rec_past split: if_splits)
  next
    case False
    then have "(u, pd) \<in> set cs" using that 1 set_upd_cases by metis
    then show ?thesis using assms(2) mono by (fastforce simp: max_inv_def)
  qed
  then show ?thesis using bounds by (auto simp: max_inv_def)
qed

lemma min_inv_step:
  assumes "calls_step b (cs, s) (cs', s')" "min_inv s0 (cs, s)"
  shows "min_inv s0 (cs', s')"
  using assms(1)
proof (cases rule: calls_step_cases)
  case (1 i us pc pc')
  have fst: "fst ` set cs' = fst ` set cs" using calls_step_fst [OF assms(1)] by (metis set_map)
  have us: "us \<in> fst ` set cs" using 1 by (metis fst_conv imageI nth_mem)
  have here: "(us, pc) \<in> set cs" using 1 by (metis nth_mem)
  have cell: "st_min s' = st_min s \<or> us < st_min s \<and> st_min s' = us" using 1 by (cases pc) (auto split: if_splits)
  then have mono: "st_min s' \<le> st_min s" by auto
  have inv: "st_min s \<le> st_min s0" "st_min s \<in> insert (st_min s0) (fst ` set cs)" using assms(2) by (simp_all add: min_inv_def)
  have bounds: "st_min s' \<le> st_min s0" "st_min s' \<in> insert (st_min s0) (fst ` set cs')"
    using cell inv us mono unfolding fst by (fastforce, metis insertCI)
  have "(pd = Recorded \<longrightarrow> st_min s' \<le> u) \<and> (\<forall>cur. pd = Cas_min cur \<longrightarrow> st_min s' \<le> cur)" if "(u, pd) \<in> set cs'" for u pd
  proof (cases "(u, pd) = (us, pc')")
    case True
    then show ?thesis using 1 assms(2) here
      by (cases pc) (auto simp: min_inv_def rec_past split: if_splits)
  next
    case False
    then have "(u, pd) \<in> set cs" using that 1 set_upd_cases by metis
    then show ?thesis using assms(2) mono by (fastforce simp: min_inv_def)
  qed
  then show ?thesis using bounds by (auto simp: min_inv_def)
qed

lemma fold_stat_record:
  "st_sum (fold stat_record uss s) = st_sum s + (\<Sum>us\<leftarrow>uss. ucast us)"
  "st_count (fold stat_record uss s) = st_count s + (\<Sum>us\<leftarrow>uss. 1)"
  "st_max (fold stat_record uss s) = Max (insert (st_max s) (set uss))"
  "st_min (fold stat_record uss s) = Min (insert (st_min s) (set uss))"
proof -
  have "st_max (fold stat_record uss s) = fold max uss (st_max s)" "st_min (fold stat_record uss s) = fold min uss (st_min s)"
    by (induction uss arbitrary: s) (simp_all add: stat_record_def)
  then show "st_max (fold stat_record uss s) = Max (insert (st_max s) (set uss))"
    "st_min (fold stat_record uss s) = Min (insert (st_min s) (set uss))"
    by (simp_all only: Max.set_eq_fold [symmetric] Min.set_eq_fold [symmetric] list.set(2))
qed (induction uss arbitrary: s; simp add: stat_record_def)+

definition calls_inv :: "'w::len word list \<Rightarrow> 'w word stat \<Rightarrow> 'w calls \<times> 'w word stat \<Rightarrow> bool" where
  "calls_inv uss s0 c \<longleftrightarrow> map fst (fst c) = uss \<and> sums_inv s0 c \<and> max_inv s0 c \<and> min_inv s0 c"

lemma calls_inv_start: "calls_inv uss s0 (start_calls uss, s0)"
proof -
  have "(\<Sum>(us, pc)\<leftarrow>start_calls uss. if P pc then f us else 0) = 0" if "\<not> P Add_sum" for P and f :: "'a word \<Rightarrow> u64"
    unfolding start_calls_def using that by (induction uss) auto
  then show ?thesis
    by (auto simp: calls_inv_def sums_inv_def max_inv_def min_inv_def rec_past) (auto simp: start_calls_def comp_def)
qed

lemma calls_inv_step: "calls_step b c c' \<Longrightarrow> calls_inv uss s0 c \<Longrightarrow> calls_inv uss s0 c'"
  by (cases c; cases c') (auto simp: calls_inv_def calls_step_fst intro: sums_inv_step max_inv_step min_inv_step)

interpretation calls: step_invariant "\<lambda>c c'. \<exists>spurious. calls_step spurious c c'" "calls_inv uss s0" for uss s0
  by unfold_locales (auto intro: calls_inv_step)

lemma calls_inv_recorded:
  assumes inv: "calls_inv uss s0 (cs, s)" and all: "all_recorded cs"
  shows "s = fold stat_record uss s0"
proof (rule stat.equality)
  have pc: "snd c = Recorded" if "c \<in> set cs" for c using all that by (auto simp: all_recorded_def list_all_iff)
  have uss: "uss = map fst cs" using inv by (simp add: calls_inv_def)
  have sums: "(\<Sum>(us, pc)\<leftarrow>cs. if P pc then f us else 0) = (\<Sum>us\<leftarrow>uss. f us)" if "P Recorded" for P and f :: "'a word \<Rightarrow> u64"
  proof -
    have "map (\<lambda>(us, pc). if P pc then f us else 0) cs = map f uss"
      unfolding uss using that by (auto dest: pc)
    then show ?thesis by (rule arg_cong)
  qed
  show "st_sum s = st_sum (fold stat_record uss s0)" "st_count s = st_count (fold stat_record uss s0)"
    using inv sums [of past_sum ucast] sums [of past_count "\<lambda>_. 1"]
    by (simp_all add: calls_inv_def sums_inv_def fold_stat_record rec_past)
  have "\<forall>us\<in>set uss. us \<le> st_max s \<and> st_min s \<le> us"
    using inv pc unfolding uss by (fastforce simp: calls_inv_def max_inv_def min_inv_def rec_past)
  then show "st_max s = st_max (fold stat_record uss s0)" "st_min s = st_min (fold stat_record uss s0)"
    using inv unfolding fold_stat_record
    by (auto simp: calls_inv_def max_inv_def min_inv_def simp flip: set_map intro!: Max_eqI [symmetric] Min_eqI [symmetric])
qed simp

text \<open>
  Progress. A failing exchange that is not spurious means that another call has changed the cell since this
  one looked; the number of calls whose view is out of date then falls.
\<close>

fun rec_rank :: "'w rec_pc \<Rightarrow> nat" where
  "rec_rank Add_sum = 6" | "rec_rank Add_count = 5" | "rec_rank Load_max = 4" | "rec_rank (Cas_max _) = 3"
| "rec_rank Load_min = 2" | "rec_rank (Cas_min _) = 1" | "rec_rank Recorded = 0"

fun rec_stale :: "'w::len word stat \<Rightarrow> 'w word rec_pc \<Rightarrow> nat" where
  "rec_stale s (Cas_max cur) = (if cur = st_max s then 0 else 1)"
| "rec_stale s (Cas_min cur) = (if cur = st_min s then 0 else 1)"
| "rec_stale s _ = 0"

definition calls_measure :: "'w::len calls \<times> 'w word stat \<Rightarrow> nat" where
  "calls_measure = (\<lambda>(cs, s). (\<Sum>c\<leftarrow>cs. rec_rank (snd c)) * Suc (length cs) + (\<Sum>c\<leftarrow>cs. rec_stale s (snd c)))"

lemma sum_list_upd_nat:
  fixes g :: "'a \<Rightarrow> nat"
  assumes "i < length cs"
  shows "(\<Sum>c\<leftarrow>cs[i := x]. g c) + g (cs ! i) = (\<Sum>c\<leftarrow>cs. g c) + g x"
  using assms by (induction cs arbitrary: i) (auto split: nat.split)

lemma rec_stale_le: "rec_stale s pc \<le> 1"
  by (cases pc) auto

lemma stale_sum_le: "(\<Sum>c\<leftarrow>cs. rec_stale s (snd c)) \<le> length cs"
  by (induction cs) (auto intro: order_trans [OF add_mono [OF rec_stale_le]])

lemma rec_step_progress:
  assumes "rec_step False us pc s = (pc', s')" "pc \<noteq> Recorded"
  shows "rec_rank pc = Suc (rec_rank pc') \<or> rec_rank pc' = rec_rank pc \<and> s' = s \<and> rec_stale s pc = Suc (rec_stale s pc')"
  using assms by (cases pc) (auto split: if_splits)

lemma calls_measure_step:
  assumes "calls_step False (cs, s) (cs', s')"
  shows "calls_measure (cs', s') < calls_measure (cs, s)"
  using assms
proof (cases rule: calls_step_cases)
  case (1 i us pc pc')
  let ?R = "\<lambda>cs. \<Sum>c\<leftarrow>cs. rec_rank (snd c)" and ?S = "\<lambda>s cs. \<Sum>c\<leftarrow>cs. rec_stale s (snd c)"
  have rank: "?R cs' + rec_rank pc = ?R cs + rec_rank pc'"
    and stale: "?S s cs' + rec_stale s pc = ?S s cs + rec_stale s pc'"
    using sum_list_upd_nat [of i cs "\<lambda>c. rec_rank (snd c)" "(us, pc')"]
      sum_list_upd_nat [of i cs "\<lambda>c. rec_stale s (snd c)" "(us, pc')"] 1 by simp_all
  have len: "length cs' = length cs" using 1 by simp
  from rec_step_progress [OF 1(4,3)] show ?thesis
  proof
    assume "rec_rank pc = Suc (rec_rank pc')"
    then have "?R cs = Suc (?R cs')" using rank by simp
    then show ?thesis using stale_sum_le [of s' cs'] len by (simp add: calls_measure_def)
  qed (use rank stale len in \<open>simp add: calls_measure_def\<close>)
qed

lemma calls_measure_run: "(calls_step False ^^ k) c c' \<Longrightarrow> k + calls_measure c' \<le> calls_measure c"
proof (induction k arbitrary: c')
  case (Suc k)
  then obtain d where "(calls_step False ^^ k) c d" "calls_step False d c'" by auto
  then show ?case using Suc.IH [of d] calls_measure_step by (cases d; cases c') fastforce
qed simp

text \<open>A schedule names the call that moves next; the demonstration lets an exchange fail because another call came first.\<close>

fun run_schedule :: "nat list \<Rightarrow> 'w::len calls \<times> 'w word stat \<Rightarrow> ('w calls \<times> 'w word stat) option" where
  "run_schedule [] c = Some c"
| "run_schedule (i # is) (cs, s) =
     (if i < length cs \<and> snd (cs ! i) \<noteq> Recorded then
        case rec_step False (fst (cs ! i)) (snd (cs ! i)) s of (pc', s') \<Rightarrow> run_schedule is (cs[i := (fst (cs ! i), pc')], s')
      else None)"

lemma run_schedule_steps: "run_schedule is c = Some c' \<Longrightarrow> (calls_step False ^^ length is) c c'"
proof (induction "is" arbitrary: c)
  case (Cons i "is")
  obtain cs s where c: "c = (cs, s)" by fastforce
  obtain us pc pc' s' where at: "cs ! i = (us, pc)" "rec_step False us pc s = (pc', s')" by fastforce
  then have "i < length cs" "pc \<noteq> Recorded" and rest: "run_schedule is (cs[i := (us, pc')], s') = Some c'"
    using Cons.prems by (auto simp: c split: if_splits)
  then have "calls_step False c (cs[i := (us, pc')], s')" unfolding c using at by (intro calls_step.step)
  then show ?case using Cons.IH [OF rest] by (metis length_Cons relpowp_Suc_I2)
qed simp

definition demo_schedule :: "nat list" where
  "demo_schedule = [0, 1, 0, 1, 0, 1, 1, 0, 0, 0, 0, 1, 1]"

definition demo_calls :: "64 calls" where
  "demo_calls = [(5, Recorded), (9, Recorded)]"

lemma demo_schedule_run:
  "run_schedule demo_schedule (start_calls [5, 9], stat_new) =
     Some (demo_calls, \<lparr> st_sum = 14, st_count = 2, st_min = 5, st_max = 9 \<rparr>)"
  by (simp add: demo_schedule_def demo_calls_def start_calls_def stat_new_def)

text \<open>
  C30: Concurrent calls of \<open>AtomicTimingStat::record\<close> and \<open>record_fan_out\<close> are linearisable: however
  the atomic operations of any number of calls interleave, and however often an exchange fails spuriously, once
  all calls have returned the accumulator holds what the same calls leave when made one after the other.
\<close>

theorem record_linearizable:
  assumes run: "(\<lambda>c c'. \<exists>spurious. calls_step spurious c c')\<^sup>*\<^sup>* (start_calls uss, s0) (cs, s)" and "all_recorded cs"
  shows "s = fold stat_record uss s0"
proof -
  have "calls_inv uss s0 (cs, s)"
    using run calls_inv_start by (rule calls.run)
  then show ?thesis using assms(2) by (rule calls_inv_recorded)
qed

theorem record_linearizable_witness:
  "\<lparr> st_sum = 14, st_count = 2, st_min = 5, st_max = (9 :: u64) \<rparr> = fold stat_record [5, 9] stat_new"
proof (rule record_linearizable)
  have "(calls_step False)\<^sup>*\<^sup>* (start_calls [5, 9], stat_new)
      (demo_calls, \<lparr> st_sum = 14, st_count = 2, st_min = 5, st_max = 9 \<rparr>)"
    using run_schedule_steps [OF demo_schedule_run] by (rule relpowp_imp_rtranclp)
  then show "(\<lambda>c c'. \<exists>spurious. calls_step spurious c c')\<^sup>*\<^sup>* (start_calls [5, 9], stat_new)
      (demo_calls, \<lparr> st_sum = 14, st_count = 2, st_min = 5, st_max = 9 \<rparr>)"
    by (rule rtranclp_mono [THEN predicate2D, rotated]) blast
qed (simp add: all_recorded_def demo_calls_def)

text \<open>
  C31: Recording is lock-free: without spurious failures, \<open>n\<close> calls make at most \<open>6 n (n + 1)\<close> steps
  together in whatever order, and as long as one of them has not returned a step is possible.
\<close>

theorem record_lock_free:
  assumes run: "(calls_step False ^^ k) (start_calls uss, s0) (cs, s)"
  shows "k \<le> 6 * length uss * Suc (length uss) \<and> (\<not> all_recorded cs \<longrightarrow> (\<exists>c'. calls_step False (cs, s) c'))"
proof
  have "calls_measure (start_calls uss, s0) = 6 * length uss * Suc (length uss)"
    by (simp add: calls_measure_def start_calls_def comp_def sum_list_triv)
  then show "k \<le> 6 * length uss * Suc (length uss)" using calls_measure_run [OF run] by simp
  show "\<not> all_recorded cs \<longrightarrow> (\<exists>c'. calls_step False (cs, s) c')"
  proof
    assume "\<not> all_recorded cs"
    then obtain us pc where "(us, pc) \<in> set cs" "pc \<noteq> Recorded" by (auto simp: all_recorded_def list_all_iff)
    then show "\<exists>c'. calls_step False (cs, s) c'"
      by (metis in_set_conv_nth calls_step.step surj_pair)
  qed
qed

theorem record_lock_free_witness: "length demo_schedule \<le> 6 * length [5, 9 :: u64] * Suc (length [5, 9 :: u64])"
  using record_lock_free [OF run_schedule_steps [OF demo_schedule_run]] by simp

section \<open>What a flush reports\<close>

lemma swap_fold:
  "distinct (map snd xs) \<Longrightarrow>
   fold (\<lambda>(l, f) (vals, c). (vals @ [(l, c f)], c(f := 0))) xs (vs, c) =
     (vs @ map (\<lambda>(l, f). (l, c f)) xs, \<lambda>f. if f \<in> snd ` set xs then 0 else c f)"
  by (induction xs arbitrary: vs c) (auto simp: fun_eq_iff split_beta intro!: map_cong intro: rev_image_eqI)

lemma counter_tables:
  "distinct (map fst SWAPPED)" "distinct (map snd SWAPPED)" "distinct (map fst COUNTER_KEYS)" "distinct (map fst PTT_KEYS)"
  "set COUNTER_FIELDS = snd ` set SWAPPED"
  by code_simp+

lemma swap_counters_eq:
  "swap_counters c = (map (\<lambda>(l, f). (l, c f)) SWAPPED, \<lambda>f. if f \<in> set COUNTER_FIELDS then 0 else c f)"
  by (simp add: swap_counters_def swap_fold counter_tables)

text \<open>The value a report gives for a field: under the key of its local, in the root or in the PTT object.\<close>

definition reported :: "json \<Rightarrow> string \<Rightarrow> json option" where
  "reported j f =
     (case find (\<lambda>e. snd e = f) SWAPPED of
        None \<Rightarrow> None
      | Some (l, _) \<Rightarrow>
          (case find (\<lambda>e. snd e = l) COUNTER_KEYS of
             Some (k, _) \<Rightarrow> jget j k
           | None \<Rightarrow>
               (case find (\<lambda>e. snd e = l) PTT_KEYS of
                  Some (k, _) \<Rightarrow> Option.bind (jget j ''ptt'') (\<lambda>p. jget p k)
                | None \<Rightarrow> None)))"

lemma jget_fold_jset:
  assumes "distinct (map fst kvs)"
  shows "jget (fold (\<lambda>(k, v). jset k v) kvs (JObj fs)) k =
           (case map_of kvs k of Some v \<Rightarrow> Some v | None \<Rightarrow> map_of fs k)"
  using assms
proof (induction kvs arbitrary: fs)
  case (Cons e kvs)
  then have "map_of kvs (fst e) = None" by (simp add: map_of_eq_None_iff)
  then show ?case using Cons by (cases e) (simp split: option.split)
qed simp

lemma jget_jset_fold:
  "jget (jset k' v (fold (\<lambda>(k, v). jset k v) kvs (JObj fs))) k =
     (if k = k' then Some v else jget (fold (\<lambda>(k, v). jset k v) kvs (JObj fs)) k)"
proof -
  have "\<exists>gs. fold (\<lambda>(k, v). jset k v) kvs (JObj fs) = JObj gs" by (induction kvs arbitrary: fs) auto
  then show ?thesis by auto
qed

lemma map_of_keyed_json:
  "map_of (keyed_json keys vals) k = map_option (\<lambda>l. jnum (the (map_of vals l))) (map_of keys k)"
  by (induction keys) (auto simp: keyed_json_def)

lemma keyed_json_keys [simp]: "map fst (keyed_json keys vals) = map fst keys"
  by (induction keys) (auto simp: keyed_json_def)

lemma swapped_value: "(l, f) \<in> set SWAPPED \<Longrightarrow> map_of (map (\<lambda>(l, f). (l, c f)) SWAPPED) l = Some (c f)"
  using counter_tables(1) by (force intro!: map_of_is_SomeI simp: comp_def split_beta)

lemma find_pair:
  "find (\<lambda>e. snd e = l) xs = Some (k, l') \<Longrightarrow> l' = l \<and> (k, l) \<in> set xs"
  by (induction xs) (auto split: if_splits)

lemma reported_tables:
  "list_all (\<lambda>f. case find (\<lambda>e. snd e = f) SWAPPED of None \<Rightarrow> False
     | Some (l, _) \<Rightarrow> find (\<lambda>e. snd e = l) COUNTER_KEYS \<noteq> None \<or> find (\<lambda>e. snd e = l) PTT_KEYS \<noteq> None) COUNTER_FIELDS"
  "map_of COUNTER_KEYS ''ptt'' = None" "map_of COUNTER_KEYS ''rr_diag'' = None"
  by code_simp+

abbreviation flush_vals :: "(string \<Rightarrow> u64) \<Rightarrow> (string \<times> u64) list" where
  "flush_vals c \<equiv> map (\<lambda>(l, f). (l, c f)) SWAPPED"

lemma flush_root:
  assumes "metrics_flush F avg rt now ts m = Some (j, m')"
  obtains fs root where "map_of fs ''ptt'' = Some (JObj (keyed_json PTT_KEYS (flush_vals (gm_counters m))))"
    "root = fold (\<lambda>(k, v). jset k v) (keyed_json COUNTER_KEYS (flush_vals (gm_counters m))) (JObj fs)"
    "j = root \<or> j = jset ''rr_diag'' (JArr (gm_rr_diag m)) root"
proof -
  obtain tj t where t: "tokio_sample F rt now (gm_tokio m) = Some (tj, t)"
    using assms by (auto simp: metrics_flush_def Let_def split_beta bind_eq_Some_conv)
  show thesis
    using assms by (intro that [OF _ refl]) (auto simp: metrics_flush_def Let_def split_beta t swap_counters_eq split: if_splits)
qed

lemma reported_flush:
  assumes flush: "metrics_flush F avg rt now ts m = Some (j, m')" and f: "f \<in> set COUNTER_FIELDS"
  shows "reported j f = Some (jnum (gm_counters m f))"
proof -
  let ?vals = "flush_vals (gm_counters m)"
  from flush_root [OF flush] obtain fs root where ptt: "map_of fs ''ptt'' = Some (JObj (keyed_json PTT_KEYS ?vals))"
    and r: "root = fold (\<lambda>(k, v). jset k v) (keyed_json COUNTER_KEYS ?vals) (JObj fs)"
    and j: "j = root \<or> j = jset ''rr_diag'' (JArr (gm_rr_diag m)) root" .
  have dist: "distinct (map fst (keyed_json COUNTER_KEYS ?vals))" by (simp add: counter_tables)
  have jr: "jget j k = jget root k" if "k \<noteq> ''rr_diag''" for k
    using j that unfolding r by (auto simp: jget_jset_fold simp del: jset.simps)
  have root: "jget j k = Some (jnum (the (map_of ?vals l)))" if "map_of COUNTER_KEYS k = Some l" for k l
  proof -
    have "k \<noteq> ''rr_diag''" using that reported_tables(3) by auto
    then show ?thesis using jr [of k] that unfolding r by (simp add: jget_fold_jset [OF dist] map_of_keyed_json)
  qed
  have root_ptt: "jget j ''ptt'' = Some (JObj (keyed_json PTT_KEYS ?vals))"
    using jr [of "''ptt''"] ptt unfolding r by (simp add: jget_fold_jset [OF dist] map_of_keyed_json reported_tables(2))
  obtain l where l: "find (\<lambda>e. snd e = f) SWAPPED = Some (l, f)"
    and key: "find (\<lambda>e. snd e = l) COUNTER_KEYS \<noteq> None \<or> find (\<lambda>e. snd e = l) PTT_KEYS \<noteq> None"
    using reported_tables(1) f find_pair by (fastforce simp: list_all_iff split: option.splits)
  have val: "map_of ?vals l = Some (gm_counters m f)" using find_pair [OF l] by (intro swapped_value) simp
  show ?thesis
  proof (cases "find (\<lambda>e. snd e = l) COUNTER_KEYS")
    case (Some e)
    then have "map_of COUNTER_KEYS (fst e) = Some l"
      using find_pair [of l COUNTER_KEYS "fst e" "snd e"] counter_tables(3) by (simp add: map_of_is_SomeI)
    then show ?thesis using Some by (cases e) (simp add: reported_def l root val)
  next
    case None
    then obtain e where e: "find (\<lambda>e. snd e = l) PTT_KEYS = Some e" using key by auto
    then have "map_of PTT_KEYS (fst e) = Some l"
      using find_pair [of l PTT_KEYS "fst e" "snd e"] counter_tables(4) by (simp add: map_of_is_SomeI)
    then show ?thesis using None e
      by (cases e) (simp add: reported_def l root_ptt map_of_keyed_json val)
  qed
qed

lemma metrics_flush_counters:
  "metrics_flush F avg rt now ts m = Some (j, m') \<Longrightarrow>
     gm_counters m' = (\<lambda>f. if f \<in> set COUNTER_FIELDS then 0 else gm_counters m f)"
  by (auto simp: metrics_flush_def Let_def bind_eq_Some_conv split_beta swap_counters_eq)

text \<open>The snapshot does not panic as long as the number of workers stays what it was at the first sample.\<close>

definition tokio_inv :: "nat \<Rightarrow> tokio_snapshot \<Rightarrow> bool" where
  "tokio_inv n s \<longleftrightarrow> length (prev_busy s) \<in> {0, n} \<and> length (prev_poll_count s) = length (prev_busy s) \<and>
     length (prev_steal_count s) = length (prev_busy s) \<and> length (prev_noop_count s) = length (prev_busy s)"

lemma sample_workers_total:
  assumes "tokio_inv n s" "length (prev_busy s) = n" "\<forall>i\<in>set is. i < n"
  shows "\<exists>s' t js'. sample_workers F rt e is (s, t0, js) = Some (s', t, js') \<and> tokio_inv n s'"
  using assms
proof (induction "is" arbitrary: s t0 js)
  case (Cons i "is")
  then obtain s1 t1 js1 where "sample_worker F rt e i (s, t0, js) = Some (s1, t1, js1)" "tokio_inv n s1" "length (prev_busy s1) = n"
    by (auto simp: sample_worker_def prev_delta_def tokio_inv_def Let_def)
  then show ?case using Cons.IH [of s1 t1 js1] Cons.prems(3) by simp
qed simp

lemma tokio_sample_total:
  assumes "tokio_inv (rm_workers rt) s"
  shows "\<exists>j s'. tokio_sample F rt now s = Some (j, s') \<and> tokio_inv (rm_workers rt) s'"
proof -
  have "tokio_inv (rm_workers rt) (sample_init rt s)" "length (prev_busy (sample_init rt s)) = rm_workers rt"
    using assms by (auto simp: tokio_inv_def sample_init_def Let_def)
  then obtain s1 t js where "sample_workers F rt (max 1 ((now - last_sampled s) div 1000)) [0..<rm_workers rt]
      (sample_init rt s, 0, []) = Some (s1, t, js)" "tokio_inv (rm_workers rt) s1"
    using sample_workers_total by (metis atLeastLessThan_iff set_upt)
  then show ?thesis by (simp add: tokio_sample_def Let_def) (simp add: tokio_inv_def)
qed

lemma metrics_flush_total:
  assumes "tokio_inv (rm_workers rt) (gm_tokio m)"
  shows "\<exists>j m'. metrics_flush F avg rt now ts m = Some (j, m') \<and> tokio_inv (rm_workers rt) (gm_tokio m')"
proof -
  obtain tj t where "tokio_sample F rt now (gm_tokio m) = Some (tj, t)" "tokio_inv (rm_workers rt) t"
    using tokio_sample_total [OF assms] by blast
  then show ?thesis by (simp add: metrics_flush_def Let_def split_beta)
qed

text \<open>A history of the store: counts and flushes, and the reports they produce.\<close>

datatype gm_event = Count string u64 | Fan_out u32 | Flush runtime_metrics instant u64

fun gm_run ::
  "ratio_formats \<Rightarrow> (u64 \<Rightarrow> u64 \<Rightarrow> string) \<Rightarrow> gm_event list \<Rightarrow> global_metrics \<Rightarrow> (json list \<times> global_metrics) option" where
  "gm_run F avg [] m = Some ([], m)"
| "gm_run F avg (Count f n # evs) m = gm_run F avg evs (gm_count f n m)"
| "gm_run F avg (Fan_out n # evs) m = gm_run F avg evs (record_fan_out n m)"
| "gm_run F avg (Flush rt now ts # evs) m = do {
     (j, m1) \<leftarrow> metrics_flush F avg rt now ts m;
     (js, m2) \<leftarrow> gm_run F avg evs m1;
     Some (j # js, m2) }"

fun counted :: "string \<Rightarrow> gm_event \<Rightarrow> u64" where
  "counted f (Count g n) = (if g = f then n else 0)"
| "counted f _ = 0"

fun json_u64 :: "json option \<Rightarrow> u64" where
  "json_u64 (Some (JNum n)) = word_of_int n"
| "json_u64 _ = 0"

text \<open>
  C32: The flush loses no count: over any history of counts and flushes on a runtime with a fixed number
  of workers, no flush panics, and for every counter the values the reports give for it and what is left in it
  add up to what was there and what was counted, modulo 2 to the power of 64.
\<close>

theorem flush_loses_no_count:
  assumes f: "f \<in> set COUNTER_FIELDS" and inv: "tokio_inv n (gm_tokio m)"
    and workers: "\<forall>rt now ts. Flush rt now ts \<in> set evs \<longrightarrow> rm_workers rt = n"
  shows "\<exists>js m'. gm_run F avg evs m = Some (js, m') \<and>
    (\<Sum>j\<leftarrow>js. json_u64 (reported j f)) + gm_counters m' f = gm_counters m f + (\<Sum>ev\<leftarrow>evs. counted f ev)"
  using inv workers
proof (induction evs arbitrary: m)
  case (Cons ev evs)
  show ?case
  proof (cases ev)
    case (Count g k)
    then obtain js m' where "gm_run F avg evs (gm_count g k m) = Some (js, m')"
      "(\<Sum>j\<leftarrow>js. json_u64 (reported j f)) + gm_counters m' f = gm_counters (gm_count g k m) f + (\<Sum>ev\<leftarrow>evs. counted f ev)"
      using Cons.IH [of "gm_count g k m"] Cons.prems by (auto simp: gm_count_def)
    then show ?thesis using Count by (auto simp: gm_count_def)
  next
    case (Fan_out k)
    then show ?thesis using Cons.IH [of "record_fan_out k m"] Cons.prems by (auto simp: record_fan_out_def)
  next
    case (Flush rt now ts)
    have rest: "\<forall>rt now ts. gm_event.Flush rt now ts \<in> set evs \<longrightarrow> rm_workers rt = n" using Cons.prems(2) by simp
    have "rm_workers rt = n" using Flush Cons.prems(2) by auto
    then obtain j m1 where fl: "metrics_flush F avg rt now ts m = Some (j, m1)" and inv1: "tokio_inv n (gm_tokio m1)"
      using metrics_flush_total [of rt m] Cons.prems(1) by blast
    then obtain js m' where "gm_run F avg evs m1 = Some (js, m')"
      "(\<Sum>j\<leftarrow>js. json_u64 (reported j f)) + gm_counters m' f = gm_counters m1 f + (\<Sum>ev\<leftarrow>evs. counted f ev)"
      using Cons.IH [OF inv1 rest] by blast
    then show ?thesis
      using Flush fl reported_flush [OF fl f] metrics_flush_counters [OF fl] f by (simp add: algebra_simps)
  qed
qed simp

definition demo_runtime :: runtime_metrics where
  "demo_runtime = \<lparr> rm_workers = 2, rm_busy = (\<lambda>i. 5000), rm_polls = (\<lambda>i. 7), rm_steals = (\<lambda>i. 1), rm_noops = (\<lambda>i. 0),
     rm_budget_yield = 0, rm_io_ready = 3, rm_alive_tasks = 9, rm_global_queue = 0, rm_blocking_threads = 1 \<rparr>"

definition demo_history :: "gm_event list" where
  "demo_history = [Count ''pli_sent'' 2, Flush demo_runtime 1 1, Count ''pli_sent'' 3, Fan_out 4, Count ''rtx_sent'' 1,
     Flush demo_runtime 2 2, Count ''pli_sent'' 1]"

theorem flush_loses_no_count_witness:
  "\<exists>js m'. gm_run \<lparr> rf_worker = \<lambda>a b. ''0'', rf_overall = \<lambda>a b c. ''0'' \<rparr> (\<lambda>a b. ''0'') demo_history
       (gm_new 0 (env_capture False None None ''1'' 2 TwccMode)) = Some (js, m') \<and>
     (\<Sum>j\<leftarrow>js. json_u64 (reported j ''pli_sent'')) + gm_counters m' ''pli_sent'' = 6"
proof -
  have f: "''pli_sent'' \<in> set COUNTER_FIELDS" by code_simp
  have "tokio_inv 2 (gm_tokio (gm_new 0 meta))" for meta by (simp add: gm_new_def tokio_new_def tokio_inv_def)
  from flush_loses_no_count [OF f this, of demo_history] show ?thesis
    by (simp add: gm_new_def demo_history_def demo_runtime_def)
qed

end
