(* ===== verification/Dtls.thy ===== *)
theory Dtls
  imports Participant
begin

text \<open>
  What surrounds the DTLS and SRTP libraries: the key layout and the fingerprint of \<open>transport/dtls.rs\<close>, the
  contexts of \<open>transport/srtp.rs\<close> and the channel adapter of \<open>transport/demux_conn.rs\<close>. The libraries themselves
  are parameters: \<open>'c\<close> is a context of webrtc-srtp, whose operations return the changed context with a
  result or an error text; SHA-256 and the exporter of the key material are arguments.
\<close>

section \<open>SRTP contexts\<close>

record 'c srtp_lib =
  lib_new :: "bytes \<Rightarrow> bytes \<Rightarrow> 'c option"
  lib_decrypt_rtp :: "'c \<Rightarrow> bytes \<Rightarrow> 'c \<times> (string + bytes)"
  lib_decrypt_rtcp :: "'c \<Rightarrow> bytes \<Rightarrow> 'c \<times> (string + bytes)"
  lib_encrypt_rtp :: "'c \<Rightarrow> bytes \<Rightarrow> 'c \<times> (string + bytes)"
  lib_encrypt_rtcp :: "'c \<Rightarrow> bytes \<Rightarrow> 'c \<times> (string + bytes)"

datatype srtp_error = DecryptFailed string | EncryptFailed string | KeyNotInstalled

fun srtp_error_string :: "srtp_error \<Rightarrow> string" where
  "srtp_error_string (DecryptFailed m) = ''SRTP decrypt failed: '' @ m"
| "srtp_error_string (EncryptFailed m) = ''SRTP encrypt failed: '' @ m"
| "srtp_error_string KeyNotInstalled = ''SRTP key not installed''"

type_synonym 'c srtp_context = "'c option"

definition srtp_new :: "'c srtp_context" where
  "srtp_new = None"

text \<open>A key that the library refuses leaves the context as it was.\<close>

definition install_key :: "'c srtp_lib \<Rightarrow> bytes \<Rightarrow> bytes \<Rightarrow> 'c srtp_context \<Rightarrow> 'c srtp_context" where
  "install_key L key salt c = (case lib_new L key salt of Some x \<Rightarrow> Some x | None \<Rightarrow> c)"

definition srtp_is_ready :: "'c srtp_context \<Rightarrow> bool" where
  "srtp_is_ready c \<longleftrightarrow> c \<noteq> None"

definition with_context ::
  "('c \<Rightarrow> bytes \<Rightarrow> 'c \<times> (string + bytes)) \<Rightarrow> (string \<Rightarrow> srtp_error) \<Rightarrow> bytes \<Rightarrow> 'c srtp_context
     \<Rightarrow> (srtp_error + bytes) \<times> 'c srtp_context" where
  "with_context f err packet c =
     (case c of
        None \<Rightarrow> (Inl KeyNotInstalled, None)
      | Some x \<Rightarrow> (case f x packet of (x', Inl e) \<Rightarrow> (Inl (err e), Some x') | (x', Inr b) \<Rightarrow> (Inr b, Some x')))"

definition decrypt_rtp where "decrypt_rtp L = with_context (lib_decrypt_rtp L) DecryptFailed"
definition decrypt_rtcp where "decrypt_rtcp L = with_context (lib_decrypt_rtcp L) DecryptFailed"
definition encrypt_rtp where "encrypt_rtp L = with_context (lib_encrypt_rtp L) EncryptFailed"
definition encrypt_rtcp where "encrypt_rtcp L = with_context (lib_encrypt_rtcp L) EncryptFailed"

section \<open>Keys\<close>

definition SRTP_MASTER_KEY_LEN :: nat where [simp]: "SRTP_MASTER_KEY_LEN = 16"
definition SRTP_MASTER_SALT_LEN :: nat where [simp]: "SRTP_MASTER_SALT_LEN = 14"
definition SRTP_KEY_MATERIAL_LEN :: nat where [simp]: "SRTP_KEY_MATERIAL_LEN = (SRTP_MASTER_KEY_LEN + SRTP_MASTER_SALT_LEN) * 2"

record srtp_key_material =
  km_client_key :: bytes
  km_server_key :: bytes
  km_client_salt :: bytes
  km_server_salt :: bytes

text \<open>
  \<open>exported\<close> is what the library exports for the label and the length. \<open>None\<close> is the panic of a slice out of
  range, when it exports less than the first three parts need.
\<close>

definition export_srtp_keys :: "string + bytes \<Rightarrow> (string + srtp_key_material) option" where
  "export_srtp_keys exported =
     (case exported of
        Inl e \<Rightarrow> Some (Inl (''export_keying_material failed: '' @ e))
      | Inr material \<Rightarrow>
          (let k = SRTP_MASTER_KEY_LEN; s = SRTP_MASTER_SALT_LEN
           in do { client_key \<leftarrow> slice material 0 k;
                   server_key \<leftarrow> slice material k (k * 2);
                   client_salt \<leftarrow> slice material (k * 2) (k * 2 + s);
                   server_salt \<leftarrow> slice material (k * 2 + s) (length material);
                   Some (Inr \<lparr> km_client_key = client_key, km_server_key = server_key,
                               km_client_salt = client_salt, km_server_salt = server_salt \<rparr>) }))"

text \<open>The inbound and the outbound context of a session get the keys of the client and of the server.\<close>

definition install_session_keys ::
  "'c srtp_lib \<Rightarrow> srtp_key_material \<Rightarrow> 'c srtp_context \<times> 'c srtp_context \<Rightarrow> 'c srtp_context \<times> 'c srtp_context" where
  "install_session_keys L km s =
     (install_key L (km_client_key km) (km_client_salt km) (fst s), install_key L (km_server_key km) (km_server_salt km) (snd s))"

section \<open>The fingerprint\<close>

definition hex_char :: "bool \<Rightarrow> nat \<Rightarrow> char" where
  "hex_char upper n = (if n < 10 then char_of (48 + n) else if upper then char_of (55 + n) else char_of (87 + n))"

definition hex :: "bool \<Rightarrow> nat \<Rightarrow> nat \<Rightarrow> string" where
  "hex upper digits n = map (\<lambda>i. hex_char upper (n div 16 ^ i mod 16)) (rev [0..<digits])"

fun join :: "string \<Rightarrow> string list \<Rightarrow> string" where
  "join sep [] = []"
| "join sep [x] = x"
| "join sep (x # y # zs) = x @ sep @ join sep (y # zs)"

definition sha256_fingerprint :: "(bytes \<Rightarrow> bytes) \<Rightarrow> bytes \<Rightarrow> string" where
  "sha256_fingerprint sha der = ''sha-256 '' @ join '':'' (map (\<lambda>b. hex True 2 (unat b)) (sha der))"

definition generate_fingerprint :: "(bytes \<Rightarrow> bytes) \<Rightarrow> bytes list \<Rightarrow> string" where
  "generate_fingerprint sha certificate = sha256_fingerprint sha (case certificate of c # _ \<Rightarrow> c | [] \<Rightarrow> [])"

section \<open>The channel adapter\<close>

text \<open>
  The receiving end of the channel that the UDP worker feeds. A read takes the oldest packet and cuts it to
  the buffer; on an empty channel it waits (\<open>None\<close>) unless the sending end is gone. What is sent goes to the peer,
  whatever target is named.
\<close>

record demux_conn =
  dc_peer :: socket_addr
  dc_rx :: "bytes list"
  dc_closed :: bool

definition demux_new :: "socket_addr \<Rightarrow> demux_conn" where
  "demux_new peer = \<lparr> dc_peer = peer, dc_rx = [], dc_closed = False \<rparr>"

definition demux_feed :: "bytes \<Rightarrow> demux_conn \<Rightarrow> demux_conn" where
  "demux_feed data c = c\<lparr> dc_rx := dc_rx c @ [data] \<rparr>"

definition demux_recv :: "nat \<Rightarrow> demux_conn \<Rightarrow> ((string + bytes) \<times> demux_conn) option" where
  "demux_recv buf_len c =
     (case dc_rx c of
        data # rest \<Rightarrow> Some (Inr (take (min (length data) buf_len) data), c\<lparr> dc_rx := rest \<rparr>)
      | [] \<Rightarrow> if dc_closed c then Some (Inl ''dtls rx channel closed'', c) else None)"

definition demux_recv_from :: "nat \<Rightarrow> demux_conn \<Rightarrow> ((string + bytes \<times> socket_addr) \<times> demux_conn) option" where
  "demux_recv_from buf_len c =
     map_option (\<lambda>(res, c'). (case res of Inl e \<Rightarrow> Inl e | Inr b \<Rightarrow> Inr (b, dc_peer c), c')) (demux_recv buf_len c)"

definition demux_send_to :: "bytes \<Rightarrow> socket_addr \<Rightarrow> demux_conn \<Rightarrow> bytes \<times> socket_addr" where
  "demux_send_to buf target c = (buf, dc_peer c)"

definition demux_remote_addr :: "demux_conn \<Rightarrow> socket_addr option" where
  "demux_remote_addr c = Some (dc_peer c)"

section \<open>Lemmas\<close>

lemmas srtp_ops = decrypt_rtp_def decrypt_rtcp_def encrypt_rtp_def encrypt_rtcp_def with_context_def

lemma no_key_no_media:
  "decrypt_rtp L p srtp_new = (Inl KeyNotInstalled, srtp_new)" "encrypt_rtp L p srtp_new = (Inl KeyNotInstalled, srtp_new)"
  "decrypt_rtcp L p srtp_new = (Inl KeyNotInstalled, srtp_new)" "encrypt_rtcp L p srtp_new = (Inl KeyNotInstalled, srtp_new)"
  by (simp_all add: srtp_ops srtp_new_def)

text \<open>The sessions of a participant record only whether their contexts are ready.\<close>

lemma install_session_keys_ready:
  assumes "ms_inbound_ready s = srtp_is_ready i" "ms_outbound_ready s = srtp_is_ready out"
    and "install_session_keys L km (i, out) = (i', out')"
  shows "ms_inbound_ready (install_srtp_keys (lib_new L (km_client_key km) (km_client_salt km) \<noteq> None)
      (lib_new L (km_server_key km) (km_server_salt km) \<noteq> None) s) = srtp_is_ready i'"
    and "ms_outbound_ready (install_srtp_keys (lib_new L (km_client_key km) (km_client_salt km) \<noteq> None)
      (lib_new L (km_server_key km) (km_server_salt km) \<noteq> None) s) = srtp_is_ready out'"
  using assms
  by (cases "lib_new L (km_client_key km) (km_client_salt km)"; cases "lib_new L (km_server_key km) (km_server_salt km)";
      auto simp: install_session_keys_def install_key_def install_srtp_keys_def srtp_is_ready_def)+

lemma export_srtp_keys_Inr:
  "export_srtp_keys (Inr m) = (if length m < 46 then None else Some (Inr
     \<lparr> km_client_key = take 16 m, km_server_key = take 16 (drop 16 m), km_client_salt = take 14 (drop 32 m),
       km_server_salt = drop 46 m \<rparr>))"
  by (auto simp: export_srtp_keys_def slice_def Let_def)

section \<open>Properties\<close>

text \<open>
  What the library promises: two contexts made from the same key and salt fit together, and a
  packet protected by the one is restored by the other. \<open>valid\<close> tells which packets it takes.
\<close>

definition srtp_library :: "(bytes \<Rightarrow> bool) \<Rightarrow> 'c srtp_lib \<Rightarrow> bool" where
  "srtp_library valid L \<longleftrightarrow> (\<forall>key salt. length key = 16 \<longrightarrow> length salt = 14 \<longrightarrow>
     (\<exists>c. lib_new L key salt = Some c \<and>
        (\<forall>p. valid p \<longrightarrow> (\<exists>enc c'. lib_encrypt_rtp L c p = (c', Inr enc) \<and> (\<exists>c''. lib_decrypt_rtp L c enc = (c'', Inr p))))))"

text \<open>
  C39: Both ends derive matching keys: the 60 bytes that the DTLS handshake exports always make a key set, every byte is in
  exactly one of its four parts, the session becomes ready in both directions, and a client that sends under the client's part
  and receives under the server's is understood by the server and understands it. An export of fewer than 46 bytes,
  and no other, panics.
\<close>

theorem peers_understand_each_other:
  assumes "srtp_library valid L" "length material = SRTP_KEY_MATERIAL_LEN" "valid p"
  shows "(\<exists>km inb out. export_srtp_keys (Inr material) = Some (Inr km) \<and>
      install_session_keys L km (srtp_new, srtp_new) = (inb, out) \<and>
      km_client_key km @ km_server_key km @ km_client_salt km @ km_server_salt km = material \<and>
      srtp_is_ready inb \<and> srtp_is_ready out \<and>
      (\<exists>enc c. encrypt_rtp L p (install_key L (km_client_key km) (km_client_salt km) srtp_new) = (Inr enc, c) \<and>
         fst (decrypt_rtp L enc inb) = Inr p) \<and>
      (\<exists>enc c. encrypt_rtp L p out = (Inr enc, c) \<and>
         fst (decrypt_rtp L enc (install_key L (km_server_key km) (km_server_salt km) srtp_new)) = Inr p)) \<and>
    (\<forall>exported. export_srtp_keys exported = None \<longleftrightarrow> (\<exists>m. exported = Inr m \<and> length m < 46))"
proof -
  have len: "length material = 60" using assms(2) by simp
  define km where km: "km = \<lparr> km_client_key = take 16 material, km_server_key = take 16 (drop 16 material),
      km_client_salt = take 14 (drop 32 material), km_server_salt = drop 46 material \<rparr>"
  have exp: "export_srtp_keys (Inr material) = Some (Inr km)" using len by (simp add: export_srtp_keys_Inr km)
  obtain inb out where inst: "install_session_keys L km (srtp_new, srtp_new) = (inb, out)" by fastforce
  have parts: "take 16 m @ take 16 (drop 16 m) @ take 14 (drop 32 m) @ drop 46 m = m" for m :: bytes
  proof -
    have "drop 46 m = drop 14 (drop 32 m)" "drop 32 m = drop 16 (drop 16 m)" by simp_all
    then show ?thesis by (simp only: append_take_drop_id)
  qed
  have ctx: "\<exists>c. lib_new L key salt = Some c \<and> (\<exists>enc c'. lib_encrypt_rtp L c p = (c', Inr enc) \<and> (\<exists>c''. lib_decrypt_rtp L c enc = (c'', Inr p)))"
    if "length key = 16" "length salt = 14" for key salt
    using assms(1,3) that by (force simp: srtp_library_def)
  have "length (km_client_key km) = 16" "length (km_client_salt km) = 14" "length (km_server_key km) = 16" "length (km_server_salt km) = 14"
    by (simp_all add: km len)
  from ctx [OF this(1,2)] ctx [OF this(3,4)] inst
  have "km_client_key km @ km_server_key km @ km_client_salt km @ km_server_salt km = material \<and>
      srtp_is_ready inb \<and> srtp_is_ready out \<and>
      (\<exists>enc c. encrypt_rtp L p (install_key L (km_client_key km) (km_client_salt km) srtp_new) = (Inr enc, c) \<and>
         fst (decrypt_rtp L enc inb) = Inr p) \<and>
      (\<exists>enc c. encrypt_rtp L p out = (Inr enc, c) \<and>
         fst (decrypt_rtp L enc (install_key L (km_server_key km) (km_server_salt km) srtp_new)) = Inr p)"
    by (auto simp: install_session_keys_def install_key_def srtp_is_ready_def srtp_ops km parts)
  moreover have "export_srtp_keys exported = None \<longleftrightarrow> (\<exists>m. exported = Inr m \<and> length m < 46)" for exported
    by (cases exported) (simp_all add: export_srtp_keys_Inr, simp add: export_srtp_keys_def)
  ultimately show ?thesis using exp inst by blast
qed

text \<open>A toy library: a context is its key, and a protected packet carries it in front.\<close>

definition toy_srtp :: "bytes srtp_lib" where
  "toy_srtp = (let enc = (\<lambda>c p. (c, Inr (c @ p)));
                   dec = (\<lambda>c p. (c, if take (length c) p = c then Inr (drop (length c) p) else Inl ''bad tag''))
               in \<lparr> lib_new = (\<lambda>k s. Some (k @ s)), lib_decrypt_rtp = dec, lib_decrypt_rtcp = dec, lib_encrypt_rtp = enc,
                    lib_encrypt_rtcp = enc \<rparr>)"

theorem peers_understand_each_other_witness:
  "\<exists>km inb out. export_srtp_keys (Inr (replicate 60 7)) = Some (Inr km) \<and>
     install_session_keys toy_srtp km (srtp_new, srtp_new) = (inb, out) \<and> srtp_is_ready inb \<and> srtp_is_ready out"
proof -
  have "srtp_library (\<lambda>_. True) toy_srtp" by (simp add: srtp_library_def toy_srtp_def Let_def)
  then show ?thesis using peers_understand_each_other [of "\<lambda>_. True" toy_srtp "replicate 60 7" "[]"] by auto
qed

end
