(* ===== verification/Udp.thy ===== *)
theory Udp
  imports Egress Stun Metrics Dtls
begin

text \<open>
  The UDP worker of \<open>transport/udp/mod.rs\<close>: demultiplexing, the STUN and DTLS paths, what a finished
  DTLS handshake does to the session, the three-second flush, and the turns of the receive loop. A DTLS session is
  known by the number of its packet channel; the handshake itself is the DTLS library's, so its end is an
  event with the verdicts on the exported keys. Whether a channel is closed is a function of its number.
\<close>

section \<open>State\<close>

type_synonym dtls_session_map = "(socket_addr, nat) dmap"

definition dtls_inject :: "(nat \<Rightarrow> bool) \<Rightarrow> socket_addr \<Rightarrow> dtls_session_map \<Rightarrow> nat option" where
  "dtls_inject closed addr m = (case dm_get m addr of Some tx \<Rightarrow> if closed tx then None else Some tx | None \<Rightarrow> None)"

definition dtls_has :: "socket_addr \<Rightarrow> dtls_session_map \<Rightarrow> bool" where
  "dtls_has addr m \<longleftrightarrow> dm_get m addr \<noteq> None"

definition remove_stale :: "(nat \<Rightarrow> bool) \<Rightarrow> dtls_session_map \<Rightarrow> dtls_session_map" where
  "remove_stale closed m = filter (\<lambda>e. \<not> closed (snd e)) m"

record handshake =
  hs_channel :: nat
  hs_participant :: pref
  hs_pc :: pc_type
  hs_remote :: socket_addr

text \<open>
  A worker. \<open>u_channels\<close> counts the channels made so far; \<open>u_inbox\<close> lists what was put on them and
  \<open>u_handshakes\<close> the handshake tasks spawned.
\<close>

record udp_transport =
  u_dtls :: dtls_session_map
  u_pkt_count :: u64
  u_worker_id :: u8
  u_bwe_mode :: bwe_mode
  u_remb_bitrate :: u64
  u_channels :: nat
  u_inbox :: "(nat \<times> bytes) list"
  u_handshakes :: "handshake list"

definition from_socket_with_id :: "u8 \<Rightarrow> bwe_mode \<Rightarrow> u64 \<Rightarrow> udp_transport" where
  "from_socket_with_id worker_id mode remb_bitrate =
     \<lparr> u_dtls = [], u_pkt_count = 0, u_worker_id = worker_id, u_bwe_mode = mode, u_remb_bitrate = remb_bitrate,
       u_channels = 0, u_inbox = [], u_handshakes = [] \<rparr>"

text \<open>\<open>bind\<close> opens the socket itself; \<open>res\<close> is its error, if any.\<close>

definition from_socket :: udp_transport where
  "from_socket = from_socket_with_id 0 TwccMode REMB_BITRATE_BPS"

definition transport_bind :: "string option \<Rightarrow> string + udp_transport" where
  "transport_bind res =
     (case res of
        Some e \<Rightarrow> Inl e
      | None \<Rightarrow> Inr \<lparr> u_dtls = [], u_pkt_count = 0, u_worker_id = 0, u_bwe_mode = TwccMode, u_remb_bitrate = REMB_BITRATE_BPS,
                      u_channels = 0, u_inbox = [], u_handshakes = [] \<rparr>)"

text \<open>What the worker reads from outside: HMAC-SHA1, CRC-32, closed channels, and whether trace lines are logged.\<close>

record 'f net =
  n_env :: "'f env"
  n_hmac :: "bytes \<Rightarrow> bytes \<Rightarrow> bytes"
  n_crc :: "bytes \<Rightarrow> u32"
  n_closed :: "nat \<Rightarrow> bool"
  n_trace :: bool

definition resolve_worker_count :: "nat \<Rightarrow> nat option \<Rightarrow> nat" where
  "resolve_worker_count configured parallelism =
     (if 0 < configured then configured else case parallelism of Some n \<Rightarrow> n | None \<Rightarrow> 1)"

section \<open>STUN and DTLS\<close>

definition inject :: "'f net \<Rightarrow> socket_addr \<Rightarrow> bytes \<Rightarrow> udp_transport \<Rightarrow> bool \<times> udp_transport" where
  "inject N addr data u =
     (case dtls_inject (n_closed N) addr (u_dtls u) of
        Some tx \<Rightarrow> (True, u\<lparr> u_inbox := u_inbox u @ [(tx, data)] \<rparr>)
      | None \<Rightarrow> (False, u))"

definition start_dtls_handshake :: "socket_addr \<Rightarrow> pref \<Rightarrow> pc_type \<Rightarrow> udp_transport \<Rightarrow> udp_transport" where
  "start_dtls_handshake remote r pc u =
     u\<lparr> u_dtls := dm_insert remote (u_channels u) (u_dtls u), u_channels := Suc (u_channels u),
        u_handshakes := u_handshakes u @
          [\<lparr> hs_channel = u_channels u, hs_participant = r, hs_pc = pc, hs_remote = remote \<rparr>] \<rparr>"

text \<open>The part of \<open>handle_stun\<close> before the integrity check: the session latched and touched.\<close>

definition stun_latch :: "'f net \<Rightarrow> string \<Rightarrow> socket_addr \<Rightarrow> 'f world \<Rightarrow> (pref \<times> pc_type \<times> 'f world) option" where
  "stun_latch N server_ufrag remote w =
     do { (r, pc, rid, heap, hub) \<leftarrow> latch_by_ufrag server_ufrag remote (w_heap w) (w_hub w);
          Some (r, pc, update_part r (touch (e_now_ms (n_env N))) (w\<lparr> w_heap := heap, w_hub := hub \<rparr>)) }"

text \<open>The part after the latch: integrity check, answer, and the handshake that a nominated pair starts.\<close>

definition stun_answer ::
  "'f net \<Rightarrow> stun_message \<Rightarrow> pref \<Rightarrow> pc_type \<Rightarrow> socket_addr \<Rightarrow> udp_transport \<Rightarrow> 'f world \<Rightarrow> (udp_transport \<times> 'f world) option" where
  "stun_answer N msg r pc remote u w = do {
     let key = ice_integrity_key (ms_ice_pwd (session (part w r) pc));
     ok \<leftarrow> verify_message_integrity (n_hmac N) msg key;
     if \<not> ok then Some (u, w)
     else do {
       let response = build_binding_response (n_hmac N) (n_crc N) (transaction_id msg) remote key;
       let w1 = (if e_send_ok (n_env N) response remote then udp_send response remote w else w);
       Some (if has_use_candidate msg \<and> \<not> dtls_has remote (u_dtls u)
             then start_dtls_handshake remote r pc u else u, w1) } }"

definition handle_stun ::
  "'f net \<Rightarrow> bytes \<Rightarrow> socket_addr \<Rightarrow> udp_transport \<Rightarrow> 'f world \<Rightarrow> (udp_transport \<times> 'f world) option" where
  "handle_stun N buf remote u w = do {
     parsed \<leftarrow> stun_parse buf;
     (case parsed of
        None \<Rightarrow> Some (u, w)
      | Some msg \<Rightarrow>
          if msg_type msg \<noteq> BINDING_REQUEST then Some (u, w)
          else (case username msg of
                  None \<Rightarrow> Some (u, w)
                | Some un \<Rightarrow>
                    (case stun_latch N (takeWhile (\<lambda>c. c \<noteq> CHR '':'') un) remote w of
                       None \<Rightarrow> Some (u, w)
                     | Some (r, pc, w1) \<Rightarrow> stun_answer N msg r pc remote u w1))) }"

definition handle_dtls :: "'f net \<Rightarrow> bytes \<Rightarrow> socket_addr \<Rightarrow> udp_transport \<Rightarrow> 'f world \<Rightarrow> udp_transport" where
  "handle_dtls N data remote u w =
     (case inject N remote data u of
        (True, u1) \<Rightarrow> u1
      | (False, u1) \<Rightarrow>
          (case find_by_addr (w_hub w) remote of
             None \<Rightarrow> u1
           | Some (r, pc, rid) \<Rightarrow> snd (inject N remote data (start_dtls_handshake remote r pc u1))))"

text \<open>
  The end of a successful handshake whose keys could be exported: the keys are installed, and a subscribe
  session starts its egress task and asks the publishers of the room for keyframes.
\<close>

definition handshake_done :: "'f env \<Rightarrow> bool \<Rightarrow> bool \<Rightarrow> pref \<Rightarrow> pc_type \<Rightarrow> 'f world \<Rightarrow> 'f world" where
  "handshake_done E in_ok out_ok r pc w =
     (let w1 = update_part r (update_session pc (install_srtp_keys in_ok out_ok)) w
      in if pc \<noteq> Subscribe then w1
         else (let w2 = update_part r (\<lambda>p. p\<lparr> p_egress_rx := False \<rparr>) w1
               in case hub_get (w_hub w2) (p_room_id (part w2 r)) of
                    Inr room \<Rightarrow> send_pli_to_publishers E room (p_user_id (part w2 r)) w2
                  | Inl _ \<Rightarrow> w2))"

text \<open>
  The handshake task: the library gives a connection within ten seconds, an error, or nothing, and the connection exports
  the key material or fails to. \<open>accepts\<close> tells whether the SRTP library takes a key and a salt. \<open>None\<close> is the panic of the
  export, which ends the task before it touches the session.
\<close>

datatype dtls_outcome = Connected "string + bytes" | Handshake_failed string | Timed_out

definition handshake_task ::
  "'f env \<Rightarrow> (bytes \<Rightarrow> bytes \<Rightarrow> bool) \<Rightarrow> dtls_outcome \<Rightarrow> pref \<Rightarrow> pc_type \<Rightarrow> 'f world \<Rightarrow> 'f world option" where
  "handshake_task E accepts outcome r pc w =
     (case outcome of
        Connected exported \<Rightarrow>
          do { keys \<leftarrow> export_srtp_keys exported;
               Some (case keys of
                       Inl e \<Rightarrow> w
                     | Inr km \<Rightarrow> handshake_done E (accepts (km_client_key km) (km_client_salt km))
                                   (accepts (km_server_key km) (km_server_salt km)) r pc w) }
      | Handshake_failed e \<Rightarrow> Some w
      | Timed_out \<Rightarrow> Some w)"

text \<open>The task then keeps the connection until a read gives nothing or fails: what is left of the reads when it ends.\<close>

fun keepalive :: "(string + nat) list \<Rightarrow> (string + nat) list option" where
  "keepalive [] = None"
| "keepalive (Inl e # reads) = Some reads"
| "keepalive (Inr n # reads) = (if n = 0 then Some reads else keepalive reads)"

section \<open>The flush\<close>

definition reset_budget :: "pref \<Rightarrow> 'f world \<Rightarrow> 'f world" where
  "reset_budget r w = update_part r (\<lambda>p. p\<lparr> p_rtx_budget_used := 0 \<rparr>) w"

definition end_active_session :: "room \<Rightarrow> room" where
  "end_active_session room = (if r_participants room = [] then room\<lparr> r_active_since := 0 \<rparr> else room)"

definition flush_metrics :: "'f world \<Rightarrow> 'f world" where
  "flush_metrics w =
     (let w0 = for_participants reset_budget w; w1 = w0\<lparr> w_metrics := snd (swap_counters (w_metrics w0)) \<rparr>
      in w1\<lparr> w_hub := (w_hub w1)\<lparr> h_rooms := map (\<lambda>e. (fst e, end_active_session (snd e))) (h_rooms (w_hub w1)) \<rparr> \<rparr>)"

text \<open>
  What the flush sends to the admin side: the report of the metric store with the pipeline counters of every
  participant of a room that is not empty. An insert under a key already there replaces the value.
\<close>

definition pipeline_json :: "pipeline_snapshot \<Rightarrow> json" where
  "pipeline_json s = JObj
     [(''pub_rtp_in'', jnum (sn_pub_rtp_in s)), (''pub_rtp_gated'', jnum (sn_pub_rtp_gated s)),
      (''pub_rtp_rewritten'', jnum (sn_pub_rtp_rewritten s)), (''pub_video_pending'', jnum (sn_pub_video_pending s)),
      (''pub_pli_received'', jnum (sn_pub_pli_received s)), (''sub_rtp_relayed'', jnum (sn_sub_rtp_relayed s)),
      (''sub_rtp_dropped'', jnum (sn_sub_rtp_dropped s)), (''sub_sr_relayed'', jnum (sn_sub_sr_relayed s)),
      (''sub_nack_sent'', jnum (sn_sub_nack_sent s)), (''sub_rtx_received'', jnum (sn_sub_rtx_received s))]"

definition room_pipeline :: "'f world \<Rightarrow> room \<Rightarrow> json" where
  "room_pipeline w room =
     fold (\<lambda>r. jset (p_user_id (part w r)) (jset ''since'' (jnum (p_joined_at (part w r))) (pipeline_json (snapshot (p_pipeline (part w r))))))
       (all_participants room) (JObj [(''_active_since'', jnum (r_active_since room))])"

definition flush_report :: "json \<Rightarrow> 'f world \<Rightarrow> json" where
  "flush_report j w =
     (case filter (\<lambda>e. r_participants (snd e) \<noteq> []) (h_rooms (w_hub w)) of
        [] \<Rightarrow> j
      | es \<Rightarrow> jset ''pipeline'' (fold (\<lambda>e. jset (r_id (snd e)) (room_pipeline w (snd e))) es (JObj [])) j)"

section \<open>The loop\<close>

text \<open>The period of the bandwidth timer; the first tick of each timer is taken before the loop.\<close>

definition bwe_interval_ms :: "bwe_mode \<Rightarrow> u64" where
  "bwe_interval_ms m = (case m of TwccMode \<Rightarrow> TWCC_FEEDBACK_INTERVAL_MS | RembMode \<Rightarrow> REMB_INTERVAL_MS)"

datatype udp_event = Recv bytes socket_addr | MetricsTick | BweTick | ReportTick

definition recv_packet ::
  "'f net \<Rightarrow> bytes \<Rightarrow> socket_addr \<Rightarrow> udp_transport \<Rightarrow> 'f world \<Rightarrow> (udp_transport \<times> 'f world) option" where
  "recv_packet N data remote u w =
     (case classify data of
        Stun_pkt \<Rightarrow> handle_stun N data remote u w
      | Dtls_pkt \<Rightarrow> Some (handle_dtls N data remote u w, w)
      | Srtp_pkt \<Rightarrow> map_option (\<lambda>w'. (u, w')) (handle_srtp (n_env N) data remote w)
      | Unknown_pkt \<Rightarrow> if n_trace N then do { b \<leftarrow> rd8 data 0; Some (u, w) } else Some (u, w))"

definition count_packet_in :: "'f net \<Rightarrow> udp_transport \<Rightarrow> udp_transport" where
  "count_packet_in N u =
     (let n = u_pkt_count u + 1; u1 = u\<lparr> u_pkt_count := n \<rparr>
      in if n mod 1000 = 0 then u1\<lparr> u_dtls := remove_stale (n_closed N) (u_dtls u1) \<rparr> else u1)"

definition run_step ::
  "'f net \<Rightarrow> udp_event \<Rightarrow> udp_transport \<Rightarrow> 'f world \<Rightarrow> (udp_transport \<times> 'f world) option" where
  "run_step N ev u w =
     (case ev of
        Recv data remote \<Rightarrow> map_option (\<lambda>(u', w'). (count_packet_in N u', w')) (recv_packet N data remote u w)
      | MetricsTick \<Rightarrow> Some (u, if u_worker_id u = 0 then flush_metrics w else w)
      | BweTick \<Rightarrow>
          Some (u, if u_worker_id u = 0
                   then (case u_bwe_mode u of TwccMode \<Rightarrow> send_twcc_to_publishers (n_env N) w
                         | RembMode \<Rightarrow> send_remb_to_publishers (n_env N) (u_remb_bitrate u) w)
                   else w)
      | ReportTick \<Rightarrow> Some (u, if u_worker_id u = 0 then send_rtcp_reports (n_env N) w else w))"


section \<open>The worker keeps the server invariant\<close>

lemma stun_latch_inv:
  assumes w: "server_inv w" and latch: "stun_latch N uf remote w = Some (r, pc, w')"
  shows "server_inv w'" "w_udp w' = w_udp w"
proof -
  from latch obtain rid heap hub where run: "latch_by_ufrag uf remote (w_heap w) (w_hub w) = Some (r, pc, rid, heap, hub)"
    and w': "w' = update_part r (touch (e_now_ms (n_env N))) (w\<lparr> w_heap := heap, w_hub := hub \<rparr>)"
    by (auto simp: stun_latch_def bind_eq_Some_conv)
  let ?w1 = "w\<lparr> w_heap := heap, w_hub := hub \<rparr>"
  from run obtain room room' where room: "dm_get (h_rooms (w_hub w)) rid = Some room"
    and rl: "room_latch uf remote (w_heap w) room = Some (r, pc, heap, room')"
    and rooms: "h_rooms hub = dm_insert rid room' (h_rooms (w_hub w))"
    by (rule latch_by_ufrag_simps)
  have heap: "heap = (w_heap w)[r := update_session pc (latch_address remote) (part w r)]" by (rule room_latch_simps(2) [OF rl])
  have floor: "r_floor room' = r_floor room" and rok: "room_ok room' = room_ok room"
    using rl by (auto simp: room_latch_def Let_def room_ok_def rw_speakers_def split: option.splits)
  have ok: "part_ok (update_session pc (latch_address remote) p) = part_ok p" for p :: "'a participant"
    by (cases pc) (simp_all add: part_ok_def tracks_ok_def update_session_def)
  have "part_ok p" if "p \<in> set heap" for p
  proof -
    from that obtain i where i: "i < length (w_heap w)" "p = heap ! i" unfolding heap in_set_conv_nth length_list_update by blast
    have "part_ok (part w x)" if "x < length (w_heap w)" for x using server_invD(2) [OF w that] .
    then show ?thesis using i by (cases "i = r") (simp_all add: heap ok)
  qed
  then have "server_inv ?w1"
    using hub_latch_inv [OF server_invD(1) [OF w] run] server_invD(3,5) [OF w] room
    by (auto simp: server_inv_def rooms floor rok split: if_splits)
  then show "server_inv w'" unfolding w' by (rule server_inv_le) (rule world_le_part, simp)
  show "w_udp w' = w_udp w" by (simp add: w')
qed

lemma handle_stun_cases:
  assumes "handle_stun N buf remote u w = Some (u', w')"
  obtains (ignored) "w' = w" "u' = u"
  | (latched) uf r pc w1 where "stun_latch N uf remote w = Some (r, pc, w1)" "w' = w1 \<or> (\<exists>resp. w' = udp_send resp remote w1)"
proof -
  have answer: "w' = w1 \<or> (\<exists>resp. w' = udp_send resp remote w1)" if "stun_answer N msg r pc remote u w1 = Some (u', w')" for msg r pc w1
    using that by (auto simp: stun_answer_def Let_def bind_eq_Some_conv split: if_splits)
  show thesis
  proof (cases "\<exists>msg un r pc w1. stun_parse buf = Some (Some msg) \<and> msg_type msg = BINDING_REQUEST \<and> username msg = Some un \<and>
      stun_latch N (takeWhile (\<lambda>c. c \<noteq> CHR '':'') un) remote w = Some (r, pc, w1)")
    case True
    then obtain msg un r pc w1 where "stun_parse buf = Some (Some msg)" "msg_type msg = BINDING_REQUEST" "username msg = Some un"
      and latch: "stun_latch N (takeWhile (\<lambda>c. c \<noteq> CHR '':'') un) remote w = Some (r, pc, w1)" by blast
    then have "stun_answer N msg r pc remote u w1 = Some (u', w')" using assms by (simp add: handle_stun_def)
    then show thesis by (rule latched [OF latch answer])
  next
    case False
    moreover obtain parsed where "stun_parse buf = Some parsed" using stun_parse_total by blast
    ultimately have "w' = w \<and> u' = u"
      using assms by (cases parsed) (auto simp: handle_stun_def split: option.splits if_splits)
    then show thesis using ignored by blast
  qed
qed

lemma handle_stun_inv: "server_inv w \<Longrightarrow> handle_stun N buf remote u w = Some (u', w') \<Longrightarrow> server_inv w'"
  by (erule handle_stun_cases) (auto dest: stun_latch_inv intro: server_inv_le [OF _ world_le_effects(3)])

lemma install_part_le: "part_le p (update_session pc (install_srtp_keys i out_ok) p)" "part_le p (p\<lparr> p_egress_rx := b \<rparr>)"
  by (cases pc; auto simp: part_le_def same_identity_def part_ok_def tracks_ok_def update_session_def session_def
      install_srtp_keys_def split: pc_type.split)+

lemma world_le_handshake [world_le_intros]: "world_le w (handshake_done E i out_ok r pc w)"
proof -
  have "world_le w (update_part r (\<lambda>p. p\<lparr> p_egress_rx := False \<rparr>) (update_part r (update_session pc (install_srtp_keys i out_ok)) w))"
    by (rule world_le_trans [OF world_le_part world_le_part]) (rule install_part_le)+
  then show ?thesis
    by (auto simp: handshake_done_def Let_def intro: world_le_part install_part_le world_le_trans [OF _ world_le_feedback(4)]
        split: sum.split)
qed

lemma world_le_handshake_task: "handshake_task E accepts outcome r pc w = Some w' \<Longrightarrow> world_le w w'"
proof (cases outcome)
  case (Connected exported)
  assume run: "handshake_task E accepts outcome r pc w = Some w'"
  then obtain keys where "export_srtp_keys exported = Some keys"
    by (cases "export_srtp_keys exported") (simp_all add: handshake_task_def Connected)
  then show ?thesis using run by (cases keys) (auto simp: handshake_task_def Connected world_le_handshake)
qed (simp_all add: handshake_task_def)

text \<open>The task panics only when the library exports less than the four parts need.\<close>

lemma handshake_task_total:
  "handshake_task E accepts outcome r pc w = None \<longleftrightarrow> (\<exists>m. outcome = Connected (Inr m) \<and> length m < 46)"
proof (cases outcome)
  case (Connected exported)
  then show ?thesis
    by (cases exported) (simp_all add: handshake_task_def export_srtp_keys_Inr, simp add: export_srtp_keys_def)
qed (simp_all add: handshake_task_def)

lemma world_le_flush:
  "world_le w (flush_metrics w)"
proof -
  have bud: "part_le p (p\<lparr> p_rtx_budget_used := 0 \<rparr>)" for p :: "'a participant" by simp
  let ?w0 = "for_participants reset_budget w"
  let ?w1 = "?w0\<lparr> w_metrics := snd (swap_counters (w_metrics ?w0)) \<rparr>"
  have "world_le w (for_participants reset_budget w)"
    by (rule world_le_for_participants) (simp only: reset_budget_def, rule world_le_part, simp)
  then have le: "world_le w ?w1" by (rule world_le_trans) (rule world_le_frame; simp)
  have map_get: "dm_get (map (\<lambda>e. (fst e, f (snd e))) m) k = map_option f (dm_get m k)" for f and m :: "(room_id, room) dmap" and k
    by (induction m) auto
  have "room_keeps room (end_active_session room)" for room
    by (simp add: end_active_session_def room_le_def room_keeps_def room_ok_def rw_speakers_def)
  then have "world_le ?w1 (flush_metrics w)"
    by (auto simp: flush_metrics_def Let_def world_le_def map_get option.rel_map dm_ok_def comp_def intro!: option.rel_refl)
  then show ?thesis by (rule world_le_trans [OF le])
qed


lemma stun_answer_total: "stun_answer N msg r pc remote u w \<noteq> None"
  using verify_total [of "n_hmac N" msg "ice_integrity_key (ms_ice_pwd (session (part w r) pc))"]
  by (auto simp: stun_answer_def Let_def)

lemma handle_stun_total: "handle_stun N buf remote u w \<noteq> None"
proof -
  obtain m where m: "stun_parse buf = Some m" using stun_parse_total by blast
  show ?thesis
    by (cases m) (auto simp: handle_stun_def m stun_answer_total split: option.split simp del: not_None_eq)
qed

lemma recv_server_inv: "server_inv w \<Longrightarrow> recv_packet N data remote u w = Some (u', w') \<Longrightarrow> server_inv w'"
  by (auto simp: recv_packet_def bind_eq_Some_conv split: packet_type.splits if_splits intro: handle_stun_inv srtp_server_inv)

lemma run_step_inv:
  assumes "server_inv w" "run_step N ev u w = Some (u', w')"
  shows "server_inv w'"
proof (cases ev)
  case (Recv data remote)
  then show ?thesis using assms(1,2) by (auto simp: run_step_def intro: recv_server_inv)
next
  case MetricsTick
  then show ?thesis using assms by (auto simp: run_step_def intro: server_inv_le [OF _ world_le_flush] split: if_splits)
qed (use assms in \<open>auto simp: run_step_def intro: server_inv_le world_le_feedback split: if_splits bwe_mode.splits\<close>)

section \<open>Properties\<close>

text \<open>
  C28: A binding request for a known user fragment latches the session to the address it came from, before
  and whatever the outcome of the integrity check: from then on datagrams of that address are the
  session's, those of its old address are not, what the server sends to the session goes there, and the
  session counts as alive. The check only decides on the answer: with a valid MESSAGE-INTEGRITY one
  binding response goes back and USE-CANDIDATE starts a handshake unless the address has one; otherwise
  nothing is sent and no handshake starts. So whoever knows the fragment, which travels in clear text,
  takes the session's media away without the password.
\<close>

theorem stun_latches_before_verifying:
  assumes "server_inv w" "stun_parse buf = Some (Some msg)" "msg_type msg = BINDING_REQUEST" "username msg = Some un"
    "find_by_ufrag (w_hub w) (takeWhile (\<lambda>c. c \<noteq> CHR '':'') un) = Some (r, pc, rid)"
  shows "\<exists>u' w'. handle_stun N buf remote u w = Some (u', w') \<and>
    find_by_addr (w_hub w') remote = Some (r, pc, rid) \<and> ms_address (session (part w' r) pc) = Some remote \<and>
    (\<forall>a x. find_by_addr (w_hub w') a = Some (r, pc, x) \<longrightarrow> a = remote) \<and> p_last_seen (part w' r) = e_now_ms (n_env N) \<and>
    (let key = ice_integrity_key (ms_ice_pwd (session (part w r) pc));
         response = build_binding_response (n_hmac N) (n_crc N) (transaction_id msg) remote key
     in if verify_message_integrity (n_hmac N) msg key = Some True
        then w_udp w' = w_udp w @ (if e_send_ok (n_env N) response remote then [(response, remote)] else []) \<and>
          u' = (if has_use_candidate msg \<and> \<not> dtls_has remote (u_dtls u) then start_dtls_handshake remote r pc u else u)
        else w_udp w' = w_udp w \<and> u' = u)"
proof -
  let ?uf = "takeWhile (\<lambda>c. c \<noteq> CHR '':'') un"
  obtain heap hub where latch: "latch_by_ufrag ?uf remote (w_heap w) (w_hub w) = Some (r, pc, rid, heap, hub)"
    using find_latch [OF assms(5)] by blast
  let ?w1 = "update_part r (touch (e_now_ms (n_env N))) (w\<lparr> w_heap := heap, w_hub := hub \<rparr>)"
  note found = latch_session [OF server_invD(1) [OF assms(1)] latch]
  have heap: "heap = (w_heap w)[r := update_session pc (latch_address remote) (part w r)]"
    using latch by (elim latch_by_ufrag_simps) (rule room_latch_simps(2))
  have r: "r < length (w_heap w)"
  proof -
    from latch obtain room room' where "dm_get (h_rooms (w_hub w)) rid = Some room"
      "room_latch ?uf remote (w_heap w) room = Some (r, pc, heap, room')" by (rule latch_by_ufrag_simps)
    then show ?thesis using registeredD [OF hub_invD(5) [OF server_invD(1) [OF assms(1)]]]
        room_latch_simps(1) room_invD(6) [OF hub_invD(5) [OF server_invD(1) [OF assms(1)]]] by blast
  qed
  have sess: "ms_address (session (part ?w1 r) pc) = Some remote" "p_last_seen (part ?w1 r) = e_now_ms (n_env N)"
    "ms_ice_pwd (session (part ?w1 r) pc) = ms_ice_pwd (session (part w r) pc)" "w_udp ?w1 = w_udp w"
    using r by (cases pc; simp add: heap touch_def session_def update_session_def latch_address_def)+
  have run: "handle_stun N buf remote u w = stun_answer N msg r pc remote u ?w1"
    using assms(2-4) by (simp add: handle_stun_def stun_latch_def latch)
  have hub: "w_hub ?w1 = hub" by simp
  show ?thesis
  proof (cases "verify_message_integrity (n_hmac N) msg (ice_integrity_key (ms_ice_pwd (session (part w r) pc))) = Some True")
    case True
    then show ?thesis unfolding run stun_answer_def Let_def sess(3)
      using found sess hub by (simp del: heap_frame(5))
  next
    case False
    then have "verify_message_integrity (n_hmac N) msg (ice_integrity_key (ms_ice_pwd (session (part w r) pc))) = Some False"
      using verify_total by (metis (full_types))
    then show ?thesis unfolding run stun_answer_def Let_def sess(3)
      using found sess hub by (simp del: heap_frame(5))
  qed
qed

text \<open>A binding request for the publish session of \<open>demo_call\<close>, without integrity, from another address.\<close>

definition demo_net :: "unit net" where
  "demo_net = \<lparr> n_env = demo_env, n_hmac = (\<lambda>_ _. replicate 20 7), n_crc = (\<lambda>_. 9), n_closed = (\<lambda>_. False), n_trace = True \<rparr>"

definition demo_spoof :: bytes where
  "demo_spoof = [0, 1, 0, 8, 0x21, 0x12, 0xA4, 0x42, 1, 2, 3, 4, 5, 6, 7, 8, 9, 10, 11, 12, 0, 6, 0, 3, 97, 58, 120, 0]"

abbreviation demo_worker :: udp_transport where
  "demo_worker \<equiv> from_socket_with_id 0 TwccMode 500000"

definition demo_spoof_msg :: stun_message where
  "demo_spoof_msg = \<lparr> msg_type = 1, msg_length = 8, transaction_id = [1, 2, 3, 4, 5, 6, 7, 8, 9, 10, 11, 12],
     attributes = [\<lparr> attr_type = 6, attr_value = [97, 58, 120] \<rparr>], raw = demo_spoof \<rparr>"

lemma demo_spoof_parse: "stun_parse demo_spoof = Some (Some demo_spoof_msg)" "username demo_spoof_msg = Some ''a:x''"
  by code_simp+

theorem stun_latches_before_verifying_witness:
  "\<exists>u' w'. handle_stun demo_net demo_spoof (V4 [6, 6, 6, 6] 6) demo_worker (demo_call Conference) = Some (u', w') \<and>
     find_by_addr (w_hub w') (V4 [6, 6, 6, 6] 6) = Some (0, Publish, ''p'') \<and>
     find_by_addr (w_hub w') call_addr \<noteq> Some (0, Publish, ''p'') \<and> w_udp w' = []"
proof -
  have "find_by_ufrag (w_hub (demo_call Conference)) (takeWhile (\<lambda>c. c \<noteq> CHR '':'') ''a:x'') = Some (0, Publish, ''p'')"
    by (simp add: find_by_ufrag_def get_by_ufrag_def demo_call_def demo_call_room_simps)
  moreover have "msg_type demo_spoof_msg = BINDING_REQUEST" "verify_message_integrity h demo_spoof_msg k \<noteq> Some True" for h k
    by (simp_all add: demo_spoof_msg_def verify_message_integrity_def message_integrity_def get_attr_def)
  moreover have "w_udp (demo_call Conference) = []" "V4 [6, 6, 6, 6] 6 \<noteq> call_addr" by (simp_all add: demo_call_def call_addr_def)
  ultimately show ?thesis
    using stun_latches_before_verifying [OF demo_call_inv demo_spoof_parse(1) _ demo_spoof_parse(2), where N = demo_net
        and remote = "V4 [6, 6, 6, 6] 6" and u = demo_worker]
    by (fastforce simp: Let_def)
qed

text \<open>
  C29: The worker survives every datagram but one: whatever arrives from whatever address, the turn of the
  receive loop returns and keeps the server consistent. The exception is the empty datagram while trace lines are
  logged, whose first byte the log line of the last branch reads.
\<close>

theorem worker_survives_datagram:
  "(recv_packet N data remote u w = None \<longleftrightarrow> n_trace N \<and> data = []) \<and>
   (\<forall>u' w'. recv_packet N data remote u w = Some (u', w') \<longrightarrow> server_inv w \<longrightarrow> server_inv w')"
proof (intro conjI allI impI)
  have "recv_packet N data remote u w \<noteq> None" if "data \<noteq> []"
    using that handle_stun_total [of N data remote u w] handle_srtp_total [of "n_env N" data remote w]
    by (auto simp: recv_packet_def rd8_def simp del: not_None_eq split: packet_type.split)
  moreover have "recv_packet N [] remote u w = None \<longleftrightarrow> n_trace N" by (simp add: recv_packet_def classify_def rd8_def)
  ultimately show "recv_packet N data remote u w = None \<longleftrightarrow> n_trace N \<and> data = []" by metis
qed (rule recv_server_inv)

theorem worker_survives_datagram_witness:
  "recv_packet demo_net [] call_addr demo_worker (demo_call Ptt) = None \<and>
   (\<exists>u' w'. recv_packet demo_net demo_spoof call_addr demo_worker (demo_call Ptt) = Some (u', w') \<and> server_inv w')"
proof -
  have "demo_spoof \<noteq> []" "n_trace demo_net" by (simp_all add: demo_spoof_def demo_net_def)
  then show ?thesis
    using worker_survives_datagram [of demo_net "[]" call_addr demo_worker "demo_call Ptt"]
      worker_survives_datagram [of demo_net demo_spoof call_addr demo_worker "demo_call Ptt"] demo_call_inv [of Ptt]
    by (cases "recv_packet demo_net demo_spoof call_addr demo_worker (demo_call Ptt)") auto
qed

end
