(* ===== verification/Server.thy ===== *)
theory Server
  imports Signaling Udp
begin

text \<open>
  The running server as \<open>run_server\<close> of \<open>lib.rs\<close> puts it together (\<open>Startup\<close> has its start sequence): the settings, the default rooms of \<open>startup.rs\<close>,
  the UDP workers, and the concurrent tasks as a step relation. One step is one turn of one task: a connection
  that is accepted or handles an event, a worker that handles a datagram or a timer, a DTLS handshake that
  ends, an egress task that takes a packet, a PLI burst that sends, the floor timer and the zombie reaper. The
  tasks interleave freely; a turn is atomic. What a turn reads from outside (clocks, random draws, verdicts of the
  libraries) is chosen anew for each turn.
\<close>

section \<open>Start-up\<close>

record settings =
  st_ws_port :: u16
  st_udp_port :: u16
  st_workers :: nat
  st_public_ip :: string
  st_bwe_mode :: bwe_mode
  st_remb_bitrate :: u64

text \<open>\<open>vars\<close> is the environment, \<open>local_ip\<close> the detected address and \<open>parallelism\<close> the number of processors.\<close>

definition load_settings :: "(string \<Rightarrow> string option) \<Rightarrow> string \<Rightarrow> nat option \<Rightarrow> settings" where
  "load_settings vars local_ip parallelism =
     \<lparr> st_ws_port = of_nat (env_or (2 ^ 16) (vars ''WS_PORT'') (unat WS_PORT)),
       st_udp_port = of_nat (env_or (2 ^ 16) (vars ''UDP_PORT'') (unat UDP_PORT)),
       st_workers = resolve_worker_count (env_or (2 ^ 64) (vars ''UDP_WORKER_COUNT'') UDP_WORKER_COUNT) parallelism,
       st_public_ip = (case vars ''PUBLIC_IP'' of Some ip \<Rightarrow> ip | None \<Rightarrow> local_ip),
       st_bwe_mode = resolve_bwe_mode (vars ''BWE_MODE''),
       st_remb_bitrate = resolve_remb_bitrate (vars ''REMB_BITRATE_BPS'') \<rparr>"

text \<open>The names are the bytes of their UTF-8 encoding.\<close>

definition utf8 :: "nat list \<Rightarrow> string" where
  "utf8 bs = map char_of bs"

definition default_rooms :: "(string \<times> nat \<times> room_mode \<times> bool) list" where
  "default_rooms =
     [(utf8 [0xEB, 0xAC, 0xB4, 0xEC, 0xA0, 0x84, 0x20, 0xEB, 0x8C, 0x80, 0xED, 0x99, 0x94, 0xEB, 0xB0, 0xA9], 10, Ptt, False),
      (utf8 [0xED, 0x9A, 0x8C, 0xEC, 0x9D, 0x98, 0xEC, 0x8B, 0xA4, 0x2D, 0x32], 10, Conference, False),
      (utf8 [0xEB, 0x8C, 0x80, 0xED, 0x9A, 0x8C, 0xEC, 0x9D, 0x98, 0xEC, 0x8B, 0xA4], 20, Conference, True)]"

text \<open>A room's identifier and rewriter SSRCs are drawn.\<close>

definition create_default_room ::
  "u64 \<Rightarrow> (string \<times> u32 \<times> u32) \<times> (string \<times> nat \<times> room_mode \<times> bool) \<Rightarrow> 'f world \<Rightarrow> 'f world" where
  "create_default_room now e w =
     (case e of ((uuid, a, v), (name, capacity, mode, simulcast)) \<Rightarrow>
        w\<lparr> w_hub := snd (hub_create uuid name (Some capacity) mode now simulcast a v (w_hub w)) \<rparr>)"

definition create_default_rooms :: "(string \<times> u32 \<times> u32) list \<Rightarrow> u64 \<Rightarrow> 'f world \<Rightarrow> 'f world" where
  "create_default_rooms drawn now w = fold (create_default_room now) (zip drawn default_rooms) w"

text \<open>
  The running server. \<open>sv_conns\<close> holds the open connections by the number of their channel.
\<close>

record 'f server =
  sv_config :: app_config
  sv_world :: "'f world"
  sv_conns :: "(nat, connection) dmap"
  sv_next_tx :: nat
  sv_workers :: "udp_transport list"

definition app_config_of :: "settings \<Rightarrow> string \<Rightarrow> app_config" where
  "app_config_of st fingerprint =
     \<lparr> a_public_ip = st_public_ip st, a_udp_port = st_udp_port st, a_fingerprint = fingerprint,
       a_bwe_mode = st_bwe_mode st, a_max_bitrate = st_remb_bitrate st \<rparr>"

text \<open>Worker 0 always exists; the number of the others is counted from 1 and cut to eight bits.\<close>

definition start_workers :: "settings \<Rightarrow> udp_transport list" where
  "start_workers st =
     map (\<lambda>i. from_socket_with_id (of_nat i) (st_bwe_mode st) (st_remb_bitrate st)) (0 # [1..<st_workers st])"

definition server_start :: "settings \<Rightarrow> string \<Rightarrow> (string \<times> u32 \<times> u32) list \<Rightarrow> u64 \<Rightarrow> 'f server" where
  "server_start st fingerprint drawn now =
     \<lparr> sv_config = app_config_of st fingerprint, sv_world = create_default_rooms drawn now world_new,
       sv_conns = [], sv_next_tx = 0, sv_workers = start_workers st \<rparr>"

section \<open>Steps\<close>

definition put_conn :: "nat \<Rightarrow> connection option \<Rightarrow> (nat, connection) dmap \<Rightarrow> (nat, connection) dmap" where
  "put_conn tx c m = (case c of Some c' \<Rightarrow> dm_insert tx c' m | None \<Rightarrow> dm_remove tx m)"

definition burst_sends :: "'f env \<Rightarrow> pli_burst \<Rightarrow> 'f world \<Rightarrow> 'f world" where
  "burst_sends E b w =
     (case e_encrypt_rtcp E (pb_target b) Publish (build_pli (pb_ssrc b)) of
        None \<Rightarrow> w
      | Some pkt \<Rightarrow>
          if e_send_ok E pkt (pb_addr b)
          then update_part (pb_target b) (count_pipeline (\<lambda>st. st\<lparr> pub_pli_received := pub_pli_received st + 1 \<rparr>))
                 (udp_send pkt (pb_addr b) w)
          else w)"

inductive server_step :: "'f server \<Rightarrow> 'f server \<Rightarrow> bool" where
  accept: "connect (sv_next_tx s) now ok = (hello, Some c) \<Longrightarrow>
     server_step s (s\<lparr> sv_conns := dm_insert (sv_next_tx s) c (sv_conns s), sv_next_tx := Suc (sv_next_tx s) \<rparr>)"
| serve: "dm_get (sv_conns s) tx = Some c \<Longrightarrow> g_config G = sv_config s \<Longrightarrow> fresh_draws (g_draws G) (sv_world s) \<Longrightarrow>
     conn_step G ev c (sv_world s) = (c', resp, w') \<Longrightarrow>
     server_step s (s\<lparr> sv_world := w', sv_conns := put_conn tx c' (sv_conns s) \<rparr>)"
| work: "i < length (sv_workers s) \<Longrightarrow> run_step N ev (sv_workers s ! i) (sv_world s) = Some (u', w') \<Longrightarrow>
     server_step s (s\<lparr> sv_world := w', sv_workers := (sv_workers s)[i := u'] \<rparr>)"
| handshake: "i < length (sv_workers s) \<Longrightarrow> hs \<in> set (u_handshakes (sv_workers s ! i)) \<Longrightarrow>
     w' = (case handshake_task E accepts outcome (hs_participant hs) (hs_pc hs) (sv_world s) of Some w1 \<Rightarrow> w1 | None \<Rightarrow> sv_world s) \<Longrightarrow>
     server_step s (s\<lparr> sv_world := w', sv_workers := (sv_workers s)
       [i := (sv_workers s ! i)\<lparr> u_handshakes := remove1 hs (u_handshakes (sv_workers s ! i)) \<rparr>] \<rparr>)"
| egress: "\<not> p_egress_rx (part (sv_world s) r) \<Longrightarrow> server_step s (s\<lparr> sv_world := egress_step E r (sv_world s) \<rparr>)"
| burst: "b \<in> set (w_bursts (sv_world s)) \<Longrightarrow> server_step s (s\<lparr> sv_world := burst_sends E b (sv_world s) \<rparr>)"
| floor_timer: "server_step s (s\<lparr> sv_world := floor_timer_tick E (sv_world s) \<rparr>)"
| reaper: "server_step s (s\<lparr> sv_world := zombie_reaper_tick E (sv_world s) \<rparr>)"

abbreviation server_steps :: "'f server \<Rightarrow> 'f server \<Rightarrow> bool" where
  "server_steps \<equiv> server_step\<^sup>*\<^sup>*"

section \<open>The invariant of the server\<close>

text \<open>
  Besides the invariant of the world: a connection is known by its own channel, channels are not reused,
  and a session is in a room only after it has identified itself.
\<close>

definition session_ok :: "nat \<Rightarrow> ws_session \<Rightarrow> bool" where
  "session_ok tx s \<longleftrightarrow> s_ws_tx s = tx \<and> (s_current_room s \<noteq> None \<longrightarrow> is_authenticated s)"

definition conns_ok :: "'f server \<Rightarrow> bool" where
  "conns_ok s \<longleftrightarrow> dm_ok (sv_conns s) \<and>
     (\<forall>tx c. dm_get (sv_conns s) tx = Some c \<longrightarrow> tx < sv_next_tx s \<and> session_ok tx (c_session c))"

definition system_inv :: "'f server \<Rightarrow> bool" where
  "system_inv s \<longleftrightarrow> server_inv (sv_world s) \<and> conns_ok s"

lemma dispatch_session_ok:
  assumes "session_ok tx s"
  shows "session_ok tx (fst (snd (dispatch G pk s w)))"
proof -
  have "session_ok tx (fst (snd (handle_room_join E cfg pub sub u pid req s w)))"
    "session_ok tx (fst (snd (handle_room_leave E u pid req s w)))" if "is_authenticated s" for E cfg pub sub u pid req
    using assms that
    by (auto simp: handle_room_join_def handle_room_leave_def Let_def case_prod_beta session_ok_def is_authenticated_def
        split: option.split sum.split)
  then have "session_ok tx (fst (snd (dispatch_user G u pk s w)))" if "is_authenticated s" for u
    using that assms by (simp add: dispatch_user_def Let_def case_prod_beta)
  moreover have "session_ok tx (snd (handle_identify rnd pid req s))" for rnd pid req
    using assms by (auto simp: handle_identify_def Let_def session_ok_def is_authenticated_def split: option.split)
  moreover have "session_ok tx (s\<lparr> s_ack_miss := 0 \<rparr>)" using assms by (simp add: session_ok_def is_authenticated_def)
  ultimately show ?thesis
    using assms by (auto simp: dispatch_def case_prod_beta is_authenticated_def split: option.split)
qed

lemma conn_step_session_ok:
  "session_ok tx (c_session c) \<Longrightarrow> conn_step G ev c w = (Some c', resp, w') \<Longrightarrow> session_ok tx (c_session c')"
  using dispatch_session_ok [of tx "c_session c" G _ w]
  by (cases ev) (auto simp: conn_step_def Let_def case_prod_beta split: option.splits if_splits)

lemma conns_ok_put:
  assumes "conns_ok s" "tx < sv_next_tx s" "\<And>c'. c = Some c' \<Longrightarrow> session_ok tx (c_session c')"
  shows "conns_ok (s\<lparr> sv_world := w, sv_conns := put_conn tx c (sv_conns s) \<rparr>)"
  using assms by (auto simp: conns_ok_def put_conn_def dm.ok_put dm.ok_del split: option.splits if_splits)

lemma world_le_burst_sends: "world_le w (burst_sends E b w)"
proof -
  have "part_le p (count_pipeline (\<lambda>st. st\<lparr> pub_pli_received := pub_pli_received st + 1 \<rparr>) p)" for p :: "'a participant"
    by (simp add: count_pipeline_def part_le_def same_identity_def part_ok_def tracks_ok_def session_def split: pc_type.split)
  then show ?thesis
    by (auto simp: burst_sends_def split: option.split intro!: world_le_part_step world_le_effects)
qed

lemma server_step_inv:
  assumes "server_step s s'" "system_inv s"
  shows "system_inv s'"
  using assms
proof (cases rule: server_step.cases)
  case (accept now ok hello c)
  have c: "session_ok (sv_next_tx s) (c_session c)"
    using accept(2) by (auto simp: connect_def next_pid_def session_new_def session_ok_def split: if_splits)
  moreover have "tx < Suc (sv_next_tx s)" if "dm_get (sv_conns s) tx = Some ca" for tx ca
    using that assms(2) by (fastforce simp: system_inv_def conns_ok_def)
  ultimately show ?thesis using assms(2) unfolding accept(1)
    by (auto simp: system_inv_def conns_ok_def dm.ok_put)
next
  case (serve tx c G ev c' resp w')
  have "server_inv w'" using conn_step_server_inv [of "sv_world s" G ev c] serve assms(2) by (simp add: system_inv_def)
  moreover have "tx < sv_next_tx s" "session_ok tx (c_session c)" using serve assms(2) by (auto simp: system_inv_def conns_ok_def)
  ultimately show ?thesis
    using serve assms(2) conn_step_session_ok unfolding serve(1)
    by (auto simp: system_inv_def intro!: conns_ok_put)
next
  case (work i N ev u' w')
  then show ?thesis using assms(2) run_step_inv by (auto simp: system_inv_def conns_ok_def)
next
  case (handshake i hs w' E accepts outcome)
  then have "server_inv w'"
    using assms(2) server_inv_le [OF _ world_le_handshake_task] by (auto simp: system_inv_def split: option.split)
  then show ?thesis using handshake assms(2) by (auto simp: system_inv_def conns_ok_def)
next
  case (egress r E)
  then show ?thesis using assms(2) server_inv_le [OF _ world_le_egress_step] by (auto simp: system_inv_def conns_ok_def)
next
  case (burst b E)
  then show ?thesis using assms(2) server_inv_le [OF _ world_le_burst_sends] by (auto simp: system_inv_def conns_ok_def)
next
  case (floor_timer E)
  then show ?thesis using assms(2) timer_server_inv by (auto simp: system_inv_def conns_ok_def)
next
  case (reaper E)
  then show ?thesis using assms(2) reaper_server_inv by (auto simp: system_inv_def conns_ok_def)
qed

interpretation server: step_invariant server_step system_inv
  by unfold_locales (rule server_step_inv)

lemma default_rooms_inv:
  assumes "server_inv w" "distinct (map fst drawn)" "\<forall>uuid\<in>set (map fst drawn). dm_get (h_rooms (w_hub w)) uuid = None"
  shows "server_inv (fold (create_default_room now) (zip drawn rooms) w)"
  using assms
proof (induction drawn rooms arbitrary: w rule: list_induct2')
  case (4 d ds e es)
  obtain uuid a v where d: "d = (uuid, a, v)" by (cases d) auto
  obtain name cap mode sim where e: "e = (name, cap, mode, sim)" by (cases e) auto
  have "server_inv (create_default_room now (d, e) w)"
    using 4(2-) by (simp add: d e create_default_room_def hub_create_server_inv)
  moreover have "\<forall>u\<in>set (map fst ds). dm_get (h_rooms (w_hub (create_default_room now (d, e) w))) u = None"
    using 4(3,4) by (auto simp: d e create_default_room_def hub_create_def Let_def)
  ultimately show ?case using 4(1,3) by simp
qed simp_all

lemma server_start_inv: "distinct (map fst drawn) \<Longrightarrow> system_inv (server_start st fp drawn now)"
  using default_rooms_inv [OF world_new_inv(1), of drawn now default_rooms]
  by (auto simp: system_inv_def server_start_def conns_ok_def create_default_rooms_def dm_ok_def)
    (simp add: world_new_def hub_new_def)

section \<open>Media of a push-to-talk room\<close>

lemma addr_registered:
  assumes w: "server_inv w" and room: "dm_get (h_rooms (w_hub w)) rid = Some room"
    and addr: "find_by_addr (w_hub w) a = Some (r, pc, rid)"
  shows "r < length (w_heap w) \<and> dm_get (r_participants room) (p_user_id (part w r)) = Some r"
proof -
  have inv: "room_inv (w_heap w) room" by (rule hub_invD(5) [OF server_invD(1) [OF w] room])
  have "dm_get (r_by_addr room) a = Some (r, pc)"
    using addr room by (auto simp: find_by_addr_def get_by_addr_def bind_eq_Some_conv split: option.splits)
  then have "registered room r" using room_invD(7) [OF inv] by blast
  then show ?thesis using registeredD [OF inv] by blast
qed

text \<open>Whatever a publisher sends, only the floor holder's datagrams lead to RTP on a queue.\<close>

lemma ptt_forwards_holder_only:
  assumes w: "server_inv w" and addr: "find_by_addr (w_hub w) remote = Some (r, Publish, rid)"
    and room: "dm_get (h_rooms (w_hub w)) rid = Some room" and mode: "r_mode room = Ptt" and rtp: "\<not> is_rtcp buf"
    and run: "handle_srtp E buf remote w = Some w'" and x: "x < length (w_heap w)" and fwd: "p_egress (part w' x) \<noteq> p_egress (part w x)"
  shows "current_speaker (r_floor room) = Some (p_user_id (part w r))"
proof -
  have touched: "p_egress (part (update_part r (touch t) w) x) = p_egress (part w x)" for t
    using x by (cases "x = r") (simp_all add: update_part_def touch_def)
  have ready: "is_publish_ready (part w r)"
  proof (rule ccontr)
    assume "\<not> is_publish_ready (part w r)"
    moreover have "p_publish (part (update_part r (touch t) w) r) = p_publish (part w r)" for t
      using addr_registered [OF w room addr] by (simp add: update_part_def touch_def)
    ultimately have "w' = update_part r (touch (e_now_ms E)) w"
      using run room by (simp add: handle_srtp_def addr hub_get_def is_publish_ready_def)
    then show False using fwd touched by simp
  qed
  note pub = srtp_publish(1) [OF w addr room ready rtp, of E]
  obtain plain where dec: "e_decrypt_rtp E r Publish buf = Some plain"
  proof (cases "e_decrypt_rtp E r Publish buf")
    case None
    then have "p_egress (part w' x) = p_egress (part w x)" using run touched by (auto simp: pub handle_publish_rtp_def)
    then show thesis using fwd by simp
  qed (rule that)
  obtain pkt h n where norm: "normalise_pt (p_tracks (part w r)) plain (parse_rtp_header plain) = Some (pkt, h, n)"
    using normalise_pt_total by (metis option.exhaust prod_cases3)
  have nosim: "\<not> r_simulcast_enabled room" using server_invD(5) [OF w room] mode by (simp add: room_ok_def)
  obtain w'' payload room1 w1 w2 where pub: "handle_srtp E buf remote w = Some w''"
    "prepare_fanout_payload E pkt h r room w1 = Some (payload, room1, w2)" "p_user_id (part w1 r) = p_user_id (part w r)"
    "p_egress (part w'' x) = p_egress (part w x) @ (case payload of None \<Rightarrow> [] | Some out \<Rightarrow>
      if registered room x \<and> x \<noteq> r \<and> is_subscribe_ready (part w x) \<and> length (p_egress (part w x)) < EGRESS_QUEUE_SIZE
      then [EgRtp out] else [])"
    by (rule srtp_publish_egress [OF w addr room ready rtp dec nosim norm x])
  then have "payload \<noteq> None" using run fwd by (cases payload) simp_all
  then show ?thesis using ptt_payload(1) [OF pub(2) mode] pub(3) by simp
qed

lemma holder_unique:
  assumes w: "server_inv w" and room: "dm_get (h_rooms (w_hub w)) rid = Some room"
    and addr: "find_by_addr (w_hub w) a1 = Some (r1, pc1, rid)" "find_by_addr (w_hub w) a2 = Some (r2, pc2, rid)"
    and same: "p_user_id (part w r1) = p_user_id (part w r2)"
  shows "r1 = r2"
proof -
  have "Some r1 = Some r2"
    using addr_registered [OF w room addr(1)] addr_registered [OF w room addr(2)] unfolding same by metis
  then show ?thesis by (rule option.inject [THEN iffD1])
qed

end
