(* ===== verification/Startup.thy ===== *)
theory Startup
  imports Server
begin

text \<open>
  The process around the server: \<open>load_env_file\<close> and \<open>detect_local_ip\<close> of \<open>startup.rs\<close>, the start sequence of
  \<open>run_server\<close> in \<open>lib.rs\<close> with every way it can fail, and the timer tasks of \<open>tasks.rs\<close> as loops that the
  shutdown token stops. The environment of the process is a function from names to values; reading a
  \<open>.env\<close> file into it is dotenvy's and so a parameter, as are the sockets and the certificate generator.
\<close>

section \<open>The environment\<close>

type_synonym env_vars = "string \<Rightarrow> string option"

text \<open>
  \<open>de_from_path\<close> and \<open>de_dotenv\<close> give the verdict and the variables afterwards. \<open>de_exe_env\<close> is the path of \<open>.env\<close> beside
  the executable, if the executable's directory is known.
\<close>

record dotenv =
  de_from_path :: "string \<Rightarrow> env_vars \<Rightarrow> bool \<times> env_vars"
  de_dotenv :: "env_vars \<Rightarrow> bool \<times> env_vars"
  de_exe_env :: "string option"
  de_is_file :: "string \<Rightarrow> bool"

definition load_env_arg :: "dotenv \<Rightarrow> string list \<Rightarrow> env_vars \<Rightarrow> bool \<times> env_vars" where
  "load_env_arg D args vars =
     (case position (\<lambda>a. a = ''--env'') args of
        None \<Rightarrow> (False, vars)
      | Some pos \<Rightarrow> if pos + 1 < length args then de_from_path D (args ! (pos + 1)) vars else (False, vars))"

definition load_env_file :: "dotenv \<Rightarrow> string list \<Rightarrow> env_vars \<Rightarrow> env_vars" where
  "load_env_file D args vars =
     (case load_env_arg D args vars of
        (True, vars1) \<Rightarrow> vars1
      | (False, vars1) \<Rightarrow>
          (case de_dotenv D vars1 of
             (True, vars2) \<Rightarrow> vars2
           | (False, vars2) \<Rightarrow>
               (case de_exe_env D of
                  None \<Rightarrow> vars2
                | Some path \<Rightarrow> if de_is_file D path then snd (de_from_path D path vars2) else vars2)))"

text \<open>What dotenvy documents: it never changes a variable that is set.\<close>

definition keeps_set :: "dotenv \<Rightarrow> bool" where
  "keeps_set D \<longleftrightarrow> (\<forall>vars k v. vars k = Some v \<longrightarrow>
     snd (de_dotenv D vars) k = Some v \<and> (\<forall>path. snd (de_from_path D path vars) k = Some v))"

text \<open>So the environment of the process takes precedence over every file, whichever is read.\<close>

lemma environment_first:
  assumes D: "keeps_set D" and k: "vars k = Some v"
  shows "load_env_file D args vars k = Some v"
proof -
  have path: "snd (de_from_path D path vars') k = Some v" and cwd: "snd (de_dotenv D vars') k = Some v"
    if "vars' k = Some v" for path vars'
    using D that by (auto simp: keeps_set_def)
  have "snd (load_env_arg D args vars) k = Some v"
    using path k by (auto simp: load_env_arg_def split: option.split)
  then show ?thesis using path cwd
    by (auto simp: load_env_file_def split: prod.split bool.split option.split)
      (metis cwd path snd_conv)+
qed

definition detect_local_ip :: "string option \<Rightarrow> string" where
  "detect_local_ip route = (case route of Some ip \<Rightarrow> ip | None \<Rightarrow> ''127.0.0.1'')"

section \<open>The start of the server\<close>

text \<open>
  What the start reads from outside. \<open>b_bind\<close> gives the error of the bind of each worker's socket, \<open>b_listen\<close> that of the
  WebSocket listener, \<open>b_certificate\<close> the chain of the generated certificate.
\<close>

record boot =
  b_args :: "string list"
  b_vars :: env_vars
  b_dotenv :: dotenv
  b_route :: "string option"
  b_parallelism :: "nat option"
  b_certificate :: "string + bytes list"
  b_sha :: "bytes \<Rightarrow> bytes"
  b_bind :: "nat \<Rightarrow> string option"
  b_listen :: "string option"
  b_drawn :: "(string \<times> u32 \<times> u32) list"
  b_now :: u64

definition boot_settings :: "boot \<Rightarrow> settings" where
  "boot_settings B = load_settings (load_env_file (b_dotenv B) (b_args B) (b_vars B)) (detect_local_ip (b_route B)) (b_parallelism B)"

text \<open>The binds in the order the code makes them; the first that fails ends the start with its error.\<close>

fun bind_all :: "(nat \<Rightarrow> string option) \<Rightarrow> nat list \<Rightarrow> string option" where
  "bind_all try_bind [] = None"
| "bind_all try_bind (i # is) = (case try_bind i of Some e \<Rightarrow> Some e | None \<Rightarrow> bind_all try_bind is)"

definition run_server :: "boot \<Rightarrow> string + 'f server" where
  "run_server B =
     (let st = boot_settings B
      in case b_certificate B of
           Inl e \<Rightarrow> Inl e
         | Inr chain \<Rightarrow>
             (case bind_all (b_bind B) [0..<max 1 (st_workers st)] of
                Some e \<Rightarrow> Inl e
              | None \<Rightarrow>
                  (case b_listen B of
                     Some e \<Rightarrow> Inl e
                   | None \<Rightarrow> Inr (server_start st (generate_fingerprint (b_sha B) chain) (b_drawn B) (b_now B)))))"

lemma bind_all_None: "bind_all try_bind is = None \<longleftrightarrow> (\<forall>i\<in>set is. try_bind i = None)"
  by (induction "is") (auto split: option.split)

lemma resolve_worker_count_pos: "parallelism \<noteq> Some 0 \<Longrightarrow> 0 < resolve_worker_count configured parallelism"
  by (auto simp: resolve_worker_count_def split: option.split)

text \<open>The server starts exactly when the certificate was made and every socket was bound, and it starts consistent.\<close>

lemma run_server_Inr:
  "(\<exists>s. run_server B = Inr (s :: 'f server)) \<longleftrightarrow>
     (\<exists>chain. b_certificate B = Inr chain) \<and> b_listen B = None \<and> (\<forall>i<max 1 (st_workers (boot_settings B)). b_bind B i = None)"
proof -
  have "(\<forall>i<max 1 (st_workers (boot_settings B)). b_bind B i = None) \<longleftrightarrow>
      bind_all (b_bind B) [0..<max 1 (st_workers (boot_settings B))] = None"
    unfolding bind_all_None by auto
  then show ?thesis
    by (cases "b_certificate B"; cases "bind_all (b_bind B) [0..<max 1 (st_workers (boot_settings B))]"; cases "b_listen B")
      (simp_all add: run_server_def Let_def)
qed

lemma run_server_inv:
  assumes "distinct (map fst (b_drawn B))" "run_server B = Inr s"
  shows "system_inv s"
  using assms by (auto simp: run_server_def Let_def server_start_inv split: sum.splits option.splits)

lemma run_server_workers:
  assumes "run_server B = Inr s"
  shows "length (sv_workers s) = max 1 (st_workers (boot_settings B))"
  using assms
  by (auto simp: run_server_def Let_def server_start_def start_workers_def split: sum.splits option.splits)

section \<open>Timer tasks\<close>

text \<open>A timer task waits for its next tick or for the token, whichever comes; the token ends it.\<close>

datatype 'e wake = Tick 'e | Token

fun run_timer :: "('e \<Rightarrow> 'w \<Rightarrow> 'w) \<Rightarrow> 'e wake list \<Rightarrow> 'w \<Rightarrow> 'w \<times> bool" where
  "run_timer turn [] w = (w, False)"
| "run_timer turn (Tick e # wakes) w = run_timer turn wakes (turn e w)"
| "run_timer turn (Token # wakes) w = (w, True)"

definition run_floor_timer :: "'f env wake list \<Rightarrow> 'f world \<Rightarrow> 'f world \<times> bool" where
  "run_floor_timer = run_timer floor_timer_tick"

definition run_zombie_reaper :: "'f env wake list \<Rightarrow> 'f world \<Rightarrow> 'f world \<times> bool" where
  "run_zombie_reaper = run_timer zombie_reaper_tick"

text \<open>The task has stopped exactly when it saw the token, and what comes after the token has no effect.\<close>

lemma run_timer_stops: "snd (run_timer turn wakes w) \<longleftrightarrow> Token \<in> set wakes"
  by (induction turn wakes w rule: run_timer.induct) auto

lemma run_timer_after_token: "run_timer turn (wakes @ Token # later) w = run_timer turn (wakes @ [Token]) w"
  by (induction turn wakes w rule: run_timer.induct) auto

text \<open>Every tick is a step of the server.\<close>

lemma timer_steps:
  assumes "\<And>e s. server_step s (s\<lparr> sv_world := turn e (sv_world s) \<rparr>)"
  shows "server_steps s (s\<lparr> sv_world := fst (run_timer turn wakes (sv_world s)) \<rparr>)"
proof (induction wakes arbitrary: s)
  case (Cons wake wakes)
  show ?case
  proof (cases wake)
    case (Tick e)
    have "server_steps s (s\<lparr> sv_world := turn e (sv_world s) \<rparr>)" using assms by blast
    also have "server_steps (s\<lparr> sv_world := turn e (sv_world s) \<rparr>)
        (s\<lparr> sv_world := fst (run_timer turn wakes (turn e (sv_world s))) \<rparr>)"
      using Cons.IH [of "s\<lparr> sv_world := turn e (sv_world s) \<rparr>"] by simp
    finally show ?thesis by (simp add: Tick)
  qed simp
qed simp

lemma timer_task_steps:
  "server_steps s (s\<lparr> sv_world := fst (run_floor_timer wakes (sv_world s)) \<rparr>)"
  "server_steps s (s\<lparr> sv_world := fst (run_zombie_reaper wakes (sv_world s)) \<rparr>)"
  unfolding run_floor_timer_def run_zombie_reaper_def
  by (rule timer_steps, rule server_step.floor_timer) (rule timer_steps, rule server_step.reaper)

end
