(* ===== verification/Telemetry.thy ===== *)
theory Telemetry
  imports Signaling Dtls Metrics
begin

text \<open>
  The telemetry side: the aggregating logger of \<open>agg_logger.rs\<close>, the bus of \<open>telemetry_bus.rs\<close>, the
  TELEMETRY operation of \<open>signaling/handler/telemetry.rs\<close> and the admin socket of \<open>signaling/handler/admin.rs\<close>.
  The logger's table is modelled at the single operations of its map, for calls that overlap.
  The singletons are options that \<open>init\<close> sets once; the operations are stated on their contents. An aggregation key is the hash of its parts, so it is given as a number.
  The text form of a JSON value is left to serde.
\<close>

section \<open>The aggregating logger\<close>

definition MAX_KEYS :: nat where "MAX_KEYS = 1024"

record agg_entry =
  ae_count :: u64
  ae_first_ns :: u64
  ae_last_ns :: u64
  ae_label :: string
  ae_room :: "string option"

record agg_record =
  ar_key :: u64
  ar_label :: string
  ar_room :: "string option"
  ar_count :: u64
  ar_delta_ms :: u64

type_synonym agg_table = "(u64, agg_entry) dmap"

text \<open>\<open>ns\<close> is the time since the logger's epoch in nanoseconds, cut to 64 bits.\<close>

definition bump_entry :: "u64 \<Rightarrow> agg_entry \<Rightarrow> agg_entry" where
  "bump_entry ns e = e\<lparr> ae_count := ae_count e + 1, ae_last_ns := ns \<rparr>"

text \<open>
  The table is shared by all tasks, and the code holds no lock across two operations of its \<open>DashMap\<close>. So an operation of the logger
  is a sequence of steps, one for each operation of the map, and \<open>agg_pc\<close> says where a call stands: before
  its first step, before its test of \<open>len\<close>, before its insertion, in a \<open>retain\<close> at a shard with the entries removed so far, or
  returned: with its count taken (and the entry that its insertion replaced, which \<open>DashMap::insert\<close> gives back and the
  code ignores), without one, or with the entries that it removed. A reference that \<open>get\<close> has returned keeps its shard locked
  for reading, so only other counts can run in between; they are atomic additions and commute, so what happens under the reference is one
  step. \<open>seen\<close> is what \<open>len\<close> returns: it adds up the shards one after another, and so is exact only when nobody changes the
  table meanwhile.
\<close>

datatype agg_pc =
    Agg_start
  | Agg_len
  | Agg_put
  | Agg_sweep nat "(u64 \<times> agg_entry) list"
  | Agg_counted "agg_entry option"
  | Agg_skipped
  | Agg_swept "(u64 \<times> agg_entry) list"

definition agg_inc :: "u64 \<Rightarrow> u64 \<Rightarrow> agg_table \<Rightarrow> agg_pc \<times> agg_table" where
  "agg_inc ns key t =
     (case dm_get t key of Some e \<Rightarrow> (Agg_counted None, dm_insert key (bump_entry ns e) t) | None \<Rightarrow> (Agg_skipped, t))"

fun inc_with :: "nat \<Rightarrow> u64 \<Rightarrow> u64 \<Rightarrow> string \<Rightarrow> string option \<Rightarrow> agg_pc \<Rightarrow> agg_table \<Rightarrow> agg_pc \<times> agg_table" where
  "inc_with seen ns key label room Agg_start t =
     (case dm_get t key of Some e \<Rightarrow> (Agg_counted None, dm_insert key (bump_entry ns e) t) | None \<Rightarrow> (Agg_len, t))"
| "inc_with seen ns key label room Agg_len t = (if MAX_KEYS \<le> seen then Agg_skipped else Agg_put, t)"
| "inc_with seen ns key label room Agg_put t =
     (Agg_counted (dm_get t key),
      dm_insert key \<lparr> ae_count = 1, ae_first_ns = ns, ae_last_ns = ns, ae_label = label, ae_room = room \<rparr> t)"
| "inc_with seen ns key label room pc t = (pc, t)"

fun agg_register :: "nat \<Rightarrow> u64 \<Rightarrow> u64 \<Rightarrow> string \<Rightarrow> string option \<Rightarrow> agg_pc \<Rightarrow> agg_table \<Rightarrow> agg_pc \<times> agg_table" where
  "agg_register seen ns key label room Agg_start t = (if MAX_KEYS \<le> seen then Agg_skipped else Agg_put, t)"
| "agg_register seen ns key label room Agg_put t =
     (Agg_skipped,
      case dm_get t key of
        Some _ \<Rightarrow> t
      | None \<Rightarrow> dm_insert key \<lparr> ae_count = 0, ae_first_ns = ns, ae_last_ns = 0, ae_label = label, ae_room = room \<rparr> t)"
| "agg_register seen ns key label room pc t = (pc, t)"

text \<open>
  \<open>DashMap::retain\<close> locks one shard after another; \<open>S\<close> gives the shard of a key and \<open>N\<close> their number. The removed entries of a shard
  and what is left of the table:
\<close>

definition retain_shard ::
  "(u64 \<Rightarrow> nat) \<Rightarrow> nat \<Rightarrow> (agg_entry \<Rightarrow> bool) \<Rightarrow> agg_table \<Rightarrow> (u64 \<times> agg_entry) list \<times> agg_table" where
  "retain_shard S i keep t =
     (filter (\<lambda>e. S (fst e) = i \<and> \<not> keep (snd e)) t, filter (\<lambda>e. \<not> (S (fst e) = i \<and> \<not> keep (snd e))) t)"

fun agg_retain ::
  "(u64 \<Rightarrow> nat) \<Rightarrow> nat \<Rightarrow> (agg_entry \<Rightarrow> bool) \<Rightarrow> agg_pc \<Rightarrow> agg_table \<Rightarrow> agg_pc \<times> agg_table" where
  "agg_retain S N keep Agg_start t = (Agg_sweep 0 [], t)"
| "agg_retain S N keep (Agg_sweep i removed) t =
     (if i < N then (case retain_shard S i keep t of (gone, t') \<Rightarrow> (Agg_sweep (Suc i) (removed @ gone), t'))
      else (Agg_swept removed, t))"
| "agg_retain S N keep pc t = (pc, t)"

definition clear_room :: "(u64 \<Rightarrow> nat) \<Rightarrow> nat \<Rightarrow> string \<Rightarrow> agg_pc \<Rightarrow> agg_table \<Rightarrow> agg_pc \<times> agg_table" where
  "clear_room S N room_id = agg_retain S N (\<lambda>e. ae_room e \<noteq> Some room_id)"

text \<open>The flush takes every entry out and makes a record of those that have a count.\<close>

definition agg_flush :: "(u64 \<Rightarrow> nat) \<Rightarrow> nat \<Rightarrow> agg_pc \<Rightarrow> agg_table \<Rightarrow> agg_pc \<times> agg_table" where
  "agg_flush S N = agg_retain S N (\<lambda>_. False)"

definition agg_record_of :: "u64 \<times> agg_entry \<Rightarrow> agg_record" where
  "agg_record_of ke =
     (case ke of (key, e) \<Rightarrow>
        \<lparr> ar_key = key, ar_label = ae_label e, ar_room = ae_room e, ar_count = ae_count e,
          ar_delta_ms = (if ae_count e \<le> 1 then 0 else sat_sub (ae_last_ns e) (ae_first_ns e) div 1000000) \<rparr>)"

definition flush_records :: "(u64 \<times> agg_entry) list \<Rightarrow> agg_record list" where
  "flush_records removed = map agg_record_of (filter (\<lambda>e. ae_count (snd e) \<noteq> 0) removed)"

definition agg_record_json :: "agg_record \<Rightarrow> json" where
  "agg_record_json r = JObj
     [(''key'', JStr (hex False 16 (unat (ar_key r)))), (''label'', JStr (ar_label r)), (''room_id'', jopt JStr (ar_room r)),
      (''count'', jnum (ar_count r)), (''delta_ms'', jnum (ar_delta_ms r))]"

definition agg_payload :: "u64 \<Rightarrow> agg_record list \<Rightarrow> json option" where
  "agg_payload ts rs =
     (if rs = [] then None
      else Some (JObj [(''type'', JStr ''agg_log''), (''ts'', jnum ts), (''entries'', JArr (map agg_record_json rs))]))"

section \<open>The bus\<close>

datatype telemetry_event =
    ClientTelemetry user_id room_id json
  | ServerMetrics json
  | RoomSnapshot json
  | AggLog json

definition BUS_CHANNEL_SIZE :: nat where "BUS_CHANNEL_SIZE = 512"

type_synonym bus = "telemetry_event list"

definition bus_emit :: "telemetry_event \<Rightarrow> bus \<Rightarrow> bus" where
  "bus_emit ev q = (if length q < BUS_CHANNEL_SIZE then q @ [ev] else q)"

fun event_json :: "telemetry_event \<Rightarrow> json" where
  "event_json (ClientTelemetry user_id room_id data) =
     JObj [(''type'', JStr ''client_telemetry''), (''user_id'', JStr user_id), (''room_id'', JStr room_id), (''data'', data)]"
| "event_json (ServerMetrics j) = j"
| "event_json (RoomSnapshot j) = j"
| "event_json (AggLog j) = j"

text \<open>One turn of the bus task: the oldest event, and what is broadcast to the admin sockets for it.\<close>

definition bus_turn :: "bus \<Rightarrow> (json \<times> bus) option" where
  "bus_turn q = (case q of [] \<Rightarrow> None | ev # rest \<Rightarrow> Some (event_json ev, rest))"

text \<open>The loop of the bus task, until all senders are gone.\<close>

fun run_bus_task :: "bus \<Rightarrow> json list" where
  "run_bus_task [] = []"
| "run_bus_task (ev # q) = event_json ev # run_bus_task q"

text \<open>
  Both singletons live in a \<open>OnceLock\<close>. \<open>init\<close> fills it once and panics (\<open>None\<close>) when it is filled; what is emitted
  before goes nowhere, and there is nothing to subscribe to.
\<close>

definition once_init :: "'a \<Rightarrow> 'a option \<Rightarrow> 'a option option" where
  "once_init v cell = (case cell of None \<Rightarrow> Some (Some v) | Some _ \<Rightarrow> None)"

definition agg_init :: "agg_table option \<Rightarrow> agg_table option option" where
  "agg_init = once_init []"

definition bus_init :: "bus option \<Rightarrow> bus option option" where
  "bus_init = once_init []"

definition emit :: "telemetry_event \<Rightarrow> bus option \<Rightarrow> bus option" where
  "emit ev cell = map_option (bus_emit ev) cell"

definition subscribe :: "bus option \<Rightarrow> bool" where
  "subscribe cell \<longleftrightarrow> cell \<noteq> None"

text \<open>The end of a flush: what it has swept goes onto the bus, if there is anything to report.\<close>

definition flush_agg_log :: "u64 \<Rightarrow> (u64 \<times> agg_entry) list \<Rightarrow> bus \<Rightarrow> bus" where
  "flush_agg_log ts removed q =
     (case agg_payload ts (flush_records removed) of Some j \<Rightarrow> bus_emit (AggLog j) q | None \<Rightarrow> q)"

definition handle_telemetry :: "ws_session \<Rightarrow> packet \<Rightarrow> bus \<Rightarrow> bus" where
  "handle_telemetry s pk q =
     (case (s_user_id s, s_current_room s) of
        (Some user_id, Some room_id) \<Rightarrow> bus_emit (ClientTelemetry user_id room_id (pk_d pk)) q
      | _ \<Rightarrow> q)"

section \<open>The admin socket\<close>

definition track_snapshot :: "track \<Rightarrow> json" where
  "track_snapshot t =
     (let j = JObj [(''kind'', JStr (kind_string (t_kind t))), (''ssrc'', jnum (t_ssrc t)), (''track_id'', JStr (t_track_id t)),
                    (''muted'', JBool (t_muted t))]
      in case t_rtx_ssrc t of Some rs \<Rightarrow> jset ''rtx_ssrc'' (jnum rs) j | None \<Rightarrow> j)"

definition participant_snapshot :: "'f participant \<Rightarrow> json" where
  "participant_snapshot p = JObj
     [(''user_id'', JStr (p_user_id p)), (''joined_at'', jnum (p_joined_at p)), (''pub_ready'', JBool (is_publish_ready p)),
      (''sub_ready'', JBool (is_subscribe_ready p)), (''tracks'', JArr (map track_snapshot (p_tracks p)))]"

definition room_snapshot :: "'f world \<Rightarrow> room \<Rightarrow> json" where
  "room_snapshot w room =
     (let j = JObj [(''room_id'', JStr (r_id room)), (''name'', JStr (r_name room)), (''capacity'', JNum (int (r_capacity room))),
                    (''mode'', JStr (mode_string (r_mode room))), (''simulcast'', JBool (r_simulcast_enabled room)),
                    (''created_at'', jnum (r_created_at room)),
                    (''participants'', JArr (map (\<lambda>r. participant_snapshot (part w r)) (all_participants room)))]
      in if r_mode room = Ptt
         then jset ''ptt'' (JObj
                [(''floor_speaker'', jopt JStr (current_speaker (r_floor room))),
                 (''audio_virtual_ssrc'', JStr (''0x'' @ hex True 8 (unat (virtual_ssrc (r_audio_rewriter room))))),
                 (''video_virtual_ssrc'', JStr (''0x'' @ hex True 8 (unat (virtual_ssrc (r_video_rewriter room)))))]) j
         else j)"

definition build_rooms_snapshot :: "u64 \<Rightarrow> 'f world \<Rightarrow> json" where
  "build_rooms_snapshot ts w = JObj
     [(''type'', JStr ''snapshot''), (''ts'', jnum ts), (''rooms'', JArr (map (\<lambda>e. room_snapshot w (snd e)) (h_rooms (w_hub w))))]"

text \<open>
  An admin connection gets the snapshot first and then what its subscription delivers; a flag tells whether sending
  succeeds. The result is what was sent and whether the connection stays open.
\<close>

datatype admin_event = Broadcast json bool | Lagged nat | Bus_closed | Admin_closed | Admin_message

definition admin_connect :: "u64 \<Rightarrow> 'f world \<Rightarrow> bool \<Rightarrow> json list \<times> bool" where
  "admin_connect ts w ok = (if ok then ([build_rooms_snapshot ts w], True) else ([], False))"

fun admin_step :: "admin_event \<Rightarrow> json list \<times> bool" where
  "admin_step (Broadcast j ok) = (if ok then ([j], True) else ([], False))"
| "admin_step (Lagged n) = ([], True)"
| "admin_step Bus_closed = ([], False)"
| "admin_step Admin_closed = ([], False)"
| "admin_step Admin_message = ([], True)"

text \<open>A change of a room pushes a snapshot onto the bus.\<close>

definition push_admin_snapshot :: "u64 \<Rightarrow> 'f world \<Rightarrow> bus option \<Rightarrow> bus option" where
  "push_admin_snapshot ts w cell = emit (RoomSnapshot (build_rooms_snapshot ts w)) cell"

section \<open>Accounting\<close>

text \<open>The calls that tasks make, and one step of a call.\<close>

datatype agg_call =
    Call_inc u64
  | Call_inc_with u64 string "string option"
  | Call_register u64 string "string option"
  | Call_clear string
  | Call_flush

fun agg_turn :: "(u64 \<Rightarrow> nat) \<Rightarrow> nat \<Rightarrow> nat \<Rightarrow> u64 \<Rightarrow> agg_call \<Rightarrow> agg_pc \<Rightarrow> agg_table \<Rightarrow> agg_pc \<times> agg_table" where
  "agg_turn S N seen ns (Call_inc key) pc t = (if pc = Agg_start then agg_inc ns key t else (pc, t))"
| "agg_turn S N seen ns (Call_inc_with key label room) pc t = inc_with seen ns key label room pc t"
| "agg_turn S N seen ns (Call_register key label room) pc t = agg_register seen ns key label room pc t"
| "agg_turn S N seen ns (Call_clear room) pc t = clear_room S N room pc t"
| "agg_turn S N seen ns Call_flush pc t = agg_flush S N pc t"

text \<open>
  Any number of calls, interleaved freely; \<open>W\<close> of them at most are in flight between two of their steps. What \<open>len\<close> returns is
  arbitrary, unless no other call is in flight or \<open>exact\<close> is set.
\<close>

definition in_flight :: "agg_pc \<Rightarrow> bool" where
  "in_flight pc \<longleftrightarrow> (case pc of Agg_len \<Rightarrow> True | Agg_put \<Rightarrow> True | Agg_sweep _ _ \<Rightarrow> True | _ \<Rightarrow> False)"

definition flying :: "(agg_call \<times> agg_pc) list \<Rightarrow> nat" where
  "flying cs = length (filter (\<lambda>c. in_flight (snd c)) cs)"

definition start_agg :: "agg_call list \<Rightarrow> (agg_call \<times> agg_pc) list" where
  "start_agg calls = map (\<lambda>c. (c, Agg_start)) calls"

inductive agg_step ::
  "(u64 \<Rightarrow> nat) \<Rightarrow> nat \<Rightarrow> bool \<Rightarrow> nat \<Rightarrow> (agg_call \<times> agg_pc) list \<times> agg_table \<Rightarrow> (agg_call \<times> agg_pc) list \<times> agg_table \<Rightarrow> bool"
  for S N exact W where
  turn: "i < length cs \<Longrightarrow> cs ! i = (call, pc) \<Longrightarrow> exact \<or> flying (cs[i := (call, Agg_start)]) = 0 \<longrightarrow> seen = length t \<Longrightarrow>
    agg_turn S N seen ns call pc t = (pc', t') \<Longrightarrow> flying (cs[i := (call, pc')]) \<le> W \<Longrightarrow>
    agg_step S N exact W (cs, t) (cs[i := (call, pc')], t')"

inductive_cases agg_stepE: "agg_step S N exact W (cs, t) (cs', t')"

text \<open>What has become of the counts of a key: taken, reported or about to be, cleared, replaced, pending.\<close>

fun counts_key :: "u64 \<Rightarrow> agg_call \<Rightarrow> bool" where
  "counts_key key (Call_inc k) \<longleftrightarrow> k = key"
| "counts_key key (Call_inc_with k _ _) \<longleftrightarrow> k = key"
| "counts_key key _ \<longleftrightarrow> False"

fun swept_by :: "agg_pc \<Rightarrow> (u64 \<times> agg_entry) list" where
  "swept_by (Agg_sweep _ removed) = removed"
| "swept_by (Agg_swept removed) = removed"
| "swept_by _ = []"

definition entry_count :: "u64 \<Rightarrow> (u64 \<times> agg_entry) list \<Rightarrow> u64" where
  "entry_count key es = (\<Sum>e\<leftarrow>es. if fst e = key then ae_count (snd e) else 0)"

definition reported_count :: "u64 \<Rightarrow> agg_record list \<Rightarrow> u64" where
  "reported_count key rs = (\<Sum>r\<leftarrow>rs. if ar_key r = key then ar_count r else 0)"

definition counts_taken :: "u64 \<Rightarrow> agg_call \<times> agg_pc \<Rightarrow> u64" where
  "counts_taken key c = (case snd c of Agg_counted _ \<Rightarrow> if counts_key key (fst c) then 1 else 0 | _ \<Rightarrow> 0)"

definition counts_replaced :: "u64 \<Rightarrow> agg_call \<times> agg_pc \<Rightarrow> u64" where
  "counts_replaced key c = (case snd c of Agg_counted (Some e) \<Rightarrow> if counts_key key (fst c) then ae_count e else 0 | _ \<Rightarrow> 0)"

definition counts_reported :: "u64 \<Rightarrow> agg_call \<times> agg_pc \<Rightarrow> u64" where
  "counts_reported key c = (if fst c = Call_flush then reported_count key (flush_records (swept_by (snd c))) else 0)"

definition counts_cleared :: "u64 \<Rightarrow> agg_call \<times> agg_pc \<Rightarrow> u64" where
  "counts_cleared key c = (if fst c = Call_flush then 0 else entry_count key (swept_by (snd c)))"

definition counts_pending :: "u64 \<Rightarrow> agg_table \<Rightarrow> u64" where
  "counts_pending key t = (case dm_get t key of Some e \<Rightarrow> ae_count e | None \<Rightarrow> 0)"

abbreviation over :: "(u64 \<Rightarrow> agg_call \<times> agg_pc \<Rightarrow> u64) \<Rightarrow> u64 \<Rightarrow> (agg_call \<times> agg_pc) list \<Rightarrow> u64" where
  "over f key cs \<equiv> (\<Sum>c\<leftarrow>cs. f key c)"

lemma flush_records_count: "reported_count key (flush_records es) = entry_count key es"
  by (induction es) (auto simp: reported_count_def flush_records_def entry_count_def agg_record_of_def)

lemma entry_count_split: "entry_count key (filter P es) + entry_count key (filter (\<lambda>e. \<not> P e) es) = entry_count key es"
  by (induction es) (auto simp: entry_count_def algebra_simps)

lemma counts_pending_eq: "dm_ok t \<Longrightarrow> counts_pending key t = entry_count key t"
proof (induction t)
  case (Cons e t)
  have "entry_count key t = 0" if "key \<notin> fst ` set t"
    using that by (induction t) (auto simp: entry_count_def)
  then show ?case using Cons by (cases e) (auto simp: dm_ok_def counts_pending_def entry_count_def map_of_eq_None_iff split: option.split)
qed (simp add: counts_pending_def entry_count_def)

lemma dm_ok_filter: "dm_ok t \<Longrightarrow> dm_ok (filter P t)"
  by (simp add: dm_ok_def distinct_map_filter)

text \<open>One step of one call keeps the books.\<close>

lemma agg_turn_dm_ok: "agg_turn S N seen ns call pc t = (pc', t') \<Longrightarrow> dm_ok t \<Longrightarrow> dm_ok t'"
  by (cases call; cases pc)
    (auto simp: agg_inc_def clear_room_def agg_flush_def retain_shard_def dm.ok_put dm_ok_filter split: option.splits if_splits)

definition counts_balance :: "u64 \<Rightarrow> agg_call \<times> agg_pc \<Rightarrow> u64" where
  "counts_balance key c = counts_reported key c + counts_cleared key c + counts_replaced key c - counts_taken key c"

lemma agg_turn_balance:
  assumes "agg_turn S N seen ns call pc t = (pc', t')" "dm_ok t"
  shows "counts_balance key (call, pc') + counts_pending key t' = counts_balance key (call, pc) + counts_pending key t"
proof -
  have sweep: "entry_count key (fst (retain_shard S i keep t)) + counts_pending key (snd (retain_shard S i keep t)) = counts_pending key t" for i keep
    using entry_count_split [of key "\<lambda>e. S (fst e) = i \<and> \<not> keep (snd e)" t]
    by (simp only: retain_shard_def fst_conv snd_conv counts_pending_eq [OF assms(2)] counts_pending_eq [OF dm_ok_filter [OF assms(2)]])
  have app: "entry_count key (es @ es') = entry_count key es + entry_count key es'" for es es' by (simp add: entry_count_def)
  note defs = counts_balance_def counts_reported_def counts_cleared_def counts_replaced_def counts_taken_def flush_records_count
  show ?thesis
  proof (cases call)
    case (Call_inc k)
    then show ?thesis using assms by (auto simp: defs agg_inc_def counts_pending_def bump_entry_def entry_count_def split: option.splits if_splits)
  next
    case (Call_inc_with k l r)
    then show ?thesis using assms by (cases pc) (auto simp: defs counts_pending_def bump_entry_def entry_count_def split: option.splits if_splits)
  next
    case (Call_register k l r)
    then show ?thesis using assms by (cases pc) (auto simp: defs counts_pending_def entry_count_def split: option.splits if_splits)
  next
    case (Call_clear room)
    then show ?thesis using assms(1) sweep
      by (cases pc) (auto simp: defs app clear_room_def case_prod_beta algebra_simps simp flip: sweep split: if_splits)
  next
    case Call_flush
    then show ?thesis using assms(1) sweep
      by (cases pc) (auto simp: defs app agg_flush_def case_prod_beta algebra_simps simp flip: sweep split: if_splits)
  qed
qed

text \<open>The state of a history of interleaved calls: what the number of calls in flight bounds, and where a call without a count comes from.\<close>

definition putting :: "(agg_call \<times> agg_pc) list \<Rightarrow> nat" where
  "putting cs = length (filter (\<lambda>c. snd c = Agg_put) cs)"

lemma count_upd:
  assumes "i < length cs"
  shows "length (filter P (cs[i := x])) + (if P (cs ! i) then 1 else 0) = length (filter P cs) + (if P x then 1 else 0)"
  using assms
proof (induction cs arbitrary: i)
  case (Cons c cs)
  then show ?case using Cons.IH [of "i - 1"] by (cases i) (simp_all split: if_splits)
qed simp

lemma putting_le_flying: "putting cs \<le> flying cs"
  by (induction cs) (auto simp: putting_def flying_def in_flight_def)

lemma agg_turn_keys:
  assumes "agg_turn S N seen ns call pc t = (pc', t')"
  shows "length t' \<le> length t + (if pc = Agg_put \<and> pc' \<noteq> Agg_put then 1 else 0)"
    "\<not> in_flight pc \<Longrightarrow> dm_get t k = None \<Longrightarrow> dm_get t' k = None"
    "pc' = Agg_put \<Longrightarrow> pc \<noteq> Agg_put \<Longrightarrow> t' = t \<and> seen < MAX_KEYS"
proof -
  have ins: "length (dm_insert k v m) \<le> Suc (length m)" "dm_get m k = Some w \<Longrightarrow> length (dm_insert k v m) = length m"
    for k v w and m :: agg_table
    by (induction m) auto
  note defs = agg_inc_def clear_room_def agg_flush_def retain_shard_def in_flight_def ins
  show "length t' \<le> length t + (if pc = Agg_put \<and> pc' \<noteq> Agg_put then 1 else 0)"
    using assms by (cases call; cases pc) (auto simp: defs split: option.splits if_splits)
  show "\<not> in_flight pc \<Longrightarrow> dm_get t k = None \<Longrightarrow> dm_get t' k = None"
    using assms by (cases call; cases pc) (auto simp: defs split: option.splits if_splits)
  show "pc' = Agg_put \<Longrightarrow> pc \<noteq> Agg_put \<Longrightarrow> t' = t \<and> seen < MAX_KEYS"
    using assms by (cases call; cases pc) (auto simp: defs split: option.splits if_splits)
qed

text \<open>The invariants of a history.\<close>

definition agg_books :: "nat \<Rightarrow> bool \<Rightarrow> (agg_call \<times> agg_pc) list \<times> agg_table \<Rightarrow> bool" where
  "agg_books W exact = (\<lambda>(cs, t).
     dm_ok t \<and> flying cs \<le> W \<and> (\<forall>key. over counts_balance key cs + counts_pending key t = 0) \<and>
     (exact \<or> W \<le> 1 \<longrightarrow> length t + putting cs < MAX_KEYS + W))"

lemma flying_upd: "i < length cs \<Longrightarrow>
    flying (cs[i := x]) + (if in_flight (snd (cs ! i)) then 1 else 0) = flying cs + (if in_flight (snd x) then 1 else 0)"
  unfolding flying_def by (rule count_upd)

lemma putting_upd: "i < length cs \<Longrightarrow>
    putting (cs[i := x]) + (if snd (cs ! i) = Agg_put then 1 else 0) = putting cs + (if snd x = Agg_put then 1 else 0)"
  unfolding putting_def by (rule count_upd)

lemma agg_books_start: "agg_books W exact (start_agg calls, [])"
proof -
  have "flying (start_agg calls) = 0" "putting (start_agg calls) = 0"
    by (simp_all add: flying_def putting_def start_agg_def in_flight_def filter_map o_def)
  moreover have "over counts_balance key (start_agg calls) = 0" for key
    by (induction calls) (auto simp: start_agg_def counts_balance_def counts_reported_def counts_cleared_def
        counts_replaced_def counts_taken_def reported_count_def flush_records_def entry_count_def)
  ultimately show ?thesis by (simp add: agg_books_def counts_pending_def MAX_KEYS_def)
qed

lemma agg_books_step:
  assumes "agg_step S N exact W s s'" "agg_books W exact s"
  shows "agg_books W exact s'"
  using assms
proof (cases rule: agg_step.cases)
  case (turn i cs call pc seen t ns pc' t')
  let ?cs = "cs[i := (call, pc')]"
  have inv: "dm_ok t" "flying cs \<le> W" "\<And>key. over counts_balance key cs + counts_pending key t = 0"
    "exact \<or> W \<le> 1 \<Longrightarrow> length t + putting cs < MAX_KEYS + W"
    using assms(2) turn(1) by (auto simp: agg_books_def)
  note len = agg_turn_keys(1) [OF turn(6)] and new = agg_turn_keys(3) [OF turn(6)]
  have put: "putting ?cs + (if pc = Agg_put then 1 else 0) = putting cs + (if pc' = Agg_put then 1 else 0)"
    using putting_upd [OF turn(3), of "(call, pc')"] turn(4) by simp
  have "length t' + putting ?cs < MAX_KEYS + W" if e: "exact \<or> W \<le> 1"
  proof (cases "pc' = Agg_put \<and> pc \<noteq> Agg_put")
    case True
    then have "flying (cs[i := (call, Agg_start)]) + 1 = flying ?cs"
      using flying_upd [OF turn(3), of "(call, pc')"] flying_upd [OF turn(3), of "(call, Agg_start)"] turn(4)
      by (auto simp: in_flight_def split: agg_pc.splits)
    then have "seen = length t" using e turn(5,7) by auto
    then show ?thesis using new True putting_le_flying [of ?cs] turn(7) by auto
  next
    case False
    then show ?thesis using inv(4) [OF e] len put by (auto split: if_splits)
  qed
  moreover have "over counts_balance key ?cs + counts_pending key t' = 0" for key
  proof -
    have o: "over counts_balance key ?cs = over counts_balance key cs - counts_balance key (call, pc) + counts_balance key (call, pc')"
      using turn(3,4) by (simp add: sum_list_upd)
    have p: "counts_pending key t' = counts_balance key (call, pc) + counts_pending key t - counts_balance key (call, pc')"
      using agg_turn_balance [OF turn(6) inv(1), of key] by (metis add_diff_cancel_left')
    show ?thesis using inv(3) [of key] by (simp add: o p)
  qed
  ultimately show ?thesis using agg_turn_dm_ok [OF turn(6) inv(1)] turn(2,7) by (simp add: agg_books_def)
qed

lemma agg_books_reach: "(agg_step S N exact W)\<^sup>*\<^sup>* (start_agg calls, []) s \<Longrightarrow> agg_books W exact s"
  by (induction rule: rtranclp_induct) (simp_all add: agg_books_start agg_books_step)

text \<open>When at most one call is in flight, a key that one was found to miss is still missing when it is inserted.\<close>

definition call_alone :: "agg_table \<Rightarrow> agg_call \<Rightarrow> agg_pc \<Rightarrow> bool" where
  "call_alone t call pc \<longleftrightarrow> (\<forall>e. pc \<noteq> Agg_counted (Some e)) \<and>
     (\<forall>key label room. call = Call_inc_with key label room \<and> (pc = Agg_len \<or> pc = Agg_put) \<longrightarrow> dm_get t key = None)"

definition agg_alone :: "(agg_call \<times> agg_pc) list \<times> agg_table \<Rightarrow> bool" where
  "agg_alone = (\<lambda>(cs, t). \<forall>(call, pc) \<in> set cs. call_alone t call pc)"

lemma agg_turn_own:
  assumes "agg_turn S N seen ns call pc t = (pc', t')"
    "\<And>key label room. call = Call_inc_with key label room \<Longrightarrow> pc = Agg_len \<or> pc = Agg_put \<Longrightarrow> dm_get t key = None"
  shows "pc' = Agg_counted (Some e) \<Longrightarrow> pc = Agg_counted (Some e)"
    "call = Call_inc_with key label room \<Longrightarrow> pc' = Agg_len \<or> pc' = Agg_put \<Longrightarrow> dm_get t' key = None"
proof -
  note defs = agg_inc_def clear_room_def agg_flush_def case_prod_beta
  show "pc' = Agg_counted (Some e) \<Longrightarrow> pc = Agg_counted (Some e)"
    using assms by (cases call; cases pc) (auto simp: defs split: option.splits if_splits)
  show "call = Call_inc_with key label room \<Longrightarrow> pc' = Agg_len \<or> pc' = Agg_put \<Longrightarrow> dm_get t' key = None"
    using assms by (cases pc) (auto split: option.splits if_splits)
qed

lemma agg_alone_step:
  assumes "agg_step S N exact W s s'" "agg_alone s" "flying (fst s) \<le> 1" "flying (fst s') \<le> 1"
  shows "agg_alone s'"
  using assms(1)
proof (cases rule: agg_step.cases)
  case (turn i cs call pc seen t ns pc' t')
  have "call_alone t call pc" using nth_mem [OF turn(3)] turn(1,4) assms(2) by (auto simp: agg_alone_def)
  then have own: "call_alone t' call pc'"
    unfolding call_alone_def using agg_turn_own [OF turn(6)] by blast
  have other: "call_alone t' c p" if "j < length cs" "j \<noteq> i" "cs ! j = (c, p)" for j c p
  proof -
    have before: "call_alone t c p" using nth_mem [OF that(1)] that(3) turn(1) assms(2) by (auto simp: agg_alone_def)
    have "\<not> in_flight pc" if p: "in_flight p"
    proof
      assume "in_flight pc"
      then have "{i, j} \<subseteq> {k. k < length cs \<and> in_flight (snd (cs ! k))}"
        using turn(3,4) p \<open>j < length cs\<close> \<open>cs ! j = (c, p)\<close> by simp
      then have "card {i, j} \<le> flying cs" unfolding flying_def length_filter_conv_card by (intro card_mono) simp_all
      then show False using assms(3) turn(1) \<open>j \<noteq> i\<close> by simp
    qed
    moreover have "in_flight Agg_len" "in_flight Agg_put" by (simp_all add: in_flight_def)
    ultimately show ?thesis using before agg_turn_keys(2) [OF turn(6)] unfolding call_alone_def by blast
  qed
  have "call_alone t' c p" if new: "(c, p) \<in> set (cs[i := (call, pc')])" for c p
  proof -
    obtain j where "j < length cs" "cs[i := (call, pc')] ! j = (c, p)" using new by (auto simp: in_set_conv_nth)
    then show ?thesis using own other turn(3) by (cases "j = i") simp_all
  qed
  then show ?thesis using turn(2) by (auto simp: agg_alone_def)
qed

lemma agg_alone_reach:
  assumes "(agg_step S N exact W)\<^sup>*\<^sup>* (start_agg calls, []) s" "W \<le> 1"
  shows "agg_alone s"
  using assms(1)
proof (induction rule: rtranclp_induct)
  case base
  show ?case by (auto simp: agg_alone_def call_alone_def start_agg_def)
next
  case (step s s')
  have "flying (fst x) \<le> 1" if "(agg_step S N exact W)\<^sup>*\<^sup>* (start_agg calls, []) x" for x
    using agg_books_reach [OF that] assms(2) by (cases x) (auto simp: agg_books_def)
  then show ?case using agg_alone_step [OF step.hyps(2) step.IH] step.hyps by (meson rtranclp.rtrancl_into_rtrancl)
qed

text \<open>A call that returned without counting has been at a moment when its key was missing, or the table full.\<close>

lemma agg_skipped_reach:
  assumes "(agg_step S N exact W)\<^sup>*\<^sup>* (start_agg calls, []) s" "(call, Agg_skipped) \<in> set (fst s)"
    "\<exists>label room. call = Call_inc key \<or> call = Call_inc_with key label room \<and> (exact \<or> W \<le> 1)"
  shows "\<exists>s0. (agg_step S N exact W)\<^sup>*\<^sup>* (start_agg calls, []) s0 \<and> (agg_step S N exact W)\<^sup>*\<^sup>* s0 s \<and>
    (if call = Call_inc key then dm_get (snd s0) key = None else MAX_KEYS \<le> length (snd s0))"
  using assms(1,2)
proof (induction rule: rtranclp_induct)
  case base
  then show ?case by (auto simp: start_agg_def)
next
  case (step s s')
  show ?case
  proof (cases "(call, Agg_skipped) \<in> set (fst s)")
    case True
    then show ?thesis using step by (meson rtranclp.rtrancl_into_rtrancl)
  next
    case False
    from step.hyps(2) show ?thesis
    proof (cases rule: agg_step.cases)
      case (turn i cs call' pc seen t ns pc' t')
      have fl: "flying (cs[i := (call', Agg_start)]) = 0" if "in_flight pc" "W \<le> 1"
        using flying_upd [OF turn(3), of "(call', Agg_start)"] turn(4) agg_books_reach [OF step.hyps(1)] turn(1) that
        by (auto simp: agg_books_def in_flight_def split: if_splits)
      have me: "(call', pc') = (call, Agg_skipped)"
        using step.prems False turn(1,2,3) by (auto dest!: set_upd_cases)
      then have "pc \<noteq> Agg_skipped" using False turn(1,3,4) by (metis fst_conv nth_mem prod.inject)
      then have "if call = Call_inc key then dm_get t key = None else MAX_KEYS \<le> length t"
        using me assms(3) turn(5,6) fl by (cases pc) (auto simp: agg_inc_def in_flight_def split: option.splits if_splits)
      then show ?thesis using step.hyps turn(1) by (intro exI [of _ s]) auto
    qed
  qed
qed

text \<open>
  One interleaving, given as the calls that move and their clocks, with an exact \<open>len\<close>; it ends at \<open>None\<close> when more than \<open>W\<close>
  calls are in flight.
\<close>

fun agg_run ::
  "(u64 \<Rightarrow> nat) \<Rightarrow> nat \<Rightarrow> nat \<Rightarrow> (nat \<times> u64) list \<Rightarrow> (agg_call \<times> agg_pc) list \<times> agg_table \<Rightarrow>
    ((agg_call \<times> agg_pc) list \<times> agg_table) option" where
  "agg_run S N W [] s = Some s"
| "agg_run S N W ((i, ns) # moves) (cs, t) =
     (if i < length cs
      then (case agg_turn S N (length t) ns (fst (cs ! i)) (snd (cs ! i)) t of (pc', t') \<Rightarrow>
              let cs' = cs[i := (fst (cs ! i), pc')] in if flying cs' \<le> W then agg_run S N W moves (cs', t') else None)
      else None)"

lemma agg_run_reach: "agg_run S N W moves s = Some s' \<Longrightarrow> (agg_step S N True W)\<^sup>*\<^sup>* s s'"
proof (induction S N W moves s rule: agg_run.induct)
  case (2 S N W i ns moves cs t)
  obtain pc' t' where step: "agg_turn S N (length t) ns (fst (cs ! i)) (snd (cs ! i)) t = (pc', t')" by fastforce
  then have "agg_step S N True W (cs, t) (cs[i := (fst (cs ! i), pc')], t')"
    using "2.prems" by (intro agg_step.turn) (auto simp: Let_def split: if_splits)
  moreover have "(agg_step S N True W)\<^sup>*\<^sup>* (cs[i := (fst (cs ! i), pc')], t') s'"
    using 2 step by (auto simp: Let_def split: if_splits)
  ultimately show ?case by (rule converse_rtranclp_into_rtranclp)
qed simp

text \<open>
  Two calls of \<open>inc_with\<close> race on a new key: both miss it, both insert, and the second insertion takes the count of the first away.
\<close>

definition racing_calls :: "agg_call list" where
  "racing_calls = [Call_inc_with 7 ''drop'' None, Call_inc_with 7 ''drop'' None]"

definition fresh_entry :: "u64 \<Rightarrow> agg_entry" where
  "fresh_entry ns = \<lparr> ae_count = 1, ae_first_ns = ns, ae_last_ns = ns, ae_label = ''drop'', ae_room = None \<rparr>"

definition raced :: "(agg_call \<times> agg_pc) list \<times> agg_table" where
  "raced = (zip racing_calls [Agg_counted None, Agg_counted (Some (fresh_entry 50))], [(7, fresh_entry 60)])"

lemma racing_first_incs:
  "agg_run (\<lambda>_. 0) 1 2 [(0, 10), (1, 20), (0, 30), (1, 40), (0, 50), (1, 60)] (start_agg racing_calls, []) = Some raced"
  "over counts_taken 7 (fst raced) = 2" "counts_pending 7 (snd raced) = 1" "over counts_replaced 7 (fst raced) = 1"
  by (simp_all add: start_agg_def racing_calls_def raced_def fresh_entry_def MAX_KEYS_def flying_def in_flight_def
      counts_taken_def counts_pending_def counts_replaced_def)

text \<open>Two calls that both find 1023 keys leave 1025.\<close>

lemma two_callers_overrun:
  assumes "length t = 1023" "dm_get t 7 = None" "dm_get t 8 = None"
  shows "\<exists>s. agg_run S N 2 [(0, a), (1, a), (0, a), (1, a), (0, a), (1, a)]
           (start_agg [Call_inc_with 7 x None, Call_inc_with 8 y None], t) = Some s \<and> length (snd s) = 1025"
proof -
  have len: "length (dm_insert k v m) = Suc (length m)" if "dm_get m k = None" for k v and m :: agg_table
    using that by (induction m) (auto split: if_splits)
  show ?thesis using assms by (simp add: start_agg_def MAX_KEYS_def flying_def in_flight_def len)
qed

text \<open>A key that was registered before a flush and not counted is gone after it, so a later \<open>inc\<close> of it counts nothing.\<close>

lemma registered_key_forgotten:
  "\<exists>gone. agg_run (\<lambda>_. 0) 1 1 [(0, a), (0, a), (1, b), (1, b), (1, b), (2, c)]
       (start_agg [Call_register key label room, Call_flush, Call_inc key], []) =
     Some ([(Call_register key label room, Agg_skipped), (Call_flush, Agg_swept gone), (Call_inc key, Agg_skipped)], []) \<and>
   flush_records gone = []"
  by (simp add: start_agg_def MAX_KEYS_def flying_def in_flight_def agg_flush_def retain_shard_def agg_inc_def flush_records_def)



text \<open>
  The bus delivers what it took, in order: started once, it takes up to 512 events while its task does not run, and
  broadcasts exactly those.
\<close>

lemma bus_delivers:
  assumes "bus_init None = Some cell" "length evs \<le> BUS_CHANNEL_SIZE"
  shows "map_option run_bus_task (fold emit evs cell) = Some (map event_json evs)" "bus_init (fold emit evs cell) = None"
proof -
  have run: "run_bus_task q = map event_json q" for q by (induction q) simp_all
  have "fold emit evs (Some q) = Some (q @ evs)" if "length q + length evs \<le> BUS_CHANNEL_SIZE" for q
    using that by (induction evs arbitrary: q) (simp_all add: emit_def bus_emit_def)
  from this [of "[]"] have "fold emit evs cell = Some evs" using assms by (simp add: bus_init_def once_init_def)
  then show "map_option run_bus_task (fold emit evs cell) = Some (map event_json evs)" "bus_init (fold emit evs cell) = None"
    by (simp_all add: run bus_init_def once_init_def)
qed

text \<open>One turn at a time, the oldest event goes first.\<close>

lemma bus_fifo:
  "bus_turn (bus_emit ev q) = (case q of
     [] \<Rightarrow> Some (event_json ev, []) | x # xs \<Rightarrow> Some (event_json x, if length q < BUS_CHANNEL_SIZE then xs @ [ev] else xs))"
  by (cases q) (simp_all add: bus_turn_def bus_emit_def BUS_CHANNEL_SIZE_def)

end
