(* ===== verification/Media.thy ===== *)
theory Media
  imports Stun
begin

text \<open>
  The routing table of \<open>media/router.rs\<close> and the track context of \<open>media/track.rs\<close>. The running server does not use
  them; they are the public interface of the module. Contexts are shared (\<open>Arc\<close>), so the table holds references into a
  heap of contexts, and a change through one holder is seen by all.
\<close>

section \<open>Track contexts\<close>

datatype media_track_kind = AudioTrack | VideoTrack

record track_context =
  tc_ssrc :: u32
  tc_participant_id :: string
  tc_room_id :: string
  tc_kind :: media_track_kind
  tc_remote_addr :: "socket_addr option"
  tc_last_seen :: u64

definition track_context_new :: "u32 \<Rightarrow> string \<Rightarrow> string \<Rightarrow> media_track_kind \<Rightarrow> track_context" where
  "track_context_new ssrc participant_id room_id kind =
     \<lparr> tc_ssrc = ssrc, tc_participant_id = participant_id, tc_room_id = room_id, tc_kind = kind,
       tc_remote_addr = None, tc_last_seen = 0 \<rparr>"

definition touch_context :: "u64 \<Rightarrow> track_context \<Rightarrow> track_context" where
  "touch_context ts c = c\<lparr> tc_last_seen := ts \<rparr>"

section \<open>The table\<close>

type_synonym router = "(u32, nat) dmap"

definition router_new :: router where
  "router_new = []"

definition router_register :: "u32 \<Rightarrow> nat \<Rightarrow> router \<Rightarrow> router" where
  "router_register ssrc ctx r = dm_insert ssrc ctx r"

definition router_unregister :: "u32 \<Rightarrow> router \<Rightarrow> router" where
  "router_unregister ssrc r = dm_remove ssrc r"

definition router_lookup :: "router \<Rightarrow> u32 \<Rightarrow> nat option" where
  "router_lookup r ssrc = dm_get r ssrc"

interpretation router: map_contract router_lookup router_register router_unregister dm_ok
  by unfold_locales
    (simp_all add: fun_eq_iff router_lookup_def router_register_def router_unregister_def dm.ok_put dm.ok_del)

text \<open>
  A context that is reached through the table is the registered one, with whatever its other holders did to it;
  unregistering hides it from the table only.
\<close>

lemma router_shares_context:
  assumes "i < length heap"
  shows "map_option (\<lambda>j. heap[i := touch_context ts (heap ! i)] ! j) (router_lookup (router_register ssrc i r) ssrc) =
      Some (touch_context ts (heap ! i))"
    and "router_lookup (router_unregister ssrc (router_register ssrc i r)) ssrc = None"
    and "ssrc' \<noteq> ssrc \<Longrightarrow> router_lookup (router_unregister ssrc (router_register ssrc i r)) ssrc' = router_lookup r ssrc'"
  using assms by (simp_all add: router.get_put_same router.get_del_same router.del_put)

end
