(* ===== verification/UnitTests.thy ===== *)
theory UnitTests
  imports Floor Twcc Terminator Rtcp Stun Dtls
begin

text \<open>
  The unit tests of the repository, the \<open>#[cfg(test)]\<close> modules of \<open>room/floor.rs\<close>, \<open>transport/demux.rs\<close>,
  \<open>transport/srtp.rs\<close>, \<open>transport/stun.rs\<close>, \<open>transport/udp/rtcp.rs\<close>, \<open>transport/udp/rtcp_terminator.rs\<close> and
  \<open>transport/udp/twcc.rs\<close>, run against the model. A test is a boolean definition with the name of the test
  function: its steps in order and the conjunction of its assertions. The lemma \<open><test>_passes\<close> shows that it
  holds. What a test reads from a clock is an argument, so such a lemma holds for every clock. A panic of the
  tested code is \<open>None\<close> in the model and fails the test. The values that the authors expect of their code are
  thereby those of the definitions that all other theorems are about.
\<close>

section \<open>Floor control\<close>

fun is_granted :: "user_id \<Rightarrow> floor_action \<Rightarrow> bool" where
  "is_granted u (Granted speaker _ _) \<longleftrightarrow> speaker = u"
| "is_granted u _ \<longleftrightarrow> False"

fun is_revoked :: "user_id \<Rightarrow> floor_action \<Rightarrow> bool" where
  "is_revoked u (Revoked prev_speaker _) \<longleftrightarrow> prev_speaker = u"
| "is_revoked u _ \<longleftrightarrow> False"

fun is_denied :: "string \<Rightarrow> floor_action \<Rightarrow> bool" where
  "is_denied why (Denied reason _) \<longleftrightarrow> reason = why"
| "is_denied why _ \<longleftrightarrow> False"

fun is_queued :: "floor_action \<Rightarrow> bool" where
  "is_queued (Queued _ _ _ _) \<longleftrightarrow> True"
| "is_queued _ \<longleftrightarrow> False"

text \<open>The requests a test makes before the one whose actions it looks at.\<close>

definition requests :: "floor_config \<Rightarrow> (user_id \<times> u8 \<times> u64) list \<Rightarrow> floor_inner" where
  "requests cfg rs = fold (\<lambda>(u, p, t) s. fst (request cfg u p t s)) rs floor_new"

definition test_now :: u64 where [simp]: "test_now = 1000000"

definition test_basic_grant_release :: "u64 \<Rightarrow> bool" where
  "test_basic_grant_release clock =
     (let (fc, actions) = request default_floor_config ''A'' 0 test_now floor_new;
          released = snd (release ''A'' clock fc)
      in length actions = 1 \<and> is_granted ''A'' (actions ! 0) \<and> length released = 1 \<and>
         (case released ! 0 of Released _ \<Rightarrow> True | _ \<Rightarrow> False))"

definition test_preemption :: bool where
  "test_preemption =
     (let actions = snd (request default_floor_config ''B'' 5 test_now (requests default_floor_config [(''A'', 2, test_now)]))
      in length actions = 2 \<and> actions ! 0 = Revoked ''A'' ''preempted'' \<and>
         (case actions ! 1 of Granted speaker priority _ \<Rightarrow> speaker = ''B'' \<and> priority = 5 | _ \<Rightarrow> False))"

definition test_no_preemption_same_priority :: bool where
  "test_no_preemption_same_priority =
     (let actions = snd (request default_floor_config ''B'' 3 test_now (requests default_floor_config [(''A'', 3, test_now)]))
      in length actions = 1 \<and> is_queued (actions ! 0))"

definition test_queue_fifo_same_priority :: "u64 \<Rightarrow> bool" where
  "test_queue_fifo_same_priority clock =
     (let fc = requests default_floor_config [(''A'', 5, test_now), (''B'', 2, test_now), (''C'', 2, test_now + 1)];
          actions = snd (release ''A'' clock fc)
      in 2 \<le> length actions \<and> is_granted ''B'' (actions ! 1))"

definition test_queue_priority_order :: "u64 \<Rightarrow> bool" where
  "test_queue_priority_order clock =
     (let fc = requests default_floor_config
                 [(''A'', 10, test_now), (''B'', 1, test_now), (''C'', 5, test_now), (''D'', 3, test_now)];
          actions = snd (release ''A'' clock fc)
      in 2 \<le> length actions \<and> is_granted ''C'' (actions ! 1))"

definition test_queue_full_deny :: bool where
  "test_queue_full_deny =
     (let config = default_floor_config\<lparr> max_queue_size := 2 \<rparr>;
          fc = requests config [(''A'', 0, test_now), (''B'', 0, test_now), (''C'', 0, test_now)];
          actions = snd (request config ''D'' 0 test_now fc)
      in length actions = 1 \<and> is_denied ''queue full'' (actions ! 0))"

definition test_queue_disabled_deny :: bool where
  "test_queue_disabled_deny =
     (let config = default_floor_config\<lparr> queuing_enabled := False \<rparr>;
          actions = snd (request config ''B'' 0 test_now (requests config [(''A'', 0, test_now)]))
      in length actions = 1 \<and> is_denied ''channel busy'' (actions ! 0))"

definition test_participant_leave_speaker_queue_pop :: "u64 \<Rightarrow> bool" where
  "test_participant_leave_speaker_queue_pop clock =
     (let fc = requests default_floor_config [(''A'', 5, test_now), (''B'', 2, test_now)];
          actions = snd (on_participant_leave ''A'' clock fc)
      in 2 \<le> length actions \<and> actions ! 0 = Released ''A'' \<and> is_granted ''B'' (actions ! 1))"

definition test_participant_leave_queued :: "u64 \<Rightarrow> bool" where
  "test_participant_leave_queued clock =
     (let fc = requests default_floor_config [(''A'', 5, test_now), (''B'', 2, test_now)];
          (fc1, actions) = on_participant_leave ''B'' clock fc
      in actions = [] \<and> queue_size fc1 = 0)"

definition test_idempotent_request :: bool where
  "test_idempotent_request =
     (let actions = snd (request default_floor_config ''A'' 3 test_now (requests default_floor_config [(''A'', 3, test_now)]))
      in length actions = 1 \<and> is_granted ''A'' (actions ! 0))"

definition test_duplicate_queue :: bool where
  "test_duplicate_queue =
     (let fc = requests default_floor_config [(''A'', 5, test_now), (''B'', 2, test_now)];
          (fc1, actions) = request default_floor_config ''B'' 2 test_now fc
      in length actions = 1 \<and> (case actions ! 0 of Queued _ pos _ _ \<Rightarrow> pos = 1 | _ \<Rightarrow> False) \<and> queue_size fc1 = 1)"

definition test_check_timers_revoke_queue_pop :: "u64 \<Rightarrow> bool" where
  "test_check_timers_revoke_queue_pop clock =
     (let config = default_floor_config\<lparr> max_burst_ms := 100 \<rparr>;
          actions = snd (check_timers config 1200 clock (requests config [(''A'', 5, 1000), (''B'', 2, 1000)]))
      in length actions = 2 \<and> is_revoked ''A'' (actions ! 0) \<and> is_granted ''B'' (actions ! 1))"

lemmas floor_run = requests_def floor_new_def default_floor_config_def request_def release_def vacate_def try_grant_next_def
  on_participant_leave_def check_timers_def sort_by_def queue_le_def queue_size_def sat_sub_def Let_def

lemma test_basic_grant_release_passes: "test_basic_grant_release clock"
  by (simp add: test_basic_grant_release_def floor_run)

lemma test_preemption_passes: test_preemption
  by (simp add: test_preemption_def floor_run)

lemma test_no_preemption_same_priority_passes: test_no_preemption_same_priority
  by (simp add: test_no_preemption_same_priority_def floor_run)

lemma test_queue_fifo_same_priority_passes: "test_queue_fifo_same_priority clock"
  by (simp add: test_queue_fifo_same_priority_def floor_run)

lemma test_queue_priority_order_passes: "test_queue_priority_order clock"
  by (simp add: test_queue_priority_order_def floor_run)

lemma test_queue_full_deny_passes: test_queue_full_deny
  by (simp add: test_queue_full_deny_def floor_run)

lemma test_queue_disabled_deny_passes: test_queue_disabled_deny
  by (simp add: test_queue_disabled_deny_def floor_run)

lemma test_participant_leave_speaker_queue_pop_passes: "test_participant_leave_speaker_queue_pop clock"
  by (simp add: test_participant_leave_speaker_queue_pop_def floor_run)

lemma test_participant_leave_queued_passes: "test_participant_leave_queued clock"
  by (simp add: test_participant_leave_queued_def floor_run)

lemma test_idempotent_request_passes: test_idempotent_request
  by (simp add: test_idempotent_request_def floor_run)

lemma test_duplicate_queue_passes: test_duplicate_queue
  by (simp add: test_duplicate_queue_def floor_run)

lemma test_check_timers_revoke_queue_pop_passes: "test_check_timers_revoke_queue_pop clock"
  by (simp add: test_check_timers_revoke_queue_pop_def floor_run)

section \<open>Demultiplexer\<close>

definition test_classify_stun :: bool where
  "test_classify_stun \<longleftrightarrow> classify [0x00, 0x01] = Stun_pkt \<and> classify [0x01, 0x01] = Stun_pkt"

definition test_classify_dtls :: bool where
  "test_classify_dtls \<longleftrightarrow> classify [0x16, 0xFE] = Dtls_pkt \<and> classify [0x17, 0xFE] = Dtls_pkt"

definition test_classify_srtp :: bool where
  "test_classify_srtp \<longleftrightarrow> classify [0x80, 0x60] = Srtp_pkt"

definition test_classify_empty :: bool where
  "test_classify_empty \<longleftrightarrow> classify [] = Unknown_pkt"

definition test_classify_unknown :: bool where
  "test_classify_unknown \<longleftrightarrow> classify [0x50] = Unknown_pkt"

lemma test_classify_passes:
  test_classify_stun test_classify_dtls test_classify_srtp test_classify_empty test_classify_unknown
  by (simp_all add: test_classify_stun_def test_classify_dtls_def test_classify_srtp_def test_classify_empty_def
      test_classify_unknown_def classify_def)

section \<open>MBCP packets\<close>

definition test_build_parse_freq :: bool where
  "test_build_parse_freq =
     (let pkt = build_mbcp_app MBCP_SUBTYPE_FREQ 0x12345678 None
      in length pkt = 12 \<and>
         (case parse_mbcp_app pkt of None \<Rightarrow> False
          | Some msg \<Rightarrow> mb_subtype msg = MBCP_SUBTYPE_FREQ \<and> mb_ssrc msg = 0x12345678 \<and> mb_data msg = None))"

definition test_build_parse_ftkn_with_data :: bool where
  "test_build_parse_ftkn_with_data =
     (let pkt = build_mbcp_app MBCP_SUBTYPE_FTKN 0 (Some ''user_42'')
      in length pkt = 20 \<and>
         (case parse_mbcp_app pkt of None \<Rightarrow> False
          | Some msg \<Rightarrow> mb_subtype msg = MBCP_SUBTYPE_FTKN \<and> mb_data msg = Some ''user_42''))"

definition test_build_parse_frel :: bool where
  "test_build_parse_frel =
     (let pkt = build_mbcp_app MBCP_SUBTYPE_FREL 0xAABBCCDD None
      in length pkt = 12 \<and>
         (case parse_mbcp_app pkt of None \<Rightarrow> False
          | Some msg \<Rightarrow> mb_subtype msg = MBCP_SUBTYPE_FREL \<and> mb_ssrc msg = 0xAABBCCDD))"

definition test_build_parse_frvk_with_cause :: bool where
  "test_build_parse_frvk_with_cause =
     (let pkt = build_mbcp_app MBCP_SUBTYPE_FRVK 0 (Some ''max burst exceeded'')
      in case parse_mbcp_app pkt of None \<Rightarrow> False
         | Some msg \<Rightarrow> mb_subtype msg = MBCP_SUBTYPE_FRVK \<and> mb_data msg = Some ''max burst exceeded'')"

definition test_reject_non_mbcp_app :: bool where
  "test_reject_non_mbcp_app =
     (let pkt = copy_at 8 (bytes_of ''XXXX'') (build_mbcp_app MBCP_SUBTYPE_FREQ 0 None)
      in parse_mbcp_app pkt = None)"

definition test_split_compound_with_mbcp :: bool where
  "test_split_compound_with_mbcp =
     (case split_compound_rtcp (build_mbcp_app MBCP_SUBTYPE_FREQ 0x11111111 None) of None \<Rightarrow> False
      | Some parsed \<Rightarrow>
          length (mbcp_blocks parsed) = 1 \<and> mb_subtype (mbcp_blocks parsed ! 0) = MBCP_SUBTYPE_FREQ \<and>
          mb_ssrc (mbcp_blocks parsed ! 0) = 0x11111111 \<and> nack_blocks parsed = [] \<and> relay_blocks parsed = [])"

text \<open>One of the three parts of \<open>test_4byte_alignment\<close>: a text and the length its packet must have.\<close>

definition aligned_round_trip :: "string \<Rightarrow> nat \<Rightarrow> bool" where
  "aligned_round_trip text len =
     (let pkt = build_mbcp_app MBCP_SUBTYPE_FTKN 0 (Some text)
      in length pkt = len \<and>
         (case parse_mbcp_app pkt of None \<Rightarrow> False | Some msg \<Rightarrow> mb_data msg = Some text))"

definition test_4byte_alignment :: bool where
  "test_4byte_alignment \<longleftrightarrow>
     aligned_round_trip ''A'' 16 \<and> aligned_round_trip ''ABCD'' 16 \<and> aligned_round_trip ''ABCDE'' 20"

lemma test_mbcp_passes:
  test_build_parse_freq test_build_parse_ftkn_with_data test_build_parse_frel test_build_parse_frvk_with_cause
  test_reject_non_mbcp_app test_4byte_alignment
  by code_simp+

lemma test_split_compound_with_mbcp_passes: test_split_compound_with_mbcp
  by code_simp

section \<open>RTCP terminator\<close>

text \<open>\<open>stats.update(i, i * 960, i * 20)\<close>: a packet every 20 milliseconds of audio, for each \<open>i\<close> of a list.\<close>

definition update_all :: "'f f64_ops \<Rightarrow> u16 list \<Rightarrow> 'f recv_stats \<Rightarrow> 'f recv_stats" where
  "update_all F seqs s = fold (\<lambda>i. recv_update F i (ucast i * 960) (ucast i * 20)) seqs s"

definition test_recv_stats_basic_loss :: "'f f64_ops \<Rightarrow> instant \<Rightarrow> bool" where
  "test_recv_stats_basic_loss F now =
     (let stats = update_all F [0, 1, 2, 3] (recv_new F 0x12345678 48000);
          block = fst (build_rr_block F now stats)
      in rb_fraction_lost block = 0 \<and> rb_cumulative_lost block = 0)"

definition test_recv_stats_with_loss :: "'f f64_ops \<Rightarrow> instant \<Rightarrow> bool" where
  "test_recv_stats_with_loss F now =
     (let stats = recv_update F 5 (5 * 960) (5 * 20) (update_all F [0, 1, 2] (recv_new F 0x12345678 48000));
          block = fst (build_rr_block F now stats)
      in rb_cumulative_lost block = 2 \<and> 0 < rb_fraction_lost block)"

definition test_recv_stats_jitter :: "'f f64_ops \<Rightarrow> instant \<Rightarrow> bool" where
  "test_recv_stats_jitter F now =
     (let stats = update_all F [0, 1, 2, 3, 4, 5, 6, 7, 8, 9] (recv_new F 0x12345678 48000);
          block = fst (build_rr_block F now stats)
      in rb_jitter block < 100)"

definition test_build_receiver_report_format :: bool where
  "test_build_receiver_report_format =
     (let block = \<lparr> rb_ssrc = 0xAABBCCDD, rb_fraction_lost = 25, rb_cumulative_lost = 100,
                    rb_extended_highest_seq = 5000, rb_jitter = 50, rb_last_sr = 0x11223344,
                    rb_delay_since_last_sr = 0x55667788 \<rparr>;
          rr = build_receiver_report 0x00000001 [block]
      in length rr = 32 \<and> rr ! 0 AND 0xC0 = 0x80 \<and> rr ! 0 AND 0x1F = 1 \<and> rr ! 1 = RTCP_PT_RR)"

text \<open>The statistics of the sender-report tests, sent at \<open>t\<close>; \<open>unix_ns\<close> and \<open>now\<close> are the clocks of the report.\<close>

definition sent_stats :: "u32 \<Rightarrow> u32 \<Rightarrow> u32 \<Rightarrow> u32 \<Rightarrow> instant \<Rightarrow> send_stats" where
  "sent_stats ssrc packets bytes rtp_ts t =
     \<lparr> ss_ssrc = ssrc, ss_packets_sent = packets, ss_bytes_sent = bytes, ss_last_rtp_ts = rtp_ts,
       ss_last_send_time = Some t, ss_clock_rate = 48000 \<rparr>"

definition test_build_sender_report_format :: "nat \<Rightarrow> instant \<Rightarrow> instant \<Rightarrow> bool" where
  "test_build_sender_report_format unix_ns t now =
     (let sr = build_sender_report unix_ns now (sent_stats 0xDEADBEEF 1000 160000 48000 t)
      in length sr = 28 \<and> sr ! 0 AND 0xC0 = 0x80 \<and> sr ! 1 = RTCP_PT_SR)"

definition test_translate_sr_ptt_mode :: "nat \<Rightarrow> instant \<Rightarrow> instant \<Rightarrow> bool" where
  "test_translate_sr_ptt_mode unix_ns t now =
     (let sr = build_sender_report unix_ns now (sent_stats 0xAAAAAAAA 500 80000 48000 t);
          tr = \<lparr> tr_ssrc = Some 0xBBBBBBBB, tr_rtp_ts = Some 96000, tr_packet_count = 300, tr_octet_count = 48000 \<rparr>
      in case translate_sr sr tr of None \<Rightarrow> False
         | Some translated \<Rightarrow>
             be32_at translated 4 = 0xBBBBBBBB \<and> take 8 (drop 8 translated) = take 8 (drop 8 sr) \<and>
             be32_at translated 16 = 96000 \<and> be32_at translated 20 = 300 \<and> be32_at translated 24 = 48000)"

definition test_translate_sr_conference_mode :: "nat \<Rightarrow> instant \<Rightarrow> instant \<Rightarrow> bool" where
  "test_translate_sr_conference_mode unix_ns t now =
     (let sr = build_sender_report unix_ns now (sent_stats 0xCCCCCCCC 1000 160000 48000 t);
          tr = \<lparr> tr_ssrc = None, tr_rtp_ts = None, tr_packet_count = 800, tr_octet_count = 128000 \<rparr>
      in case translate_sr sr tr of None \<Rightarrow> False
         | Some translated \<Rightarrow>
             take 4 (drop 4 translated) = take 4 (drop 4 sr) \<and> take 8 (drop 8 translated) = take 8 (drop 8 sr) \<and>
             take 4 (drop 16 translated) = take 4 (drop 16 sr) \<and> be32_at translated 20 = 800)"

definition test_sr_ntp_roundtrip :: "nat \<Rightarrow> instant \<Rightarrow> instant \<Rightarrow> bool" where
  "test_sr_ntp_roundtrip unix_ns t now =
     (let sr = build_sender_report unix_ns now (sent_stats 0x11111111 1 100 960 t)
      in case parse_sr_ntp sr of None \<Rightarrow> False
         | Some (ssrc, ntp_hi, ntp_lo) \<Rightarrow> ssrc = 0x11111111 \<and> 0 < ntp_hi)"

lemmas recv_run_simps = update_all_def recv_new_def recv_update_def count_packet_def update_jitter_def init_seq_def
  build_rr_block_def Let_def

text \<open>
  Every packet of these tests arrives on its tick, so the jitter is never updated and the floating-point
  operations do not matter, but for zero. The second packet ends the probation and restarts the count, so the
  five packets from 1 to 5 are expected in \<open>test_recv_stats_with_loss\<close>, and three of them counted.
\<close>

lemma test_recv_stats_passes:
  "test_recv_stats_basic_loss F now" "test_recv_stats_with_loss F now"
  by (simp_all add: test_recv_stats_basic_loss_def test_recv_stats_with_loss_def recv_run_simps)

lemma test_recv_stats_jitter_passes: "f_to_u32 F (f_zero F) = 0 \<Longrightarrow> test_recv_stats_jitter F now"
  by (simp add: test_recv_stats_jitter_def recv_run_simps)

lemma test_build_receiver_report_format_passes: test_build_receiver_report_format
  by code_simp

lemmas sr_run_simps = build_sender_report_def sent_stats_def wallclock_to_ntp_def translate_sr_def parse_sr_ntp_def
  copy_at_def be32_at_def be16_def be32_def Let_def

lemma test_sender_report_passes:
  "test_build_sender_report_format unix_ns t now" "test_translate_sr_ptt_mode unix_ns t now"
  "test_translate_sr_conference_mode unix_ns t now"
  by (simp_all add: test_build_sender_report_format_def test_translate_sr_ptt_mode_def
      test_translate_sr_conference_mode_def sr_run_simps of_be32_def)

text \<open>
  The seconds of the NTP time stamp are cut to 32 bits, so the last test fails once: in the second after
  the 32 bits overflow, on 7 February 2036. It passes before.
\<close>

lemma test_sr_ntp_roundtrip_passes:
  assumes "unix_ns div 1000000000 + 2208988800 < 2 ^ 32"
  shows "test_sr_ntp_roundtrip unix_ns t now"
proof -
  define secs where "secs = unix_ns div 1000000000 + 2208988800"
  have "unat (word_of_nat secs :: u32) = secs" using assms unfolding secs_def [symmetric] by (simp add: unat_of_nat take_bit_eq_mod)
  then have "0 < (word_of_nat secs :: u32)" by (simp add: word_less_nat_alt secs_def)
  moreover have "of_be32 17 4369 1118481 286331153 = 286331153" by (simp add: of_be32_def)
  ultimately show ?thesis by (simp add: test_sr_ntp_roundtrip_def sr_run_simps secs_def)
qed

section \<open>SRTP contexts\<close>

definition new_context_is_not_ready :: "'c srtp_lib \<Rightarrow> bool" where
  "new_context_is_not_ready L \<longleftrightarrow> \<not> srtp_is_ready (srtp_new :: 'c srtp_context)"

definition key_install_marks_ready :: "'c srtp_lib \<Rightarrow> bool" where
  "key_install_marks_ready L \<longleftrightarrow> srtp_is_ready (install_key L (replicate 16 0) (replicate 14 0) srtp_new)"

definition decrypt_before_key_returns_error :: "'c srtp_lib \<Rightarrow> bool" where
  "decrypt_before_key_returns_error L =
     (let rtp = [0x80, 0x78, 0x00, 0x01, 0x00, 0x00, 0x00, 0x00, 0x00, 0x01, 0xE2, 0x40]
      in fst (decrypt_rtp L rtp srtp_new) = Inl KeyNotInstalled)"

definition srtp_plaintext :: bytes where
  "srtp_plaintext = [0x80, 0x78, 0x00, 0x01, 0x00, 0x00, 0x00, 0x00, 0x00, 0x01, 0xE2, 0x40, 0xDE, 0xAD, 0xBE, 0xEF]"

definition encrypt_decrypt_roundtrip :: "'c srtp_lib \<Rightarrow> bool" where
  "encrypt_decrypt_roundtrip L =
     (let key = replicate 16 1; salt = replicate 14 2;
          enc_ctx = install_key L key salt srtp_new;
          dec_ctx = install_key L key salt srtp_new
      in case fst (encrypt_rtp L srtp_plaintext enc_ctx) of Inl _ \<Rightarrow> False
         | Inr encrypted \<Rightarrow>
             (case fst (decrypt_rtp L encrypted dec_ctx) of Inl _ \<Rightarrow> False
              | Inr decrypted \<Rightarrow> decrypted = srtp_plaintext))"

lemma new_context_is_not_ready_passes: "new_context_is_not_ready L"
  by (simp add: new_context_is_not_ready_def srtp_is_ready_def srtp_new_def)

text \<open>The tests that need the library pass when it takes the key and decrypts what it encrypts.\<close>

lemma key_install_marks_ready_passes:
  "lib_new L (replicate 16 0) (replicate 14 0) = Some c \<Longrightarrow> key_install_marks_ready L"
  by (simp add: key_install_marks_ready_def install_key_def srtp_is_ready_def)

lemma decrypt_before_key_returns_error_passes: "decrypt_before_key_returns_error L"
  by (simp add: decrypt_before_key_returns_error_def decrypt_rtp_def with_context_def srtp_new_def)

lemma encrypt_decrypt_roundtrip_passes:
  assumes "lib_new L (replicate 16 1) (replicate 14 2) = Some c"
    and "lib_encrypt_rtp L c srtp_plaintext = (c1, Inr encrypted)"
    and "lib_decrypt_rtp L c encrypted = (c2, Inr srtp_plaintext)"
  shows "encrypt_decrypt_roundtrip L"
  using assms
  by (simp add: encrypt_decrypt_roundtrip_def install_key_def encrypt_rtp_def decrypt_rtp_def with_context_def Let_def
      del: replicate.simps)

section \<open>TWCC\<close>

text \<open>\<open>0x90\<close> sets the extension bit; the headers of the tests differ in the sequence number.\<close>

definition twcc_header :: "u8 \<Rightarrow> u8 \<Rightarrow> bytes" where
  "twcc_header b0 seq = [b0, 96, 0x00, seq, 0x00, 0x00, 0x00, 0xA0, 0x00, 0x00, 0x10, 0x00]"

definition parse_twcc_seq_no_extension :: bool where
  "parse_twcc_seq_no_extension \<longleftrightarrow> parse_twcc_seq (twcc_header 0x80 1 @ [0xDE, 0xAD]) 6 = Some None"

definition parse_twcc_seq_one_byte_form :: bool where
  "parse_twcc_seq_one_byte_form \<longleftrightarrow>
     parse_twcc_seq (twcc_header 0x90 1 @ [0xBE, 0xDE, 0x00, 0x01, 0x61, 0x00, 0xFF, 0x00]) 6 = Some (Some 0x00FF)"

definition parse_twcc_seq_multiple_extensions :: bool where
  "parse_twcc_seq_multiple_extensions \<longleftrightarrow>
     parse_twcc_seq (twcc_header 0x90 2 @ [0xBE, 0xDE, 0x00, 0x03, 0x10, 0x00, 0x40, 0x7F, 0x61, 0x01, 0x23,
       0x00, 0x00, 0x00, 0x00, 0x00]) 6 = Some (Some 0x0123)"

definition parse_twcc_seq_wrong_id :: bool where
  "parse_twcc_seq_wrong_id \<longleftrightarrow>
     parse_twcc_seq (twcc_header 0x90 1 @ [0xBE, 0xDE, 0x00, 0x01, 0x61, 0x00, 0xFF, 0x00]) 3 = Some None"

definition parse_twcc_seq_two_byte_form_unsupported :: bool where
  "parse_twcc_seq_two_byte_form_unsupported \<longleftrightarrow>
     parse_twcc_seq (twcc_header 0x90 1 @ [0x10, 0x00, 0x00, 0x01, 0x06, 0x02, 0x00, 0xFF]) 6 = Some None"

lemma parse_twcc_seq_passes:
  parse_twcc_seq_no_extension parse_twcc_seq_one_byte_form parse_twcc_seq_multiple_extensions
  parse_twcc_seq_wrong_id parse_twcc_seq_two_byte_form_unsupported
  by code_simp+

definition recorder_basic :: "instant \<Rightarrow> bool" where
  "recorder_basic t0 =
     (let rec0 = twcc_new;
          rec1 = tw_record 100 t0 rec0;
          rec2 = tw_record 102 t0 (tw_record 101 t0 rec1);
          rec3 = advance_base rec2 103
      in \<not> started rec0 \<and> pending_count rec0 = 0 \<and>
         started rec1 \<and> pending_base_seq rec1 = 100 \<and> max_seq rec1 = 100 \<and> tw_count rec1 = 1 \<and>
         pending_count rec1 = 1 \<and> base_time rec1 \<noteq> None \<and>
         max_seq rec2 = 102 \<and> pending_count rec2 = 3 \<and>
         tw_get rec2 100 \<noteq> None \<and> tw_get rec2 101 \<noteq> None \<and> tw_get rec2 99 = None \<and>
         pending_base_seq rec3 = 103 \<and> pending_count rec3 = 0)"

definition recorder_seq_wrapping :: "instant \<Rightarrow> bool" where
  "recorder_seq_wrapping t0 \<longleftrightarrow>
     max_seq (tw_record 1 t0 (tw_record 0 t0 (tw_record 65535 t0 (tw_record 65534 t0 twcc_new)))) = 1"

definition recorder_overwrite :: "instant \<Rightarrow> bool" where
  "recorder_overwrite t0 =
     (let t1 = t0 + 100000000;
          cap = word_of_nat TWCC_RECORDER_CAPACITY;
          r = tw_record (42 + cap) t1 (tw_record 42 t0 twcc_new)
      in tw_get r 42 = None \<and> tw_get r (42 + cap) \<noteq> None)"

definition chunks_single_full :: bool where
  "chunks_single_full =
     (let chunks = encode_status_chunks
            [SmallDelta, SmallDelta, NotReceived, SmallDelta, LargeDelta, NotReceived, SmallDelta]
      in length chunks = 1 \<and> chunks ! 0 = 0xD461)"

definition chunks_padding :: bool where
  "chunks_padding =
     (let chunks = encode_status_chunks [SmallDelta, SmallDelta, SmallDelta] in length chunks = 1 \<and> chunks ! 0 = 0xD500)"

definition chunks_two_chunks :: bool where
  "chunks_two_chunks =
     (let chunks = encode_status_chunks (replicate 8 SmallDelta)
      in length chunks = 2 \<and> chunks ! 0 = 0xD555 \<and> chunks ! 1 = 0xD000)"

definition deltas_small_only :: bool where
  "deltas_small_only \<longleftrightarrow> encode_recv_deltas [SmallDelta, NotReceived, SmallDelta] [10, 20] = [10, 20]"

definition deltas_mixed :: bool where
  "deltas_mixed \<longleftrightarrow> encode_recv_deltas [SmallDelta, LargeDelta] [100, 300] = [100, 0x01, 0x2C]"

definition deltas_negative :: bool where
  "deltas_negative \<longleftrightarrow> encode_recv_deltas [LargeDelta] [- 100] = [0xFF, 0x9C]"

lemma twcc_encoding_passes: chunks_single_full chunks_padding chunks_two_chunks deltas_small_only deltas_mixed deltas_negative
  by code_simp+

lemma recorder_basic_passes: "recorder_basic t0"
  by (simp add: recorder_basic_def tw_get_record recorder_ok_new recorder_ok_record Let_def)
    (simp add: pending_count_def advance_base_def tw_record_def twcc_new_def tw_get_def Let_def)

lemma recorder_seq_wrapping_passes: "recorder_seq_wrapping t0"
  by (simp add: recorder_seq_wrapping_def tw_record_def twcc_new_def Let_def word_gt_0)

lemma recorder_overwrite_passes: "recorder_overwrite t0"
  by (simp add: recorder_overwrite_def tw_get_record recorder_ok_new recorder_ok_record Let_def)

subsection \<open>Feedback packets\<close>

lemma fb_collect_head: "snd (snd (fb_collect r bt (s # ss) prev)) = None \<Longrightarrow> tw_get r s = None"
  by (auto simp: Let_def split: option.splits prod.splits)

lemma feedback_made:
  assumes "started r" "base_time r = Some bt" "0 < unat (pending_count r)" "unat (pending_count r) \<le> 8192"
    and "tw_get r (pending_base_seq r) \<noteq> None"
  obtains pkt r' where "build_twcc_feedback r ssrc = (Some pkt, r')"
proof -
  have "fb_seqs (pending_base_seq r) (pending_count r) =
      pending_base_seq r # map (\<lambda>i. pending_base_seq r + word_of_nat i) [1..<unat (pending_count r)]"
    using assms(3) by (simp add: fb_seqs_def upt_rec)
  then have "snd (snd (fb_collect r bt (fb_seqs (pending_base_seq r) (pending_count r)) None)) \<noteq> None"
    using fb_collect_head assms(5) by metis
  then obtain ss ds t where "fb_collect r bt (fb_seqs (pending_base_seq r) (pending_count r)) None = (ss, ds, Some t)"
    by (metis option.exhaust prod.collapse)
  moreover have "\<not> word_of_nat TWCC_RECORDER_CAPACITY < pending_count r" "pending_count r \<noteq> 0"
    using assms(3,4) by (auto simp: word_less_nat_alt)
  ultimately show thesis
    using that assms(1,2) by (simp add: build_twcc_feedback_def Let_def)
qed

lemma or_keeps_mask: "b AND m = m \<Longrightarrow> foldl (\<lambda>c s. c OR g s) b xs AND m = (m :: 'a::len word)"
proof (induction xs arbitrary: b)
  case (Cons x xs)
  have "bit m n \<Longrightarrow> bit b n" for n using Cons.prems by (metis bit_and_iff)
  then have "(b OR g x) AND m = m" by (auto intro: bit_word_eqI simp: bit_simps)
  then show ?case using Cons.IH by simp
qed simp

lemma built_feedback:
  assumes "build_twcc_feedback r ssrc = (Some p, r')"
  shows "20 \<le> length p" "p ! 1 = 205" "be32_at p 4 = 1" "be32_at p 8 = ssrc" "be16_at p 12 = pending_base_seq r"
    "be16_at p 14 = pending_count r" "p ! 19 = fb_pkt_count r" "length p mod 4 = 0"
    "(unat (be16_at p 2) + 1) * 4 = length p" "be16_at p 20 AND 0xC000 = 0xC000"
    "r' = r\<lparr> fb_pkt_count := fb_pkt_count r + 1, pending_base_seq := pending_base_seq r + pending_count r \<rparr>"
proof -
  obtain bt ref rep n where f: "pending_count r \<noteq> 0"
    "rep = fb_reports r bt (fb_seqs (pending_base_seq r) (pending_count r)) None"
    "p = fb_head n ssrc (pending_base_seq r) (pending_count r) ref (fb_pkt_count r) @
         concat (map be16 (encode_status_chunks (map report_status rep))) @
         encode_recv_deltas (map report_status rep) (List.map_filter id rep) @ fb_tail n"
    "r' = r\<lparr> fb_pkt_count := fb_pkt_count r + 1, pending_base_seq := pending_base_seq r + pending_count r \<rparr>"
    by (rule build_fb_Some [OF assms]) blast
  show "be16_at p 12 = pending_base_seq r" "be16_at p 14 = pending_count r" "be32_at p 8 = ssrc" "p ! 19 = fb_pkt_count r"
    unfolding f(3) by (simp_all only: fb_head_fields)
  show "20 \<le> length p" "p ! 1 = 205" "be32_at p 4 = 1"
    unfolding f(3) by simp (simp_all add: fb_head_def be32_at_def be16_def be32_def of_be32_def)
  have len: "length p = (unat (be16_at p 2) + 1) * 4" using twcc_feedback_overlong [OF assms] by (rule conjunct1)
  then show "(unat (be16_at p 2) + 1) * 4 = length p" by simp
  show "length p mod 4 = 0" unfolding len by simp
  have "length rep \<noteq> 0" using f(1) by (simp add: f(2) unat_eq_zero)
  then obtain ws where ws: "encode_status_chunks (map report_status rep) = status_chunk (map report_status rep) # ws"
    by (subst (asm) encode_status_chunks.simps) auto
  have "be16_at p 20 = status_chunk (map report_status rep)"
    using fb_chunk_words [OF f(3) length_fb_head] by (simp add: ws upt_rec del: upt_Suc)
  then show "be16_at p 20 AND 0xC000 = 0xC000" unfolding status_chunk_def by (simp add: or_keeps_mask del: upt_rec_numeral)
  show "r' = r\<lparr> fb_pkt_count := fb_pkt_count r + 1, pending_base_seq := pending_base_seq r + pending_count r \<rparr>"
    by (rule f(4))
qed

definition feedback_empty_recorder :: bool where
  "feedback_empty_recorder \<longleftrightarrow> fst (build_twcc_feedback twcc_new 0x1000) = None"

definition feedback_single_packet :: "instant \<Rightarrow> bool" where
  "feedback_single_packet t0 =
     (case build_twcc_feedback (tw_record 100 t0 twcc_new) 0x1000 of (None, _) \<Rightarrow> False
      | (Some pkt, r) \<Rightarrow>
          20 \<le> length pkt \<and> pkt ! 1 = 205 \<and> be32_at pkt 4 = 1 \<and> be32_at pkt 8 = 0x1000 \<and> be16_at pkt 12 = 100 \<and>
          be16_at pkt 14 = 1 \<and> pkt ! 19 = 0 \<and> length pkt mod 4 = 0 \<and> pending_base_seq r = 101 \<and> fb_pkt_count r = 1)"

definition feedback_multiple_with_loss :: "instant \<Rightarrow> bool" where
  "feedback_multiple_with_loss t0 =
     (case build_twcc_feedback (tw_record 102 (t0 + 2000000) (tw_record 100 t0 twcc_new)) 0x2000 of (None, _) \<Rightarrow> False
      | (Some pkt, _) \<Rightarrow>
          be16_at pkt 12 = 100 \<and> be16_at pkt 14 = 3 \<and> be16_at pkt 20 AND 0xC000 = 0xC000 \<and> length pkt mod 4 = 0)"

definition feedback_fb_pkt_count_increments :: "instant \<Rightarrow> bool" where
  "feedback_fb_pkt_count_increments t0 =
     (case build_twcc_feedback (tw_record 10 t0 twcc_new) 0x1000 of (None, _) \<Rightarrow> False
      | (Some pkt1, r1) \<Rightarrow>
          pkt1 ! 19 = 0 \<and>
          (case build_twcc_feedback (tw_record 11 (t0 + 1000000) r1) 0x1000 of (None, _) \<Rightarrow> False
           | (Some pkt2, _) \<Rightarrow> pkt2 ! 19 = 1))"

definition feedback_rtcp_length_field_valid :: "instant \<Rightarrow> bool" where
  "feedback_rtcp_length_field_valid t0 =
     (case build_twcc_feedback
             (fold (\<lambda>i. tw_record (word_of_nat i) (t0 + i * 1000000)) [0..<20] twcc_new) 0x3000 of (None, _) \<Rightarrow> False
      | (Some pkt, _) \<Rightarrow> (unat (be16_at pkt 2) + 1) * 4 = length pkt)"

lemmas recorder_run = tw_record_def twcc_new_def pending_count_def Let_def

lemma feedback_empty_recorder_passes: feedback_empty_recorder
  by (simp add: feedback_empty_recorder_def build_twcc_feedback_def twcc_new_def)

lemma feedback_single_packet_passes: "feedback_single_packet t0"
proof -
  let ?r = "tw_record 100 t0 twcc_new"
  have r: "started ?r" "base_time ?r = Some t0" "pending_base_seq ?r = 100" "pending_count ?r = 1" "fb_pkt_count ?r = 0"
    by (simp_all add: recorder_run)
  then obtain pkt r' where fb: "build_twcc_feedback ?r 0x1000 = (Some pkt, r')"
    using feedback_made [of ?r t0] by (auto simp: tw_get_record recorder_ok_new)
  then show ?thesis using built_feedback [OF fb] by (simp add: feedback_single_packet_def r)
qed

lemma feedback_multiple_with_loss_passes: "feedback_multiple_with_loss t0"
proof -
  let ?r = "tw_record 102 (t0 + 2000000) (tw_record 100 t0 twcc_new)"
  have r: "started ?r" "base_time ?r = Some t0" "pending_base_seq ?r = 100" "pending_count ?r = 3"
    by (simp_all add: recorder_run)
  then obtain pkt r' where fb: "build_twcc_feedback ?r 0x2000 = (Some pkt, r')"
    using feedback_made [of ?r t0] by (auto simp: tw_get_record recorder_ok_new recorder_ok_record)
  then show ?thesis using built_feedback [OF fb] by (simp add: feedback_multiple_with_loss_def r)
qed

text \<open>The second packet is recorded in the recorder that the first feedback left behind.\<close>

lemma feedback_fb_pkt_count_increments_passes: "feedback_fb_pkt_count_increments t0"
proof -
  let ?r = "tw_record 10 t0 twcc_new"
  have r: "started ?r" "base_time ?r = Some t0" "pending_base_seq ?r = 10" "pending_count ?r = 1" "fb_pkt_count ?r = 0"
    "max_seq ?r = 10"
    by (simp_all add: recorder_run)
  then obtain pkt r1 where fb: "build_twcc_feedback ?r 0x1000 = (Some pkt, r1)"
    using feedback_made [of ?r t0] by (auto simp: tw_get_record recorder_ok_new)
  have r1: "r1 = ?r\<lparr> fb_pkt_count := 1, pending_base_seq := 11 \<rparr>"
    using built_feedback(11) [OF fb] by (simp add: r)
  let ?r2 = "tw_record 11 (t0 + 1000000) r1"
  have "recorder_ok r1" using recorder_ok_feedback [OF recorder_ok_record [OF recorder_ok_new], of 10 t0 "0x1000"] fb by simp
  moreover have r2: "started ?r2" "base_time ?r2 = Some t0" "pending_base_seq ?r2 = 11" "pending_count ?r2 = 1" "fb_pkt_count ?r2 = 1"
    using r by (simp_all add: r1 recorder_run)
  ultimately obtain pkt2 r3 where fb2: "build_twcc_feedback ?r2 0x1000 = (Some pkt2, r3)"
    using feedback_made [of ?r2 t0] by (auto simp: tw_get_record)
  then show ?thesis using fb built_feedback [OF fb] built_feedback [OF fb2] r r2
    by (simp add: feedback_fb_pkt_count_increments_def)
qed

lemma feedback_rtcp_length_field_valid_passes: "feedback_rtcp_length_field_valid t0"
proof -
  let ?r = "fold (\<lambda>i. tw_record (word_of_nat i) (t0 + i * 1000000)) [0..<20] twcc_new"
  have run: "?r = fold (\<lambda>i. tw_record (word_of_nat i) (t0 + i * 1000000)) [1..<20] (tw_record 0 t0 twcc_new)"
    by (simp add: upt_rec)
  define inv where "inv n r \<longleftrightarrow> recorder_ok r \<and> started r \<and> base_time r = Some t0 \<and> pending_base_seq r = 0 \<and>
      max_seq r = word_of_nat n \<and> tw_get r 0 \<noteq> None" for n :: nat and r
  have step: "inv n (tw_record (word_of_nat n) t r)" if "inv (n - 1) r" "0 < n" "n < 20" for n t r
  proof -
    have "unat (word_of_nat n :: u16) = n" using that(3) by (simp add: unat_of_nat take_bit_eq_mod)
    moreover have "(word_of_nat n :: u16) - word_of_nat (n - 1) = 1" using that(2) by (simp add: of_nat_diff)
    ultimately show ?thesis using that
      by (auto simp: inv_def recorder_ok_record tw_get_record) (simp_all add: tw_record_def Let_def)
  qed
  have "inv n (fold (\<lambda>i. tw_record (word_of_nat i) (t0 + i * 1000000)) [1..<Suc n] (tw_record 0 t0 twcc_new))" if "n < 20" for n
    using that
  proof (induction n)
    case 0
    then show ?case by (simp add: inv_def recorder_ok_record recorder_ok_new tw_get_record) (simp add: recorder_run)
  next
    case (Suc n)
    then show ?case using step [of "Suc n"] by simp
  qed
  from this [of 19] have inv: "inv 19 ?r" unfolding run by simp
  then have "started ?r" "base_time ?r = Some t0" "pending_count ?r = 20" "tw_get ?r (pending_base_seq ?r) \<noteq> None"
    by (simp_all add: inv_def pending_count_def)
  then obtain pkt r' where fb: "build_twcc_feedback ?r 0x3000 = (Some pkt, r')" using feedback_made [of ?r t0] by auto
  show ?thesis unfolding feedback_rtcp_length_field_valid_def fb using built_feedback(9) [OF fb] by simp
qed

section \<open>STUN\<close>

definition test_tid :: bytes where
  "test_tid = [1, 2, 3, 4, 5, 6, 7, 8, 9, 10, 11, 12]"

definition test_parse_binding_request :: bool where
  "test_parse_binding_request =
     (let buf = copy_at 8 test_tid (copy_at 4 (be32 MAGIC_COOKIE) ((replicate 20 0)[0 := 0x00, 1 := 0x01, 2 := 0x00, 3 := 0x00]))
      in case stun_parse buf of Some (Some msg) \<Rightarrow>
             msg_type msg = BINDING_REQUEST \<and> transaction_id msg = test_tid \<and> attributes msg = []
         | _ \<Rightarrow> False)"

definition test_parse_bad_cookie :: bool where
  "test_parse_bad_cookie \<longleftrightarrow>
     stun_parse (copy_at 4 (be32 0xDEADBEEF) ((replicate 20 0)[0 := 0x00, 1 := 0x01])) = Some None"

definition test_parse_too_short :: bool where
  "test_parse_too_short \<longleftrightarrow> stun_parse (replicate 10 0) = Some None \<and> stun_parse [] = Some None"

definition test_build_and_parse_response :: "(bytes \<Rightarrow> bytes \<Rightarrow> bytes) \<Rightarrow> (bytes \<Rightarrow> u32) \<Rightarrow> bool" where
  "test_build_and_parse_response hmac crc =
     (let key = ice_integrity_key ''testpassword'';
          resp = build_binding_response hmac crc test_tid (V4 [192, 168, 1, 1] 12345) key
      in case stun_parse resp of Some (Some msg) \<Rightarrow>
             msg_type msg = BINDING_RESPONSE \<and> transaction_id msg = test_tid \<and>
             get_attr msg ATTR_XOR_MAPPED_ADDRESS \<noteq> None \<and> get_attr msg ATTR_MESSAGE_INTEGRITY \<noteq> None \<and>
             get_attr msg ATTR_FINGERPRINT \<noteq> None
         | _ \<Rightarrow> False)"

definition test_message_integrity_verify :: "(bytes \<Rightarrow> bytes \<Rightarrow> bytes) \<Rightarrow> (bytes \<Rightarrow> u32) \<Rightarrow> bool" where
  "test_message_integrity_verify hmac crc =
     (let key = ice_integrity_key ''mypassword'';
          resp = build_binding_response hmac crc test_tid (V4 [10, 0, 0, 1] 5000) key
      in case stun_parse resp of Some (Some msg) \<Rightarrow>
             verify_message_integrity hmac msg key = Some True \<and>
             verify_message_integrity hmac msg (bytes_of ''wrongpassword'') = Some False
         | _ \<Rightarrow> False)"

definition test_xor_mapped_address_ipv4 :: bool where
  "test_xor_mapped_address_ipv4 =
     (let encoded = encode_xor_mapped_address (V4 [192, 0, 2, 1] 32853) (replicate 12 0)
      in encoded ! 1 = ADDR_FAMILY_IPV4 \<and> be16_at encoded 2 = 32853 XOR 0x2112)"

lemma test_stun_parse_passes: test_parse_binding_request test_parse_bad_cookie test_parse_too_short
  by code_simp+

lemma test_xor_mapped_address_ipv4_passes: test_xor_mapped_address_ipv4
  by code_simp

text \<open>Of HMAC-SHA1 the tests of the response need 20 bytes, and that the two passwords do not collide.\<close>

lemma test_build_and_parse_response_passes:
  assumes "\<And>d k. length (hmac d k) = 20"
  shows "test_build_and_parse_response hmac crc"
proof -
  have "length test_tid = 12" "addr_ok (V4 [192, 168, 1, 1] 12345)" by (simp_all add: test_tid_def addr_ok_def)
  from build_response_parses [where hmac = hmac, OF this assms, where crc = crc and key = "ice_integrity_key ''testpassword''" and junk = "[]"]
  show ?thesis by (auto simp: test_build_and_parse_response_def get_attr_def)
qed

lemma test_message_integrity_verify_passes:
  assumes "\<And>d k. length (hmac d k) = 20"
    and "\<And>d. hmac d (bytes_of ''mypassword'') \<noteq> hmac d (bytes_of ''wrongpassword'')"
  shows "test_message_integrity_verify hmac crc"
proof -
  have "length test_tid = 12" "addr_ok (V4 [10, 0, 0, 1] 5000)" by (simp_all add: test_tid_def addr_ok_def)
  from build_response_parses [where hmac = hmac, OF this assms(1), where crc = crc and key = "ice_integrity_key ''mypassword''" and junk = "[]"]
  show ?thesis using assms(2) by (auto simp: test_message_integrity_verify_def ice_integrity_key_def)
qed

end
