(* ===== verification/Spec2Isabelle.thy ===== *)
theory Spec2Isabelle
  imports Retransmit Startup Telemetry Media UnitTests
begin

text \<open>
  Verification of the oxlens SFU server (\<open>src/src\<close>): a selective forwarding unit for conferences and for
  push-to-talk (PTT) rooms. Clients talk to it over WebSockets (rooms, tracks, floor control) and send and receive
  media over one UDP port (STUN, DTLS, SRTP). The model follows the code function by function; a reader who has the
  repository open finds the same names here.

  \<^bold>\<open>Parts and theories\<close>

  \<^item> \<open>Prelude\<close>: byte strings, big-endian fields, checked slice reads, stable sort, association lists that stand for
    \<open>HashMap\<close> and \<open>DashMap\<close> (\<open>dm_get\<close>, \<open>dm_insert\<close>, \<open>dm_remove\<close>), saturating arithmetic, and the lemmas on them.
  \<^item> \<open>Config\<close>: constants and settings of \<open>config.rs\<close>, \<open>env_or\<close> of \<open>startup.rs\<close>, the errors of \<open>error.rs\<close>.
  \<^item> \<open>Floor\<close>: \<open>room/floor.rs\<close>, the floor controller of a PTT room: holder, priority queue, pre-emption, timers.
  \<^item> \<open>RtpStream\<close>, \<open>PttRewriter\<close>, \<open>RtpPayload\<close>: \<open>room/ptt_rewriter.rs\<close>, the rewriting of many speakers into one RTP
    stream per medium, the silence frames, and the VP8 and H264 keyframe tests. \<open>RtpStream\<close> holds the contract of a
    rewritten stream as a locale; the PTT and the simulcast rewriter are its interpretations.
  \<^item> \<open>Rtcp\<close>, \<open>Twcc\<close>, \<open>Terminator\<close>: \<open>transport/udp/rtcp.rs\<close>, \<open>twcc.rs\<close> and \<open>rtcp_terminator.rs\<close>: compound packets, NACK,
    RTX, PLI, REMB and MBCP; transport-wide congestion feedback; receiver statistics and reports.
  \<^item> \<open>Stun\<close>: \<open>transport/stun.rs\<close>, \<open>ice.rs\<close> and \<open>demux.rs\<close>. \<open>Dtls\<close>: \<open>transport/srtp.rs\<close>, \<open>dtls.rs\<close>, \<open>demux_conn.rs\<close>.
  \<^item> \<open>Participant\<close>, \<open>Room\<close>: \<open>room/participant.rs\<close> and \<open>room/room.rs\<close>: sessions, tracks, the retransmission cache, simulcast
    layers, rooms with their three indices and the hub with its two reverse indices.
  \<^item> \<open>Message\<close>: \<open>signaling/message.rs\<close>, \<open>opcode.rs\<close>; JSON values. \<open>World\<close>: the state that all handlers share, the effects on
    it, and the server invariant \<open>server_inv\<close>.
  \<^item> \<open>FloorOps\<close>, \<open>RoomOps\<close>, \<open>TrackOps\<close>: the handlers of \<open>signaling/handler\<close> (\<open>floor_ops.rs\<close>, \<open>room_ops.rs\<close>, \<open>helpers.rs\<close>,
    \<open>track_ops.rs\<close>), the two background tasks of \<open>tasks.rs\<close>, and floor control over RTCP.
  \<^item> \<open>Signaling\<close>: \<open>handler/mod.rs\<close>, the dispatch and the life of a connection.
  \<^item> \<open>Ingress\<close>, \<open>Retransmit\<close>, \<open>Egress\<close>, \<open>Udp\<close>: \<open>transport/udp/ingress.rs\<close>, \<open>egress.rs\<close> and \<open>mod.rs\<close>: the media path from a
    datagram to the queues of the subscribers and from a queue to the socket, and the worker loop.
  \<^item> \<open>Metrics\<close>, \<open>Telemetry\<close>: \<open>metrics/*.rs\<close>; \<open>agg_logger.rs\<close>, \<open>telemetry_bus.rs\<close>, \<open>handler/telemetry.rs\<close>, \<open>handler/admin.rs\<close>.
  \<^item> \<open>Server\<close>: \<open>lib.rs\<close>, \<open>state.rs\<close> and the default rooms of \<open>startup.rs\<close>: the settings and the tasks of the running server
    as one step relation. \<open>Startup\<close>: the rest of \<open>startup.rs\<close> and the start sequence of \<open>run_server\<close>: the search for a \<open>.env\<close>
    file, the certificate, the binds and their failures; the timer loops of \<open>tasks.rs\<close> with the shutdown token.
  \<^item> \<open>Media\<close>: \<open>media/router.rs\<close> and \<open>media/track.rs\<close>, a routing table by SSRC that the packet path does not use (yet).
  \<^item> \<open>UnitTests\<close>: the repository's own unit tests, each as a boolean definition over the model.
  \<^item> This theory states the properties of the whole.

  \<^bold>\<open>State\<close>

  An \<open>Arc<Participant>\<close> is a reference into a heap (\<open>pref\<close>, \<open>w_heap\<close>), since rooms, indices and tasks share participants and
  change them in place. A room is a value in the hub; a handler that works on a room threads it and puts it back. A record
  \<open>world\<close> has the heap, the hub, the metric counters, and what left the server: packets put on WebSocket channels, datagrams
  given to the socket, PLI bursts spawned. A fallible operation returns an option or a sum; \<open>None\<close> is a panic where the code
  indexes a slice, and the theorems show where this cannot happen. Integers have the width of the code and wrap;
  \<open>usize\<close> counts that cannot overflow are natural numbers.

  \<^bold>\<open>Steps\<close>

  One call of a handler, one turn of a task, one datagram and one timer tick are one step each, and steps interleave freely
  (\<open>server_step\<close>). The code holds no lock across a whole handler, so two handlers that run at the same time on two threads
  can interleave more finely than this; that is the abstraction of the model. Two parts go below it, because they are written for concurrent
  callers: in \<open>Metrics\<close> the compare-and-swap loops of the statistics are interleaved at single atomic operations (\<open>rec_step\<close>), and in
  \<open>Telemetry\<close> the calls of the aggregating logger at single operations of its \<open>DashMap\<close> (\<open>agg_step\<close>), where \<open>retain\<close> goes shard by shard. A worker whose task has panicked takes no further step. The
  order in which a \<open>DashMap\<close> is iterated is the order of the list.

  What a step reads from outside is an argument: clocks, random draws, the verdicts of the SRTP library and of the
  socket (\<open>env\<close>, \<open>net\<close>), HMAC, CRC and SHA-256, the parsers that serde derives (\<open>parsers\<close>), the tokio runtime counters. The
  drawn identifiers of rooms and the drawn ICE fragments are taken to be unused (\<open>fresh_draws\<close>), as the code takes them.

  \<^bold>\<open>What is shown\<close>

  \<^item> Floor control: one holder, a sorted bounded queue without duplicates, who can lose the floor and how, who gets it next.
  \<^item> Rewriting: receivers see one stream without gaps over speaker and layer changes, and video resumes with a keyframe.
  \<^item> Packets: parsers never index out of range on any bytes; builders and parsers invert each other; feedback and reports tell
    the truth about what arrived.
  \<^item> Rooms: every index agrees with the members in every reachable state; lookups are searches; a reaper pass, a join, a leave and
    a lost connection do exactly what they promise.
  \<^item> Media: the receive path is total; a conference packet reaches exactly the ready members; the PTT gate lets only the holder
    through; retransmissions respect their budget; the egress task sends in order.
  \<^item> Metrics and telemetry: concurrent recordings are linearisable and lock-free, flushes lose no count; the aggregating
    logger accounts for every count, over all interleavings.
  \<^item> The unit tests of the repository pass on the model (\<open>UnitTests\<close>).
  \<^item> Start: the environment takes precedence over every \<open>.env\<close> file, the server starts exactly when its certificate was made
    and its sockets were bound, and a timer task ends at its first wake-up by the shutdown token.
  \<^item> The whole: the server invariant holds in every state reachable from a start (\<open>server_stays_consistent\<close>), in a PTT room one member at most is
    heard (\<open>one_voice\<close>), and a packet crosses the server from socket to socket (\<open>packet_crosses_server\<close>).

  Some theorems state what the code does where it departs from its intent: \<open>leave_keeps_step_unless_handover\<close> (a leaving holder
  leaves the rewriters cleared under its successor), \<open>throttled_pli_still_sent\<close>, \<open>stun_latches_before_verifying\<close>,
  \<open>worker_survives_datagram\<close> (its one exception), \<open>removal_matches_listing\<close> (what the reaper announces), \<open>rtx_restores_original\<close> (a
  retransmitted packet with a header extension cannot be restored), \<open>later_partition_passes_for_keyframe\<close>, \<open>rounding_adds_up\<close> (TWCC
  deltas), and for the aggregating logger \<open>registered_key_forgotten\<close>, \<open>racing_first_incs\<close> and \<open>two_callers_overrun\<close>.

  \<^bold>\<open>Proof structure\<close>

  \<open>world_le\<close> is the preorder of effects that keep the shape of the state; every helper moves the world up in it (collection
  \<open>world_le_intros\<close>), and \<open>server_inv\<close> respects it. Only the operations that change membership or addresses are shown to
  keep the invariant by themselves. Loops terminate by a measure on the rest of the buffer; no definition uses fuel. Finite runs in
  the witnesses are evaluated by the simplifier.

  \<^bold>\<open>Not modelled\<close>

  Log lines and the calls of the aggregating logger from handlers; time spent and the timing statistics of single calls (their
  accumulators are in \<open>Metrics\<close>); the set-up of the log subscriber and the orderly end of the process after a signal, which is
  the shutdown of libraries around the token; the parsing of \<open>.env\<close> files, the routing table, the sockets, the DTLS handshake and the
  ciphers, which are libraries and given by their outcomes; the text form of JSON. A PLI burst is a list of sends without its
  delays in \<open>server_step\<close>; the delays are in \<open>pli_burst_task\<close>.
\<close>

section \<open>The server as a whole\<close>


text \<open>
  A run: without any \<open>.env\<close> file and any variable set, on two processors, the server starts with its three default
  rooms and accepts a connection.
\<close>

definition demo_boot :: boot where
  "demo_boot = \<lparr> b_args = [''sfu''], b_vars = (\<lambda>_. None),
     b_dotenv = \<lparr> de_from_path = (\<lambda>p v. (False, v)), de_dotenv = (\<lambda>v. (False, v)), de_exe_env = None, de_is_file = (\<lambda>_. False) \<rparr>,
     b_route = Some ''10.0.0.1'', b_parallelism = Some 2, b_certificate = Inr [[1]], b_sha = (\<lambda>_. []), b_bind = (\<lambda>_. None),
     b_listen = None, b_drawn = [(''p'', 1, 2), (''q'', 3, 4), (''r'', 5, 6)], b_now = 1000 \<rparr>"

definition demo_server :: "unit server" where
  "demo_server = server_start (load_settings (\<lambda>_. None) ''10.0.0.1'' (Some 2)) ''sha-256 '' (b_drawn demo_boot) 1000"

lemma demo_boot_run: "run_server demo_boot = Inr demo_server"
proof -
  have "load_env_file (b_dotenv demo_boot) (b_args demo_boot) (b_vars demo_boot) = (\<lambda>_. None)"
    by (simp add: demo_boot_def load_env_file_def load_env_arg_def)
  moreover have "b_bind demo_boot = (\<lambda>_. None)" "b_certificate demo_boot = Inr [[1]]" "b_sha demo_boot = (\<lambda>_. [])"
    "b_listen demo_boot = None" "b_route demo_boot = Some ''10.0.0.1''" "b_parallelism demo_boot = Some 2" "b_now demo_boot = 1000"
    by (simp_all add: demo_boot_def)
  moreover have "bind_all (\<lambda>_. None) is = None" for "is" by (simp add: bind_all_None)
  ultimately show ?thesis
    by (simp add: run_server_def boot_settings_def detect_local_ip_def demo_server_def generate_fingerprint_def sha256_fingerprint_def)
qed


text \<open>
  C36: One voice: in every state that the server reaches, from its start or from any other consistent state, of all
  members of a PTT room at most one gets its RTP packets to others. If a datagram of one publisher and a
  datagram of another would each put something on somebody's queue, the two publishers are the same member.
\<close>

theorem one_voice:
  assumes "system_inv s0" "server_steps s0 s" "w = sv_world s"
    and "dm_get (h_rooms (w_hub w)) rid = Some room" "r_mode room = Ptt"
    and "find_by_addr (w_hub w) a1 = Some (r1, Publish, rid)" "\<not> is_rtcp buf1" "handle_srtp E1 buf1 a1 w = Some w1"
    and "x1 < length (w_heap w)" "p_egress (part w1 x1) \<noteq> p_egress (part w x1)"
    and "find_by_addr (w_hub w) a2 = Some (r2, Publish, rid)" "\<not> is_rtcp buf2" "handle_srtp E2 buf2 a2 w = Some w2"
    and "x2 < length (w_heap w)" "p_egress (part w2 x2) \<noteq> p_egress (part w x2)"
  shows "r1 = r2"
proof -
  have inv: "server_inv w"
    using server.run [OF assms(2,1)] assms(3) by (simp add: system_inv_def)
  have "current_speaker (r_floor room) = Some (p_user_id (part w r1))"
    "current_speaker (r_floor room) = Some (p_user_id (part w r2))"
    by (rule ptt_forwards_holder_only [OF inv assms(6,4,5,7-10)], rule ptt_forwards_holder_only [OF inv assms(11,4,5,12-15)])
  then show ?thesis using holder_unique [OF inv assms(4,6,11)] by simp
qed

definition demo_talk :: "unit server" where
  "demo_talk = \<lparr> sv_config = demo_cfg, sv_world = demo_call Ptt, sv_conns = [], sv_next_tx = 0, sv_workers = [] \<rparr>"

lemma demo_talk_heard:
  "\<exists>w'. handle_srtp demo_env demo_rtp call_addr (demo_call Ptt) = Some w' \<and> p_egress (part w' 1) \<noteq> p_egress (part (demo_call Ptt) 1)"
proof -
  let ?room = "demo_call_room Ptt" and ?h = "parse_rtp_header demo_rtp"
  have norm: "normalise_pt (p_tracks (part (demo_call Ptt) 0)) demo_rtp ?h = Some (demo_rtp, ?h, False)"
    by (simp add: demo_call_simps(5) normalise_pt_def)
  obtain w' payload room1 w1 w2 where run: "handle_srtp demo_env demo_rtp call_addr (demo_call Ptt) = Some w'"
    "prepare_fanout_payload demo_env demo_rtp ?h 0 ?room w1 = Some (payload, room1, w2)"
    "p_user_id (part w1 0) = p_user_id (part (demo_call Ptt) 0)"
    "p_egress (part w' 1) = p_egress (part (demo_call Ptt) 1) @ (case payload of None \<Rightarrow> [] | Some out \<Rightarrow>
      if registered ?room 1 \<and> 1 \<noteq> (0::nat) \<and> is_subscribe_ready (part (demo_call Ptt) 1) \<and> length (p_egress (part (demo_call Ptt) 1)) < EGRESS_QUEUE_SIZE
      then [EgRtp out] else [])"
    by (rule srtp_publish_egress [OF demo_call_inv demo_call_simps(1-3) demo_rtp_simps(1) demo_env_decrypt(1) demo_call_room_simps(4)
          norm demo_call_simps(7)])
  have speaker: "current_speaker (r_floor ?room) = Some (p_user_id (part w1 0))"
    by (simp add: run(3) demo_call_simps(8) demo_call_room_simps current_speaker_def)
  obtain res buf room2 wx where pr: "ptt_rewrite demo_env demo_rtp ?h (p_user_id (part w1 0)) ?room w1 = Some (res, buf, room2, wx)"
    and pay: "payload = (case res of RwOk \<Rightarrow> Some buf | PendingKeyframe \<Rightarrow> None | Skip \<Rightarrow> Some demo_rtp)"
    by (rule prepare_holder [OF run(2) demo_call_room_simps(2) speaker])
  have audio: "is_audio_pt (rh_pt ?h)" by (simp add: demo_rtp_simps is_audio_pt_def)
  obtain k where "res = fst (rewrite (r_audio_rewriter ?room) (e_instant demo_env) demo_rtp (p_user_id (part w1 0)) k)"
    by (rule ptt_rewrite_medium [OF pr]) (use audio in simp_all)
  moreover have "fst (rewrite (r_audio_rewriter ?room) t demo_rtp ''u'' k) = RwOk" for t k
    by (simp add: fst_rewrite_Ok demo_call_room_def switch_rewriters_def room_new_def Let_def new_audio_def ptt_new_def)
  ultimately have "res = RwOk" by (simp add: run(3) demo_call_simps(8))
  then show ?thesis using run(1,4) pay demo_call_simps(4,6) [of Ptt] demo_call_registered [of Ptt 1] by simp
qed

theorem one_voice_witness:
  "\<exists>w' r. find_by_addr (w_hub (sv_world demo_talk)) call_addr = Some (r, Publish, ''p'') \<and>
     handle_srtp demo_env demo_rtp call_addr (sv_world demo_talk) = Some w' \<and>
     p_egress (part w' 1) \<noteq> p_egress (part (sv_world demo_talk) 1) \<and> r = 0"
proof -
  have world: "sv_world demo_talk = demo_call Ptt" by (simp add: demo_talk_def)
  have inv: "system_inv demo_talk"
    using demo_call_inv [of Ptt] by (simp add: system_inv_def demo_talk_def conns_ok_def dm_ok_def)
  obtain w' where heard: "handle_srtp demo_env demo_rtp call_addr (demo_call Ptt) = Some w'"
    "p_egress (part w' 1) \<noteq> p_egress (part (demo_call Ptt) 1)" using demo_talk_heard by blast
  have "r = 0" if "find_by_addr (w_hub (demo_call Ptt)) call_addr = Some (r, Publish, ''p'')" for r
    by (rule one_voice [OF inv rtranclp.rtrancl_refl refl, unfolded world, OF demo_call_simps(2) demo_call_room_simps(2)
          that demo_rtp_simps(1) heard(1) demo_call_simps(7) heard(2) demo_call_simps(1) demo_rtp_simps(1) heard(1)
          demo_call_simps(7) heard(2)])
  then show ?thesis using heard demo_call_simps(1) [of Ptt] by (auto simp: world)
qed

text \<open>
  C37: A packet crosses the server: what a conference publisher sends to the UDP socket is decrypted, put on the
  queue of a waiting subscriber, taken from it by the subscriber's egress task, encrypted for that subscriber
  and sent to its latched address.
\<close>

theorem packet_crosses_server:
  assumes "server_inv w" "find_by_addr (w_hub w) remote = Some (r, Publish, rid)" "dm_get (h_rooms (w_hub w)) rid = Some room"
    "is_publish_ready (part w r)" "\<not> is_rtcp buf" "e_decrypt_rtp E r Publish buf = Some plain"
    "r_mode room = Conference" "\<not> r_simulcast_enabled room"
    "normalise_pt (p_tracks (part w r)) plain (parse_rtp_header plain) = Some (pkt, h, n)"
    and "registered room x" "x \<noteq> r" "is_subscribe_ready (part w x)" "p_egress (part w x) = []"
    and "ms_address (p_subscribe (part w x)) = Some addr" "e_encrypt_rtp E' x Subscribe pkt = Some enc" "e_send_ok E' enc addr"
  shows "\<exists>w'. handle_srtp E buf remote w = Some w' \<and> w_udp (egress_step E' x w') = w_udp w' @ [(enc, addr)] \<and>
    p_egress (part (egress_step E' x w') x) = []"
proof -
  have x: "x < length (w_heap w)"
    using registeredD [OF hub_invD(5) [OF server_invD(1) [OF assms(1)] assms(3)] assms(10)] by simp
  obtain w' payload room1 w1 w2 where run: "handle_srtp E buf remote w = Some w'"
    "prepare_fanout_payload E pkt h r room w1 = Some (payload, room1, w2)"
    "p_egress (part w' x) = p_egress (part w x) @ (case payload of None \<Rightarrow> [] | Some out \<Rightarrow>
      if registered room x \<and> x \<noteq> r \<and> is_subscribe_ready (part w x) \<and> length (p_egress (part w x)) < EGRESS_QUEUE_SIZE
      then [EgRtp out] else [])"
    by (rule srtp_publish_egress [OF assms(1-6,8,9) x])
  have "payload = Some pkt" using run(2) assms(7) by (simp add: prepare_fanout_payload_def)
  then have q: "p_egress (part w' x) = [EgRtp pkt]" using run(3) assms(10-13) by simp
  have le: "world_le w w'" by (rule world_le_srtp [OF assms(1) run(1)])
  have "part_le (part w x) (part w' x)" using le x by (simp add: world_le_def)
  then have "ms_address (session (part w' x) Subscribe) = ms_address (session (part w x) Subscribe)"
    unfolding part_le_def same_identity_def by blast
  then have "ms_address (p_subscribe (part w' x)) = Some addr" using assms(14) by (simp add: session_def)
  moreover have "x < length (w_heap w')" using le x by (simp add: world_le_def)
  ultimately have "w_udp (egress_step E' x w') = w_udp w' @ [(enc, addr)]" "p_egress (part (egress_step E' x w') x) = []"
    using egress_step_cons [OF _ q, of E'] assms(15,16) by (simp_all add: egress_out_def)
  then show ?thesis using run(1) by blast
qed

theorem packet_crosses_server_witness:
  "\<exists>w'. handle_srtp demo_env demo_rtp call_addr (demo_call Conference) = Some w' \<and>
     w_udp (egress_step demo_env 1 w') = w_udp w' @ [(demo_rtp, V4 [10, 0, 0, 2] 5000)]"
proof -
  have norm: "normalise_pt (p_tracks (part (demo_call Conference) 0)) demo_rtp (parse_rtp_header demo_rtp) =
      Some (demo_rtp, parse_rtp_header demo_rtp, False)"
    by (simp add: demo_call_simps(5) normalise_pt_def)
  have "registered (demo_call_room Conference) 1" "(1::nat) \<noteq> 0" by (simp_all add: demo_call_registered)
  moreover have "ms_address (p_subscribe (part (demo_call Conference) 1)) = Some (V4 [10, 0, 0, 2] 5000)"
    by (simp add: demo_call_def demo_sub_def)
  moreover have "e_encrypt_rtp demo_env 1 Subscribe demo_rtp = Some demo_rtp" "e_send_ok demo_env demo_rtp (V4 [10, 0, 0, 2] 5000)"
    by (simp_all add: demo_env_def)
  ultimately show ?thesis
    using packet_crosses_server [OF demo_call_inv demo_call_simps(1-3) demo_rtp_simps(1) demo_env_decrypt(1)
      demo_call_room_simps(2,4) norm _ _ demo_call_simps(4,6)] by blast
qed

end
